(* ===== verification/Go_Prelude.thy ===== *)
theory Go_Prelude
  imports Main "HOL-Library.Word"
begin

text \<open>
  Shared vocabulary of the development.  A Go function that may fail is modelled
  by a value of \<open>res\<close>: a normal return, a returned error, or a panic, which Go
  keeps apart (a panic skips the callers' \<open>if err != nil\<close> tests and is only seen
  by a deferred \<open>recover\<close>).  A Go function that reads or writes shared state is a
  \<open>prog\<close>: it takes the state and returns the outcome with the state it leaves
  behind, also on the failing paths.
\<close>

type_synonym u64 = "64 word"
type_synonym u32 = "32 word"
type_synonym byte = "8 word"
type_synonym bytes = "byte list"

section \<open>Errors and outcomes\<close>

datatype num_error = ErrSyntax | ErrRange

datatype hex_error = InvalidByteError char | ErrLength

datatype go_error =
    RecordNotFound                  \<comment> \<open>\<open>gorm.ErrRecordNotFound\<close>\<close>
  | DriverError string              \<comment> \<open>any other error of the database\<close>
  | ErrRecordNotFound string        \<comment> \<open>\<open>core.ErrRecordNotFound(msg)\<close>, by what it looked for\<close>
  | ErrNum num_error
  | ErrHex hex_error
  | ErrAbi string                   \<comment> \<open>an error of the ABI encoder or decoder\<close>
  | ErrCall string                  \<comment> \<open>an error of a contract or RPC call\<close>
  | ErrMsg string                   \<comment> \<open>\<open>errors.New(msg)\<close>\<close>

datatype go_panic =
    IndexOutOfRange
  | SliceOutOfRange
  | NilDereference
  | PanicErr go_error               \<comment> \<open>\<open>panic(err)\<close>\<close>
  | PanicMsg string                 \<comment> \<open>\<open>panic(msg)\<close>\<close>

datatype 'a res = Ok 'a | Err go_error | Panic go_panic

type_synonym ('s, 'a) prog = "'s \<Rightarrow> 'a res \<times> 's"

section \<open>Composition\<close>

definition res_bind :: "'a res \<Rightarrow> ('a \<Rightarrow> 'b res) \<Rightarrow> 'b res" where
  "res_bind r k = (case r of Ok a \<Rightarrow> k a | Err e \<Rightarrow> Err e | Panic p \<Rightarrow> Panic p)"

definition ret :: "'a \<Rightarrow> ('s, 'a) prog" where
  "ret a = (\<lambda>s. (Ok a, s))"

definition fail :: "go_error \<Rightarrow> ('s, 'a) prog" where
  "fail e = (\<lambda>s. (Err e, s))"

definition lift :: "'a res \<Rightarrow> ('s, 'a) prog" where
  "lift r = (\<lambda>s. (r, s))"

text \<open>Sequencing: \<open>x, err := m(); if err != nil { return err }; k(x)\<close>.\<close>

definition andThen :: "('s, 'a) prog \<Rightarrow> ('a \<Rightarrow> ('s, 'b) prog) \<Rightarrow> ('s, 'b) prog" where
  "andThen m k = (\<lambda>s. case m s of
     (Ok a, s') \<Rightarrow> k a s' | (Err e, s') \<Rightarrow> (Err e, s') | (Panic p, s') \<Rightarrow> (Panic p, s'))"

text \<open>\<open>x, err := m()\<close> where the code itself looks at \<open>err\<close>.\<close>

definition onError :: "('s, 'a) prog \<Rightarrow> (go_error \<Rightarrow> ('s, 'a) prog) \<Rightarrow> ('s, 'a) prog" where
  "onError m h = (\<lambda>s. case m s of
     (Err e, s') \<Rightarrow> h e s' | (r, s') \<Rightarrow> (r, s'))"

text \<open>\<open>panic(err)\<close> on an error, as the processors and the start command do.\<close>

definition orPanic :: "('s, 'a) prog \<Rightarrow> ('s, 'a) prog" where
  "orPanic m = (\<lambda>s. case m s of
     (Err e, s') \<Rightarrow> (Panic (PanicErr e), s') | (r, s') \<Rightarrow> (r, s'))"

text \<open>A call whose error is thrown away (\<open>f()\<close> as a statement); a panic still propagates.\<close>

definition ignoreErr :: "('s, 'a) prog \<Rightarrow> ('s, unit) prog" where
  "ignoreErr m = (\<lambda>s. case m s of
     (Panic p, s') \<Rightarrow> (Panic p, s') | (r, s') \<Rightarrow> (Ok (), s'))"

text \<open>\<open>x, err := m(); if err != nil { return }; k(x)\<close> in a function without results.\<close>

definition orReturn :: "('s, 'a) prog \<Rightarrow> ('a \<Rightarrow> ('s, unit) prog) \<Rightarrow> ('s, unit) prog" where
  "orReturn m k = (\<lambda>s. case m s of
     (Ok a, s') \<Rightarrow> k a s' | (Err e, s') \<Rightarrow> (Ok (), s') | (Panic p, s') \<Rightarrow> (Panic p, s'))"

definition is_Ok :: "'a res \<Rightarrow> bool" where
  "is_Ok r = (case r of Ok _ \<Rightarrow> True | _ \<Rightarrow> False)"

definition is_Panic :: "'a res \<Rightarrow> bool" where
  "is_Panic r = (case r of Panic _ \<Rightarrow> True | _ \<Rightarrow> False)"

section \<open>Lemma collections and automation\<close>

named_theorems prog_defs \<open>the combinators of programs\<close>
named_theorems ok_run \<open>successful runs of modelled operations\<close>

lemmas [prog_defs] = ret_def fail_def lift_def andThen_def onError_def orPanic_def ignoreErr_def
  orReturn_def

lemma res_bind_simps [simp]:
  "res_bind (Ok a) k = k a" "res_bind (Err e) k = Err e" "res_bind (Panic p) k = Panic p"
  by (simp_all add: res_bind_def)

lemma res_bind_Ok_iff: "res_bind r k = Ok b \<longleftrightarrow> (\<exists>a. r = Ok a \<and> k a = Ok b)"
  by (cases r) auto

lemma is_Ok_simps [simp]: "is_Ok (Ok a)" "\<not> is_Ok (Err e)" "\<not> is_Ok (Panic p)"
  by (simp_all add: is_Ok_def)

lemma is_Panic_simps [simp]: "\<not> is_Panic (Ok a)" "\<not> is_Panic (Err e)" "is_Panic (Panic p)"
  by (simp_all add: is_Panic_def)

lemma ret_run [simp]: "ret a s = (Ok a, s)"
  by (simp add: ret_def)

lemma fail_run [simp]: "fail e s = (Err e, s)"
  by (simp add: fail_def)

lemma lift_run [simp]: "lift r s = (r, s)"
  by (simp add: lift_def)

lemma andThen_ok: "m s = (Ok a, s') \<Longrightarrow> andThen m k s = k a s'"
  by (simp add: andThen_def)

lemma andThen_err: "m s = (Err e, s') \<Longrightarrow> andThen m k s = (Err e, s')"
  by (simp add: andThen_def)

lemma andThen_panic: "m s = (Panic p, s') \<Longrightarrow> andThen m k s = (Panic p, s')"
  by (simp add: andThen_def)

lemma orPanic_ok: "m s = (Ok a, s') \<Longrightarrow> orPanic m s = (Ok a, s')"
  by (simp add: orPanic_def)

lemma orPanic_err: "m s = (Err e, s') \<Longrightarrow> orPanic m s = (Panic (PanicErr e), s')"
  by (simp add: orPanic_def)

lemma onError_ok: "m s = (Ok a, s') \<Longrightarrow> onError m h s = (Ok a, s')"
  by (simp add: onError_def)

lemma onError_err: "m s = (Err e, s') \<Longrightarrow> onError m h s = h e s'"
  by (simp add: onError_def)

lemma ignoreErr_ok: "m s = (Ok a, s') \<Longrightarrow> ignoreErr m s = (Ok (), s')"
  by (simp add: ignoreErr_def)

lemma ignoreErr_err: "m s = (Err e, s') \<Longrightarrow> ignoreErr m s = (Ok (), s')"
  by (simp add: ignoreErr_def)

lemma orReturn_ok: "m s = (Ok a, s') \<Longrightarrow> orReturn m k s = k a s'"
  by (simp add: orReturn_def)

lemma orReturn_err: "m s = (Err e, s') \<Longrightarrow> orReturn m k s = (Ok (), s')"
  by (simp add: orReturn_def)

lemma andThen_lift_ok [simp]: "andThen (lift (Ok a)) k = k a"
  by (simp add: andThen_def fun_eq_iff)

lemma andThen_lift_panic [simp]: "andThen (lift (Panic p)) k = lift (Panic p)"
  by (simp add: andThen_def fun_eq_iff)

lemma andThen_lift_err [simp]: "andThen (lift (Err e)) k = lift (Err e)"
  by (simp add: andThen_def fun_eq_iff)

lemma andThen_ret [simp]: "andThen (ret a) k = k a"
  by (simp add: andThen_def fun_eq_iff)

lemma andThen_Ok_iff:
  "andThen m k s = (Ok b, s'') \<longleftrightarrow> (\<exists>a s'. m s = (Ok a, s') \<and> k a s' = (Ok b, s''))"
  by (auto simp: andThen_def split: prod.splits res.splits)

lemma andThen_assoc: "andThen (andThen m k) h = andThen m (\<lambda>a. andThen (k a) h)"
  by (auto simp: andThen_def fun_eq_iff split: prod.splits res.splits)

text \<open>An operation that only reads leaves the state as it was.\<close>

definition reads_only :: "('s, 'a) prog \<Rightarrow> bool" where
  "reads_only m = (\<forall>s. snd (m s) = s)"

lemma reads_onlyI [intro?]: "(\<And>s. snd (m s) = s) \<Longrightarrow> reads_only m"
  by (simp add: reads_only_def)

lemma reads_only_snd: "reads_only m \<Longrightarrow> snd (m s) = s"
  by (simp add: reads_only_def)

lemma reads_only_ret [simp]: "reads_only (ret a)"
  by (simp add: reads_only_def)

lemma reads_only_fail [simp]: "reads_only (fail e)"
  by (simp add: reads_only_def)

lemma reads_only_lift [simp]: "reads_only (lift r)"
  by (simp add: reads_only_def)

lemma reads_only_andThen [intro]:
  assumes "reads_only m" and "\<And>a. reads_only (k a)"
  shows "reads_only (andThen m k)"
proof
  fix s
  obtain r s' where m: "m s = (r, s')" by (cases "m s")
  with assms(1) have "s' = s" by (metis reads_only_snd snd_conv)
  with m assms(2) show "snd (andThen m k s) = s"
    by (cases r) (simp_all add: andThen_def reads_only_snd)
qed

text \<open>A part of the state that an operation leaves alone, also when it fails.\<close>

definition keeps :: "('s \<Rightarrow> 'b) \<Rightarrow> ('s, 'a) prog \<Rightarrow> bool" where
  "keeps f m = (\<forall>s. f (snd (m s)) = f s)"

named_theorems keeps_intros \<open>operations that keep a part of the state\<close>

lemma keepsD: "keeps f m \<Longrightarrow> m s = (r, s') \<Longrightarrow> f s' = f s"
  unfolding keeps_def by (metis snd_conv)

lemma keeps_reads [keeps_intros]: "reads_only m \<Longrightarrow> keeps f m"
  by (simp add: keeps_def reads_only_def)

lemma keeps_andThen [keeps_intros]:
  assumes "keeps f m" "\<And>a. keeps f (k a)" shows "keeps f (andThen m k)"
  unfolding keeps_def
proof
  fix s
  obtain r s' where m: "m s = (r, s')" by (cases "m s")
  with assms(1) have "f s' = f s" by (rule keepsD)
  with m assms(2) show "f (snd (andThen m k s)) = f s"
    by (cases r) (simp_all add: andThen_def keeps_def)
qed

lemma keeps_onError [keeps_intros]:
  assumes "keeps f m" "\<And>e. keeps f (h e)" shows "keeps f (onError m h)"
  unfolding keeps_def
proof
  fix s
  obtain r s' where m: "m s = (r, s')" by (cases "m s")
  with assms(1) have "f s' = f s" by (rule keepsD)
  with m assms(2) show "f (snd (onError m h s)) = f s"
    by (cases r) (simp_all add: onError_def keeps_def)
qed

lemma keeps_ignoreErr [keeps_intros]: "keeps f m \<Longrightarrow> keeps f (ignoreErr m)"
  by (auto simp: keeps_def ignoreErr_def split: prod.split res.split dest: spec)
    (metis snd_conv)+

lemma keeps_orPanic [keeps_intros]: "keeps f m \<Longrightarrow> keeps f (orPanic m)"
  by (auto simp: keeps_def orPanic_def split: prod.split res.split dest: spec)
    (metis snd_conv)+

lemma keeps_orReturn [keeps_intros]:
  assumes "keeps f m" "\<And>a. keeps f (k a)" shows "keeps f (orReturn m k)"
  unfolding keeps_def
proof
  fix s
  obtain r s' where m: "m s = (r, s')" by (cases "m s")
  with assms(1) have "f s' = f s" by (rule keepsD)
  with m assms(2) show "f (snd (orReturn m k s)) = f s"
    by (cases r) (simp_all add: orReturn_def keeps_def)
qed

lemma keeps_if [keeps_intros]: "keeps f m \<Longrightarrow> keeps f m' \<Longrightarrow> keeps f (if c then m else m')"
  by simp

text \<open>An invariant that an operation preserves, whatever it returns.\<close>

definition preserves :: "('s \<Rightarrow> bool) \<Rightarrow> ('s, 'a) prog \<Rightarrow> bool" where
  "preserves I m = (\<forall>s. I s \<longrightarrow> I (snd (m s)))"

named_theorems preserves_intros \<open>operations that preserve an invariant\<close>

lemma preservesD: "preserves I m \<Longrightarrow> I s \<Longrightarrow> m s = (r, s') \<Longrightarrow> I s'"
  unfolding preserves_def by (metis snd_conv)

lemma preserves_keeps: "keeps f m \<Longrightarrow> (\<And>s s'. f s' = f s \<Longrightarrow> I s \<Longrightarrow> I s') \<Longrightarrow> preserves I m"
  unfolding preserves_def keeps_def by blast

lemma preserves_andThen [preserves_intros]:
  assumes "preserves I m" "\<And>a. preserves I (k a)" shows "preserves I (andThen m k)"
  unfolding preserves_def
proof (intro allI impI)
  fix s assume s: "I s"
  obtain r s' where m: "m s = (r, s')" by (cases "m s")
  with assms(1) s have "I s'" by (blast dest: preservesD)
  with m assms(2) show "I (snd (andThen m k s))" by (cases r) (simp_all add: andThen_def preserves_def)
qed

lemma preserves_ignoreErr [preserves_intros]: "preserves I m \<Longrightarrow> preserves I (ignoreErr m)"
  by (auto simp: preserves_def ignoreErr_def split: prod.split res.split)

lemma preserves_orPanic [preserves_intros]: "preserves I m \<Longrightarrow> preserves I (orPanic m)"
  by (auto simp: preserves_def orPanic_def split: prod.split res.split)

lemma preserves_if [preserves_intros]: "preserves I m \<Longrightarrow> preserves I m' \<Longrightarrow> preserves I (if c then m else m')"
  by simp

section \<open>List helpers\<close>

lemma filter_single_unique:
  assumes "distinct (map f xs)" and "x \<in> set xs"
  shows "filter (\<lambda>y. f y = f x) xs = [x]"
  using assms
proof (induction xs)
  case (Cons a xs)
  show ?case
  proof (cases "x = a")
    case True
    with Cons.prems(1) have "\<forall>y \<in> set xs. f y \<noteq> f x" by (force simp: image_iff)
    with True show ?thesis by (simp add: filter_empty_conv)
  next
    case False
    with Cons have "x \<in> set xs" "f a \<noteq> f x" by auto
    with Cons show ?thesis by simp
  qed
qed simp

lemma map_of_distinct_filter:
  assumes "distinct (map f (filter P xs))" and "x \<in> set xs" and "P x"
  shows "filter (\<lambda>y. P y \<and> f y = f x) xs = [x]"
proof -
  have "filter (\<lambda>y. f y = f x) (filter P xs) = [x]"
    by (rule filter_single_unique) (use assms in auto)
  then show ?thesis by (simp add: conj_commute)
qed

lemma unat_of_nat_u64: "n < 2 ^ 64 \<Longrightarrow> unat (of_nat n :: u64) = n"
  by (simp add: unat_of_nat)

lemma list_all2_in_set: "list_all2 P xs ys \<Longrightarrow> y \<in> set ys \<Longrightarrow> \<exists>x \<in> set xs. P x y"
  by (induction rule: list_all2_induct) auto

lemma butlast_snoc_eq: "xs \<noteq> [] \<Longrightarrow> butlast xs @ [last xs] = xs"
  by simp

end
