(* ===== verification/Go_Std.thy ===== *)
theory Go_Std
  imports Go_Prelude
begin

text \<open>
  The parts of Go's standard library that the repository uses: runes and UTF-8
  (\<open>[]rune(s)\<close>, \<open>string(runes)\<close>, \<open>utf8.DecodeLastRuneInString\<close>), \<open>strconv\<close> in
  base 2, \<open>encoding/hex\<close> and \<open>big.Int\<close> in base 2.  A Go string is its bytes, one
  \<^typ>\<open>char\<close> per byte.
\<close>

section \<open>UTF-8\<close>

type_synonym rune = nat

abbreviation RuneError :: rune where "RuneError \<equiv> 65533"

definition cont_byte :: "nat \<Rightarrow> bool" where
  "cont_byte b \<longleftrightarrow> 128 \<le> b \<and> b \<le> 191"

abbreviation byte_of :: "char \<Rightarrow> nat" where "byte_of c \<equiv> of_char c"

text \<open>\<open>utf8.DecodeRuneInString\<close>: the first rune and its width in bytes.\<close>

definition decode_rune :: "string \<Rightarrow> rune \<times> nat" where
  "decode_rune s = (case map byte_of (take 4 s) of
     [] \<Rightarrow> (RuneError, 0)
   | b0 # bs \<Rightarrow>
      if b0 < 128 then (b0, 1)
      else (case bs of
        [] \<Rightarrow> (RuneError, 1)
      | b1 # bs' \<Rightarrow>
         if 194 \<le> b0 \<and> b0 \<le> 223 then
           (if cont_byte b1 then ((b0 - 192) * 64 + (b1 - 128), 2) else (RuneError, 1))
         else if 224 \<le> b0 \<and> b0 \<le> 239 then
           (if (if b0 = 224 then 160 \<le> b1 \<and> b1 \<le> 191
                else if b0 = 237 then 128 \<le> b1 \<and> b1 \<le> 159 else cont_byte b1)
            then (case bs' of
                [] \<Rightarrow> (RuneError, 1)
              | b2 # _ \<Rightarrow> if cont_byte b2
                  then ((b0 - 224) * 4096 + (b1 - 128) * 64 + (b2 - 128), 3)
                  else (RuneError, 1))
            else (RuneError, 1))
         else if 240 \<le> b0 \<and> b0 \<le> 244 then
           (if (if b0 = 240 then 144 \<le> b1 \<and> b1 \<le> 191
                else if b0 = 244 then 128 \<le> b1 \<and> b1 \<le> 143 else cont_byte b1)
            then (case bs' of
                b2 # b3 # _ \<Rightarrow> if cont_byte b2 \<and> cont_byte b3
                  then ((b0 - 240) * 262144 + (b1 - 128) * 4096 + (b2 - 128) * 64 + (b3 - 128), 4)
                  else (RuneError, 1)
              | _ \<Rightarrow> (RuneError, 1))
            else (RuneError, 1))
         else (RuneError, 1)))"

text \<open>\<open>[]rune(s)\<close>.\<close>

function runes :: "string \<Rightarrow> rune list" where
  "runes [] = []"
| "runes (c # cs) = (case decode_rune (c # cs) of (r, n) \<Rightarrow> r # runes (drop (n - 1) cs))"
  by pat_completeness auto
termination
  by (relation "measure length") auto

text \<open>\<open>string(rs)\<close>: the UTF-8 encoding, with surrogates and values out of range as \<open>RuneError\<close>.\<close>

definition encode_rune :: "rune \<Rightarrow> string" where
  "encode_rune r0 =
    (let r = (if 1114111 < r0 \<or> (55296 \<le> r0 \<and> r0 \<le> 57343) then RuneError else r0)
     in map char_of
       (if r < 128 then [r]
        else if r < 2048 then [192 + r div 64, 128 + r mod 64]
        else if r < 65536 then [224 + r div 4096, 128 + (r div 64) mod 64, 128 + r mod 64]
        else [240 + r div 262144, 128 + (r div 4096) mod 64, 128 + (r div 64) mod 64, 128 + r mod 64]))"

definition string_of_runes :: "rune list \<Rightarrow> string" where
  "string_of_runes rs = concat (map encode_rune rs)"

text \<open>The start of the last rune: go back over continuation bytes, four bytes at most.\<close>

fun rune_start :: "string \<Rightarrow> nat \<Rightarrow> nat \<Rightarrow> nat" where
  "rune_start s lim 0 = 0"
| "rune_start s lim (Suc i) =
     (if lim \<le> i then (if cont_byte (byte_of (s ! i)) then rune_start s lim i else i) else i)"

text \<open>\<open>utf8.DecodeLastRuneInString\<close>.\<close>

definition decode_last_rune :: "string \<Rightarrow> rune \<times> nat" where
  "decode_last_rune s =
    (let e = length s in
     if e = 0 then (RuneError, 0)
     else if byte_of (s ! (e - 1)) < 128 then (byte_of (s ! (e - 1)), 1)
     else (let start = rune_start s (e - 4) (e - 1); (r, size) = decode_rune (drop start s)
           in if start + size \<noteq> e then (RuneError, 1) else (r, size)))"

definition ascii :: "string \<Rightarrow> bool" where
  "ascii s \<longleftrightarrow> (\<forall>c \<in> set s. byte_of c < 128)"

lemma decode_rune_ascii: "byte_of c < 128 \<Longrightarrow> decode_rune (c # cs) = (byte_of c, 1)"
  by (simp add: decode_rune_def)

lemma runes_ascii: "ascii s \<Longrightarrow> runes s = map byte_of s"
  by (induction s) (simp_all add: ascii_def decode_rune_ascii)

lemma encode_rune_ascii: "r < 128 \<Longrightarrow> encode_rune r = [char_of r]"
  by (simp add: encode_rune_def)

lemma string_of_runes_ascii: "\<forall>r \<in> set rs. r < 128 \<Longrightarrow> string_of_runes rs = map char_of rs"
  by (induction rs) (simp_all add: string_of_runes_def encode_rune_ascii)

lemma decode_last_rune_ascii:
  assumes "ascii s" and "s \<noteq> []"
  shows "decode_last_rune s = (byte_of (last s), 1)"
proof -
  from assms have "last s = s ! (length s - 1)" and "byte_of (last s) < 128"
    by (simp_all add: last_conv_nth ascii_def)
  with assms show ?thesis by (simp add: decode_last_rune_def)
qed

section \<open>\<open>strconv\<close> in base 2\<close>

text \<open>
  The loop of \<open>strconv.ParseUint(s, 2, 64)\<close>: a character other than \<open>0\<close> and \<open>1\<close> is a
  syntax error, and a value of \<open>2 ^ 63\<close> or more before a further digit is a range error.
\<close>

fun parse_bin_loop :: "u64 \<Rightarrow> string \<Rightarrow> num_error + u64" where
  "parse_bin_loop n [] = Inr n"
| "parse_bin_loop n (c # cs) =
     (if c = CHR ''0'' \<or> c = CHR ''1''
      then (if 9223372036854775808 \<le> n then Inl ErrRange
            else parse_bin_loop (2 * n + (if c = CHR ''1'' then 1 else 0)) cs)
      else Inl ErrSyntax)"

definition ParseUint2 :: "string \<Rightarrow> num_error + u64" where
  "ParseUint2 s = (if s = '''' then Inl ErrSyntax else parse_bin_loop 0 s)"

text \<open>\<open>strconv.FormatUint(a, 2)\<close>.\<close>

definition bit_char :: "bool \<Rightarrow> char" where
  "bit_char b = (if b then CHR ''1'' else CHR ''0'')"

fun bin_digits :: "nat \<Rightarrow> string" where
  "bin_digits n = (if n < 2 then [bit_char (n = 1)] else bin_digits (n div 2) @ [bit_char (odd n)])"

declare bin_digits.simps [simp del]

definition FormatUint2 :: "u64 \<Rightarrow> string" where
  "FormatUint2 a = bin_digits (unat a)"

text \<open>Binary strings and their values.\<close>

definition binary :: "string \<Rightarrow> bool" where
  "binary s \<longleftrightarrow> set s \<subseteq> {CHR ''0'', CHR ''1''}"

definition bin_val :: "string \<Rightarrow> nat" where
  "bin_val s = foldl (\<lambda>n c. 2 * n + (if c = CHR ''1'' then 1 else 0)) 0 s"

lemma bit_char_01: "bit_char b = CHR ''0'' \<or> bit_char b = CHR ''1''"
  by (simp add: bit_char_def)

lemma bit_char_eq_1 [simp]: "bit_char b = CHR ''1'' \<longleftrightarrow> b"
  by (simp add: bit_char_def)

lemma bit_char_eq_0 [simp]: "bit_char b = CHR ''0'' \<longleftrightarrow> \<not> b"
  by (simp add: bit_char_def)

lemma binary_Nil [simp]: "binary []"
  by (simp add: binary_def)

lemma binary_Cons [simp]: "binary (c # s) \<longleftrightarrow> (c = CHR ''0'' \<or> c = CHR ''1'') \<and> binary s"
  by (auto simp: binary_def)

lemma binary_append [simp]: "binary (s @ t) \<longleftrightarrow> binary s \<and> binary t"
  by (induction s) auto

lemma binary_replicate [simp]: "binary (replicate n (CHR ''0''))"
  by (induction n) auto

lemma binary_rev [simp]: "binary (rev s) \<longleftrightarrow> binary s"
  by (simp add: binary_def)

lemma binary_butlast: "binary s \<Longrightarrow> binary (butlast s)"
  by (auto simp: binary_def dest: in_set_butlastD)

lemma binary_take: "binary s \<Longrightarrow> binary (take n s)"
  by (auto simp: binary_def dest: in_set_takeD)

lemma binary_ascii: "binary s \<Longrightarrow> ascii s"
  by (auto simp: binary_def ascii_def)

lemma bin_val_Nil [simp]: "bin_val [] = 0"
  by (simp add: bin_val_def)

lemma bin_val_snoc [simp]: "bin_val (s @ [c]) = 2 * bin_val s + (if c = CHR ''1'' then 1 else 0)"
  by (simp add: bin_val_def)

lemma bin_val_append: "bin_val (s @ t) = bin_val s * 2 ^ length t + bin_val t"
proof (induction t rule: rev_induct)
  case (snoc c t)
  have "bin_val (s @ t @ [c]) = bin_val ((s @ t) @ [c])" by simp
  with snoc show ?case by (simp only: bin_val_snoc) simp
qed simp

lemma bin_val_zeros [simp]: "bin_val (replicate n (CHR ''0'')) = 0"
proof (induction n)
  case (Suc n)
  have "replicate (Suc n) (CHR ''0'') = replicate n (CHR ''0'') @ [CHR ''0'']"
    by (simp add: replicate_append_same)
  with Suc show ?case by (simp only: bin_val_snoc) simp
qed simp

lemma bin_val_less: "bin_val s < 2 ^ length s"
  by (induction s rule: rev_induct) auto

lemma bin_val_inj:
  assumes "binary s" "binary t" "length s = length t" "bin_val s = bin_val t"
  shows "s = t"
  using assms
proof (induction s arbitrary: t rule: rev_induct)
  case (snoc c s)
  then obtain t' d where t: "t = t' @ [d]"
    by (metis append_butlast_last_id length_0_conv snoc_eq_iff_butlast)
  have cd: "c = CHR ''0'' \<or> c = CHR ''1''" "d = CHR ''0'' \<or> d = CHR ''1''"
    using snoc.prems t by auto
  with snoc.prems t have "bin_val s = bin_val t' \<and> c = d"
    by (auto split: if_splits) presburger+
  with snoc t show ?case by simp
qed simp

lemma bin_digits_binary: "binary (bin_digits n)"
  by (induction n rule: bin_digits.induct)
    (subst bin_digits.simps, use bit_char_01 in auto)

lemma bin_digits_val: "bin_val (bin_digits n) = n"
proof (induction n rule: bin_digits.induct)
  case (1 n)
  show ?case
  proof (cases "n < 2")
    case True
    have "bin_val [bit_char (n = 1)] = bin_val ([] @ [bit_char (n = 1)])" by simp
    also have "\<dots> = (if n = 1 then 1 else 0)" by (simp only: bin_val_snoc) simp
    finally have "bin_val [bit_char (n = 1)] = n" using True by (auto simp: less_2_cases_iff)
    with True show ?thesis by (subst bin_digits.simps) simp
  next
    case False
    with 1 show ?thesis by (subst bin_digits.simps) simp
  qed
qed

lemma bin_digits_nonempty: "bin_digits n \<noteq> []"
  by (subst bin_digits.simps) simp

lemma bin_digits_length_le: "n < 2 ^ k \<Longrightarrow> 0 < k \<Longrightarrow> length (bin_digits n) \<le> k"
proof (induction n arbitrary: k rule: bin_digits.induct)
  case (1 n)
  show ?case
  proof (cases "n < 2")
    case True
    with 1 show ?thesis by (subst bin_digits.simps) simp
  next
    case False
    with "1.prems" obtain j where k: "k = Suc j" "0 < j"
      by (cases k; cases "k - 1") auto
    with "1.prems" have "n div 2 < 2 ^ j" by simp
    with "1.IH" False k have "length (bin_digits (n div 2)) \<le> j" by simp
    with False k show ?thesis by (subst bin_digits.simps) simp
  qed
qed

lemma bin_digits_length_gt: "2 ^ k \<le> n \<Longrightarrow> k < length (bin_digits n)"
  using bin_val_less [of "bin_digits n"] bin_digits_val [of n]
  by (metis linorder_not_less order.strict_trans2 power_increasing one_le_numeral leD)

lemma parse_bin_loop_binary:
  assumes "binary s" and "unat n * 2 ^ length s + bin_val s < 2 ^ 64"
  shows "parse_bin_loop n s = Inr (n * 2 ^ length s + of_nat (bin_val s))"
  using assms
proof (induction s arbitrary: n)
  case (Cons c s)
  let ?b = "if c = CHR ''1'' then 1 else 0 :: nat"
  have v: "bin_val (c # s) = ?b * 2 ^ length s + bin_val s"
    using bin_val_append [of "[c]" s] bin_val_snoc [of "[]" c] by simp
  have le: "(2 * unat n + ?b) * 2 ^ length s + bin_val s < 2 ^ 64"
    using Cons.prems(2) v by (simp add: algebra_simps)
  have "(2 * unat n + ?b) * 1 \<le> (2 * unat n + ?b) * 2 ^ length s"
    by (rule mult_le_mono2) simp
  also have "\<dots> \<le> (2 * unat n + ?b) * 2 ^ length s + bin_val s" by simp
  also note le
  finally have small: "2 * unat n + ?b < 2 ^ 64" by simp
  have n63: "\<not> 9223372036854775808 \<le> n"
    using small by (simp add: word_le_nat_alt)
  have u: "unat (2 * n + (if c = CHR ''1'' then 1 else 0)) = 2 * unat n + ?b"
    using small by (auto simp: unat_word_ariths)
  have "parse_bin_loop n (c # s) = parse_bin_loop (2 * n + (if c = CHR ''1'' then 1 else 0)) s"
    using n63 Cons.prems(1) by simp
  also have "\<dots> = Inr ((2 * n + (if c = CHR ''1'' then 1 else 0)) * 2 ^ length s + of_nat (bin_val s))"
    by (rule Cons.IH) (use Cons.prems(1) le in \<open>simp_all only: u, simp\<close>)
  finally show ?case using v by (simp add: algebra_simps)
qed simp

lemma ParseUint2_binary:
  "binary s \<Longrightarrow> s \<noteq> [] \<Longrightarrow> bin_val s < 2 ^ 64 \<Longrightarrow> ParseUint2 s = Inr (of_nat (bin_val s))"
  by (simp add: ParseUint2_def parse_bin_loop_binary)

lemma FormatUint2_binary: "binary (FormatUint2 a)"
  by (simp add: FormatUint2_def bin_digits_binary)

lemma FormatUint2_val: "bin_val (FormatUint2 a) = unat a"
  by (simp add: FormatUint2_def bin_digits_val)

lemma FormatUint2_nonempty: "FormatUint2 a \<noteq> []"
  by (simp add: FormatUint2_def bin_digits_nonempty)

lemma ParseUint2_FormatUint2: "ParseUint2 (FormatUint2 a) = Inr a"
  using ParseUint2_binary [of "FormatUint2 a"]
  by (simp add: FormatUint2_binary FormatUint2_val FormatUint2_nonempty unsigned_less [of a, simplified])

section \<open>\<open>encoding/hex\<close>\<close>

definition hex_digit :: "nat \<Rightarrow> char" where
  "hex_digit n = ''0123456789abcdef'' ! n"

definition hex_value :: "char \<Rightarrow> nat option" where
  "hex_value c =
    (let b = byte_of c in
     if 48 \<le> b \<and> b \<le> 57 then Some (b - 48)
     else if 97 \<le> b \<and> b \<le> 102 then Some (b - 87)
     else if 65 \<le> b \<and> b \<le> 70 then Some (b - 55)
     else None)"

definition hex_EncodeToString :: "bytes \<Rightarrow> string" where
  "hex_EncodeToString bs = concat (map (\<lambda>b. [hex_digit (unat b div 16), hex_digit (unat b mod 16)]) bs)"

text \<open>\<open>hex.DecodeString\<close>: pairs first; a leftover digit is a bad byte or a bad length.\<close>

fun hex_DecodeString :: "string \<Rightarrow> hex_error + bytes" where
  "hex_DecodeString [] = Inr []"
| "hex_DecodeString [c] = (case hex_value c of None \<Rightarrow> Inl (InvalidByteError c) | Some _ \<Rightarrow> Inl ErrLength)"
| "hex_DecodeString (c # d # cs) =
     (case hex_value c of
        None \<Rightarrow> Inl (InvalidByteError c)
      | Some h \<Rightarrow> (case hex_value d of
          None \<Rightarrow> Inl (InvalidByteError d)
        | Some l \<Rightarrow> (case hex_DecodeString cs of
            Inl e \<Rightarrow> Inl e
          | Inr bs \<Rightarrow> Inr (of_nat (16 * h + l) # bs))))"

lemma hex_value_digit: "n < 16 \<Longrightarrow> hex_value (hex_digit n) = Some n"
proof -
  assume "n < 16"
  then have "n \<in> set [0..<16]" by simp
  moreover have "\<forall>n \<in> set [0..<16]. hex_value (hex_digit n) = Some n"
    by (simp add: upt_rec hex_digit_def hex_value_def)
  ultimately show ?thesis by blast
qed

lemma hex_value_ascii: "hex_value c = Some n \<Longrightarrow> byte_of c < 128"
  by (auto simp: hex_value_def Let_def split: if_splits)

lemma hex_text_ascii: "hex_DecodeString s = Inr bs \<Longrightarrow> ascii s"
  by (induction s arbitrary: bs rule: hex_DecodeString.induct)
    (auto simp: ascii_def dest: hex_value_ascii split: option.splits sum.splits)

lemma hex_roundtrip: "hex_DecodeString (hex_EncodeToString bs) = Inr bs"
proof (induction bs)
  case (Cons b bs)
  have "unat b < 256" using unsigned_less [of b] by simp
  then have "unat b div 16 < 16" "unat b mod 16 < 16" by auto
  moreover have "of_nat (16 * (unat b div 16) + unat b mod 16) = b"
    by simp
  ultimately show ?case using Cons
    by (simp add: hex_EncodeToString_def hex_value_digit)
qed (simp add: hex_EncodeToString_def)

lemma hex_EncodeToString_length [simp]: "length (hex_EncodeToString bs) = 2 * length bs"
  by (induction bs) (simp_all add: hex_EncodeToString_def)

lemma hex_EncodeToString_inj: "hex_EncodeToString bs = hex_EncodeToString cs \<Longrightarrow> bs = cs"
  by (metis hex_roundtrip sum.inject(2))

section \<open>\<open>big.Int.SetString(s, 2)\<close>\<close>

text \<open>
  An optional sign and at least one binary digit.  On any other text the method leaves
  the value undefined, which is \<^const>\<open>None\<close> here.
\<close>

definition big_SetString2 :: "string \<Rightarrow> int option" where
  "big_SetString2 s =
    (let (neg, ds) = (case s of
        c # cs \<Rightarrow> if c = CHR ''-'' then (True, cs) else if c = CHR ''+'' then (False, cs) else (False, s)
      | [] \<Rightarrow> (False, s))
     in if ds \<noteq> [] \<and> binary ds
        then Some (if neg then - int (bin_val ds) else int (bin_val ds)) else None)"

end
