(* ===== verification/Byte_Array.thy ===== *)
theory Byte_Array
  imports Go_Std
begin

text \<open>
  \<open>core/alias.go\<close> and the byte helpers of \<open>common/util.go\<close>.  A \<open>ByteArray\<close> is Go's
  \<open>[32]byte\<close>, here a list of bytes that \<open>wf_ba\<close> says is 32 long; every
  array the code builds passes through \<open>BytesToByteArray\<close>, which makes it so.
\<close>

section \<open>\<open>core/alias.go\<close>\<close>

type_synonym ByteArray = bytes

definition wf_ba :: "ByteArray \<Rightarrow> bool" where
  "wf_ba b \<longleftrightarrow> length b = 32"

text \<open>\<open>copy(temp[:], bz)\<close> into a zeroed array: cut off or padded with zeros on the right.\<close>

definition BytesToByteArray :: "bytes \<Rightarrow> ByteArray" where
  "BytesToByteArray bz = take 32 bz @ replicate (32 - length bz) 0"

definition ByteArray_String :: "ByteArray \<Rightarrow> string" where
  "ByteArray_String b = ''0x'' @ hex_EncodeToString b"

text \<open>\<open>a[2:]\<close> panics on a string shorter than two bytes; the prefix itself is not looked at.\<close>

definition HexToByteArray :: "string \<Rightarrow> ByteArray res" where
  "HexToByteArray a =
    (if length a < 2 then Panic SliceOutOfRange
     else (case hex_DecodeString (drop 2 a) of
        Inl e \<Rightarrow> Err (ErrHex e)
      | Inr bz \<Rightarrow> Ok (BytesToByteArray bz)))"

text \<open>\<open>HashToByteArray\<close> of a node: an error of the conversion is turned into a panic.\<close>

definition hash_to_bytes :: "string \<Rightarrow> ByteArray res" where
  "hash_to_bytes h = (case HexToByteArray h of
     Ok b \<Rightarrow> Ok b | Err e \<Rightarrow> Panic (PanicErr e) | Panic p \<Rightarrow> Panic p)"

section \<open>\<open>common/util.go\<close>\<close>

text \<open>Little-endian bytes of a \<open>uint32\<close>; \<open>UintTo2Byte\<close> keeps the two low ones.\<close>

definition UintToByte :: "u32 \<Rightarrow> bytes" where
  "UintToByte a = [ucast a, ucast (drop_bit 8 a), ucast (drop_bit 16 a), ucast (drop_bit 24 a)]"

definition UintTo2Byte :: "u32 \<Rightarrow> bytes" where
  "UintTo2Byte a = take 2 (UintToByte a)"

fun AppendSlices_loop :: "bytes \<Rightarrow> bytes list \<Rightarrow> bytes" where
  "AppendSlices_loop result [] = result"
| "AppendSlices_loop result (data # dataSlices) = AppendSlices_loop (result @ data) dataSlices"

definition AppendSlices :: "bytes list \<Rightarrow> bytes" where
  "AppendSlices dataSlices = AppendSlices_loop [] dataSlices"

definition PanicIfError :: "go_error option \<Rightarrow> unit res" where
  "PanicIfError err = (case err of None \<Rightarrow> Ok () | Some e \<Rightarrow> Panic (PanicErr e))"

definition FlipBit :: "int \<Rightarrow> int" where
  "FlipBit b = (if b = 1 then 0 else 1)"

section \<open>Lemmas\<close>

lemma BytesToByteArray_wf [simp]: "wf_ba (BytesToByteArray bz)"
  by (simp add: wf_ba_def BytesToByteArray_def)

lemma BytesToByteArray_id [simp]: "wf_ba b \<Longrightarrow> BytesToByteArray b = b"
  by (simp add: wf_ba_def BytesToByteArray_def)

lemma HexToByteArray_wf: "HexToByteArray a = Ok b \<Longrightarrow> wf_ba b"
  by (auto simp: HexToByteArray_def split: if_splits sum.splits)

lemma HexToByteArray_String_raw: "HexToByteArray (ByteArray_String b) = Ok (BytesToByteArray b)"
  by (simp add: HexToByteArray_def ByteArray_String_def hex_roundtrip)

lemma HexToByteArray_String [simp]: "wf_ba b \<Longrightarrow> HexToByteArray (ByteArray_String b) = Ok b"
  by (simp add: HexToByteArray_String_raw)

lemma hash_to_bytes_String [simp]: "wf_ba b \<Longrightarrow> hash_to_bytes (ByteArray_String b) = Ok b"
  by (simp add: hash_to_bytes_def)

lemma ByteArray_String_inj: "ByteArray_String b = ByteArray_String c \<Longrightarrow> b = c"
  by (simp add: ByteArray_String_def) (rule hex_EncodeToString_inj)

lemma ByteArray_String_nonempty [simp]: "ByteArray_String b \<noteq> []"
  by (simp add: ByteArray_String_def)

lemma AppendSlices_loop_concat: "AppendSlices_loop r ds = r @ concat ds"
  by (induction ds arbitrary: r) auto

lemma AppendSlices_concat: "AppendSlices ds = concat ds"
  by (simp add: AppendSlices_def AppendSlices_loop_concat)

lemma FlipBit_invol: "b \<in> {0, 1} \<Longrightarrow> FlipBit (FlipBit b) = b"
  by (auto simp: FlipBit_def)

text \<open>A hash column that the code can read back: the text of some 32-byte array.\<close>

definition hash_ok :: "string \<Rightarrow> bool" where
  "hash_ok h \<longleftrightarrow> (\<exists>b. wf_ba b \<and> h = ByteArray_String b)"

lemma hash_okI [intro]: "wf_ba b \<Longrightarrow> hash_ok (ByteArray_String b)"
  by (auto simp: hash_ok_def)

lemma hash_okE:
  assumes "hash_ok h" obtains b where "wf_ba b" "h = ByteArray_String b" "hash_to_bytes h = Ok b" "HexToByteArray h = Ok b"
  using assms by (auto simp: hash_ok_def)

section \<open>Properties\<close>

text \<open>
  Writing a 32-byte array as text and reading it back gives the array; for any
  byte slice the text reads back as the slice cut or zero-padded to 32 bytes.
\<close>

theorem HexToByteArray_roundtrip:
  "HexToByteArray (ByteArray_String bz) = Ok (take 32 bz @ replicate (32 - length bz) 0)"
  by (simp add: HexToByteArray_String_raw BytesToByteArray_def)

end
