(* ===== verification/Node_Paths.thy ===== *)
theory Node_Paths
  imports Byte_Array
begin

text \<open>
  \<open>core/utils.go\<close>: node paths.  A node of either tree is named by the string of
  \<open>0\<close> and \<open>1\<close> that leads to it from the root; its level is the length of that
  string.  The padding of \<open>GetAdjacentNodePath\<close> is done by the package
  \<open>willf/pad\<close>, which is the parameter \<open>pad_left\<close>.
\<close>

section \<open>Definitions\<close>

definition trimPathToParentPath :: "string \<Rightarrow> string" where
  "trimPathToParentPath s =
    (let (r, size) = decode_last_rune s;
         size = (if r = RuneError \<and> (size = 0 \<or> size = 1) then 0 else size)
     in take (length s - size) s)"

definition GetParentPath :: "string \<Rightarrow> string" where
  "GetParentPath path = trimPathToParentPath path"

definition StringToBigInt :: "string \<Rightarrow> int option" where
  "StringToBigInt s = big_SetString2 s"

definition UintToBigInt :: "u64 \<Rightarrow> int" where
  "UintToBigInt a = uint a"

definition StringToUint :: "string \<Rightarrow> u64 res" where
  "StringToUint s = (case ParseUint2 s of Inl e \<Rightarrow> Err (ErrNum e) | Inr i \<Rightarrow> Ok i)"

definition UintToString :: "u64 \<Rightarrow> string" where
  "UintToString a = FormatUint2 a"

text \<open>Indexing a rune slice panics outside \<open>0 .. len - 1\<close>; indices are Go's signed \<open>int\<close>.\<close>

definition rune_at :: "rune list \<Rightarrow> int \<Rightarrow> rune res" where
  "rune_at rs i = (if 0 \<le> i \<and> i < int (length rs) then Ok (rs ! nat i) else Panic IndexOutOfRange)"

definition isRight :: "string \<Rightarrow> bool res" where
  "isRight path =
    res_bind (rune_at (runes path) (int (length path) - 1)) (\<lambda>r. Ok (if r = 48 then False else True))"

definition GetNthBitFromRight :: "string \<Rightarrow> int \<Rightarrow> int res" where
  "GetNthBitFromRight path index =
    (let dataRune = runes path
     in res_bind (rune_at dataRune (int (length dataRune) - index - 1))
          (\<lambda>r. Ok (if r = 48 then 0 else 1)))"

definition FlipBitInString :: "string \<Rightarrow> int \<Rightarrow> string res" where
  "FlipBitInString s i =
    (let dataRune = runes s
     in res_bind (rune_at dataRune i)
          (\<lambda>r. Ok (string_of_runes (dataRune[nat i := (if r = 48 then 49 else 48)]))))"

definition GetOtherChild :: "string \<Rightarrow> string res" where
  "GetOtherChild path = FlipBitInString path (int (length path) - 1)"

text \<open>\<open>for i := uint64(0); i < n; i++ { path = append(path, 48) }\<close>: \<open>n\<close> zeros.\<close>

definition zero_runes :: "u64 \<Rightarrow> rune list" where
  "zero_runes n = replicate (unat n) 48"

definition GenCoordinatorPath :: "u64 \<Rightarrow> string" where
  "GenCoordinatorPath depth = string_of_runes (zero_runes depth)"

definition GetAdjacentNodePath :: "(string \<Rightarrow> nat \<Rightarrow> string \<Rightarrow> string) \<Rightarrow> string \<Rightarrow> string res" where
  "GetAdjacentNodePath pad_left path =
    res_bind (StringToUint path) (\<lambda>nodePath.
      let adjacentNodePath = nodePath + 1
      in Ok (pad_left (UintToString adjacentNodePath) (length path) ''0''))"

text \<open>The loop bound \<open>depth - uint64(len(..))\<close> is a \<open>uint64\<close>: it wraps below zero.\<close>

definition SolidityPathToNodePath :: "u64 \<Rightarrow> u64 \<Rightarrow> string res" where
  "SolidityPathToNodePath path depth =
    (let pathWithoutPrefix = UintToString path;
         pathToNode = zero_runes (depth - of_nat (length pathWithoutPrefix))
     in Ok (string_of_runes pathToNode @ pathWithoutPrefix))"

text \<open>What \<open>willf/pad\<close> documents of \<open>pad.Left\<close>: pad on the left up to the given length.\<close>

definition pad_left_spec :: "(string \<Rightarrow> nat \<Rightarrow> string \<Rightarrow> string) \<Rightarrow> bool" where
  "pad_left_spec pad_left \<longleftrightarrow>
    (\<forall>s n. pad_left s n ''0'' = replicate (n - length s) (CHR ''0'') @ s)"

definition pad_left_ref :: "string \<Rightarrow> nat \<Rightarrow> string \<Rightarrow> string" where
  "pad_left_ref s n p = concat (replicate (n - length s) p) @ s"

section \<open>Paths of the tree\<close>

text \<open>\<open>sib\<close> is the abstract counterpart of \<open>GetOtherChild\<close>: the last bit flipped.\<close>

definition flip_char :: "char \<Rightarrow> char" where
  "flip_char c = (if c = CHR ''0'' then CHR ''1'' else CHR ''0'')"

definition sib :: "string \<Rightarrow> string" where
  "sib p = butlast p @ [flip_char (last p)]"

lemma flip_char_invol: "c = CHR ''0'' \<or> c = CHR ''1'' \<Longrightarrow> flip_char (flip_char c) = c"
  by (auto simp: flip_char_def)

lemma flip_char_neq: "flip_char c \<noteq> c"
  by (simp add: flip_char_def)

lemma sib_snoc [simp]: "sib (p @ [c]) = p @ [flip_char c]"
  by (simp add: sib_def)

lemma sib_length: "p \<noteq> [] \<Longrightarrow> length (sib p) = length p"
  by (simp add: sib_def)

lemma sib_binary: "binary p \<Longrightarrow> binary (sib p)"
  by (simp add: sib_def binary_butlast flip_char_def)

lemma trimPathToParentPath_ascii: "ascii s \<Longrightarrow> trimPathToParentPath s = butlast s"
proof (cases "s = []")
  case True
  then show ?thesis by (simp add: trimPathToParentPath_def decode_last_rune_def)
next
  case False
  assume "ascii s"
  moreover from this False have "byte_of (last s) < 128" by (simp add: ascii_def)
  ultimately show ?thesis using False
    by (simp add: trimPathToParentPath_def decode_last_rune_ascii butlast_conv_take)
qed

lemma GetParentPath_binary [simp]: "binary p \<Longrightarrow> GetParentPath p = butlast p"
  by (simp add: GetParentPath_def trimPathToParentPath_ascii binary_ascii)

lemma rune_at_ok: "0 \<le> i \<Longrightarrow> i < int (length rs) \<Longrightarrow> rune_at rs i = Ok (rs ! nat i)"
  by (simp add: rune_at_def)

lemma byte_of_bit: "c = CHR ''0'' \<or> c = CHR ''1'' \<Longrightarrow> byte_of c = (if c = CHR ''1'' then 49 else 48)"
  by auto

lemma char_of_48_49 [simp]: "char_of (48::nat) = CHR ''0''" "char_of (49::nat) = CHR ''1''"
  by (simp_all add: char_of_def bit_0)

lemma map_char_byte [simp]: "map (\<lambda>c. char_of (byte_of c)) s = s" "map (char_of \<circ> byte_of) s = s"
  by (induction s) simp_all

lemma FlipBitInString_binary:
  assumes "binary s" and "i < length s"
  shows "FlipBitInString s (int i) = Ok (s[i := flip_char (s ! i)])"
proof -
  have r: "runes s = map byte_of s"
    using assms(1) by (simp add: runes_ascii binary_ascii)
  have si: "s ! i = CHR ''0'' \<or> s ! i = CHR ''1''"
    using assms by (auto simp: binary_def dest: nth_mem)
  then have e: "(if byte_of (s ! i) = 48 then 49 else (48::nat)) = byte_of (flip_char (s ! i))"
    by (auto simp: flip_char_def)
  have "ascii (s[i := flip_char (s ! i)])"
    using assms by (auto simp: ascii_def flip_char_def binary_def dest!: set_update_subset_insert [THEN subsetD])
  then have "string_of_runes (map byte_of (s[i := flip_char (s ! i)])) = s[i := flip_char (s ! i)]"
    by (simp add: string_of_runes_ascii ascii_def)
  with assms r e show ?thesis
    by (simp add: FlipBitInString_def rune_at_ok map_update)
qed

lemma GetOtherChild_binary:
  assumes "binary p" and "p \<noteq> []"
  shows "GetOtherChild p = Ok (sib p)"
proof -
  from assms(2) obtain q c where p: "p = q @ [c]" by (metis rev_exhaust)
  have "FlipBitInString p (int (length q)) = Ok (p[length q := flip_char (p ! length q)])"
    by (rule FlipBitInString_binary) (use assms p in auto)
  with p show ?thesis by (simp add: GetOtherChild_def)
qed

lemma GetOtherChild_empty: "GetOtherChild '''' = Panic IndexOutOfRange"
  by (simp add: GetOtherChild_def FlipBitInString_def rune_at_def)

lemma GetNthBitFromRight_binary:
  assumes "binary p" and "i < length p"
  shows "GetNthBitFromRight p (int i) = Ok (if p ! (length p - Suc i) = CHR ''0'' then 0 else 1)"
proof -
  define j where "j = length p - Suc i"
  have j: "int (length p) - int i - 1 = int j" "j < length p" using assms(2) by (auto simp: j_def)
  have "p ! j = CHR ''0'' \<or> p ! j = CHR ''1''"
    using assms(1) j(2) by (auto simp: binary_def dest: nth_mem)
  then have "(if byte_of (p ! j) = 48 then 0 else (1::int)) = (if p ! j = CHR ''0'' then 0 else 1)"
    by auto
  with assms j show ?thesis
    by (simp add: GetNthBitFromRight_def runes_ascii binary_ascii rune_at_ok Let_def
        del: of_nat_diff flip: j_def)
qed

lemma zero_runes_string [simp]: "string_of_runes (zero_runes n) = replicate (unat n) (CHR ''0'')"
  by (simp add: zero_runes_def string_of_runes_ascii)

lemma GenCoordinatorPath_zeros: "GenCoordinatorPath depth = replicate (unat depth) (CHR ''0'')"
  by (simp add: GenCoordinatorPath_def)

lemma pad_left_ref_spec: "pad_left_spec pad_left_ref"
proof -
  have "concat (replicate n ''0'') = replicate n (CHR ''0'')" for n
    by (induction n) auto
  then show ?thesis by (simp add: pad_left_spec_def pad_left_ref_def)
qed

lemma StringToUint_binary:
  "binary s \<Longrightarrow> s \<noteq> [] \<Longrightarrow> bin_val s < 2 ^ 64 \<Longrightarrow> StringToUint s = Ok (of_nat (bin_val s))"
  by (simp add: StringToUint_def ParseUint2_binary)

lemma UintToString_facts:
  "binary (UintToString a)" "bin_val (UintToString a) = unat a" "UintToString a \<noteq> []"
  by (simp_all add: UintToString_def FormatUint2_binary FormatUint2_val FormatUint2_nonempty)

lemma UintToString_length_le: "unat a < 2 ^ k \<Longrightarrow> 0 < k \<Longrightarrow> length (UintToString a) \<le> k"
  by (simp add: UintToString_def FormatUint2_def bin_digits_length_le)

lemma UintToString_length_gt: "2 ^ k \<le> unat a \<Longrightarrow> k < length (UintToString a)"
  by (simp add: UintToString_def FormatUint2_def bin_digits_length_gt)

lemma UintToString_length_64: "length (UintToString a) \<le> 64"
  using unsigned_less [of a] by (intro UintToString_length_le) simp_all

text \<open>The text of \<open>n\<close> on \<open>k\<close> bits: what both path generators produce when the value fits.\<close>

definition bits :: "nat \<Rightarrow> nat \<Rightarrow> string" where
  "bits k n = replicate (k - length (bin_digits n)) (CHR ''0'') @ bin_digits n"

lemma bits_facts:
  assumes "n < 2 ^ k" and "0 < k"
  shows "length (bits k n) = k" "binary (bits k n)" "bin_val (bits k n) = n"
  using assms by (simp_all add: bits_def bin_digits_length_le bin_digits_binary bin_digits_val bin_val_append)

lemma bits_bin_val:
  assumes "binary p" and "p \<noteq> []"
  shows "bits (length p) (bin_val p) = p"
  using assms bits_facts [of "bin_val p" "length p"] bin_val_less [of p]
  by (intro bin_val_inj) auto

lemma bits_inj: "a < 2 ^ k \<Longrightarrow> b < 2 ^ k \<Longrightarrow> 0 < k \<Longrightarrow> bits k a = bits k b \<Longrightarrow> a = b"
  by (metis bits_facts(3))

lemma SolidityPathToNodePath_bits:
  assumes "unat path < 2 ^ unat depth" and "0 < depth"
  shows "SolidityPathToNodePath path depth = Ok (bits (unat depth) (unat path))"
proof -
  let ?l = "length (UintToString path)"
  have d: "0 < unat depth" using assms(2) by (simp add: word_less_nat_alt)
  have l: "?l \<le> unat depth" by (rule UintToString_length_le) (use assms(1) d in auto)
  have "?l < 2 ^ 64" using UintToString_length_64 [of path] by simp
  then have ul: "unat (of_nat ?l :: u64) = ?l" by (simp add: unat_of_nat_u64)
  with l have "of_nat ?l \<le> depth" by (simp add: word_le_nat_alt)
  then have "unat (depth - of_nat ?l) = unat depth - ?l" using ul by (simp add: unat_sub)
  then show ?thesis
    by (simp add: SolidityPathToNodePath_def bits_def UintToString_def FormatUint2_def Let_def)
qed

lemma SolidityPathToNodePath_binary: "\<exists>p. SolidityPathToNodePath path depth = Ok p \<and> binary p \<and> p \<noteq> []"
  by (simp add: SolidityPathToNodePath_def UintToString_facts Let_def)

lemma GetAdjacentNodePath_bits:
  assumes pad: "pad_left_spec pad_left" and b: "binary p" "p \<noteq> []" and fits: "Suc (bin_val p) < 2 ^ 64"
  shows "GetAdjacentNodePath pad_left p = Ok (bits (length p) (Suc (bin_val p)))"
proof -
  have s: "StringToUint p = Ok (of_nat (bin_val p))"
    using b fits by (simp add: StringToUint_binary)
  have "unat (of_nat (bin_val p) + 1 :: u64) = Suc (bin_val p)"
    using unat_of_nat_u64 [OF fits] by (simp add: add.commute)
  with s pad show ?thesis
    by (simp add: GetAdjacentNodePath_def UintToString_def FormatUint2_def bits_def pad_left_spec_def)
qed

end
