(* ===== verification/Data_Model.thy ===== *)
theory Data_Model
  imports Node_Paths
begin

text \<open>
  The constants of \<open>core/constants.go\<close> and the model structs of \<open>core\<close>, one record
  per struct with its fields in the source's order.  Field names carry a short prefix
  because Isabelle's selectors are global.  \<open>uint64\<close> is a 64-bit word, \<open>[]byte\<close> a list
  of bytes (a nil and an empty slice are the same list), \<open>time.Time\<close> an instant.
\<close>

section \<open>\<open>core/constants.go\<close>\<close>

definition STATUS_PENDING :: u64 where [simp]: "STATUS_PENDING = 0"
definition STATUS_ACTIVE :: u64 where [simp]: "STATUS_ACTIVE = 1"
definition STATUS_INACTIVE :: u64 where [simp]: "STATUS_INACTIVE = 2"
definition STATUS_NON_INITIALIZED :: u64 where [simp]: "STATUS_NON_INITIALIZED = 100"

definition TYPE_TERMINAL :: u64 where [simp]: "TYPE_TERMINAL = 1"
definition TYPE_ROOT :: u64 where [simp]: "TYPE_ROOT = 0"
definition TYPE_NON_TERMINAL :: u64 where [simp]: "TYPE_NON_TERMINAL = 2"

definition UNINITIALIZED_PATH :: string where [simp]: "UNINITIALIZED_PATH = ''-1''"
definition ZERO :: u64 where [simp]: "ZERO = 0"

definition TX_STATUS_PENDING :: u64 where [simp]: "TX_STATUS_PENDING = 100"
definition TX_STATUS_PROCESSING :: u64 where [simp]: "TX_STATUS_PROCESSING = 200"
definition TX_STATUS_PROCESSED :: u64 where [simp]: "TX_STATUS_PROCESSED = 300"
definition TX_STATUS_REVERTED :: u64 where [simp]: "TX_STATUS_REVERTED = 400"

definition BATCH_BROADCASTED :: u64 where [simp]: "BATCH_BROADCASTED = 100"
definition BATCH_COMMITTED :: u64 where [simp]: "BATCH_COMMITTED = 200"

definition TX_GENESIS :: u64 where [simp]: "TX_GENESIS = 0"
definition TX_TRANSFER_TYPE :: u64 where [simp]: "TX_TRANSFER_TYPE = 1"
definition TX_CREATE_2_TRANSFER :: u64 where [simp]: "TX_CREATE_2_TRANSFER = 2"
definition TX_MASS_MIGRATIONS :: u64 where [simp]: "TX_MASS_MIGRATIONS = 3"
definition TX_DEPOSIT :: u64 where [simp]: "TX_DEPOSIT = 4"

definition CHUNK_SIZE :: nat where [simp]: "CHUNK_SIZE = 3000"

section \<open>Structs\<close>

type_synonym time = int

text \<open>\<open>core/state.go\<close>: a node of the balance tree, or a deposit waiting to enter it.\<close>

record UserState =
  us_AccountID :: u64
  us_Data :: bytes
  us_Path :: string
  us_Status :: u64
  us_Type :: u64
  us_Hash :: string
  us_Level :: u64
  us_CreatedByDepositSubTree :: string

text \<open>\<open>core/account.go\<close>: a node of the account (public key) tree.\<close>

record Account =
  acc_ID :: u64
  acc_PublicKey :: string
  acc_Path :: string
  acc_Type :: u64
  acc_Hash :: string
  acc_Level :: u64

text \<open>\<open>core/dbModel.go\<close>: the columns that \<open>DBModel\<close> adds to a struct.\<close>

record DBModel =
  db_ID :: string
  db_CreatedAt :: time
  db_UpdatedAt :: time
  db_DeletedAt :: "time option"

text \<open>\<open>core/tx.go\<close>.\<close>

record Tx = DBModel +
  tx_To :: u64
  tx_From :: u64
  tx_Data :: bytes
  tx_Signature :: bytes
  tx_TxHash :: string
  tx_Status :: u64
  tx_Type :: u64

text \<open>\<open>core/params.go\<close>.\<close>

record Params = DBModel +
  pm_StakeAmount :: u64
  pm_MaxDepth :: u64
  pm_MaxDepositSubTreeHeight :: u64
  pm_FinalisationTime :: u64

record SyncStatus =
  ss_ID :: string
  ss_LastEthBlockRecorded :: u64
  ss_LastBatchRecorded :: u64

text \<open>\<open>core/batch.go\<close>.\<close>

record Batch =
  bt_BatchID :: u64
  bt_StateRoot :: string
  bt_Committer :: string
  bt_StakeAmount :: u64
  bt_FinalisesOn :: int
  bt_SubmissionHash :: string
  bt_TransactionsIncluded :: bytes
  bt_BatchType :: u64
  bt_Status :: u64

record Commitment =
  cm_Txs :: "Tx list"
  cm_UpdatedRoot :: ByteArray
  cm_BatchType :: u64
  cm_AggregatedSignature :: bytes

text \<open>\<open>core/tokenRegistry.go\<close>.\<close>

record Token =
  tk_Address :: string
  tk_TokenID :: u64

text \<open>The zero values \<open>var x T\<close> starts from.\<close>

definition zero_UserState :: UserState where
  "zero_UserState = \<lparr>us_AccountID = 0, us_Data = [], us_Path = [], us_Status = 0, us_Type = 0,
     us_Hash = [], us_Level = 0, us_CreatedByDepositSubTree = []\<rparr>"

definition zero_Account :: Account where
  "zero_Account = \<lparr>acc_ID = 0, acc_PublicKey = [], acc_Path = [], acc_Type = 0, acc_Hash = [],
     acc_Level = 0\<rparr>"

definition zero_Tx :: Tx where
  "zero_Tx = \<lparr>db_ID = [], db_CreatedAt = 0, db_UpdatedAt = 0, db_DeletedAt = None, tx_To = 0,
     tx_From = 0, tx_Data = [], tx_Signature = [], tx_TxHash = [], tx_Status = 0, tx_Type = 0\<rparr>"

definition zero_Params :: Params where
  "zero_Params = \<lparr>db_ID = [], db_CreatedAt = 0, db_UpdatedAt = 0, db_DeletedAt = None,
     pm_StakeAmount = 0, pm_MaxDepth = 0, pm_MaxDepositSubTreeHeight = 0, pm_FinalisationTime = 0\<rparr>"

definition zero_SyncStatus :: SyncStatus where
  "zero_SyncStatus = \<lparr>ss_ID = [], ss_LastEthBlockRecorded = 0, ss_LastBatchRecorded = 0\<rparr>"

definition zero_Batch :: Batch where
  "zero_Batch = \<lparr>bt_BatchID = 0, bt_StateRoot = [], bt_Committer = [], bt_StakeAmount = 0,
     bt_FinalisesOn = 0, bt_SubmissionHash = [], bt_TransactionsIncluded = [], bt_BatchType = 0,
     bt_Status = 0\<rparr>"

lemmas zero_structs = zero_UserState_def zero_Account_def zero_Tx_def zero_Params_def
  zero_SyncStatus_def zero_Batch_def

end
