(* ===== verification/Gorm.thy ===== *)
theory Gorm
  imports Data_Model "HOL-Library.Multiset"
begin

text \<open>
  The database as the repository sees it.  All of \<open>core\<close> works through the ORM
  \<open>jinzhu/gorm\<close> on MySQL, which is not part of the repository: it is a parameter here.
  A \<open>table\<close> holds, for one model struct, the calls the repository makes, as functions
  of an unknown world state; a \<open>gorm\<close> handle holds one \<open>table\<close> per model.  What gorm
  documents of these calls is the predicate \<open>gorm_ok\<close>, which theorems assume
  of the handle; it speaks of the rows of each table through a view of the world state
  and only while the database is up, so that any call may still fail.

  The in-memory tables of \<open>Gorm_Reference\<close> satisfy \<open>gorm_ok\<close>; witnesses run on them.
\<close>

section \<open>The calls\<close>

text \<open>
  A condition of a \<open>Where\<close> is the predicate on rows that it denotes; \<open>Find\<close> into a
  slice is \<open>t_find_all\<close> and into a struct \<open>t_find_one\<close>.  \<open>t_updates m c v\<close> is
  \<open>Model(&m).Where(c).Updates(v)\<close>; \<open>t_update_cols c f\<close> writes named columns of the rows
  that satisfy \<open>c\<close>, \<open>t_update_model m f\<close> those of the row of the model value \<open>m\<close>;
  \<open>t_update_bare v\<close> is \<open>Update(v)\<close> with neither; \<open>t_first_raw\<close> is \<open>First(&x, text)\<close>,
  where gorm takes the text as an SQL condition, and \<open>t_find_col\<close> a \<open>Find\<close> by a column
  that the struct does not have.
\<close>

record ('s, 'r) table =
  t_find_all :: "('r \<Rightarrow> bool) \<Rightarrow> 's \<Rightarrow> go_error + 'r list"
  t_find_one :: "('r \<Rightarrow> bool) \<Rightarrow> 's \<Rightarrow> go_error + 'r"
  t_first :: "('r \<Rightarrow> bool) \<Rightarrow> 's \<Rightarrow> go_error + 'r"
  t_first_desc :: "('r \<Rightarrow> nat) \<Rightarrow> 's \<Rightarrow> go_error + 'r"
  t_first_raw :: "string \<Rightarrow> 's \<Rightarrow> go_error + 'r"
  t_find_col :: "string \<Rightarrow> u64 \<Rightarrow> 's \<Rightarrow> go_error + 'r"
  t_limit :: "u64 \<Rightarrow> ('r \<Rightarrow> int) option \<Rightarrow> ('r \<Rightarrow> bool) \<Rightarrow> 's \<Rightarrow> go_error + 'r list"
  t_count :: "('r \<Rightarrow> bool) \<Rightarrow> 's \<Rightarrow> go_error + u64"
  t_struct_cond :: "'r \<Rightarrow> 'r \<Rightarrow> bool"
  t_create :: "'r \<Rightarrow> 's \<Rightarrow> go_error option \<times> 's"
  t_bulk_insert :: "'r list \<Rightarrow> nat \<Rightarrow> 's \<Rightarrow> go_error option \<times> 's"
  t_updates :: "'r \<Rightarrow> ('r \<Rightarrow> bool) \<Rightarrow> 'r \<Rightarrow> 's \<Rightarrow> go_error option \<times> 's"
  t_update_cols :: "('r \<Rightarrow> bool) \<Rightarrow> ('r \<Rightarrow> 'r) \<Rightarrow> 's \<Rightarrow> go_error option \<times> 's"
  t_update_model :: "'r \<Rightarrow> ('r \<Rightarrow> 'r) \<Rightarrow> 's \<Rightarrow> go_error option \<times> 's"
  t_update_bare :: "'r \<Rightarrow> 's \<Rightarrow> go_error option \<times> 's"
  t_delete :: "('r \<Rightarrow> bool) \<Rightarrow> 's \<Rightarrow> go_error option \<times> 's"
  t_assign_first_or_create :: "'r \<Rightarrow> 'r \<Rightarrow> 's \<Rightarrow> go_error option \<times> 's"

record 's gorm =
  g_states :: "('s, UserState) table"
  g_accounts :: "('s, Account) table"
  g_txes :: "('s, Tx) table"
  g_batches :: "('s, Batch) table"
  g_params :: "('s, Params) table"
  g_sync :: "('s, SyncStatus) table"
  g_tokens :: "('s, Token) table"
  g_count_named :: "string \<Rightarrow> 's \<Rightarrow> go_error + int"

definition db_read :: "('s \<Rightarrow> go_error + 'a) \<Rightarrow> ('s, 'a) prog" where
  "db_read f = (\<lambda>s. case f s of Inl e \<Rightarrow> (Err e, s) | Inr a \<Rightarrow> (Ok a, s))"

definition db_write :: "('s \<Rightarrow> go_error option \<times> 's) \<Rightarrow> ('s, unit) prog" where
  "db_write f = (\<lambda>s. case f s of (None, s') \<Rightarrow> (Ok (), s') | (Some e, s') \<Rightarrow> (Err e, s'))"

lemma db_read_Inr: "f s = Inr a \<Longrightarrow> db_read f s = (Ok a, s)"
  by (simp add: db_read_def)

lemma db_read_Inl: "f s = Inl e \<Longrightarrow> db_read f s = (Err e, s)"
  by (simp add: db_read_def)

lemma db_write_None: "f s = (None, s') \<Longrightarrow> db_write f s = (Ok (), s')"
  by (simp add: db_write_def)

lemma reads_only_db_read [simp]: "reads_only (db_read f)"
  by (simp add: reads_only_def db_read_def split: sum.split)

section \<open>What gorm documents\<close>

text \<open>The rows of every table (those not soft-deleted), in insertion order.\<close>

record tables =
  user_states :: "UserState list"
  accounts :: "Account list"
  txes :: "Tx list"
  batches :: "Batch list"
  params :: "Params list"
  sync_statuses :: "SyncStatus list"
  tokens :: "Token list"

text \<open>
  \<open>Updates\<close> with a struct writes ``only those fields that are non blank''; \<open>merge\<close> is that
  for each model.  \<open>Model(&x)\<close> adds the primary key of \<open>x\<close> to the condition when it is
  not blank; \<open>pk\<close> is that condition (for \<open>UserState\<close>, which has no field named \<open>ID\<close>,
  it is void).  \<open>stamp r r'\<close> says that inserting \<open>r\<close> may store \<open>r'\<close>: a blank primary
  key and the columns of \<open>DBModel\<close> are filled on the way.
\<close>

definition merge_us :: "UserState \<Rightarrow> UserState \<Rightarrow> UserState" where
  "merge_us v r = \<lparr>
     us_AccountID = (if us_AccountID v \<noteq> 0 then us_AccountID v else us_AccountID r),
     us_Data = (if us_Data v \<noteq> [] then us_Data v else us_Data r),
     us_Path = (if us_Path v \<noteq> [] then us_Path v else us_Path r),
     us_Status = (if us_Status v \<noteq> 0 then us_Status v else us_Status r),
     us_Type = (if us_Type v \<noteq> 0 then us_Type v else us_Type r),
     us_Hash = (if us_Hash v \<noteq> [] then us_Hash v else us_Hash r),
     us_Level = (if us_Level v \<noteq> 0 then us_Level v else us_Level r),
     us_CreatedByDepositSubTree =
       (if us_CreatedByDepositSubTree v \<noteq> [] then us_CreatedByDepositSubTree v
        else us_CreatedByDepositSubTree r)\<rparr>"

definition merge_acc :: "Account \<Rightarrow> Account \<Rightarrow> Account" where
  "merge_acc v r = \<lparr>
     acc_ID = (if acc_ID v \<noteq> 0 then acc_ID v else acc_ID r),
     acc_PublicKey = (if acc_PublicKey v \<noteq> [] then acc_PublicKey v else acc_PublicKey r),
     acc_Path = (if acc_Path v \<noteq> [] then acc_Path v else acc_Path r),
     acc_Type = (if acc_Type v \<noteq> 0 then acc_Type v else acc_Type r),
     acc_Hash = (if acc_Hash v \<noteq> [] then acc_Hash v else acc_Hash r),
     acc_Level = (if acc_Level v \<noteq> 0 then acc_Level v else acc_Level r)\<rparr>"

definition merge_pm :: "Params \<Rightarrow> Params \<Rightarrow> Params" where
  "merge_pm v r = r\<lparr>
     pm_StakeAmount := (if pm_StakeAmount v \<noteq> 0 then pm_StakeAmount v else pm_StakeAmount r),
     pm_MaxDepth := (if pm_MaxDepth v \<noteq> 0 then pm_MaxDepth v else pm_MaxDepth r),
     pm_MaxDepositSubTreeHeight :=
       (if pm_MaxDepositSubTreeHeight v \<noteq> 0 then pm_MaxDepositSubTreeHeight v
        else pm_MaxDepositSubTreeHeight r),
     pm_FinalisationTime :=
       (if pm_FinalisationTime v \<noteq> 0 then pm_FinalisationTime v else pm_FinalisationTime r)\<rparr>"

definition merge_ss :: "SyncStatus \<Rightarrow> SyncStatus \<Rightarrow> SyncStatus" where
  "merge_ss v r = r\<lparr>
     ss_LastEthBlockRecorded :=
       (if ss_LastEthBlockRecorded v \<noteq> 0 then ss_LastEthBlockRecorded v else ss_LastEthBlockRecorded r),
     ss_LastBatchRecorded :=
       (if ss_LastBatchRecorded v \<noteq> 0 then ss_LastBatchRecorded v else ss_LastBatchRecorded r)\<rparr>"

text \<open>
  The documented behaviour of the calls on one table, while the database is \<open>up\<close>.  The rows
  of a \<open>Find\<close> without \<open>ORDER BY\<close> come in any order.
\<close>

definition find_ok ::
  "('s, 'r) table \<Rightarrow> ('d \<Rightarrow> 'r list) \<Rightarrow> ('s \<Rightarrow> 'd) \<Rightarrow> ('s \<Rightarrow> bool) \<Rightarrow> bool" where
  "find_ok T get view up \<longleftrightarrow> (\<forall>s c. up s \<longrightarrow>
     (\<exists>ys. t_find_all T c s = Inr ys \<and> mset ys = mset (filter c (get (view s)))) \<and>
     (\<forall>r. filter c (get (view s)) = [r] \<longrightarrow> t_find_one T c s = Inr r) \<and>
     (filter c (get (view s)) = [] \<longrightarrow> t_find_one T c s = Inl RecordNotFound))"

text \<open>
  What the builders of the trees and \<open>FinaliseDeposits\<close> rely on beyond that, for the tables
  \<open>user_states\<close> and \<open>accounts\<close>: a scan gives the rows in the order in which they were inserted.
  SQL does not promise it; InnoDB keeps the rows of a table without a primary key, and those
  with an auto-increment key, in that order, and the leaves are inserted in the order of their
  paths, so that the index on \<open>path\<close> gives the same.
\<close>

definition scan_ok ::
  "('s, 'r) table \<Rightarrow> ('d \<Rightarrow> 'r list) \<Rightarrow> ('s \<Rightarrow> 'd) \<Rightarrow> ('s \<Rightarrow> bool) \<Rightarrow> bool" where
  "scan_ok T get view up \<longleftrightarrow> (\<forall>s c. up s \<longrightarrow> t_find_all T c s = Inr (filter c (get (view s))))"

definition first_ok ::
  "('s, 'r) table \<Rightarrow> ('d \<Rightarrow> 'r list) \<Rightarrow> ('s \<Rightarrow> 'd) \<Rightarrow> ('s \<Rightarrow> bool) \<Rightarrow> bool" where
  "first_ok T get view up \<longleftrightarrow> (\<forall>s c. up s \<longrightarrow>
     (filter c (get (view s)) = [] \<longrightarrow> t_first T c s = Inl RecordNotFound) \<and>
     (filter c (get (view s)) \<noteq> [] \<longrightarrow>
        (\<exists>r. t_first T c s = Inr r \<and> r \<in> set (filter c (get (view s))))))"

text \<open>\<open>Order("k desc").First(&x)\<close>.\<close>

definition first_desc_ok ::
  "('s, 'r) table \<Rightarrow> ('d \<Rightarrow> 'r list) \<Rightarrow> ('s \<Rightarrow> 'd) \<Rightarrow> ('s \<Rightarrow> bool) \<Rightarrow> bool" where
  "first_desc_ok T get view up \<longleftrightarrow> (\<forall>s k. up s \<longrightarrow>
     (get (view s) = [] \<longrightarrow> t_first_desc T k s = Inl RecordNotFound) \<and>
     (get (view s) \<noteq> [] \<longrightarrow>
        (\<exists>r. t_first_desc T k s = Inr r \<and> r \<in> set (get (view s)) \<and>
           (\<forall>x \<in> set (get (view s)). k x \<le> k r))))"

definition count_ok ::
  "('s, 'r) table \<Rightarrow> ('d \<Rightarrow> 'r list) \<Rightarrow> ('s \<Rightarrow> 'd) \<Rightarrow> ('s \<Rightarrow> bool) \<Rightarrow> bool" where
  "count_ok T get view up \<longleftrightarrow> (\<forall>s c. up s \<longrightarrow>
     t_count T c s = Inr (of_nat (length (filter c (get (view s))))))"

text \<open>\<open>Limit(n).Order(k).Where(c).Find(&xs)\<close>: rows with equal keys come in any order.\<close>

definition limit_ok ::
  "('s, 'r) table \<Rightarrow> ('d \<Rightarrow> 'r list) \<Rightarrow> ('s \<Rightarrow> 'd) \<Rightarrow> ('s \<Rightarrow> bool) \<Rightarrow> bool" where
  "limit_ok T get view up \<longleftrightarrow> (\<forall>s c n k. up s \<longrightarrow>
     (\<exists>ys. mset ys = mset (filter c (get (view s))) \<and>
       (case k of None \<Rightarrow> True | Some f \<Rightarrow> sorted (map f ys)) \<and>
       t_limit T n k c s = Inr (take (unat n) ys)))"

text \<open>
  An insert stores the row.  The laws of the writes are those of a schema whose columns hold
  the values: MySQL refuses a value that is too long for its column, such as more than 255 bytes
  for the data of a state (the contract encodes one in 128).
\<close>

definition create_ok ::
  "('s, 'r) table \<Rightarrow> (('r list \<Rightarrow> 'r list) \<Rightarrow> 'd \<Rightarrow> 'd) \<Rightarrow> ('s \<Rightarrow> 'd) \<Rightarrow> ('s \<Rightarrow> bool) \<Rightarrow>
   ('r \<Rightarrow> 'r \<Rightarrow> bool) \<Rightarrow> bool" where
  "create_ok T put view up stamp \<longleftrightarrow> (\<forall>s r. up s \<longrightarrow>
     (\<exists>s' r'. t_create T r s = (None, s') \<and> up s' \<and> stamp r r' \<and>
        view s' = put (\<lambda>rs. rs @ [r']) (view s)))"

definition bulk_ok ::
  "('s, 'r) table \<Rightarrow> (('r list \<Rightarrow> 'r list) \<Rightarrow> 'd \<Rightarrow> 'd) \<Rightarrow> ('s \<Rightarrow> 'd) \<Rightarrow> ('s \<Rightarrow> bool) \<Rightarrow>
   ('r \<Rightarrow> 'r \<Rightarrow> bool) \<Rightarrow> bool" where
  "bulk_ok T put view up stamp \<longleftrightarrow> (\<forall>s xs n. up s \<longrightarrow>
     (\<exists>s' ys. t_bulk_insert T xs n s = (None, s') \<and> up s' \<and> list_all2 stamp xs ys \<and>
        view s' = put (\<lambda>rs. rs @ ys) (view s)))"

definition updates_ok ::
  "('s, 'r) table \<Rightarrow> (('r list \<Rightarrow> 'r list) \<Rightarrow> 'd \<Rightarrow> 'd) \<Rightarrow> ('s \<Rightarrow> 'd) \<Rightarrow> ('s \<Rightarrow> bool) \<Rightarrow>
   ('r \<Rightarrow> 'r \<Rightarrow> bool) \<Rightarrow> ('r \<Rightarrow> 'r \<Rightarrow> 'r) \<Rightarrow> bool" where
  "updates_ok T put view up pk merge \<longleftrightarrow> (\<forall>s m c v. up s \<longrightarrow>
     (\<exists>s'. t_updates T m c v s = (None, s') \<and> up s' \<and>
        view s' = put (map (\<lambda>r. if c r \<and> pk m r then merge v r else r)) (view s)))"

text \<open>
  \<open>Table("t").Where(c).Updates(map)\<close> writes the named columns; an update through a model
  value also sets the column \<open>UpdatedAt\<close>, which is what \<open>touch r r'\<close> allows for.
\<close>

definition cols_ok ::
  "('s, 'r) table \<Rightarrow> (('r list \<Rightarrow> 'r list) \<Rightarrow> 'd \<Rightarrow> 'd) \<Rightarrow> ('s \<Rightarrow> 'd) \<Rightarrow> ('s \<Rightarrow> bool) \<Rightarrow>
   ('r \<Rightarrow> 'r \<Rightarrow> bool) \<Rightarrow> ('r \<Rightarrow> 'r \<Rightarrow> bool) \<Rightarrow> bool" where
  "cols_ok T put view up pk touch \<longleftrightarrow> (\<forall>s f. up s \<longrightarrow>
     (\<forall>c. \<exists>s'. t_update_cols T c f s = (None, s') \<and> up s' \<and>
        view s' = put (map (\<lambda>r. if c r then f r else r)) (view s)) \<and>
     (\<forall>m. \<exists>s' g. t_update_model T m f s = (None, s') \<and> up s' \<and> (\<forall>r. touch r (g r)) \<and>
        view s' = put (map (\<lambda>r. if pk m r then g (f r) else r)) (view s)))"

definition delete_ok ::
  "('s, 'r) table \<Rightarrow> (('r list \<Rightarrow> 'r list) \<Rightarrow> 'd \<Rightarrow> 'd) \<Rightarrow> ('s \<Rightarrow> 'd) \<Rightarrow> ('s \<Rightarrow> bool) \<Rightarrow> bool" where
  "delete_ok T put view up \<longleftrightarrow> (\<forall>s c. up s \<longrightarrow>
     (\<exists>s'. t_delete T c s = (None, s') \<and> up s' \<and>
        view s' = put (filter (\<lambda>r. \<not> c r)) (view s)))"

text \<open>
  \<open>Assign(a).FirstOrCreate(&out)\<close> on a table with at most one row: the row is updated with
  \<open>a\<close>, or created from \<open>out\<close> and \<open>a\<close>.
\<close>

definition assign_ok ::
  "('s, 'r) table \<Rightarrow> ('d \<Rightarrow> 'r list) \<Rightarrow> (('r list \<Rightarrow> 'r list) \<Rightarrow> 'd \<Rightarrow> 'd) \<Rightarrow> ('s \<Rightarrow> 'd) \<Rightarrow>
   ('s \<Rightarrow> bool) \<Rightarrow> ('r \<Rightarrow> 'r \<Rightarrow> 'r) \<Rightarrow> ('r \<Rightarrow> 'r \<Rightarrow> bool) \<Rightarrow> ('r \<Rightarrow> 'r \<Rightarrow> bool) \<Rightarrow> bool" where
  "assign_ok T get put view up merge stamp touch \<longleftrightarrow> (\<forall>s a out. up s \<longrightarrow>
     (get (view s) = [] \<longrightarrow> (\<exists>s' r'. t_assign_first_or_create T a out s = (None, s') \<and> up s' \<and>
        stamp (merge a out) r' \<and> view s' = put (\<lambda>_. [r']) (view s))) \<and>
     (\<forall>r. get (view s) = [r] \<longrightarrow> (\<exists>s' r'. t_assign_first_or_create T a out s = (None, s') \<and> up s' \<and>
        touch (merge a r) r' \<and> view s' = put (\<lambda>_. [r']) (view s))))"

definition pk_acc :: "Account \<Rightarrow> Account \<Rightarrow> bool" where
  "pk_acc m r \<longleftrightarrow> acc_ID m = 0 \<or> acc_ID m = acc_ID r"

definition pk_tx :: "Tx \<Rightarrow> Tx \<Rightarrow> bool" where
  "pk_tx m r \<longleftrightarrow> db_ID m = [] \<or> db_ID m = db_ID r"

definition touch :: "'a DBModel_scheme \<Rightarrow> 'a DBModel_scheme \<Rightarrow> bool" where
  "touch r r' \<longleftrightarrow> (\<exists>u. r' = r\<lparr>db_UpdatedAt := u\<rparr>)"

definition stamp_acc :: "Account \<Rightarrow> Account \<Rightarrow> bool" where
  "stamp_acc r r' \<longleftrightarrow> (if acc_ID r = 0 then \<exists>n. r' = r\<lparr>acc_ID := n\<rparr> else r' = r)"

definition stamp_pm :: "Params \<Rightarrow> Params \<Rightarrow> bool" where
  "stamp_pm r r' \<longleftrightarrow> (\<exists>i t u. r' = r\<lparr>db_ID := i, db_CreatedAt := t, db_UpdatedAt := u\<rparr>)"

definition stamp_tx :: "Tx \<Rightarrow> Tx \<Rightarrow> bool" where
  "stamp_tx r r' \<longleftrightarrow> (\<exists>i t u. r' = r\<lparr>db_ID := i, db_CreatedAt := t, db_UpdatedAt := u\<rparr>)"

definition stamp_ss :: "SyncStatus \<Rightarrow> SyncStatus \<Rightarrow> bool" where
  "stamp_ss r r' \<longleftrightarrow> (\<exists>i. r' = r\<lparr>ss_ID := i\<rparr> \<and> (ss_ID r \<noteq> [] \<longrightarrow> i = ss_ID r))"

text \<open>
  The column \<open>Data\<close> of a state has the default \<open>0\<close>, which is stored in place of a nil slice (a nil
  and an empty slice are the same list here).
\<close>

definition stamp_us :: "UserState \<Rightarrow> UserState \<Rightarrow> bool" where
  "stamp_us r r' \<longleftrightarrow> r' = r \<or> us_Data r = [] \<and> r' = r\<lparr>us_Data := [48]\<rparr>"

text \<open>\<open>Where(&Tx{..})\<close>: only the non-blank fields of the struct take part in the condition.\<close>

definition tx_struct_cond :: "Tx \<Rightarrow> Tx \<Rightarrow> bool" where
  "tx_struct_cond v r \<longleftrightarrow>
     (tx_To v = 0 \<or> tx_To r = tx_To v) \<and> (tx_From v = 0 \<or> tx_From r = tx_From v) \<and>
     (tx_Data v = [] \<or> tx_Data r = tx_Data v) \<and>
     (tx_Signature v = [] \<or> tx_Signature r = tx_Signature v) \<and>
     (tx_TxHash v = [] \<or> tx_TxHash r = tx_TxHash v) \<and>
     (tx_Status v = 0 \<or> tx_Status r = tx_Status v) \<and> (tx_Type v = 0 \<or> tx_Type r = tx_Type v)"

text \<open>The laws of a handle, table by table, each as far as the repository uses the table.\<close>

definition states_ok :: "'s gorm \<Rightarrow> ('s \<Rightarrow> tables) \<Rightarrow> ('s \<Rightarrow> bool) \<Rightarrow> bool" where
  "states_ok G view up \<longleftrightarrow>
     find_ok (g_states G) user_states view up \<and> scan_ok (g_states G) user_states view up \<and>
     first_ok (g_states G) user_states view up \<and>
     limit_ok (g_states G) user_states view up \<and>
     create_ok (g_states G) user_states_update view up stamp_us \<and>
     bulk_ok (g_states G) user_states_update view up stamp_us \<and>
     updates_ok (g_states G) user_states_update view up (\<lambda>m r. True) merge_us \<and>
     delete_ok (g_states G) user_states_update view up"

text \<open>
  The primary key of \<open>accounts\<close> is unique: a row goes in when its key is new, or blank
  and then filled in by the database.
\<close>

definition acc_create_ok :: "'s gorm \<Rightarrow> ('s \<Rightarrow> tables) \<Rightarrow> ('s \<Rightarrow> bool) \<Rightarrow> bool" where
  "acc_create_ok G view up \<longleftrightarrow> (\<forall>s r. up s \<longrightarrow>
     acc_ID r = 0 \<or> acc_ID r \<notin> acc_ID ` set (accounts (view s)) \<longrightarrow>
     (\<exists>s' r'. t_create (g_accounts G) r s = (None, s') \<and> up s' \<and> stamp_acc r r' \<and>
        view s' = accounts_update (\<lambda>rs. rs @ [r']) (view s)))"

definition acc_bulk_ok :: "'s gorm \<Rightarrow> ('s \<Rightarrow> tables) \<Rightarrow> ('s \<Rightarrow> bool) \<Rightarrow> bool" where
  "acc_bulk_ok G view up \<longleftrightarrow> (\<forall>s xs n. up s \<longrightarrow> (\<forall>x \<in> set xs. acc_ID x = 0) \<longrightarrow>
     (\<exists>s' ys. t_bulk_insert (g_accounts G) xs n s = (None, s') \<and> up s' \<and> list_all2 stamp_acc xs ys \<and>
        view s' = accounts_update (\<lambda>rs. rs @ ys) (view s)))"

definition accounts_ok :: "'s gorm \<Rightarrow> ('s \<Rightarrow> tables) \<Rightarrow> ('s \<Rightarrow> bool) \<Rightarrow> bool" where
  "accounts_ok G view up \<longleftrightarrow>
     find_ok (g_accounts G) accounts view up \<and> scan_ok (g_accounts G) accounts view up \<and>
     acc_create_ok G view up \<and> acc_bulk_ok G view up \<and>
     updates_ok (g_accounts G) accounts_update view up pk_acc merge_acc"

definition txes_ok :: "'s gorm \<Rightarrow> ('s \<Rightarrow> tables) \<Rightarrow> ('s \<Rightarrow> bool) \<Rightarrow> bool" where
  "txes_ok G view up \<longleftrightarrow>
     t_struct_cond (g_txes G) = tx_struct_cond \<and>
     limit_ok (g_txes G) txes view up \<and> count_ok (g_txes G) txes view up \<and>
     create_ok (g_txes G) txes_update view up stamp_tx \<and>
     cols_ok (g_txes G) txes_update view up pk_tx touch"

definition batches_ok :: "'s gorm \<Rightarrow> ('s \<Rightarrow> tables) \<Rightarrow> ('s \<Rightarrow> bool) \<Rightarrow> bool" where
  "batches_ok G view up \<longleftrightarrow>
     find_ok (g_batches G) batches view up \<and> first_desc_ok (g_batches G) batches view up \<and>
     create_ok (g_batches G) batches_update view up (\<lambda>r r'. r' = r)"

definition params_ok :: "'s gorm \<Rightarrow> ('s \<Rightarrow> tables) \<Rightarrow> ('s \<Rightarrow> bool) \<Rightarrow> bool" where
  "params_ok G view up \<longleftrightarrow>
     first_ok (g_params G) params view up \<and>
     assign_ok (g_params G) params params_update view up merge_pm stamp_pm touch"

definition sync_ok :: "'s gorm \<Rightarrow> ('s \<Rightarrow> tables) \<Rightarrow> ('s \<Rightarrow> bool) \<Rightarrow> bool" where
  "sync_ok G view up \<longleftrightarrow>
     first_ok (g_sync G) sync_statuses view up \<and>
     create_ok (g_sync G) sync_statuses_update view up stamp_ss \<and>
     updates_ok (g_sync G) sync_statuses_update view up (\<lambda>m r. True) merge_ss"

definition tokens_ok :: "'s gorm \<Rightarrow> ('s \<Rightarrow> tables) \<Rightarrow> ('s \<Rightarrow> bool) \<Rightarrow> bool" where
  "tokens_ok G view up \<longleftrightarrow>
     first_ok (g_tokens G) tokens view up \<and>
     create_ok (g_tokens G) tokens_update view up (\<lambda>r r'. r' = r)"

definition gorm_ok :: "'s gorm \<Rightarrow> ('s \<Rightarrow> tables) \<Rightarrow> ('s \<Rightarrow> bool) \<Rightarrow> bool" where
  "gorm_ok G view up \<longleftrightarrow> states_ok G view up \<and> accounts_ok G view up \<and> txes_ok G view up \<and>
     batches_ok G view up \<and> params_ok G view up \<and> sync_ok G view up \<and> tokens_ok G view up"

section \<open>The laws as rules\<close>

lemma scan_run:
  "scan_ok T get view up \<Longrightarrow> up s \<Longrightarrow> db_read (t_find_all T c) s = (Ok (filter c (get (view s))), s)"
  by (simp add: scan_ok_def db_read_def)

lemma find_one_run:
  "find_ok T get view up \<Longrightarrow> up s \<Longrightarrow> filter c (get (view s)) = [r] \<Longrightarrow> t_find_one T c s = Inr r"
  by (simp add: find_ok_def)

lemma find_one_none:
  "find_ok T get view up \<Longrightarrow> up s \<Longrightarrow> filter c (get (view s)) = [] \<Longrightarrow> t_find_one T c s = Inl RecordNotFound"
  by (simp add: find_ok_def)

lemma first_none:
  "first_ok T get view up \<Longrightarrow> up s \<Longrightarrow> filter c (get (view s)) = [] \<Longrightarrow> t_first T c s = Inl RecordNotFound"
  by (simp add: first_ok_def)

lemma first_some:
  assumes "first_ok T get view up" "up s" "filter c (get (view s)) \<noteq> []"
  obtains r where "t_first T c s = Inr r" "r \<in> set (filter c (get (view s)))"
  using assms unfolding first_ok_def by blast

lemma first_single:
  assumes "first_ok T get view up" "up s" "filter c (get (view s)) = [r]"
  shows "t_first T c s = Inr r"
proof -
  have "filter c (get (view s)) \<noteq> []" using assms(3) by simp
  then obtain r' where "t_first T c s = Inr r'" "r' \<in> set (filter c (get (view s)))"
    by (rule first_some [OF assms(1,2)])
  with assms(3) show ?thesis by (simp only: list.set insert_iff empty_iff simp_thms)
qed

lemma create_run:
  assumes "create_ok T put view up stamp" "up s"
  shows "\<exists>s' r'. db_write (t_create T r) s = (Ok (), s') \<and> up s' \<and> stamp r r' \<and>
    view s' = put (\<lambda>rs. rs @ [r']) (view s)"
proof -
  from assms obtain s' r' where "t_create T r s = (None, s')" "up s'" "stamp r r'"
    "view s' = put (\<lambda>rs. rs @ [r']) (view s)" unfolding create_ok_def by blast
  then show ?thesis by (intro exI [of _ s'] exI [of _ r']) (simp add: db_write_def)
qed

lemma bulk_run:
  assumes "bulk_ok T put view up stamp" "up s"
  shows "\<exists>s' ys. db_write (t_bulk_insert T xs n) s = (Ok (), s') \<and> up s' \<and> list_all2 stamp xs ys \<and>
    view s' = put (\<lambda>rs. rs @ ys) (view s)"
proof -
  from assms obtain s' ys where "t_bulk_insert T xs n s = (None, s')" "up s'" "list_all2 stamp xs ys"
    "view s' = put (\<lambda>rs. rs @ ys) (view s)" unfolding bulk_ok_def by blast
  then show ?thesis by (intro exI [of _ s'] exI [of _ ys]) (simp add: db_write_def)
qed

lemma updates_run:
  assumes "updates_ok T put view up pk merge" "up s"
  shows "\<exists>s'. db_write (t_updates T m c v) s = (Ok (), s') \<and> up s' \<and>
    view s' = put (map (\<lambda>r. if c r \<and> pk m r then merge v r else r)) (view s)"
proof -
  from assms obtain s' where "t_updates T m c v s = (None, s')" "up s'"
    "view s' = put (map (\<lambda>r. if c r \<and> pk m r then merge v r else r)) (view s)"
    unfolding updates_ok_def by blast
  then show ?thesis by (intro exI [of _ s']) (simp add: db_write_def)
qed

lemma cols_run:
  assumes "cols_ok T put view up pk touch" "up s"
  shows "\<exists>s'. db_write (t_update_cols T c f) s = (Ok (), s') \<and> up s' \<and>
    view s' = put (map (\<lambda>r. if c r then f r else r)) (view s)"
proof -
  from assms obtain s' where "t_update_cols T c f s = (None, s')" "up s'"
    "view s' = put (map (\<lambda>r. if c r then f r else r)) (view s)" unfolding cols_ok_def by blast
  then show ?thesis by (intro exI [of _ s']) (simp add: db_write_def)
qed

lemma update_model_run:
  assumes "cols_ok T put view up pk touch" "up s"
  shows "\<exists>s' g. db_write (t_update_model T m f) s = (Ok (), s') \<and> up s' \<and> (\<forall>r. touch r (g r)) \<and>
    view s' = put (map (\<lambda>r. if pk m r then g (f r) else r)) (view s)"
proof -
  from assms obtain s' g where "t_update_model T m f s = (None, s')" "up s'" "\<forall>r. touch r (g r)"
    "view s' = put (map (\<lambda>r. if pk m r then g (f r) else r)) (view s)" unfolding cols_ok_def by blast
  then show ?thesis by (intro exI [of _ s'] exI [of _ g]) (simp add: db_write_def)
qed

lemma acc_create_run:
  assumes "acc_create_ok G view up" "up s" "acc_ID r = 0 \<or> acc_ID r \<notin> acc_ID ` set (accounts (view s))"
  shows "\<exists>s' r'. db_write (t_create (g_accounts G) r) s = (Ok (), s') \<and> up s' \<and> stamp_acc r r' \<and>
    view s' = accounts_update (\<lambda>rs. rs @ [r']) (view s)"
proof -
  from assms obtain s' r' where "t_create (g_accounts G) r s = (None, s')" "up s'" "stamp_acc r r'"
    "view s' = accounts_update (\<lambda>rs. rs @ [r']) (view s)" unfolding acc_create_ok_def by blast
  then show ?thesis by (intro exI [of _ s'] exI [of _ r']) (simp add: db_write_def)
qed

lemma acc_bulk_run:
  assumes "acc_bulk_ok G view up" "up s" "\<forall>x \<in> set xs. acc_ID x = 0"
  shows "\<exists>s' ys. db_write (t_bulk_insert (g_accounts G) xs n) s = (Ok (), s') \<and> up s' \<and>
    list_all2 stamp_acc xs ys \<and> view s' = accounts_update (\<lambda>rs. rs @ ys) (view s)"
proof -
  from assms obtain s' ys where "t_bulk_insert (g_accounts G) xs n s = (None, s')" "up s'"
    "list_all2 stamp_acc xs ys" "view s' = accounts_update (\<lambda>rs. rs @ ys) (view s)"
    unfolding acc_bulk_ok_def by blast
  then show ?thesis by (intro exI [of _ s'] exI [of _ ys]) (simp add: db_write_def)
qed

lemma delete_run:
  assumes "delete_ok T put view up" "up s"
  shows "\<exists>s'. db_write (t_delete T c) s = (Ok (), s') \<and> up s' \<and>
    view s' = put (filter (\<lambda>r. \<not> c r)) (view s)"
proof -
  from assms obtain s' where "t_delete T c s = (None, s')" "up s'"
    "view s' = put (filter (\<lambda>r. \<not> c r)) (view s)" unfolding delete_ok_def by blast
  then show ?thesis by (intro exI [of _ s']) (simp add: db_write_def)
qed

lemma stamp_us_keeps:
  "stamp_us r r' \<Longrightarrow> us_AccountID r' = us_AccountID r \<and> us_Path r' = us_Path r \<and> us_Status r' = us_Status r \<and>
     us_Type r' = us_Type r \<and> us_Hash r' = us_Hash r \<and> us_Level r' = us_Level r \<and>
     us_CreatedByDepositSubTree r' = us_CreatedByDepositSubTree r"
  by (auto simp: stamp_us_def)

lemma stamp_us_data: "us_Data r \<noteq> [] \<Longrightarrow> stamp_us r r' \<longleftrightarrow> r' = r"
  by (simp add: stamp_us_def)

lemmas gorm_laws = gorm_ok_def states_ok_def accounts_ok_def txes_ok_def batches_ok_def
  params_ok_def sync_ok_def tokens_ok_def

lemma gorm_tables_ok:
  assumes "gorm_ok G view up"
  shows gorm_states_find: "find_ok (g_states G) user_states view up"
    and gorm_states_scan: "scan_ok (g_states G) user_states view up"
    and gorm_states_first: "first_ok (g_states G) user_states view up"
    and gorm_states_limit: "limit_ok (g_states G) user_states view up"
    and gorm_states_create: "create_ok (g_states G) user_states_update view up stamp_us"
    and gorm_states_bulk: "bulk_ok (g_states G) user_states_update view up stamp_us"
    and gorm_states_updates: "updates_ok (g_states G) user_states_update view up (\<lambda>m r. True) merge_us"
    and gorm_states_delete: "delete_ok (g_states G) user_states_update view up"
    and gorm_accounts_find: "find_ok (g_accounts G) accounts view up"
    and gorm_accounts_scan: "scan_ok (g_accounts G) accounts view up"
    and gorm_accounts_create: "acc_create_ok G view up"
    and gorm_accounts_bulk: "acc_bulk_ok G view up"
    and gorm_accounts_updates: "updates_ok (g_accounts G) accounts_update view up pk_acc merge_acc"
    and gorm_txes_struct_cond: "t_struct_cond (g_txes G) = tx_struct_cond"
    and gorm_txes_limit: "limit_ok (g_txes G) txes view up"
    and gorm_txes_count: "count_ok (g_txes G) txes view up"
    and gorm_txes_create: "create_ok (g_txes G) txes_update view up stamp_tx"
    and gorm_txes_cols: "cols_ok (g_txes G) txes_update view up pk_tx touch"
    and gorm_batches_find: "find_ok (g_batches G) batches view up"
    and gorm_batches_first_desc: "first_desc_ok (g_batches G) batches view up"
    and gorm_batches_create: "create_ok (g_batches G) batches_update view up (\<lambda>r r'. r' = r)"
    and gorm_params_first: "first_ok (g_params G) params view up"
    and gorm_params_assign: "assign_ok (g_params G) params params_update view up merge_pm stamp_pm touch"
    and gorm_sync_first: "first_ok (g_sync G) sync_statuses view up"
    and gorm_sync_create: "create_ok (g_sync G) sync_statuses_update view up stamp_ss"
    and gorm_sync_updates: "updates_ok (g_sync G) sync_statuses_update view up (\<lambda>m r. True) merge_ss"
    and gorm_tokens_first: "first_ok (g_tokens G) tokens view up"
    and gorm_tokens_create: "create_ok (g_tokens G) tokens_update view up (\<lambda>r r'. r' = r)"
  using assms by (simp_all add: gorm_laws)

end
