(* ===== verification/Gorm_Reference.thy ===== *)
theory Gorm_Reference
  imports Gorm
begin

text \<open>
  A database in memory: the world state is the rows of the seven tables, and every call is
  carried out on them.  It shows that the laws of \<open>gorm_ok\<close> can be met, and it is the
  database on which the witnesses run the modelled program.
\<close>

definition mem_read :: "('r list \<Rightarrow> 'a option) \<Rightarrow> ('d \<Rightarrow> 'r list) \<Rightarrow> 'd \<Rightarrow> go_error + 'a" where
  "mem_read f get d = (case f (get d) of None \<Rightarrow> Inl RecordNotFound | Some a \<Rightarrow> Inr a)"

definition head_opt :: "'r list \<Rightarrow> 'r option" where
  "head_opt xs = (case xs of [] \<Rightarrow> None | x # _ \<Rightarrow> Some x)"

fun max_by :: "('r \<Rightarrow> nat) \<Rightarrow> 'r list \<Rightarrow> 'r option" where
  "max_by k [] = None"
| "max_by k (x # xs) = (case max_by k xs of None \<Rightarrow> Some x | Some y \<Rightarrow> if k y \<le> k x then Some x else Some y)"

definition mem_table ::
  "('d \<Rightarrow> 'r list) \<Rightarrow> (('r list \<Rightarrow> 'r list) \<Rightarrow> 'd \<Rightarrow> 'd) \<Rightarrow> ('r \<Rightarrow> 'r \<Rightarrow> bool) \<Rightarrow>
   ('r \<Rightarrow> 'r \<Rightarrow> 'r) \<Rightarrow> ('r \<Rightarrow> 'r) \<Rightarrow> ('r \<Rightarrow> 'r \<Rightarrow> bool) \<Rightarrow> ('d, 'r) table" where
  "mem_table get put pk merge stamp cond = \<lparr>
     t_find_all = (\<lambda>c d. Inr (filter c (get d))),
     t_find_one = (\<lambda>c. mem_read (\<lambda>rs. head_opt (rev (filter c rs))) get),
     t_first = (\<lambda>c. mem_read (\<lambda>rs. head_opt (filter c rs)) get),
     t_first_desc = (\<lambda>k. mem_read (max_by k) get),
     t_first_raw = (\<lambda>_ d. Inl (DriverError ''bad condition'')),
     t_find_col = (\<lambda>_ _ d. Inl (DriverError ''unknown column'')),
     t_limit = (\<lambda>n k c d. Inr (take (unat n)
        (case k of None \<Rightarrow> filter c (get d) | Some f \<Rightarrow> sort_key f (filter c (get d))))),
     t_count = (\<lambda>c d. Inr (of_nat (length (filter c (get d))))),
     t_struct_cond = cond,
     t_create = (\<lambda>r d. (None, put (\<lambda>rs. rs @ [stamp r]) d)),
     t_bulk_insert = (\<lambda>xs _ d. (None, put (\<lambda>rs. rs @ map stamp xs) d)),
     t_updates = (\<lambda>m c v d. (None, put (map (\<lambda>r. if c r \<and> pk m r then merge v r else r)) d)),
     t_update_cols = (\<lambda>c f d. (None, put (map (\<lambda>r. if c r then f r else r)) d)),
     t_update_model = (\<lambda>m f d. (None, put (map (\<lambda>r. if pk m r then f r else r)) d)),
     t_update_bare = (\<lambda>_ d. (Some (DriverError ''no table''), d)),
     t_delete = (\<lambda>c d. (None, put (filter (\<lambda>r. \<not> c r)) d)),
     t_assign_first_or_create = (\<lambda>a out d. (None,
        (case get d of [] \<Rightarrow> put (\<lambda>_. [stamp (merge a out)]) d
         | x # _ \<Rightarrow> put (\<lambda>rs. merge a x # tl rs) d)))\<rparr>"

definition mem_gorm :: "tables gorm" where
  "mem_gorm = \<lparr>
     g_states = mem_table user_states user_states_update (\<lambda>m r. True) merge_us (\<lambda>r. r) (\<lambda>_ _. True),
     g_accounts = mem_table accounts accounts_update pk_acc merge_acc (\<lambda>r. r) (\<lambda>_ _. True),
     g_txes = mem_table txes txes_update pk_tx (\<lambda>v r. r) (\<lambda>r. r\<lparr>db_ID := tx_TxHash r\<rparr>) tx_struct_cond,
     g_batches = mem_table batches batches_update (\<lambda>m r. True) (\<lambda>v r. r) (\<lambda>r. r) (\<lambda>_ _. True),
     g_params = mem_table params params_update (\<lambda>m r. True) merge_pm (\<lambda>r. r\<lparr>db_ID := ''p''\<rparr>) (\<lambda>_ _. True),
     g_sync = mem_table sync_statuses sync_statuses_update (\<lambda>m r. True) merge_ss
        (\<lambda>r. if ss_ID r = [] then r\<lparr>ss_ID := ''s''\<rparr> else r) (\<lambda>_ _. True),
     g_tokens = mem_table tokens tokens_update (\<lambda>m r. True) (\<lambda>v r. r) (\<lambda>r. r) (\<lambda>_ _. True),
     g_count_named = (\<lambda>_ _. Inl (DriverError ''no such table''))\<rparr>"


definition empty_tables :: tables where
  "empty_tables = \<lparr>user_states = [], accounts = [], txes = [], batches = [], params = [],
     sync_statuses = [], tokens = []\<rparr>"

lemma head_opt_simps [simp]: "head_opt [] = None" "head_opt (x # xs) = Some x"
  by (simp_all add: head_opt_def)

lemma max_by_None [simp]: "max_by k xs = None \<longleftrightarrow> xs = []"
  by (cases xs) (auto split: option.splits)

lemma max_by_Some: "max_by k xs = Some y \<Longrightarrow> y \<in> set xs \<and> (\<forall>x \<in> set xs. k x \<le> k y)"
  by (induction xs arbitrary: y) (fastforce split: option.splits if_splits)+

lemma mem_find_ok: "find_ok (mem_table get put pk merge st cond) get (\<lambda>d. d) (\<lambda>_. True)"
  by (simp add: find_ok_def mem_table_def mem_read_def)

lemma mem_scan_ok: "scan_ok (mem_table get put pk merge st cond) get (\<lambda>d. d) (\<lambda>_. True)"
  by (simp add: scan_ok_def mem_table_def mem_read_def)

lemma head_opt_in: "xs \<noteq> [] \<Longrightarrow> \<exists>r. head_opt xs = Some r \<and> r \<in> set xs"
  by (cases xs) auto

lemma mem_first_ok: "first_ok (mem_table get put pk merge st cond) get (\<lambda>d. d) (\<lambda>_. True)"
  unfolding first_ok_def
proof (intro allI impI conjI)
  fix s c
  let ?xs = "filter c (get s)" and ?T = "mem_table get put pk merge st cond"
  show "t_first ?T c s = Inl RecordNotFound" if "?xs = []"
    using that by (simp add: mem_table_def mem_read_def)
  show "\<exists>r. t_first ?T c s = Inr r \<and> r \<in> set ?xs" if "?xs \<noteq> []"
  proof -
    from head_opt_in [OF that] obtain r where "head_opt ?xs = Some r" "r \<in> set ?xs" by blast
    then show ?thesis by (intro exI [of _ r]) (simp add: mem_table_def mem_read_def)
  qed
qed

lemma mem_first_desc_ok: "first_desc_ok (mem_table get put pk merge st cond) get (\<lambda>d. d) (\<lambda>_. True)"
  by (auto simp: first_desc_ok_def mem_table_def mem_read_def dest: max_by_Some split: option.splits)

lemma mem_count_ok: "count_ok (mem_table get put pk merge st cond) get (\<lambda>d. d) (\<lambda>_. True)"
  by (simp add: count_ok_def mem_table_def)

lemma mem_limit_ok: "limit_ok (mem_table get put pk merge st cond) get (\<lambda>d. d) (\<lambda>_. True)"
  unfolding limit_ok_def
proof (intro allI impI)
  fix s c n k
  show "\<exists>ys. mset ys = mset (filter c (get s)) \<and>
      (case k of None \<Rightarrow> True | Some f \<Rightarrow> sorted (map f ys)) \<and>
      t_limit (mem_table get put pk merge st cond) n k c s = Inr (take (unat n) ys)"
    by (rule exI [of _ "case k of None \<Rightarrow> filter c (get s) | Some f \<Rightarrow> sort_key f (filter c (get s))"])
      (simp add: mem_table_def split: option.split)
qed

lemma mem_create_ok:
  "(\<And>r. rel r (st r)) \<Longrightarrow> create_ok (mem_table get put pk merge st cond) put (\<lambda>d. d) (\<lambda>_. True) rel"
  by (auto simp: create_ok_def mem_table_def)

lemma mem_bulk_ok:
  "(\<And>r. rel r (st r)) \<Longrightarrow> bulk_ok (mem_table get put pk merge st cond) put (\<lambda>d. d) (\<lambda>_. True) rel"
  by (auto simp: bulk_ok_def mem_table_def list_all2_conv_all_nth intro: exI [of _ "map st _"])

lemma mem_updates_ok: "updates_ok (mem_table get put pk merge st cond) put (\<lambda>d. d) (\<lambda>_. True) pk merge"
  by (simp add: updates_ok_def mem_table_def)

lemma mem_cols_ok:
  assumes "\<And>r. rel r r"
  shows "cols_ok (mem_table get put pk merge st cond) put (\<lambda>d. d) (\<lambda>_. True) pk rel"
  using assms by (auto simp: cols_ok_def mem_table_def intro: exI [of _ "\<lambda>r. r"])

lemma mem_delete_ok: "delete_ok (mem_table get put pk merge st cond) put (\<lambda>d. d) (\<lambda>_. True)"
  by (simp add: delete_ok_def mem_table_def)

lemma mem_assign_ok_params:
  "assign_ok (mem_table params params_update pk merge st cond) params params_update (\<lambda>d. d) (\<lambda>_. True)
     merge (\<lambda>r r'. r' = st r) (=)"
  by (simp add: assign_ok_def mem_table_def)

lemma assign_ok_stamp:
  assumes "assign_ok T get put view up merge st tc" "\<And>r r'. st r r' \<Longrightarrow> st' r r'" "\<And>r r'. tc r r' \<Longrightarrow> tc' r r'"
  shows "assign_ok T get put view up merge st' tc'"
  using assms unfolding assign_ok_def by blast

lemma touch_refl: "touch r r"
proof -
  have "r = r\<lparr>db_UpdatedAt := db_UpdatedAt r\<rparr>" by simp
  then show ?thesis unfolding touch_def by blast
qed

lemmas mem_table_ok = mem_find_ok mem_scan_ok mem_first_ok mem_first_desc_ok mem_count_ok mem_limit_ok
  mem_create_ok mem_bulk_ok mem_updates_ok mem_cols_ok mem_delete_ok

lemma mem_gorm_tables:
  "g_states mem_gorm = mem_table user_states user_states_update (\<lambda>m r. True) merge_us (\<lambda>r. r) (\<lambda>_ _. True)"
  "g_accounts mem_gorm = mem_table accounts accounts_update pk_acc merge_acc (\<lambda>r. r) (\<lambda>_ _. True)"
  "g_txes mem_gorm = mem_table txes txes_update pk_tx (\<lambda>v r. r) (\<lambda>r. r\<lparr>db_ID := tx_TxHash r\<rparr>) tx_struct_cond"
  "g_batches mem_gorm = mem_table batches batches_update (\<lambda>m r. True) (\<lambda>v r. r) (\<lambda>r. r) (\<lambda>_ _. True)"
  "g_params mem_gorm = mem_table params params_update (\<lambda>m r. True) merge_pm (\<lambda>r. r\<lparr>db_ID := ''p''\<rparr>) (\<lambda>_ _. True)"
  "g_sync mem_gorm = mem_table sync_statuses sync_statuses_update (\<lambda>m r. True) merge_ss
     (\<lambda>r. if ss_ID r = [] then r\<lparr>ss_ID := ''s''\<rparr> else r) (\<lambda>_ _. True)"
  "g_tokens mem_gorm = mem_table tokens tokens_update (\<lambda>m r. True) (\<lambda>v r. r) (\<lambda>r. r) (\<lambda>_ _. True)"
  by (simp_all add: mem_gorm_def)

lemma stamps_met:
  "stamp_pm p (p\<lparr>db_ID := i\<rparr>)" "stamp_tx t (t\<lparr>db_ID := i\<rparr>)" "stamp_acc a a" "stamp_us u u"
  "stamp_ss x (if ss_ID x = [] then x\<lparr>ss_ID := i\<rparr> else x)"
proof -
  have "p\<lparr>db_ID := i\<rparr> = p\<lparr>db_ID := i, db_CreatedAt := db_CreatedAt p, db_UpdatedAt := db_UpdatedAt p\<rparr>" by simp
  then show "stamp_pm p (p\<lparr>db_ID := i\<rparr>)" unfolding stamp_pm_def by blast
  have "t\<lparr>db_ID := i\<rparr> = t\<lparr>db_ID := i, db_CreatedAt := db_CreatedAt t, db_UpdatedAt := db_UpdatedAt t\<rparr>" by simp
  then show "stamp_tx t (t\<lparr>db_ID := i\<rparr>)" unfolding stamp_tx_def by blast
  have "a = a\<lparr>acc_ID := acc_ID a\<rparr>" by simp
  then show "stamp_acc a a" unfolding stamp_acc_def by metis
  show "stamp_us u u" by (simp add: stamp_us_def)
  have "(if ss_ID x = [] then x\<lparr>ss_ID := i\<rparr> else x) = x\<lparr>ss_ID := if ss_ID x = [] then i else ss_ID x\<rparr>" by simp
  then show "stamp_ss x (if ss_ID x = [] then x\<lparr>ss_ID := i\<rparr> else x)"
    unfolding stamp_ss_def by (metis (full_types))
qed

lemma mem_gorm_ok: "gorm_ok mem_gorm (\<lambda>d. d) (\<lambda>_. True)"
proof -
  have "states_ok mem_gorm (\<lambda>d. d) (\<lambda>_. True)"
    unfolding states_ok_def mem_gorm_tables
    by (intro conjI; (rule mem_table_ok, (rule stamps_met)?))
  moreover have "accounts_ok mem_gorm (\<lambda>d. d) (\<lambda>_. True)"
    unfolding accounts_ok_def
  proof (intro conjI)
    have "create_ok (g_accounts mem_gorm) accounts_update (\<lambda>d. d) (\<lambda>_. True) stamp_acc"
      "bulk_ok (g_accounts mem_gorm) accounts_update (\<lambda>d. d) (\<lambda>_. True) stamp_acc"
      unfolding mem_gorm_tables by (rule mem_table_ok, rule stamps_met)+
    then show "acc_create_ok mem_gorm (\<lambda>d. d) (\<lambda>_. True)" "acc_bulk_ok mem_gorm (\<lambda>d. d) (\<lambda>_. True)"
      unfolding create_ok_def bulk_ok_def acc_create_ok_def acc_bulk_ok_def by blast+
  qed (unfold mem_gorm_tables, (rule mem_table_ok)+)
  moreover have "txes_ok mem_gorm (\<lambda>d. d) (\<lambda>_. True)"
    unfolding txes_ok_def mem_gorm_tables
    by (intro conjI; (rule mem_table_ok, (rule stamps_met touch_refl)?)?) (simp add: mem_table_def)
  moreover have "batches_ok mem_gorm (\<lambda>d. d) (\<lambda>_. True)"
    unfolding batches_ok_def mem_gorm_tables
    by (intro conjI; (rule mem_table_ok, (rule refl)?))
  moreover have "params_ok mem_gorm (\<lambda>d. d) (\<lambda>_. True)"
    unfolding params_ok_def mem_gorm_tables
    by (rule conjI, rule mem_table_ok, rule assign_ok_stamp [OF mem_assign_ok_params])
      (simp_all add: stamps_met touch_refl)
  moreover have "sync_ok mem_gorm (\<lambda>d. d) (\<lambda>_. True)"
    unfolding sync_ok_def mem_gorm_tables
    by (intro conjI; (rule mem_table_ok, (rule stamps_met)?))
  moreover have "tokens_ok mem_gorm (\<lambda>d. d) (\<lambda>_. True)"
    unfolding tokens_ok_def mem_gorm_tables
    by (intro conjI; (rule mem_table_ok, (rule refl)?))
  ultimately show ?thesis by (simp add: gorm_ok_def)
qed

end
