(* ===== verification/Db_Connection.thy ===== *)
theory Db_Connection
  imports Gorm_Reference
begin

text \<open>
  Connections and transactions.  \<open>core.NewDB\<close> opens a connection of its own, and
  \<open>Begin\<close> gives a handle whose calls stay inside a transaction until \<open>Commit\<close>.  The
  connection is a parameter like the handles of \<open>Gorm\<close>: \<open>conn\<close> holds the calls and
  \<open>conn_ok\<close> what MySQL and gorm document of them.  \<open>view\<close> shows the rows that
  everybody sees, \<open>txv\<close> those that the open transaction sees, \<open>base\<close> the rows as they
  were when it began.
\<close>

record 's conn =
  c_open :: "'s \<Rightarrow> go_error option \<times> 's"
  c_close :: "'s \<Rightarrow> 's"
  c_begin :: "'s \<Rightarrow> go_error option \<times> 's"
  c_commit :: "'s \<Rightarrow> go_error option \<times> 's"
  c_rollback :: "'s \<Rightarrow> 's"
  c_tx :: "'s gorm"

section \<open>\<open>recover\<close> and \<open>defer\<close>\<close>

text \<open>
  \<open>defer func() { if r := recover(); r != nil { rb } }()\<close>: after a panic the function
  returns what its results hold at that point, here \<open>zero\<close>.
\<close>

definition recovering :: "('s \<Rightarrow> 's) \<Rightarrow> 'a res \<Rightarrow> ('s, 'a) prog \<Rightarrow> ('s, 'a) prog" where
  "recovering rb zero m = (\<lambda>s. case m s of
     (Panic p, s') \<Rightarrow> (zero, rb s') | (r, s') \<Rightarrow> (r, s'))"

definition deferring :: "('s \<Rightarrow> 's) \<Rightarrow> ('s, 'a) prog \<Rightarrow> ('s, 'a) prog" where
  "deferring d m = (\<lambda>s. case m s of (r, s') \<Rightarrow> (r, d s'))"

text \<open>\<open>if err != nil { tx.Rollback(); return err }\<close>\<close>

definition rollbackOnErr :: "('s \<Rightarrow> 's) \<Rightarrow> ('s, 'a) prog \<Rightarrow> ('s, 'a) prog" where
  "rollbackOnErr rb m = (\<lambda>s. case m s of (Err e, s') \<Rightarrow> (Err e, rb s') | (r, s') \<Rightarrow> (r, s'))"

lemma rollbackOnErr_ok: "m s = (Ok a, s') \<Longrightarrow> rollbackOnErr rb m s = (Ok a, s')"
  by (simp add: rollbackOnErr_def)

lemma keeps_rollbackOnErr [keeps_intros]:
  assumes "keeps f m" "\<And>s. f (rb s) = f s" shows "keeps f (rollbackOnErr rb m)"
  unfolding keeps_def
proof
  fix s
  obtain r s' where m: "m s = (r, s')" by (cases "m s")
  with assms(1) have "f s' = f s" by (rule keepsD)
  with m assms(2) show "f (snd (rollbackOnErr rb m s)) = f s"
    by (cases r) (simp_all add: rollbackOnErr_def)
qed

section \<open>Calls that leave a part of the state alone\<close>

definition table_keeps :: "('s, 'r) table \<Rightarrow> ('s \<Rightarrow> 'b) \<Rightarrow> bool" where
  "table_keeps T f \<longleftrightarrow>
     (\<forall>r s. f (snd (t_create T r s)) = f s) \<and>
     (\<forall>xs n s. f (snd (t_bulk_insert T xs n s)) = f s) \<and>
     (\<forall>m c v s. f (snd (t_updates T m c v s)) = f s) \<and>
     (\<forall>c g s. f (snd (t_update_cols T c g s)) = f s) \<and>
     (\<forall>m g s. f (snd (t_update_model T m g s)) = f s) \<and>
     (\<forall>v s. f (snd (t_update_bare T v s)) = f s) \<and>
     (\<forall>c s. f (snd (t_delete T c s)) = f s) \<and>
     (\<forall>a out s. f (snd (t_assign_first_or_create T a out s)) = f s)"

definition gorm_keeps :: "'s gorm \<Rightarrow> ('s \<Rightarrow> 'b) \<Rightarrow> bool" where
  "gorm_keeps G f \<longleftrightarrow> table_keeps (g_states G) f \<and> table_keeps (g_accounts G) f \<and>
     table_keeps (g_txes G) f \<and> table_keeps (g_batches G) f \<and> table_keeps (g_params G) f \<and>
     table_keeps (g_sync G) f \<and> table_keeps (g_tokens G) f"

lemma keeps_db_read [keeps_intros]: "keeps f (db_read g)"
  by (simp add: keeps_reads)

lemma keeps_lift [keeps_intros]: "keeps f (lift r)" "keeps f (ret a)" "keeps f (fail e)"
  by (simp_all add: keeps_reads)

lemma keeps_db_write [keeps_intros]: "(\<And>s. f (snd (w s)) = f s) \<Longrightarrow> keeps f (db_write w)"
  by (auto simp: keeps_def db_write_def split: prod.split option.split) (metis snd_conv)+

section \<open>What is documented of transactions\<close>

text \<open>
  The table \<open>new\<close> after a commit: it has the transaction's rows where the transaction
  changed the table and is otherwise as it was.  Nothing is said of a table that was
  changed both inside and outside.
\<close>

definition published :: "'a \<Rightarrow> 'a \<Rightarrow> 'a \<Rightarrow> 'a \<Rightarrow> bool" where
  "published base tx cur new \<longleftrightarrow>
     (tx = base \<longrightarrow> new = cur) \<and> (tx \<noteq> base \<and> cur = base \<longrightarrow> new = tx)"

definition published_all :: "tables \<Rightarrow> tables \<Rightarrow> tables \<Rightarrow> tables \<Rightarrow> bool" where
  "published_all b t c n \<longleftrightarrow>
     published (user_states b) (user_states t) (user_states c) (user_states n) \<and>
     published (accounts b) (accounts t) (accounts c) (accounts n) \<and>
     published (txes b) (txes t) (txes c) (txes n) \<and>
     published (batches b) (batches t) (batches c) (batches n) \<and>
     published (params b) (params t) (params c) (params n) \<and>
     published (sync_statuses b) (sync_statuses t) (sync_statuses c) (sync_statuses n) \<and>
     published (tokens b) (tokens t) (tokens c) (tokens n)"

text \<open>
  Isolation, whether or not the calls succeed: what happens inside a transaction, its
  beginning and its rollback are not seen outside.
\<close>

definition isolated :: "'s conn \<Rightarrow> ('s \<Rightarrow> tables) \<Rightarrow> bool" where
  "isolated C view \<longleftrightarrow>
     (\<forall>s. view (snd (c_open C s)) = view s) \<and> (\<forall>s. view (c_close C s) = view s) \<and>
     (\<forall>s. view (snd (c_begin C s)) = view s) \<and> (\<forall>s. view (c_rollback C s) = view s) \<and>
     gorm_keeps (c_tx C) view"

definition conn_ok ::
  "'s conn \<Rightarrow> 's gorm \<Rightarrow> ('s \<Rightarrow> tables) \<Rightarrow> ('s \<Rightarrow> bool) \<Rightarrow> ('s \<Rightarrow> tables) \<Rightarrow> ('s \<Rightarrow> tables) \<Rightarrow>
   ('s \<Rightarrow> bool) \<Rightarrow> bool" where
  "conn_ok C G view up txv base intx \<longleftrightarrow>
     isolated C view \<and> gorm_ok G view up \<and> gorm_ok (c_tx C) txv (\<lambda>s. up s \<and> intx s) \<and>
     gorm_keeps (c_tx C) base \<and> gorm_keeps G txv \<and> gorm_keeps G base \<and> gorm_keeps G intx \<and>
     (\<forall>s. up s \<longrightarrow> (\<exists>s'. c_open C s = (None, s') \<and> up s')) \<and>
     (\<forall>s. up s \<longrightarrow> up (c_close C s)) \<and> (\<forall>s. up s \<longrightarrow> up (c_rollback C s)) \<and>
     (\<forall>s. up s \<longrightarrow> (\<exists>s'. c_begin C s = (None, s') \<and> up s' \<and> intx s' \<and>
        txv s' = view s \<and> base s' = view s)) \<and>
     (\<forall>s. up s \<longrightarrow> intx s \<longrightarrow> (\<exists>s'. c_commit C s = (None, s') \<and> up s' \<and>
        published_all (base s) (txv s) (view s) (view s')))"

text \<open>
  \<open>conns\<close> counts the open connections: \<open>Open\<close> adds one when it succeeds, \<open>Close\<close> takes one away,
  and nothing else changes the number.
\<close>

definition conns_ok :: "'s conn \<Rightarrow> 's gorm \<Rightarrow> ('s \<Rightarrow> nat) \<Rightarrow> bool" where
  "conns_ok C G conns \<longleftrightarrow>
     (\<forall>s. conns (snd (c_open C s)) = (if fst (c_open C s) = None then conns s + 1 else conns s)) \<and>
     (\<forall>s. conns (c_close C s) = conns s - 1) \<and> (\<forall>s. conns (snd (c_begin C s)) = conns s) \<and>
     (\<forall>s. conns (snd (c_commit C s)) = conns s) \<and> (\<forall>s. conns (c_rollback C s) = conns s) \<and>
     gorm_keeps G conns \<and> gorm_keeps (c_tx C) conns"

section \<open>A database in memory with transactions\<close>

text \<open>The calls of a table, carried out on a part of the state.\<close>

definition on_part :: "('s \<Rightarrow> 'd) \<Rightarrow> ('d \<Rightarrow> 's \<Rightarrow> 's) \<Rightarrow> ('d \<Rightarrow> 'e \<times> 'd) \<Rightarrow> 's \<Rightarrow> 'e \<times> 's" where
  "on_part g p w s = (case w (g s) of (e, d) \<Rightarrow> (e, p d s))"

definition lift_table :: "('s \<Rightarrow> 'd) \<Rightarrow> ('d \<Rightarrow> 's \<Rightarrow> 's) \<Rightarrow> ('d, 'r) table \<Rightarrow> ('s, 'r) table" where
  "lift_table g p T = \<lparr>
     t_find_all = (\<lambda>c s. t_find_all T c (g s)), t_find_one = (\<lambda>c s. t_find_one T c (g s)),
     t_first = (\<lambda>c s. t_first T c (g s)), t_first_desc = (\<lambda>k s. t_first_desc T k (g s)),
     t_first_raw = (\<lambda>h s. t_first_raw T h (g s)), t_find_col = (\<lambda>n v s. t_find_col T n v (g s)),
     t_limit = (\<lambda>n k c s. t_limit T n k c (g s)), t_count = (\<lambda>c s. t_count T c (g s)),
     t_struct_cond = t_struct_cond T,
     t_create = (\<lambda>r. on_part g p (t_create T r)),
     t_bulk_insert = (\<lambda>xs n. on_part g p (t_bulk_insert T xs n)),
     t_updates = (\<lambda>m c v. on_part g p (t_updates T m c v)),
     t_update_cols = (\<lambda>c f. on_part g p (t_update_cols T c f)),
     t_update_model = (\<lambda>m f. on_part g p (t_update_model T m f)),
     t_update_bare = (\<lambda>v. on_part g p (t_update_bare T v)),
     t_delete = (\<lambda>c. on_part g p (t_delete T c)),
     t_assign_first_or_create = (\<lambda>a out. on_part g p (t_assign_first_or_create T a out))\<rparr>"

definition lift_gorm :: "('s \<Rightarrow> 'd) \<Rightarrow> ('d \<Rightarrow> 's \<Rightarrow> 's) \<Rightarrow> 'd gorm \<Rightarrow> 's gorm" where
  "lift_gorm g p G = \<lparr>
     g_states = lift_table g p (g_states G), g_accounts = lift_table g p (g_accounts G),
     g_txes = lift_table g p (g_txes G), g_batches = lift_table g p (g_batches G),
     g_params = lift_table g p (g_params G), g_sync = lift_table g p (g_sync G),
     g_tokens = lift_table g p (g_tokens G), g_count_named = (\<lambda>n s. g_count_named G n (g s))\<rparr>"

lemma lift_reads_ok:
  assumes "\<And>s. up' s \<Longrightarrow> up (g s)"
  shows "find_ok T get view up \<Longrightarrow> find_ok (lift_table g p T) get (view \<circ> g) up'"
    and "scan_ok T get view up \<Longrightarrow> scan_ok (lift_table g p T) get (view \<circ> g) up'"
    and "first_ok T get view up \<Longrightarrow> first_ok (lift_table g p T) get (view \<circ> g) up'"
    and "first_desc_ok T get view up \<Longrightarrow> first_desc_ok (lift_table g p T) get (view \<circ> g) up'"
    and "limit_ok T get view up \<Longrightarrow> limit_ok (lift_table g p T) get (view \<circ> g) up'"
    and "count_ok T get view up \<Longrightarrow> count_ok (lift_table g p T) get (view \<circ> g) up'"
  using assms by (simp_all add: find_ok_def scan_ok_def first_ok_def first_desc_ok_def limit_ok_def count_ok_def lift_table_def)

definition part_ok :: "('s \<Rightarrow> 'd) \<Rightarrow> ('d \<Rightarrow> 's \<Rightarrow> 's) \<Rightarrow> ('d \<Rightarrow> bool) \<Rightarrow> ('s \<Rightarrow> bool) \<Rightarrow> bool" where
  "part_ok g p up up' \<longleftrightarrow> (\<forall>d s. g (p d s) = d) \<and> (\<forall>s. up' s \<longrightarrow> up (g s)) \<and>
     (\<forall>d s. up' s \<and> up d \<longrightarrow> up' (p d s))"

lemma on_part_run: "w (g s) = (e, d) \<Longrightarrow> on_part g p w s = (e, p d s)"
  by (simp add: on_part_def)

lemma lift_writes_ok:
  assumes "part_ok g p up up'"
  shows "create_ok T put view up stamp \<Longrightarrow> create_ok (lift_table g p T) put (view \<circ> g) up' stamp"
    and "bulk_ok T put view up stamp \<Longrightarrow> bulk_ok (lift_table g p T) put (view \<circ> g) up' stamp"
    and "updates_ok T put view up pk merge \<Longrightarrow> updates_ok (lift_table g p T) put (view \<circ> g) up' pk merge"
    and "cols_ok T put view up pk tc \<Longrightarrow> cols_ok (lift_table g p T) put (view \<circ> g) up' pk tc"
    and "delete_ok T put view up \<Longrightarrow> delete_ok (lift_table g p T) put (view \<circ> g) up'"
    and "assign_ok T get put view up merge stamp tc \<Longrightarrow>
      assign_ok (lift_table g p T) get put (view \<circ> g) up' merge stamp tc"
proof -
  have gp: "g (p d s) = d" and ug: "up' s \<Longrightarrow> up (g s)" and upp: "up' s \<Longrightarrow> up d \<Longrightarrow> up' (p d s)" for d s
    using assms by (auto simp: part_ok_def)
  show "create_ok (lift_table g p T) put (view \<circ> g) up' stamp" if "create_ok T put view up stamp"
    unfolding create_ok_def
  proof (intro allI impI)
    fix s r assume "up' s"
    from that [unfolded create_ok_def, rule_format, OF ug [OF this], of r] this
    show "\<exists>s' r'. t_create (lift_table g p T) r s = (None, s') \<and> up' s' \<and> stamp r r' \<and>
        (view \<circ> g) s' = put (\<lambda>rs. rs @ [r']) ((view \<circ> g) s)"
      by (force simp: lift_table_def on_part_run gp upp)
  qed
  show "bulk_ok (lift_table g p T) put (view \<circ> g) up' stamp" if "bulk_ok T put view up stamp"
    unfolding bulk_ok_def
  proof (intro allI impI)
    fix s xs n assume "up' s"
    from that [unfolded bulk_ok_def, rule_format, OF ug [OF this], of xs n] this
    show "\<exists>s' ys. t_bulk_insert (lift_table g p T) xs n s = (None, s') \<and> up' s' \<and> list_all2 stamp xs ys \<and>
        (view \<circ> g) s' = put (\<lambda>rs. rs @ ys) ((view \<circ> g) s)"
      by (force simp: lift_table_def on_part_run gp upp)
  qed
  show "updates_ok (lift_table g p T) put (view \<circ> g) up' pk merge" if "updates_ok T put view up pk merge"
    unfolding updates_ok_def
  proof (intro allI impI)
    fix s m c v assume "up' s"
    from that [unfolded updates_ok_def, rule_format, OF ug [OF this], of m c v] this
    show "\<exists>s'. t_updates (lift_table g p T) m c v s = (None, s') \<and> up' s' \<and>
        (view \<circ> g) s' = put (map (\<lambda>r. if c r \<and> pk m r then merge v r else r)) ((view \<circ> g) s)"
      by (force simp: lift_table_def on_part_run gp upp)
  qed
  show "cols_ok (lift_table g p T) put (view \<circ> g) up' pk tc" if "cols_ok T put view up pk tc"
    unfolding cols_ok_def
  proof (intro allI impI conjI)
    fix s f assume "up' s"
    note ok = that [unfolded cols_ok_def, rule_format, OF ug [OF this], of f]
    show "\<exists>s'. t_update_cols (lift_table g p T) c f s = (None, s') \<and> up' s' \<and>
        (view \<circ> g) s' = put (map (\<lambda>r. if c r then f r else r)) ((view \<circ> g) s)" for c
      using conjunct1 [OF ok, rule_format, of c] \<open>up' s\<close>
      by (force simp: lift_table_def on_part_run gp upp)
    show "\<exists>s' h. t_update_model (lift_table g p T) m f s = (None, s') \<and> up' s' \<and> (\<forall>r. tc r (h r)) \<and>
        (view \<circ> g) s' = put (map (\<lambda>r. if pk m r then h (f r) else r)) ((view \<circ> g) s)" for m
      using conjunct2 [OF ok, rule_format, of m] \<open>up' s\<close>
      by (force simp: lift_table_def on_part_run gp upp)
  qed
  show "delete_ok (lift_table g p T) put (view \<circ> g) up'" if "delete_ok T put view up"
    unfolding delete_ok_def
  proof (intro allI impI)
    fix s c assume "up' s"
    from that [unfolded delete_ok_def, rule_format, OF ug [OF this], of c] this
    show "\<exists>s'. t_delete (lift_table g p T) c s = (None, s') \<and> up' s' \<and>
        (view \<circ> g) s' = put (filter (\<lambda>r. \<not> c r)) ((view \<circ> g) s)"
      by (force simp: lift_table_def on_part_run gp upp)
  qed
  show "assign_ok (lift_table g p T) get put (view \<circ> g) up' merge stamp tc"
    if "assign_ok T get put view up merge stamp tc"
    unfolding assign_ok_def
  proof (intro allI impI conjI)
    fix s a out assume "up' s"
    note ok = that [unfolded assign_ok_def, rule_format, OF ug [OF this], of a out]
    show "\<exists>s' r'. t_assign_first_or_create (lift_table g p T) a out s = (None, s') \<and> up' s' \<and>
        stamp (merge a out) r' \<and> (view \<circ> g) s' = put (\<lambda>_. [r']) ((view \<circ> g) s)"
      if "get ((view \<circ> g) s) = []"
      using conjunct1 [OF ok] that \<open>up' s\<close> by (force simp: lift_table_def on_part_run gp upp)
    show "\<exists>s' r'. t_assign_first_or_create (lift_table g p T) a out s = (None, s') \<and> up' s' \<and>
        tc (merge a r) r' \<and> (view \<circ> g) s' = put (\<lambda>_. [r']) ((view \<circ> g) s)"
      if "get ((view \<circ> g) s) = [r]" for r
      using conjunct2 [OF ok] that \<open>up' s\<close> by (force simp: lift_table_def on_part_run gp upp)
  qed
qed

lemma lift_acc_ok:
  assumes "part_ok g p up up'"
  shows "acc_create_ok G view up \<Longrightarrow> acc_create_ok (lift_gorm g p G) (view \<circ> g) up'"
    and "acc_bulk_ok G view up \<Longrightarrow> acc_bulk_ok (lift_gorm g p G) (view \<circ> g) up'"
proof -
  have gp: "g (p d s) = d" and ug: "up' s \<Longrightarrow> up (g s)" and upp: "up' s \<Longrightarrow> up d \<Longrightarrow> up' (p d s)" for d s
    using assms by (auto simp: part_ok_def)
  show "acc_create_ok (lift_gorm g p G) (view \<circ> g) up'" if "acc_create_ok G view up"
    unfolding acc_create_ok_def
  proof (intro allI impI)
    fix s and r :: Account assume "up' s" "acc_ID r = 0 \<or> acc_ID r \<notin> acc_ID ` set (accounts ((view \<circ> g) s))"
    with that [unfolded acc_create_ok_def, rule_format, OF ug, of s r]
    show "\<exists>s' r'. t_create (g_accounts (lift_gorm g p G)) r s = (None, s') \<and> up' s' \<and> stamp_acc r r' \<and>
        (view \<circ> g) s' = accounts_update (\<lambda>rs. rs @ [r']) ((view \<circ> g) s)"
      by (force simp: lift_gorm_def lift_table_def on_part_run gp upp)
  qed
  show "acc_bulk_ok (lift_gorm g p G) (view \<circ> g) up'" if "acc_bulk_ok G view up"
    unfolding acc_bulk_ok_def
  proof (intro allI impI)
    fix s n and xs :: "Account list" assume "up' s" "\<forall>x \<in> set xs. acc_ID x = 0"
    with that [unfolded acc_bulk_ok_def, rule_format, OF ug, of s xs n]
    show "\<exists>s' ys. t_bulk_insert (g_accounts (lift_gorm g p G)) xs n s = (None, s') \<and> up' s' \<and>
        list_all2 stamp_acc xs ys \<and> (view \<circ> g) s' = accounts_update (\<lambda>rs. rs @ ys) ((view \<circ> g) s)"
      by (force simp: lift_gorm_def lift_table_def on_part_run gp upp)
  qed
qed

lemma lift_gorm_ok:
  assumes "gorm_ok G view up" "part_ok g p up up'"
  shows "gorm_ok (lift_gorm g p G) (view \<circ> g) up'"
proof -
  have ug: "up' s \<Longrightarrow> up (g s)" for s using assms(2) by (simp add: part_ok_def)
  note ok = lift_reads_ok [of up' up g, OF ug] lift_writes_ok [OF assms(2)] lift_acc_ok [OF assms(2)]
  have sel: "g_states (lift_gorm g p G) = lift_table g p (g_states G)"
    "g_accounts (lift_gorm g p G) = lift_table g p (g_accounts G)"
    "g_txes (lift_gorm g p G) = lift_table g p (g_txes G)"
    "g_batches (lift_gorm g p G) = lift_table g p (g_batches G)"
    "g_params (lift_gorm g p G) = lift_table g p (g_params G)"
    "g_sync (lift_gorm g p G) = lift_table g p (g_sync G)"
    "g_tokens (lift_gorm g p G) = lift_table g p (g_tokens G)"
    "t_struct_cond (lift_table g p (g_txes G)) = t_struct_cond (g_txes G)"
    by (simp_all add: lift_gorm_def lift_table_def)
  show ?thesis
    using gorm_tables_ok [OF assms(1)] unfolding gorm_laws sel
    by (intro conjI ok) simp_all
qed

lemma on_part_keeps: "(\<And>d s. f (p d s) = f s) \<Longrightarrow> f (snd (on_part g p w s)) = f s"
  by (cases "w (g s)") (simp add: on_part_def)

lemma lift_gorm_keeps: "(\<And>d s. f (p d s) = f s) \<Longrightarrow> gorm_keeps (lift_gorm g p G) f"
  by (simp add: gorm_keeps_def lift_gorm_def table_keeps_def lift_table_def on_part_keeps)

text \<open>
  The committed rows, the open transaction with the rows it began with, and the number of open
  connections.
\<close>

record mem_state =
  ms_rows :: tables
  ms_txn :: "(tables \<times> tables) option"
  ms_conns :: nat

definition ms_tx_rows :: "mem_state \<Rightarrow> tables" where
  "ms_tx_rows s = (case ms_txn s of Some (_, t) \<Rightarrow> t | None \<Rightarrow> empty_tables)"

definition ms_base :: "mem_state \<Rightarrow> tables" where
  "ms_base s = (case ms_txn s of Some (b, _) \<Rightarrow> b | None \<Rightarrow> empty_tables)"

definition ms_put_tx :: "tables \<Rightarrow> mem_state \<Rightarrow> mem_state" where
  "ms_put_tx t s = s\<lparr>ms_txn := Some (ms_base s, t)\<rparr>"

definition ms_commit :: "mem_state \<Rightarrow> mem_state" where
  "ms_commit s =
    (let b = ms_base s; t = ms_tx_rows s; c = ms_rows s in
     s\<lparr>ms_rows := \<lparr>
        user_states = (if user_states t = user_states b then user_states c else user_states t),
        accounts = (if accounts t = accounts b then accounts c else accounts t),
        txes = (if txes t = txes b then txes c else txes t),
        batches = (if batches t = batches b then batches c else batches t),
        params = (if params t = params b then params c else params t),
        sync_statuses = (if sync_statuses t = sync_statuses b then sync_statuses c else sync_statuses t),
        tokens = (if tokens t = tokens b then tokens c else tokens t)\<rparr>,
      ms_txn := None\<rparr>)"

definition ms_gorm :: "mem_state gorm" where
  "ms_gorm = lift_gorm ms_rows (\<lambda>d s. s\<lparr>ms_rows := d\<rparr>) mem_gorm"

definition mem_conn :: "mem_state conn" where
  "mem_conn = \<lparr>c_open = (\<lambda>s. (None, s\<lparr>ms_conns := ms_conns s + 1\<rparr>)),
     c_close = (\<lambda>s. s\<lparr>ms_conns := ms_conns s - 1\<rparr>),
     c_begin = (\<lambda>s. (None, s\<lparr>ms_txn := Some (ms_rows s, ms_rows s)\<rparr>)),
     c_commit = (\<lambda>s. (None, ms_commit s)), c_rollback = (\<lambda>s. s\<lparr>ms_txn := None\<rparr>),
     c_tx = lift_gorm ms_tx_rows ms_put_tx mem_gorm\<rparr>"

definition ms_open :: "mem_state \<Rightarrow> bool" where
  "ms_open s \<longleftrightarrow> ms_txn s \<noteq> None"

lemma ms_open_update [simp]: "ms_open (s\<lparr>ms_txn := v\<rparr>) \<longleftrightarrow> v \<noteq> None"
  by (simp add: ms_open_def)

lemma mem_conn_ok: "conn_ok mem_conn ms_gorm ms_rows (\<lambda>_. True) ms_tx_rows ms_base ms_open"
proof -
  have "part_ok ms_rows (\<lambda>d s. s\<lparr>ms_rows := d\<rparr>) (\<lambda>_. True) (\<lambda>_. True)"
    "part_ok ms_tx_rows ms_put_tx (\<lambda>_. True) ms_open"
    by (simp_all add: part_ok_def ms_put_tx_def ms_tx_rows_def ms_open_def)
  note this [THEN lift_gorm_ok [OF mem_gorm_ok]]
  then have "gorm_ok ms_gorm ms_rows (\<lambda>_. True)" "gorm_ok (c_tx mem_conn) ms_tx_rows ms_open"
    by (simp_all add: ms_gorm_def mem_conn_def comp_def)
  moreover have "gorm_keeps (c_tx mem_conn) ms_rows" "gorm_keeps (c_tx mem_conn) ms_base"
    "gorm_keeps ms_gorm ms_tx_rows" "gorm_keeps ms_gorm ms_base" "gorm_keeps ms_gorm ms_open"
    unfolding ms_gorm_def mem_conn_def conn.select_convs
    by (rule lift_gorm_keeps; simp add: ms_put_tx_def ms_base_def ms_tx_rows_def ms_open_def)+
  ultimately show ?thesis
    by (simp add: conn_ok_def isolated_def mem_conn_def ms_tx_rows_def ms_base_def
      published_all_def published_def ms_commit_def Let_def)
qed

lemma mem_conns_ok: "conns_ok mem_conn ms_gorm ms_conns"
proof -
  have "gorm_keeps ms_gorm ms_conns" "gorm_keeps (c_tx mem_conn) ms_conns"
    unfolding ms_gorm_def mem_conn_def conn.select_convs by (rule lift_gorm_keeps; simp add: ms_put_tx_def)+
  then show ?thesis by (simp add: conns_ok_def mem_conn_def ms_commit_def Let_def)
qed

end
