(* ===== verification/Wallets.thy ===== *)
theory Wallets
  imports Byte_Array
begin

text \<open>
  \<open>wallet/wallet.go\<close>: BLS keys and signatures.  The curve arithmetic is the package
  \<open>kilic/bn254/bls\<close>, a parameter here: \<open>bls\<close> holds the calls the wallet makes, over its
  types of key pairs \<open>'k\<close>, public keys \<open>'p\<close> and signatures \<open>'g\<close>.  Calls that return
  a pointer and an error give an optional value with an optional error, because the wallet
  dereferences some of the pointers before it looks at the error.
\<close>

record message =
  msg_Message :: bytes
  msg_Domain :: bytes

record ('k, 'p, 'g) bls =
  b_SignatureKeyFromBytes :: "bytes \<Rightarrow> 'g option \<times> go_error option"
  b_NewKeyPair :: "bytes \<Rightarrow> go_error + 'k"
  b_KeyToBytes :: "'k \<Rightarrow> bytes"
  b_NewKeyPairFromBytes :: "bytes \<Rightarrow> go_error + 'k"
  b_Public :: "'k \<Rightarrow> 'p"
  b_Sign :: "'k \<Rightarrow> message \<Rightarrow> go_error + 'g"
  b_Verify :: "message \<Rightarrow> 'g \<Rightarrow> 'p \<Rightarrow> go_error + bool"
  b_VerifyAggregate :: "message list \<Rightarrow> 'p list \<Rightarrow> 'g \<Rightarrow> go_error + bool"
  b_AggregateSignatures :: "'g list \<Rightarrow> 'g option"
  b_SignatureToBytes :: "'g \<Rightarrow> bytes"

record 'k Wallet =
  w_Account :: 'k

section \<open>Definitions\<close>

definition of_sum :: "go_error + 'a \<Rightarrow> 'a res" where
  "of_sum r = (case r of Inl e \<Rightarrow> Err e | Inr a \<Rightarrow> Ok a)"

text \<open>\<open>return *sig, err\<close>\<close>

definition BytesToSignature :: "('k, 'p, 'g) bls \<Rightarrow> bytes \<Rightarrow> 'g res" where
  "BytesToSignature B b = (case b_SignatureKeyFromBytes B b of
     (None, _) \<Rightarrow> Panic NilDereference
   | (Some sig, Some err) \<Rightarrow> Err err
   | (Some sig, None) \<Rightarrow> Ok sig)"

text \<open>
  \<open>for _, sig := range sigs { blsSigs = append(blsSigs, &sig) }\<close>: in the Go version of the
  module the loop has one variable \<open>sig\<close>, so every pointer is its address.  The loop keeps
  the pointers (addresses of a heap of cells) and the heap; the variable is cell 0.
\<close>

type_synonym 'g heap = "nat \<Rightarrow> 'g option"

fun getBLSSignatures_loop :: "'g list \<Rightarrow> nat list \<Rightarrow> 'g heap \<Rightarrow> nat list \<times> 'g heap" where
  "getBLSSignatures_loop [] blsSigs h = (blsSigs, h)"
| "getBLSSignatures_loop (sig # sigs) blsSigs h =
     getBLSSignatures_loop sigs (blsSigs @ [0]) (h(0 \<mapsto> sig))"

definition getBLSSignatures :: "'g list \<Rightarrow> nat list \<times> 'g heap" where
  "getBLSSignatures sigs = getBLSSignatures_loop sigs [] Map.empty"

text \<open>The argument stands for what \<open>rand.Reader\<close> delivers.\<close>

definition NewWallet :: "('k, 'p, 'g) bls \<Rightarrow> bytes \<Rightarrow> 'k Wallet res" where
  "NewWallet B random = (case b_NewKeyPair B random of
     Inl err \<Rightarrow> Err err | Inr newAccount \<Rightarrow> Ok \<lparr>w_Account = newAccount\<rparr>)"

text \<open>\<open>(secretKey, pubkey)\<close>; the slices panic when the key has fewer than 128 bytes.\<close>

definition Wallet_Bytes :: "('k, 'p, 'g) bls \<Rightarrow> 'k Wallet \<Rightarrow> (bytes \<times> bytes) res" where
  "Wallet_Bytes B w =
    (let accountBytes = b_KeyToBytes B (w_Account w)
     in if length accountBytes < 128 then Panic SliceOutOfRange
        else (let secretBytes = drop 128 accountBytes; pubkeyBytes = take 128 accountBytes
              in Ok (secretBytes, pubkeyBytes)))"

definition SecretToWallet :: "('k, 'p, 'g) bls \<Rightarrow> bytes \<Rightarrow> bytes \<Rightarrow> 'k Wallet res" where
  "SecretToWallet B secretKey pubkey =
    (let inp = pubkey @ secretKey
     in case b_NewKeyPairFromBytes B inp of
          Inl err \<Rightarrow> Err err | Inr keyPair \<Rightarrow> Ok \<lparr>w_Account = keyPair\<rparr>)"

definition createMessage :: "bytes \<Rightarrow> message" where
  "createMessage data = \<lparr>msg_Message = data, msg_Domain = [0, 0, 0, 0]\<rparr>"

definition Wallet_Sign :: "('k, 'p, 'g) bls \<Rightarrow> 'k Wallet \<Rightarrow> bytes \<Rightarrow> 'g res" where
  "Wallet_Sign B w data = of_sum (b_Sign B (w_Account w) (createMessage data))"

text \<open>The public key that is passed in is not used.\<close>

definition VerifySignature ::
  "('k, 'p, 'g) bls \<Rightarrow> 'k Wallet \<Rightarrow> bytes \<Rightarrow> 'g \<Rightarrow> 'p \<Rightarrow> bool res" where
  "VerifySignature B w data signature pubkey =
    of_sum (b_Verify B (createMessage data) signature (b_Public B (w_Account w)))"

definition VerifyAggregatedSignature ::
  "('k, 'p, 'g) bls \<Rightarrow> message list \<Rightarrow> 'p list \<Rightarrow> 'g \<Rightarrow> bool res" where
  "VerifyAggregatedSignature B data pubkeys aggregateSignature =
    of_sum (b_VerifyAggregate B data pubkeys aggregateSignature)"

definition NewAggregateSignature :: "('k, 'p, 'g) bls \<Rightarrow> 'g list \<Rightarrow> 'g res" where
  "NewAggregateSignature B signatures =
    (case b_AggregateSignatures B signatures of
       None \<Rightarrow> Panic NilDereference | Some aggregatedSig \<Rightarrow> Ok aggregatedSig)"

section \<open>What the package documents\<close>

text \<open>
  A key pair is written as a 128-byte public key and the secret key, and is read back from
  these bytes.
\<close>

definition bls_keys_ok :: "('k, 'p, 'g) bls \<Rightarrow> bool" where
  "bls_keys_ok B \<longleftrightarrow> (\<forall>k. 128 \<le> length (b_KeyToBytes B k) \<and>
     b_NewKeyPairFromBytes B (b_KeyToBytes B k) = Inr k)"

text \<open>A library that meets this, for the witnesses: key \<open>n\<close> is 128 bytes and \<open>n\<close> itself.\<close>

definition ref_bls :: "(byte, byte, bytes) bls" where
  "ref_bls = \<lparr>b_SignatureKeyFromBytes = (\<lambda>b. (Some b, None)), b_NewKeyPair = (\<lambda>r. Inr (hd (r @ [0]))),
     b_KeyToBytes = (\<lambda>k. replicate 128 k @ [k]),
     b_NewKeyPairFromBytes = (\<lambda>b. if b = [] then Inl (ErrMsg ''empty'') else Inr (last b)),
     b_Public = (\<lambda>k. k), b_Sign = (\<lambda>k m. Inr (k # msg_Message m)),
     b_Verify = (\<lambda>m g p. Inr (g = p # msg_Message m)), b_VerifyAggregate = (\<lambda>_ _ _. Inr False),
     b_AggregateSignatures = (\<lambda>gs. Some (concat gs)), b_SignatureToBytes = (\<lambda>g. g)\<rparr>"

lemma ref_bls_keys: "bls_keys_ok ref_bls"
  by (simp add: bls_keys_ok_def ref_bls_def)

section \<open>Lemmas\<close>

lemma getBLSSignatures_loop_ptrs:
  "fst (getBLSSignatures_loop sigs ptrs h) = ptrs @ replicate (length sigs) 0"
  by (induction sigs arbitrary: ptrs h) (simp_all add: replicate_append_same)

lemma getBLSSignatures_loop_heap:
  "sigs \<noteq> [] \<Longrightarrow> snd (getBLSSignatures_loop sigs ptrs h) 0 = Some (last sigs)"
proof (induction sigs arbitrary: ptrs h)
  case (Cons sig sigs)
  then show ?case by (cases "sigs = []") simp_all
qed simp

lemma Wallet_Bytes_ok:
  assumes "bls_keys_ok B"
  shows "Wallet_Bytes B w = Ok (drop 128 (b_KeyToBytes B (w_Account w)), take 128 (b_KeyToBytes B (w_Account w)))"
proof -
  have "\<not> length (b_KeyToBytes B (w_Account w)) < 128" using assms by (simp add: bls_keys_ok_def not_less)
  then show ?thesis by (simp add: Wallet_Bytes_def Let_def)
qed

lemma SecretToWallet_Bytes:
  assumes "bls_keys_ok B" "Wallet_Bytes B w = Ok (secret, pub)"
  shows "SecretToWallet B secret pub = Ok w"
  using assms by (auto simp: Wallet_Bytes_ok SecretToWallet_def bls_keys_ok_def)

section \<open>Properties\<close>

text \<open>
  A wallet written out as secret and public key is restored from them.
\<close>

theorem wallet_roundtrip:
  assumes "bls_keys_ok B"
  shows "\<exists>secret pub. Wallet_Bytes B w = Ok (secret, pub) \<and> length pub = 128 \<and>
    SecretToWallet B secret pub = Ok w"
  using Wallet_Bytes_ok [OF assms, of w] SecretToWallet_Bytes [OF assms, of w] assms
  by (auto simp: bls_keys_ok_def min_absorb2)

theorem wallet_roundtrip_witness:
  "\<exists>secret pub. Wallet_Bytes ref_bls \<lparr>w_Account = 7\<rparr> = Ok (secret, pub) \<and> length pub = 128 \<and>
    SecretToWallet ref_bls secret pub = Ok \<lparr>w_Account = 7\<rparr>"
  by (rule wallet_roundtrip [OF ref_bls_keys])

text \<open>
  The pointers that \<open>getBLSSignatures\<close> returns all point to the last signature: it
  returns as many pointers as there are signatures, and each one, dereferenced after the
  loop, is the last element of the list.
\<close>

theorem getBLSSignatures_alias:
  "case getBLSSignatures sigs of (ptrs, h) \<Rightarrow>
     map h ptrs = (if sigs = [] then [] else replicate (length sigs) (Some (last sigs)))"
  using getBLSSignatures_loop_ptrs [of sigs "[]" Map.empty]
    getBLSSignatures_loop_heap [of sigs "[]" Map.empty]
  by (auto simp: getBLSSignatures_def map_replicate_const split: prod.split)

end
