(* ===== verification/Chain_Params.thy ===== *)
theory Chain_Params
  imports Gorm_Reference
begin

text \<open>
  \<open>core/params.go\<close>, \<open>core/batch.go\<close> and \<open>core/tokenRegistry.go\<close>: the parameters that
  mirror the contract, the progress of the syncer, the batches and the token registry.
  \<open>Assign(x).FirstOrCreate(&y)\<close> keeps the parameters in one row; \<open>Update(&x)\<close> with a
  struct leaves the columns whose new value is blank as they are.
\<close>

section \<open>\<open>core/params.go\<close>\<close>

definition LastEthBlockBigInt :: "SyncStatus \<Rightarrow> int" where
  "LastEthBlockBigInt ss = uint (ss_LastEthBlockRecorded ss)"

definition GetSyncStatus :: "'s gorm \<Rightarrow> ('s, SyncStatus) prog" where
  "GetSyncStatus G = db_read (t_first (g_sync G) (\<lambda>_. True))"

definition UpdateSyncStatusWithBatchNumber :: "'s gorm \<Rightarrow> u64 \<Rightarrow> ('s, unit) prog" where
  "UpdateSyncStatusWithBatchNumber G batchIndex =
    andThen (GetSyncStatus G) (\<lambda>syncStatus.
      let updatedSyncStatus = zero_SyncStatus\<lparr>
            ss_LastBatchRecorded := batchIndex,
            ss_LastEthBlockRecorded := ss_LastEthBlockRecorded syncStatus\<rparr>
      in db_write (t_updates (g_sync G) zero_SyncStatus (\<lambda>r. ss_ID r = ss_ID syncStatus) updatedSyncStatus))"

definition InitSyncStatus :: "'s gorm \<Rightarrow> u64 \<Rightarrow> ('s, unit) prog" where
  "InitSyncStatus G startBlock =
    db_write (t_create (g_sync G) (zero_SyncStatus\<lparr>ss_LastEthBlockRecorded := startBlock\<rparr>))"

definition UpdateSyncStatusWithBlockNumber :: "'s gorm \<Rightarrow> u64 \<Rightarrow> ('s, unit) prog" where
  "UpdateSyncStatusWithBlockNumber G blkNum =
    andThen (GetSyncStatus G) (\<lambda>syncStatus.
      let updatedSyncStatus = zero_SyncStatus\<lparr>
            ss_LastBatchRecorded := ss_LastBatchRecorded syncStatus,
            ss_LastEthBlockRecorded := blkNum\<rparr>
      in db_write (t_updates (g_sync G) zero_SyncStatus (\<lambda>r. ss_ID r = ss_ID syncStatus) updatedSyncStatus))"

definition UpdateStakeAmount :: "'s gorm \<Rightarrow> u64 \<Rightarrow> ('s, unit) prog" where
  "UpdateStakeAmount G newStakeAmount =
    (let updatedParams = zero_Params\<lparr>pm_StakeAmount := newStakeAmount\<rparr>
     in db_write (t_assign_first_or_create (g_params G)
          (zero_Params\<lparr>pm_StakeAmount := newStakeAmount\<rparr>) updatedParams))"

definition UpdateFinalisationTimePerBatch :: "'s gorm \<Rightarrow> u64 \<Rightarrow> ('s, unit) prog" where
  "UpdateFinalisationTimePerBatch G finalisationDuration =
    (let updatedParams = zero_Params\<lparr>pm_MaxDepth := finalisationDuration\<rparr>
     in db_write (t_assign_first_or_create (g_params G)
          (zero_Params\<lparr>pm_FinalisationTime := finalisationDuration\<rparr>) updatedParams))"

definition UpdateMaxDepth :: "'s gorm \<Rightarrow> u64 \<Rightarrow> ('s, unit) prog" where
  "UpdateMaxDepth G newDepth =
    (let updatedParams = zero_Params\<lparr>pm_MaxDepth := newDepth\<rparr>
     in db_write (t_assign_first_or_create (g_params G)
          (zero_Params\<lparr>pm_MaxDepth := newDepth\<rparr>) updatedParams))"

definition UpdateDepositSubTreeHeight :: "'s gorm \<Rightarrow> u64 \<Rightarrow> ('s, unit) prog" where
  "UpdateDepositSubTreeHeight G newHeight =
    (let updatedParams = zero_Params\<lparr>pm_MaxDepositSubTreeHeight := newHeight\<rparr>
     in db_write (t_assign_first_or_create (g_params G)
          (zero_Params\<lparr>pm_MaxDepositSubTreeHeight := newHeight\<rparr>) updatedParams))"

definition GetParams :: "'s gorm \<Rightarrow> ('s, Params) prog" where
  "GetParams G = db_read (t_first (g_params G) (\<lambda>_. True))"

definition GetBatchFinalisationTime :: "'s gorm \<Rightarrow> ('s, u64) prog" where
  "GetBatchFinalisationTime G =
    andThen (db_read (t_first (g_params G) (\<lambda>_. True))) (\<lambda>params. ret (pm_FinalisationTime params))"

section \<open>\<open>core/batch.go\<close>\<close>

definition GetLatestBatch :: "'s gorm \<Rightarrow> ('s, Batch) prog" where
  "GetLatestBatch G = db_read (t_first_desc (g_batches G) (\<lambda>b. unat (bt_BatchID b)))"

text \<open>The error of \<open>Count\<close> is not looked at: the result then is zero.\<close>

definition GetBatchCount :: "'s gorm \<Rightarrow> ('s, int) prog" where
  "GetBatchCount G = (\<lambda>s. case g_count_named G ''batches'' s of
     Inl _ \<Rightarrow> (Ok 0, s) | Inr n \<Rightarrow> (Ok n, s))"

definition AddNewBatch :: "'s gorm \<Rightarrow> Batch \<Rightarrow> ('s, unit) prog" where
  "AddNewBatch G batch = db_write (t_create (g_batches G) batch)"

definition GetBatchByIndex :: "'s gorm \<Rightarrow> u64 \<Rightarrow> ('s, Batch) prog" where
  "GetBatchByIndex G index = db_read (t_find_one (g_batches G) (\<lambda>b. bt_BatchID b = index))"

definition CommitBatch :: "'s gorm \<Rightarrow> Batch \<Rightarrow> ('s, unit) prog" where
  "CommitBatch G batch = db_write (t_update_bare (g_batches G) batch)"

section \<open>\<open>core/tokenRegistry.go\<close>\<close>

definition AddToken :: "'s gorm \<Rightarrow> Token \<Rightarrow> ('s, unit) prog" where
  "AddToken G t = db_write (t_create (g_tokens G) t)"

definition GetTokenByID :: "'s gorm \<Rightarrow> u64 \<Rightarrow> ('s, Token) prog" where
  "GetTokenByID G id' = db_read (t_first (g_tokens G) (\<lambda>t. tk_TokenID t = id'))"

section \<open>Lemmas\<close>

lemma assign_run:
  assumes "assign_ok T get put view up merge stamp touch" "up s"
  shows "get (view s) = [] \<Longrightarrow> \<exists>s' r'. db_write (t_assign_first_or_create T a out) s = (Ok (), s') \<and> up s' \<and>
      stamp (merge a out) r' \<and> view s' = put (\<lambda>_. [r']) (view s)"
    and "get (view s) = [r] \<Longrightarrow> \<exists>s' r'. db_write (t_assign_first_or_create T a out) s = (Ok (), s') \<and> up s' \<and>
      touch (merge a r) r' \<and> view s' = put (\<lambda>_. [r']) (view s)"
proof -
  note ok = assms(1) [unfolded assign_ok_def, rule_format, OF assms(2)]
  show "\<exists>s' r'. db_write (t_assign_first_or_create T a out) s = (Ok (), s') \<and> up s' \<and>
      stamp (merge a out) r' \<and> view s' = put (\<lambda>_. [r']) (view s)" if "get (view s) = []"
    using ok [of a out] that by (fastforce simp: db_write_def)
  show "\<exists>s' r'. db_write (t_assign_first_or_create T a out) s = (Ok (), s') \<and> up s' \<and>
      touch (merge a r) r' \<and> view s' = put (\<lambda>_. [r']) (view s)" if "get (view s) = [r]"
    using ok [of a out] that by (fastforce simp: db_write_def)
qed

lemma GetParams_run:
  assumes "gorm_ok G view up" "up s" "params (view s) = [pm]"
  shows "GetParams G s = (Ok pm, s)"
proof -
  have "t_first (g_params G) (\<lambda>_. True) s = Inr pm"
    using first_single [OF gorm_params_first [OF assms(1)] assms(2), of "\<lambda>_. True" pm] assms(3) by simp
  then show ?thesis by (simp add: GetParams_def db_read_Inr)
qed

lemma GetParams_none:
  assumes "gorm_ok G view up" "up s" "params (view s) = []"
  shows "GetParams G s = (Err RecordNotFound, s)"
proof -
  have "t_first (g_params G) (\<lambda>_. True) s = Inl RecordNotFound"
    using first_none [OF gorm_params_first [OF assms(1)] assms(2), of "\<lambda>_. True"] assms(3) by simp
  then show ?thesis by (simp add: GetParams_def db_read_Inl)
qed

lemma GetSyncStatus_run:
  assumes "gorm_ok G view up" "up s" "sync_statuses (view s) = [ss]"
  shows "GetSyncStatus G s = (Ok ss, s)"
proof -
  have "t_first (g_sync G) (\<lambda>_. True) s = Inr ss"
    using first_single [OF gorm_sync_first [OF assms(1)] assms(2), of "\<lambda>_. True" ss] assms(3) by simp
  then show ?thesis by (simp add: GetSyncStatus_def db_read_Inr)
qed

lemma sync_update_run:
  assumes "gorm_ok G view up" "up s" "sync_statuses (view s) = [ss]"
  shows "\<exists>s'. andThen (GetSyncStatus G) (\<lambda>x. db_write (t_updates (g_sync G) zero_SyncStatus
        (\<lambda>r. ss_ID r = ss_ID x) (f x))) s = (Ok (), s') \<and> up s' \<and>
      view s' = (view s)\<lparr>sync_statuses := [merge_ss (f ss) ss]\<rparr>"
proof -
  obtain s' where s': "db_write (t_updates (g_sync G) zero_SyncStatus (\<lambda>r. ss_ID r = ss_ID ss) (f ss)) s = (Ok (), s')"
    "up s'" "view s' = sync_statuses_update (map (\<lambda>r. if ss_ID r = ss_ID ss \<and> True then merge_ss (f ss) r else r)) (view s)"
    using updates_run [OF gorm_sync_updates [OF assms(1)] assms(2), of zero_SyncStatus
      "\<lambda>r. ss_ID r = ss_ID ss" "f ss"] by blast
  from s'(3) assms(3) have "view s' = (view s)\<lparr>sync_statuses := [merge_ss (f ss) ss]\<rparr>" by simp
  with s'(1,2) show ?thesis by (simp add: andThen_ok GetSyncStatus_run [OF assms])
qed

lemma assign_params_run:
  assumes "gorm_ok G view up" "up s" "params (view s) = [pm]"
  shows "\<exists>s' u. db_write (t_assign_first_or_create (g_params G) a out) s = (Ok (), s') \<and> up s' \<and>
    view s' = (view s)\<lparr>params := [(merge_pm a pm)\<lparr>db_UpdatedAt := u\<rparr>]\<rparr>"
  using assign_run(2) [OF gorm_params_assign [OF assms(1)], of s pm a out] assms(2,3) by (auto simp: touch_def)

lemma param_updates_run:
  assumes "gorm_ok G view up" "up s" "params (view s) = [pm]"
  shows "(\<exists>s' u. UpdateStakeAmount G v s = (Ok (), s') \<and> up s' \<and> view s' = (view s)
      \<lparr>params := [pm\<lparr>pm_StakeAmount := if v = 0 then pm_StakeAmount pm else v, db_UpdatedAt := u\<rparr>]\<rparr>) \<and>
    (\<exists>s' u. UpdateFinalisationTimePerBatch G v s = (Ok (), s') \<and> up s' \<and> view s' = (view s)
      \<lparr>params := [pm\<lparr>pm_FinalisationTime := if v = 0 then pm_FinalisationTime pm else v, db_UpdatedAt := u\<rparr>]\<rparr>) \<and>
    (\<exists>s' u. UpdateMaxDepth G v s = (Ok (), s') \<and> up s' \<and> view s' = (view s)
      \<lparr>params := [pm\<lparr>pm_MaxDepth := if v = 0 then pm_MaxDepth pm else v, db_UpdatedAt := u\<rparr>]\<rparr>) \<and>
    (\<exists>s' u. UpdateDepositSubTreeHeight G v s = (Ok (), s') \<and> up s' \<and> view s' = (view s)
      \<lparr>params := [pm\<lparr>pm_MaxDepositSubTreeHeight := if v = 0 then pm_MaxDepositSubTreeHeight pm else v, db_UpdatedAt := u\<rparr>]\<rparr>)"
proof -
  note run = assign_params_run [OF assms]
  note defs = merge_pm_def zero_Params_def
  show ?thesis
    using run [of "zero_Params\<lparr>pm_StakeAmount := v\<rparr>" "zero_Params\<lparr>pm_StakeAmount := v\<rparr>"]
      run [of "zero_Params\<lparr>pm_FinalisationTime := v\<rparr>" "zero_Params\<lparr>pm_MaxDepth := v\<rparr>"]
      run [of "zero_Params\<lparr>pm_MaxDepth := v\<rparr>" "zero_Params\<lparr>pm_MaxDepth := v\<rparr>"]
      run [of "zero_Params\<lparr>pm_MaxDepositSubTreeHeight := v\<rparr>" "zero_Params\<lparr>pm_MaxDepositSubTreeHeight := v\<rparr>"]
    by (cases "v = 0") (simp_all add: UpdateStakeAmount_def UpdateFinalisationTimePerBatch_def
      UpdateMaxDepth_def UpdateDepositSubTreeHeight_def defs)
qed

section \<open>Properties\<close>

text \<open>
  C13. Each of the four updates of the on-chain parameters keeps them in a single row:
  on a row that is there it sets its own column (unless the new value is zero, which is
  not written) and no other but the time of the update.
\<close>

theorem param_updates:
  assumes "gorm_ok G view up" "up s" "params (view s) = [pm]"
  shows "(\<exists>s' u. UpdateStakeAmount G v s = (Ok (), s') \<and> up s' \<and> view s' = (view s)
      \<lparr>params := [pm\<lparr>pm_StakeAmount := if v = 0 then pm_StakeAmount pm else v, db_UpdatedAt := u\<rparr>]\<rparr>) \<and>
    (\<exists>s' u. UpdateFinalisationTimePerBatch G v s = (Ok (), s') \<and> up s' \<and> view s' = (view s)
      \<lparr>params := [pm\<lparr>pm_FinalisationTime := if v = 0 then pm_FinalisationTime pm else v, db_UpdatedAt := u\<rparr>]\<rparr>) \<and>
    (\<exists>s' u. UpdateMaxDepth G v s = (Ok (), s') \<and> up s' \<and> view s' = (view s)
      \<lparr>params := [pm\<lparr>pm_MaxDepth := if v = 0 then pm_MaxDepth pm else v, db_UpdatedAt := u\<rparr>]\<rparr>) \<and>
    (\<exists>s' u. UpdateDepositSubTreeHeight G v s = (Ok (), s') \<and> up s' \<and> view s' = (view s)
      \<lparr>params := [pm\<lparr>pm_MaxDepositSubTreeHeight := if v = 0 then pm_MaxDepositSubTreeHeight pm else v, db_UpdatedAt := u\<rparr>]\<rparr>)"
  by (rule param_updates_run [OF assms])

definition pm_example :: Params where
  "pm_example = zero_Params\<lparr>db_ID := ''p'', pm_MaxDepth := 2, pm_MaxDepositSubTreeHeight := 1\<rparr>"

theorem param_updates_witness:
  "\<exists>s' u. UpdateMaxDepth mem_gorm 4 (empty_tables\<lparr>params := [pm_example]\<rparr>) = (Ok (), s') \<and>
     s' = empty_tables\<lparr>params := [pm_example\<lparr>pm_MaxDepth := 4, db_UpdatedAt := u\<rparr>]\<rparr>"
  using param_updates [OF mem_gorm_ok, of "empty_tables\<lparr>params := [pm_example]\<rparr>" pm_example 4]
  by simp

text \<open>
  The first parameter to arrive creates the row.  The finalisation time then also
  lands in \<open>MaxDepth\<close>, a column it does not own.
\<close>

theorem first_finalisation_time_sets_depth:
  assumes "gorm_ok G view up" "up s" "params (view s) = []" "v \<noteq> 0"
  shows "\<exists>s' pm. UpdateFinalisationTimePerBatch G v s = (Ok (), s') \<and> up s' \<and>
    view s' = (view s)\<lparr>params := [pm]\<rparr> \<and> pm_FinalisationTime pm = v \<and> pm_MaxDepth pm = v \<and>
    pm_StakeAmount pm = 0 \<and> GetBatchFinalisationTime G s' = (Ok v, s')"
proof -
  from assign_run(1) [OF gorm_params_assign [OF assms(1)], of s "zero_Params\<lparr>pm_FinalisationTime := v\<rparr>"
      "zero_Params\<lparr>pm_MaxDepth := v\<rparr>"] assms(2,3) obtain s' pm where
    run: "UpdateFinalisationTimePerBatch G v s = (Ok (), s')" "up s'" "view s' = (view s)\<lparr>params := [pm]\<rparr>"
    and st: "stamp_pm (merge_pm (zero_Params\<lparr>pm_FinalisationTime := v\<rparr>) (zero_Params\<lparr>pm_MaxDepth := v\<rparr>)) pm"
    by (fastforce simp: UpdateFinalisationTimePerBatch_def)
  from st have pm: "pm_FinalisationTime pm = v" "pm_MaxDepth pm = v" "pm_StakeAmount pm = 0"
    by (auto simp: stamp_pm_def merge_pm_def zero_Params_def)
  have "GetParams G s' = (Ok pm, s')" by (rule GetParams_run [OF assms(1) run(2)]) (simp add: run(3))
  then have "GetBatchFinalisationTime G s' = (Ok v, s')"
    using pm by (simp add: GetBatchFinalisationTime_def GetParams_def andThen_ok)
  with run pm show ?thesis by blast
qed

theorem first_finalisation_time_sets_depth_witness:
  "\<exists>s' pm. UpdateFinalisationTimePerBatch mem_gorm 7 empty_tables = (Ok (), s') \<and>
     s' = empty_tables\<lparr>params := [pm]\<rparr> \<and> pm_MaxDepth pm = 7"
  using first_finalisation_time_sets_depth [OF mem_gorm_ok, of empty_tables 7]
  by (auto simp: empty_tables_def)

text \<open>
  Recording the latest batch and recording the latest block touch their own column of
  the sync status and keep the other: after both, both are there.  A zero is not written.
\<close>

theorem sync_status_updates:
  assumes "gorm_ok G view up" "up s" "sync_statuses (view s) = [ss]"
  shows "\<exists>s1 s2. UpdateSyncStatusWithBlockNumber G blk s = (Ok (), s1) \<and>
    UpdateSyncStatusWithBatchNumber G b s1 = (Ok (), s2) \<and> up s2 \<and>
    view s2 = (view s)\<lparr>sync_statuses := [ss\<lparr>
       ss_LastEthBlockRecorded := if blk = 0 then ss_LastEthBlockRecorded ss else blk,
       ss_LastBatchRecorded := if b = 0 then ss_LastBatchRecorded ss else b\<rparr>]\<rparr>"
proof -
  let ?m = "ss\<lparr>ss_LastEthBlockRecorded := if blk = 0 then ss_LastEthBlockRecorded ss else blk\<rparr>"
  obtain s1 where s1: "UpdateSyncStatusWithBlockNumber G blk s = (Ok (), s1)" "up s1"
    "view s1 = (view s)\<lparr>sync_statuses := [?m]\<rparr>"
    using sync_update_run [OF assms, of "\<lambda>x. zero_SyncStatus\<lparr>
            ss_LastBatchRecorded := ss_LastBatchRecorded x, ss_LastEthBlockRecorded := blk\<rparr>"]
    by (auto simp: UpdateSyncStatusWithBlockNumber_def merge_ss_def zero_SyncStatus_def Let_def)
  have "sync_statuses (view s1) = [?m]" using s1(3) by simp
  from sync_update_run [OF assms(1) s1(2) this, of "\<lambda>x. zero_SyncStatus\<lparr>
            ss_LastBatchRecorded := b, ss_LastEthBlockRecorded := ss_LastEthBlockRecorded x\<rparr>"]
  obtain s2 where "UpdateSyncStatusWithBatchNumber G b s1 = (Ok (), s2)" "up s2"
    "view s2 = (view s1)\<lparr>sync_statuses := [merge_ss (zero_SyncStatus\<lparr>ss_LastBatchRecorded := b,
        ss_LastEthBlockRecorded := ss_LastEthBlockRecorded ?m\<rparr>) ?m]\<rparr>"
    by (auto simp: UpdateSyncStatusWithBatchNumber_def Let_def)
  with s1 show ?thesis by (auto simp: merge_ss_def zero_SyncStatus_def)
qed

theorem sync_status_updates_witness:
  "\<exists>s1 s2. UpdateSyncStatusWithBlockNumber mem_gorm 9 (empty_tables\<lparr>sync_statuses := [zero_SyncStatus]\<rparr>) = (Ok (), s1) \<and>
     UpdateSyncStatusWithBatchNumber mem_gorm 3 s1 = (Ok (), s2) \<and>
     s2 = empty_tables\<lparr>sync_statuses := [zero_SyncStatus\<lparr>ss_LastEthBlockRecorded := 9, ss_LastBatchRecorded := 3\<rparr>]\<rparr>"
  using sync_status_updates [OF mem_gorm_ok, of "empty_tables\<lparr>sync_statuses := [zero_SyncStatus]\<rparr>" zero_SyncStatus 9 3]
  by simp

end
