(* ===== verification/Merkle_Spec.thy ===== *)
theory Merkle_Spec
  imports Node_Paths "HOL-Library.Sublist"
begin

text \<open>
  The abstract specification of the two trees: a map from node paths to hashes in which
  every inner node holds the hash of its two children, the root that the leaves
  determine, the change of one leaf with the rehashing of its ancestors, and the root
  that an inclusion proof yields.  It knows nothing of rows and databases; the
  theories of the two trees refine their operations to it.
\<close>

type_synonym 'h nodes = "string \<Rightarrow> 'h option"

section \<open>Trees, roots, rehashing, proofs\<close>

definition node_ok :: "('h \<Rightarrow> 'h \<Rightarrow> 'h) \<Rightarrow> 'h nodes \<Rightarrow> string \<Rightarrow> bool" where
  "node_ok H m p \<longleftrightarrow>
    (\<exists>l r. m (p @ ''0'') = Some l \<and> m (p @ ''1'') = Some r \<and> m p = Some (H l r))"

definition merkle_tree :: "nat \<Rightarrow> ('h \<Rightarrow> 'h \<Rightarrow> 'h) \<Rightarrow> 'h nodes \<Rightarrow> bool" where
  "merkle_tree d H m \<longleftrightarrow>
    (\<forall>p. binary p \<and> length p \<le> d \<longrightarrow> m p \<noteq> None) \<and>
    (\<forall>p. binary p \<and> length p < d \<longrightarrow> node_ok H m p)"

fun merkle_root :: "('h \<Rightarrow> 'h \<Rightarrow> 'h) \<Rightarrow> (string \<Rightarrow> 'h) \<Rightarrow> nat \<Rightarrow> string \<Rightarrow> 'h" where
  "merkle_root H leaf 0 p = leaf p"
| "merkle_root H leaf (Suc n) p =
     H (merkle_root H leaf n (p @ ''0'')) (merkle_root H leaf n (p @ ''1''))"

text \<open>One step up: the parent's hash from a child, the child's last bit and its sibling.\<close>

definition parent_of :: "('h \<Rightarrow> 'h \<Rightarrow> 'h) \<Rightarrow> char \<Rightarrow> 'h \<Rightarrow> 'h \<Rightarrow> 'h" where
  "parent_of H c h s = (if c = CHR ''0'' then H h s else H s h)"

text \<open>The paths of the next two functions run from the leaf up, that is, reversed.\<close>

fun refresh :: "('h \<Rightarrow> 'h \<Rightarrow> 'h) \<Rightarrow> 'h nodes \<Rightarrow> string \<Rightarrow> 'h \<Rightarrow> 'h nodes" where
  "refresh H m [] h = m([] \<mapsto> h)"
| "refresh H m (c # q) h =
     refresh H (m(rev (c # q) \<mapsto> h)) q (parent_of H c h (the (m (sib (rev (c # q))))))"

fun proof_root :: "('h \<Rightarrow> 'h \<Rightarrow> 'h) \<Rightarrow> string \<Rightarrow> 'h \<Rightarrow> 'h list \<Rightarrow> 'h" where
  "proof_root H (c # q) h (s # ss) = proof_root H q (parent_of H c h s) ss"
| "proof_root H q h ss = h"

text \<open>The siblings of a node and of its ancestors, from the node up.\<close>

fun sib_hashes :: "'h nodes \<Rightarrow> string \<Rightarrow> 'h list" where
  "sib_hashes m [] = []"
| "sib_hashes m (c # q) = the (m (sib (rev (c # q)))) # sib_hashes m q"

section \<open>Roots\<close>

lemma merkle_treeD:
  assumes "merkle_tree d H m" "binary p"
  shows "length p \<le> d \<Longrightarrow> m p \<noteq> None" and "length p < d \<Longrightarrow> node_ok H m p"
  using assms by (auto simp: merkle_tree_def)

lemma merkle_tree_value:
  assumes "merkle_tree d H m" "binary p" "length p < d"
  shows "m p = Some (H (the (m (p @ ''0''))) (the (m (p @ ''1''))))"
  using merkle_treeD(2) [OF assms] by (auto simp: node_ok_def)

lemma merkle_tree_root:
  assumes "merkle_tree d H m" "binary p" "length p + n = d"
  shows "m p = Some (merkle_root H (\<lambda>x. the (m x)) n p)"
  using assms(2,3)
proof (induction n arbitrary: p)
  case 0
  with assms(1) show ?case by (auto dest: merkle_treeD)
next
  case (Suc n)
  from Suc.prems have "binary (p @ ''0'')" "binary (p @ ''1'')" by auto
  with Suc have
    "m (p @ ''0'') = Some (merkle_root H (\<lambda>x. the (m x)) n (p @ ''0''))"
    "m (p @ ''1'') = Some (merkle_root H (\<lambda>x. the (m x)) n (p @ ''1''))" by auto
  with merkle_tree_value [OF assms(1)] Suc.prems show ?case by simp
qed

lemma merkle_root_cong:
  assumes "\<And>x. binary x \<Longrightarrow> prefix p x \<Longrightarrow> length x = length p + n \<Longrightarrow> f x = g x" and "binary p"
  shows "merkle_root H f n p = merkle_root H g n p"
  using assms
proof (induction n arbitrary: p)
  case (Suc n)
  have "merkle_root H f n (p @ [c]) = merkle_root H g n (p @ [c])"
    if c: "c = CHR ''0'' \<or> c = CHR ''1''" for c
  proof (rule Suc.IH)
    fix x assume "binary x" "prefix (p @ [c]) x" "length x = length (p @ [c]) + n"
    then show "f x = g x" using Suc.prems(1) [of x] by (simp add: append_prefixD)
  next
    show "binary (p @ [c])" using Suc.prems(2) c by simp
  qed
  from this [of "CHR ''0''"] this [of "CHR ''1''"] show ?case by simp
qed simp

section \<open>Rehashing after a change of one leaf\<close>

lemma strict_prefix_snoc_iff: "strict_prefix x (p @ [c]) \<longleftrightarrow> x = p \<or> strict_prefix x p"
  by (auto simp: strict_prefix_def)

lemma refresh_other: "\<not> prefix x (rev q) \<Longrightarrow> refresh H m q h x = m x"
proof (induction q arbitrary: m h)
  case (Cons c q)
  from Cons.prems have "\<not> prefix x (rev q)" "x \<noteq> rev (c # q)" by auto
  with Cons.IH show ?case by simp
qed auto

lemma refresh_self: "refresh H m q h (rev q) = Some h"
proof (cases q)
  case (Cons c r)
  have "\<not> prefix (rev (c # r)) (rev r)" by (auto dest: prefix_length_le)
  then show ?thesis by (simp add: Cons refresh_other)
qed simp

lemma node_ok_update:
  assumes "node_ok H m x" "p \<noteq> x" "p \<noteq> x @ ''0''" "p \<noteq> x @ ''1''"
  shows "node_ok H (m(p \<mapsto> h)) x"
  using assms by (auto simp: node_ok_def)

lemma node_ok_parent:
  assumes c: "c = CHR ''0'' \<or> c = CHR ''1''" and s: "m (sib (p @ [c])) = Some s"
  shows "node_ok H (m(p @ [c] \<mapsto> h, p \<mapsto> parent_of H c h s)) p"
  using c s by (auto simp: node_ok_def parent_of_def flip_char_def)

text \<open>
  The invariant of the way up: every node is in order except the strict ancestors of the
  node about to be written.
\<close>

lemma refresh_tree_aux:
  assumes "binary (rev q)" "length q \<le> d"
    and "\<forall>x. binary x \<and> length x \<le> d \<longrightarrow> m x \<noteq> None"
    and "\<forall>x. binary x \<and> length x < d \<and> \<not> strict_prefix x (rev q) \<longrightarrow> node_ok H (m(rev q \<mapsto> h)) x"
  shows "merkle_tree d H (refresh H m q h)"
  using assms
proof (induction q arbitrary: m h)
  case Nil
  then show ?case by (auto simp: merkle_tree_def)
next
  case (Cons c q)
  let ?p = "rev q" and ?m = "m(rev (c # q) \<mapsto> h)"
  let ?h = "parent_of H c h (the (m (sib (rev (c # q)))))"
  have bq: "binary ?p" and c: "c = CHR ''0'' \<or> c = CHR ''1''" using Cons.prems(1) by auto
  have "binary (sib (rev (c # q)))" "length (sib (rev (c # q))) \<le> d"
    using Cons.prems(1,2) by (auto simp: flip_char_def)
  with Cons.prems(3) obtain s where s: "m (sib (?p @ [c])) = Some s" by fastforce
  have "merkle_tree d H (refresh H ?m q ?h)"
  proof (rule Cons.IH [OF bq])
    show "length q \<le> d" using Cons.prems(2) by simp
    show "\<forall>x. binary x \<and> length x \<le> d \<longrightarrow> ?m x \<noteq> None" using Cons.prems(3) by auto
    show "\<forall>x. binary x \<and> length x < d \<and> \<not> strict_prefix x ?p \<longrightarrow> node_ok H (?m(?p \<mapsto> ?h)) x"
    proof (intro allI impI, elim conjE)
      fix x assume x: "binary x" "length x < d" "\<not> strict_prefix x ?p"
      show "node_ok H (?m(?p \<mapsto> ?h)) x"
      proof (cases "x = ?p")
        case True
        with node_ok_parent [of c m ?p s H h] c s show ?thesis by simp
      next
        case False
        with x have "\<not> strict_prefix x (rev (c # q))" by (simp add: strict_prefix_snoc_iff)
        with x Cons.prems(4) have "node_ok H ?m x" by blast
        then show ?thesis
          by (rule node_ok_update) (use False x in \<open>auto simp: strict_prefix_def\<close>)
      qed
    qed
  qed
  then show ?case by simp
qed

theorem refresh_tree:
  assumes "merkle_tree d H m" "binary p" "length p = d"
  shows "merkle_tree d H (refresh H m (rev p) h)"
proof (rule refresh_tree_aux)
  show "\<forall>x. binary x \<and> length x < d \<and> \<not> strict_prefix x (rev (rev p)) \<longrightarrow>
      node_ok H (m(rev (rev p) \<mapsto> h)) x"
  proof (intro allI impI, elim conjE)
    fix x assume x: "binary x" "length x < d" "\<not> strict_prefix x (rev (rev p))"
    then have "node_ok H m x" using assms(1) by (simp add: merkle_treeD)
    then show "node_ok H (m(rev (rev p) \<mapsto> h)) x"
      by (rule node_ok_update) (use x assms in \<open>auto simp: strict_prefix_def\<close>)
  qed
qed (use assms in \<open>auto dest: merkle_treeD\<close>)

lemma refresh_leaf:
  assumes "length x = length p"
  shows "refresh H m (rev p) h x = (if x = p then Some h else m x)"
proof (cases "x = p")
  case True
  then show ?thesis using refresh_self [of H m "rev p" h] by simp
next
  case False
  with assms have "\<not> prefix x (rev (rev p))"
    by (auto simp: prefix_def)
  with False show ?thesis by (simp add: refresh_other)
qed

theorem refresh_root:
  assumes "merkle_tree d H m" "binary p" "length p = d"
  shows "refresh H m (rev p) h [] = Some (merkle_root H ((\<lambda>x. the (m x))(p := h)) d [])"
proof -
  let ?m = "refresh H m (rev p) h"
  have "?m [] = Some (merkle_root H (\<lambda>x. the (?m x)) d [])"
    by (rule merkle_tree_root [OF refresh_tree [OF assms]]) simp_all
  also have "merkle_root H (\<lambda>x. the (?m x)) d [] = merkle_root H ((\<lambda>x. the (m x))(p := h)) d []"
    by (rule merkle_root_cong) (use assms(3) in \<open>auto simp: refresh_leaf\<close>)
  finally show ?thesis .
qed

section \<open>Inclusion proofs\<close>

lemma proof_root_ancestor:
  assumes "merkle_tree d H m" "binary (rev q)" "length q \<le> d"
  shows "m [] = Some (proof_root H q (the (m (rev q))) (sib_hashes m q))"
  using assms(2,3)
proof (induction q)
  case Nil
  with merkle_treeD(1) [OF assms(1), of "[]"] show ?case by auto
next
  case (Cons c q)
  then have b: "binary (rev q)" and len: "length (rev q) < d"
    and c: "c = CHR ''0'' \<or> c = CHR ''1''" by auto
  have "the (m (rev q)) = parent_of H c (the (m (rev q @ [c]))) (the (m (sib (rev q @ [c]))))"
    using c merkle_tree_value [OF assms(1) b len] by (auto simp: parent_of_def flip_char_def)
  with Cons.IH b len show ?case by simp
qed

text \<open>The root after a change is the root that the old siblings prove for the new leaf.\<close>

lemma refresh_proof_root:
  "refresh H m q h [] = Some (proof_root H q h (sib_hashes m q))"
proof (induction q arbitrary: m h)
  case (Cons c q)
  let ?p = "rev (c # q)"
  let ?h = "parent_of H c h (the (m (sib ?p)))"
  have sibs: "sib_hashes (m(?p \<mapsto> h)) r = sib_hashes m r" if "length r \<le> length q" for r
    using that
  proof (induction r)
    case (Cons d r)
    have "length (sib (rev (d # r))) = length (d # r)"
      by (subst sib_length) simp_all
    with Cons.prems have "sib (rev (d # r)) \<noteq> ?p" by (metis length_rev less_irrefl le_imp_less_Suc length_Cons)
    then have "(m(?p \<mapsto> h)) (sib (rev (d # r))) = m (sib (rev (d # r)))" by (rule fun_upd_other)
    moreover have "sib_hashes (m(?p \<mapsto> h)) r = sib_hashes m r"
      by (rule Cons.IH) (use Cons.prems in simp)
    ultimately show ?case by (simp only: sib_hashes.simps)
  qed simp
  have "refresh H m (c # q) h [] = Some (proof_root H q ?h (sib_hashes (m(?p \<mapsto> h)) q))"
    by (simp only: refresh.simps Cons.IH)
  also have "sib_hashes (m(?p \<mapsto> h)) q = sib_hashes m q" by (rule sibs) simp
  finally show ?case by simp
qed simp

end
