(* ===== verification/Merkle_Hash.thy ===== *)
theory Merkle_Hash
  imports Merkle_Spec
begin

text \<open>
  Hashing of tree nodes: \<open>GetParent\<close> and \<open>encodeChildren\<close> of \<open>core/utils.go\<close>,
  \<open>encodePubkey\<close> of \<open>core/account.go\<close> and the default hashes of
  \<open>core/merkleTree.go\<close>.  Keccak-256, the ABI encoder, the text of a \<open>common.Hash\<close> and
  \<open>pad.Left\<close> belong to other packages: they are the fields of a record \<open>libs\<close>, and
  \<open>libs_ok\<close> is what those packages document.  \<open>l_exp2_overflow\<close> is the
  implementation-dependent result of Go's conversion of a float that does not fit \<open>int\<close>.
\<close>

record libs =
  l_keccak :: "bytes \<Rightarrow> bytes"
  l_hash_text :: "bytes \<Rightarrow> string"
  l_new_type :: "string \<Rightarrow> go_error option"
  l_pack_bytes32x2 :: "bytes \<Rightarrow> bytes \<Rightarrow> go_error + bytes"
  l_pack_bytes :: "bytes \<Rightarrow> go_error + bytes"
  l_pad_left :: "string \<Rightarrow> nat \<Rightarrow> string \<Rightarrow> string"
  l_exp2_overflow :: "u64 \<Rightarrow> int"

text \<open>
  Keccak-256 gives 32 bytes, a \<open>common.Hash\<close> prints as \<open>0x\<close> and its hex digits, the ABI
  types \<open>bytes32\<close> and \<open>bytes\<close> exist, and the ABI encoding of two \<open>bytes32\<close> is their
  concatenation.
\<close>

definition libs_ok :: "libs \<Rightarrow> bool" where
  "libs_ok L \<longleftrightarrow>
     (\<forall>x. wf_ba (l_keccak L x)) \<and>
     (\<forall>b. wf_ba b \<longrightarrow> l_hash_text L b = ByteArray_String b) \<and>
     l_new_type L ''bytes32'' = None \<and> l_new_type L ''bytes'' = None \<and>
     (\<forall>l r. wf_ba l \<longrightarrow> wf_ba r \<longrightarrow> l_pack_bytes32x2 L l r = Inr (l @ r)) \<and>
     (\<forall>b. \<exists>e. l_pack_bytes L b = Inr e) \<and>
     pad_left_spec (l_pad_left L)"

section \<open>\<open>core/utils.go\<close>\<close>

definition of_abi :: "go_error + 'a \<Rightarrow> 'a res" where
  "of_abi r = (case r of Inl e \<Rightarrow> Err e | Inr a \<Rightarrow> Ok a)"

definition Keccak256 :: "libs \<Rightarrow> bytes \<Rightarrow> bytes" where
  "Keccak256 L data = l_keccak L data"

definition KeccakFromString :: "libs \<Rightarrow> string \<Rightarrow> bytes res" where
  "KeccakFromString L data = (case hex_DecodeString data of
     Inl e \<Rightarrow> Err (ErrHex e) | Inr bz \<Rightarrow> Ok (Keccak256 L bz))"

definition encodeChildren :: "libs \<Rightarrow> ByteArray \<Rightarrow> ByteArray \<Rightarrow> bytes res" where
  "encodeChildren L left right =
    (case l_new_type L ''bytes32'' of
       Some e \<Rightarrow> Err e
     | None \<Rightarrow> of_abi (l_pack_bytes32x2 L left right))"

definition GetParent :: "libs \<Rightarrow> ByteArray \<Rightarrow> ByteArray \<Rightarrow> ByteArray res" where
  "GetParent L left right =
    res_bind (encodeChildren L left right) (\<lambda>data.
      let leaf = Keccak256 L data in Ok (BytesToByteArray leaf))"

text \<open>\<open>encodePubkey\<close> panics on a key that is not hex, and returns ABI errors.\<close>

definition encodePubkey :: "libs \<Rightarrow> string \<Rightarrow> bytes res" where
  "encodePubkey L pubkey =
    (case hex_DecodeString pubkey of
       Inl e \<Rightarrow> Panic (PanicErr (ErrHex e))
     | Inr pubkeyBytes \<Rightarrow>
         (case l_new_type L ''bytes'' of
            Some e \<Rightarrow> Err e
          | None \<Rightarrow> of_abi (l_pack_bytes L pubkeyBytes)))"

section \<open>\<open>core/merkleTree.go\<close>\<close>

definition ZERO_VALUE_LEAF_hex :: string where
  "ZERO_VALUE_LEAF_hex = ''0x290decd9548b62a8d60345a988386fc84ba6bc95484008f6362f93160ef3e563''"

definition ZERO_VALUE_LEAF :: ByteArray where
  "ZERO_VALUE_LEAF = (case HexToByteArray ZERO_VALUE_LEAF_hex of
     Ok b \<Rightarrow> b | Err _ \<Rightarrow> replicate 32 0 | Panic _ \<Rightarrow> replicate 32 0)"

text \<open>The loop \<open>for i := 1; i < depth; i++\<close>; \<open>k\<close> is the number of rounds left.\<close>

fun GenDefaultHashes_loop :: "libs \<Rightarrow> nat \<Rightarrow> nat \<Rightarrow> ByteArray list \<Rightarrow> ByteArray list res" where
  "GenDefaultHashes_loop L i 0 hashes = Ok hashes"
| "GenDefaultHashes_loop L i (Suc k) hashes =
     res_bind (GetParent L (hashes ! (i - 1)) (hashes ! (i - 1))) (\<lambda>parent.
       GenDefaultHashes_loop L (i + 1) k (hashes[i := parent]))"

definition GenDefaultHashes :: "libs \<Rightarrow> int \<Rightarrow> ByteArray list res" where
  "GenDefaultHashes L depth =
    (if depth < 0 then Panic (PanicMsg ''makeslice: len out of range'')
     else if depth = 0 then Panic IndexOutOfRange
     else GenDefaultHashes_loop L 1 (nat depth - 1)
           ((replicate (nat depth) (replicate 32 0))[0 := ZERO_VALUE_LEAF]))"

definition defaultHashes :: "libs \<Rightarrow> ByteArray list res" where
  "defaultHashes L = GenDefaultHashes L 100"

text \<open>\<open>defaultHashes[k]\<close>, a slice of length 100.\<close>

definition default_hash :: "libs \<Rightarrow> u64 \<Rightarrow> ByteArray res" where
  "default_hash L k = res_bind (defaultHashes L) (\<lambda>hs.
     if unat k < length hs then Ok (hs ! unat k) else Panic IndexOutOfRange)"

section \<open>Lemmas\<close>

lemma libs_okD:
  assumes "libs_ok L"
  shows "wf_ba (l_keccak L x)" "wf_ba b \<Longrightarrow> l_hash_text L b = ByteArray_String b"
    "l_new_type L ''bytes32'' = None" "l_new_type L ''bytes'' = None"
    "wf_ba l \<Longrightarrow> wf_ba r \<Longrightarrow> l_pack_bytes32x2 L l r = Inr (l @ r)"
    "\<exists>e. l_pack_bytes L b = Inr e" "pad_left_spec (l_pad_left L)"
  using assms by (simp_all add: libs_ok_def)

lemma GetParent_ok:
  assumes "libs_ok L" "wf_ba l" "wf_ba r"
  shows "GetParent L l r = Ok (l_keccak L (l @ r))"
  using assms by (simp add: GetParent_def encodeChildren_def of_abi_def Keccak256_def libs_okD)

lemma ZERO_VALUE_LEAF_hex_ok: "HexToByteArray ZERO_VALUE_LEAF_hex = Ok ZERO_VALUE_LEAF"
  by (simp add: ZERO_VALUE_LEAF_def ZERO_VALUE_LEAF_hex_def HexToByteArray_def hex_value_def)

lemma ZERO_VALUE_LEAF_wf [simp]: "wf_ba ZERO_VALUE_LEAF"
  by (rule HexToByteArray_wf [OF ZERO_VALUE_LEAF_hex_ok])

text \<open>The parent's hash on the texts that the \<open>Hash\<close> columns hold.\<close>

definition bytes_of_text :: "string \<Rightarrow> ByteArray" where
  "bytes_of_text h = (case HexToByteArray h of Ok b \<Rightarrow> b | _ \<Rightarrow> [])"

definition node_hash :: "libs \<Rightarrow> string \<Rightarrow> string \<Rightarrow> string" where
  "node_hash L l r = ByteArray_String (l_keccak L (bytes_of_text l @ bytes_of_text r))"

lemma bytes_of_text_String [simp]: "wf_ba b \<Longrightarrow> bytes_of_text (ByteArray_String b) = b"
  by (simp add: bytes_of_text_def)

lemma node_hash_ok: "libs_ok L \<Longrightarrow> hash_ok (node_hash L l r)"
  by (auto simp: node_hash_def libs_okD)

lemma GetParent_text:
  assumes "libs_ok L" "hash_ok l" "hash_ok r"
  obtains lb rb pb where "hash_to_bytes l = Ok lb" "hash_to_bytes r = Ok rb"
    "HexToByteArray l = Ok lb" "HexToByteArray r = Ok rb"
    "GetParent L lb rb = Ok pb" "wf_ba pb" "ByteArray_String pb = node_hash L l r"
proof -
  from assms obtain lb rb where b: "wf_ba lb" "l = ByteArray_String lb" "wf_ba rb" "r = ByteArray_String rb"
    by (auto simp: hash_ok_def)
  with assms(1) show ?thesis
    by (intro that [of lb rb "l_keccak L (lb @ rb)"]) (simp_all add: GetParent_ok libs_okD node_hash_def)
qed

text \<open>The empty subtrees: \<open>empty_hash L k\<close> is the root of a tree of height \<open>k\<close> with zero leaves.\<close>

fun empty_hash :: "libs \<Rightarrow> nat \<Rightarrow> ByteArray" where
  "empty_hash L 0 = ZERO_VALUE_LEAF"
| "empty_hash L (Suc k) = l_keccak L (empty_hash L k @ empty_hash L k)"

lemma empty_hash_wf: "libs_ok L \<Longrightarrow> wf_ba (empty_hash L k)"
  by (cases k) (simp_all add: libs_okD)

lemma empty_hash_root:
  assumes "libs_ok L"
  shows "ByteArray_String (empty_hash L k) =
    merkle_root (node_hash L) (\<lambda>_. ByteArray_String ZERO_VALUE_LEAF) k p"
proof (induction k arbitrary: p)
  case (Suc k)
  have "merkle_root (node_hash L) (\<lambda>_. ByteArray_String ZERO_VALUE_LEAF) (Suc k) p
      = node_hash L (ByteArray_String (empty_hash L k)) (ByteArray_String (empty_hash L k))"
    by (simp add: Suc [symmetric])
  also have "\<dots> = ByteArray_String (empty_hash L (Suc k))"
    using assms by (simp add: node_hash_def empty_hash_wf)
  finally show ?case ..
qed simp

lemma GenDefaultHashes_loop_ok:
  assumes "libs_ok L" "0 < i" "length hs = i + k" "\<forall>j < i. hs ! j = empty_hash L j"
  shows "GenDefaultHashes_loop L i k hs = Ok (map (empty_hash L) [0..<i + k])"
  using assms(2-)
proof (induction k arbitrary: i hs)
  case 0
  then show ?case by (auto intro!: nth_equalityI)
next
  case (Suc k)
  let ?p = "empty_hash L i"
  have "hs ! (i - 1) = empty_hash L (i - 1)" using Suc.prems by simp
  then have "GetParent L (hs ! (i - 1)) (hs ! (i - 1)) = Ok ?p"
    using assms(1) Suc.prems(1) empty_hash.simps(2) [of L "i - 1"]
    by (simp add: GetParent_ok empty_hash_wf)
  moreover have "GenDefaultHashes_loop L (i + 1) k (hs[i := ?p]) = Ok (map (empty_hash L) [0..<i + 1 + k])"
  proof (rule Suc.IH)
    have "i < length hs" using Suc.prems by simp
    with Suc.prems show "\<forall>j < i + 1. hs[i := ?p] ! j = empty_hash L j"
      by (auto simp: less_Suc_eq)
  qed (use Suc.prems in simp_all)
  ultimately show ?case by simp
qed

lemma GenDefaultHashes_ok:
  assumes "libs_ok L" "0 < depth"
  shows "GenDefaultHashes L depth = Ok (map (empty_hash L) [0..<nat depth])"
proof -
  have "GenDefaultHashes_loop L 1 (nat depth - 1) ((replicate (nat depth) (replicate 32 0))[0 := ZERO_VALUE_LEAF])
      = Ok (map (empty_hash L) [0..<1 + (nat depth - 1)])"
    by (rule GenDefaultHashes_loop_ok) (use assms in auto)
  with assms(2) show ?thesis by (simp add: GenDefaultHashes_def)
qed

lemma default_hash_ok:
  "libs_ok L \<Longrightarrow> unat k < 100 \<Longrightarrow> default_hash L k = Ok (empty_hash L (unat k))"
  by (simp add: default_hash_def defaultHashes_def GenDefaultHashes_ok)

section \<open>Reference libraries\<close>

text \<open>
  Functions that meet \<open>libs_ok\<close>, for the witnesses: the hash is a checksum of the bytes,
  not Keccak, but of the right width, and the encoders concatenate.
\<close>

definition ref_hash :: "bytes \<Rightarrow> bytes" where
  "ref_hash x = BytesToByteArray [foldl (\<lambda>a b. 3 * a + b + 1) 7 x, foldl (\<lambda>a b. 5 * a + b + 3) 1 x]"

definition ref_libs :: libs where
  "ref_libs = \<lparr>l_keccak = ref_hash, l_hash_text = ByteArray_String, l_new_type = (\<lambda>_. None),
     l_pack_bytes32x2 = (\<lambda>l r. Inr (l @ r)), l_pack_bytes = Inr, l_pad_left = pad_left_ref,
     l_exp2_overflow = (\<lambda>_. - 9223372036854775808)\<rparr>"

lemma ref_libs_ok: "libs_ok ref_libs"
  by (simp add: libs_ok_def ref_libs_def ref_hash_def pad_left_ref_spec)

section \<open>Properties\<close>

text \<open>
  Hashing keeps the types: with a library that answers as documented, the parent of two
  32-byte arrays and each of the \<open>depth\<close> default hashes are 32-byte arrays, and so is what
  \<open>HexToByteArray\<close> reads, from whatever text.  \<open>GenDefaultHashes\<close> of a depth that is not
  positive panics: its first assignment is out of range.
\<close>

theorem hashing_types:
  assumes "libs_ok L"
  shows "(wf_ba l \<and> wf_ba r \<longrightarrow> (\<exists>p. GetParent L l r = Ok p \<and> wf_ba p)) \<and>
    (HexToByteArray a = Ok b \<longrightarrow> wf_ba b) \<and>
    (0 < depth \<longrightarrow> (\<exists>hs. GenDefaultHashes L depth = Ok hs \<and> length hs = nat depth \<and> list_all wf_ba hs)) \<and>
    (depth \<le> 0 \<longrightarrow> (\<exists>f. GenDefaultHashes L depth = Panic f))"
proof -
  have "depth \<le> 0 \<longrightarrow> (\<exists>f. GenDefaultHashes L depth = Panic f)" by (auto simp: GenDefaultHashes_def)
  with assms HexToByteArray_wf [of a b] show ?thesis
    by (auto simp: GetParent_ok libs_okD GenDefaultHashes_ok list_all_iff empty_hash_wf)
qed

theorem hashing_types_witness:
  "(\<exists>hs. GenDefaultHashes ref_libs 3 = Ok hs \<and> length hs = 3 \<and> list_all wf_ba hs) \<and>
   (\<exists>p. GetParent ref_libs (replicate 32 0) (replicate 32 1) = Ok p \<and> wf_ba p)"
  using hashing_types [OF ref_libs_ok, of "replicate 32 0" "replicate 32 1" _ _ 3] by (auto simp: wf_ba_def)

end
