(* ===== verification/Node_Store.thy ===== *)
theory Node_Store
  imports Merkle_Spec
begin

text \<open>
  The interface that the balance tree and the account tree share.  Both keep their nodes
  as rows of a table, find the siblings of a path by looking up the other child at every
  level, and store a leaf by writing it, rehashing its parent, reading the parent back
  and going on from there.  The locale states what these operations promise; inside it,
  storing a leaf is proved to refine \<open>refresh\<close> of the abstract tree.  The two trees
  interpret it with their own operations.
\<close>

text \<open>
  The node of a path: the only row with that path.  (Two rows with one path would make
  \<open>Find\<close> ambiguous, so then there is no node.)
\<close>

definition row_at :: "('r \<Rightarrow> string) \<Rightarrow> 'r list \<Rightarrow> string \<Rightarrow> 'r option" where
  "row_at path rows p = (case filter (\<lambda>r. path r = p) rows of [r] \<Rightarrow> Some r | _ \<Rightarrow> None)"

lemma row_at_Some: "row_at path rows p = Some r \<longleftrightarrow> filter (\<lambda>r. path r = p) rows = [r]"
  by (auto simp: row_at_def split: list.splits)

lemma row_at_path: "row_at path rows p = Some r \<Longrightarrow> path r = p"
  by (auto simp: row_at_Some filter_eq_Cons_iff)

lemma row_at_in: "row_at path rows p = Some r \<Longrightarrow> r \<in> set rows"
proof -
  assume "row_at path rows p = Some r"
  then have "r \<in> set (filter (\<lambda>r. path r = p) rows)" by (simp add: row_at_Some)
  then show ?thesis by simp
qed

lemma row_at_distinct:
  assumes "distinct (map path rows)" "r \<in> set rows" "path r = p"
  shows "row_at path rows p = Some r"
  using filter_single_unique [OF assms(1,2)] assms(3) by (simp add: row_at_Some)

lemma row_at_append:
  "p \<notin> path ` set ys \<Longrightarrow> row_at path (xs @ ys) p = row_at path xs p"
  "p \<notin> path ` set xs \<Longrightarrow> row_at path (xs @ ys) p = row_at path ys p"
proof -
  have none: "filter (\<lambda>r. path r = p) zs = []" if "p \<notin> path ` set zs" for zs
    using that by (auto simp: filter_empty_conv)
  show "p \<notin> path ` set ys \<Longrightarrow> row_at path (xs @ ys) p = row_at path xs p"
    and "p \<notin> path ` set xs \<Longrightarrow> row_at path (xs @ ys) p = row_at path ys p"
    using none by (simp_all add: row_at_def)
qed

lemma row_at_update:
  assumes "\<And>r. path r = p \<Longrightarrow> path (f r) = p"
  shows "row_at path (map (\<lambda>r. if path r = p then f r else r) rows) q =
    (if q = p then map_option f (row_at path rows p) else row_at path rows q)"
proof -
  have *: "filter (\<lambda>r. path r = q) (map (\<lambda>r. if path r = p then f r else r) rows) =
      (if q = p then map f (filter (\<lambda>r. path r = p) rows) else filter (\<lambda>r. path r = q) rows)"
    by (induction rows) (auto simp: assms)
  then show ?thesis by (auto simp: row_at_def split: list.splits)
qed

text \<open>The sibling rows of a (reversed) path, from the leaf up.\<close>

fun sib_rows :: "(string \<Rightarrow> 'n option) \<Rightarrow> string \<Rightarrow> 'n list" where
  "sib_rows nd [] = []"
| "sib_rows nd (c # q) = the (nd (sib (rev (c # q)))) # sib_rows nd q"

lemma sib_rows_length [simp]: "length (sib_rows nd q) = length q"
  by (induction q) simp_all

lemma sib_neq: "sib (p @ [c]) \<noteq> p @ [c]"
  by (simp add: flip_char_neq)

lemma sib_rows_cong:
  assumes "\<And>x. x \<noteq> [] \<Longrightarrow> prefix x (rev q) \<Longrightarrow> nd' (sib x) = nd (sib x)"
  shows "sib_rows nd' q = sib_rows nd q"
  using assms
proof (induction q)
  case (Cons c q)
  have "nd' (sib (rev (c # q))) = nd (sib (rev (c # q)))" by (rule Cons.prems) auto
  moreover have "sib_rows nd' q = sib_rows nd q"
    by (rule Cons.IH) (use Cons.prems in \<open>auto simp: prefix_def\<close>)
  ultimately show ?case by (simp only: sib_rows.simps)
qed simp

lemma sib_not_below:
  assumes "x \<noteq> []" "prefix x p" "prefix p y"
  shows "sib x \<noteq> y"
proof
  assume y: "sib x = y"
  from assms(1) obtain z c where x: "x = z @ [c]" by (metis rev_exhaust)
  with assms(2,3) have "length y \<ge> length p" "length p \<ge> length x" by (auto dest: prefix_length_le)
  moreover have "length y = length x" using y x by auto
  ultimately have "p = x" "y = p" using assms(2,3) by (auto simp: prefix_def)
  with y x sib_neq show False by metis
qed

locale node_store =
  fixes inv :: "'s \<Rightarrow> bool"
    and node :: "'s \<Rightarrow> string \<Rightarrow> 'n option"
    and frame :: "'s \<Rightarrow> 'f"
    and path_of :: "'n \<Rightarrow> string"
    and hash_of :: "'n \<Rightarrow> string"
    and H :: "string \<Rightarrow> string \<Rightarrow> string"
    and writable :: "'n \<Rightarrow> 'n \<Rightarrow> bool"
    and written :: "'n \<Rightarrow> 'n \<Rightarrow> 'n"
    and rehash :: "string \<Rightarrow> 'n \<Rightarrow> 'n"
    and lookup :: "string \<Rightarrow> ('s, 'n) prog"
    and sib_loop :: "nat \<Rightarrow> string \<Rightarrow> 'n list \<Rightarrow> ('s, 'n list) prog"
    and step :: "int \<Rightarrow> 'n \<Rightarrow> 'n \<Rightarrow> ('s, unit) prog"
    and put_root :: "'n \<Rightarrow> ('s, unit) prog"
    and store :: "string \<Rightarrow> nat \<Rightarrow> 'n \<Rightarrow> 'n list \<Rightarrow> ('s, unit) prog"
  assumes node_path: "node s p = Some n \<Longrightarrow> path_of n = p"
    and H_ok: "inv s \<Longrightarrow> hash_ok hl \<Longrightarrow> hash_ok hr \<Longrightarrow> hash_ok (H hl hr)"
    and written_hash: "hash_ok (hash_of n) \<Longrightarrow> hash_of (written n r) = hash_of n"
    and written_self: "written r r = r"
    and writable_self: "writable r r"
    and rehash_hash: "hash_ok h \<Longrightarrow> hash_of (rehash h r) = h"
    and rehash_rehash: "hash_ok h \<Longrightarrow> rehash h (rehash g r) = rehash h r"
    and lookup_run: "inv s \<Longrightarrow> node s p = Some n \<Longrightarrow> lookup p s = (Ok n, s)"
    and sib_loop_0: "sib_loop 0 rel acc = ret acc"
    and sib_loop_Suc: "sib_loop (Suc i) rel acc =
      andThen (lift (GetOtherChild rel)) (\<lambda>otherChild. andThen (lookup otherChild) (\<lambda>otherNode.
        sib_loop i (GetParentPath rel) (acc @ [otherNode])))"
    and step_run: "inv s \<Longrightarrow> binary (p @ [c]) \<Longrightarrow> path_of n = p @ [c] \<Longrightarrow> hash_ok (hash_of n) \<Longrightarrow>
      node s (p @ [c]) = Some r \<Longrightarrow> writable n r \<Longrightarrow> node s p = Some pn \<Longrightarrow>
      node s (sib (p @ [c])) = Some sb \<Longrightarrow> hash_ok (hash_of sb) \<Longrightarrow>
      \<exists>s'. step (if c = CHR ''0'' then 0 else 1) n sb s = (Ok (), s') \<and> inv s' \<and> frame s' = frame s \<and>
        node s' = (node s)(p @ [c] \<mapsto> written n r,
                           p \<mapsto> rehash (parent_of H c (hash_of n) (hash_of sb)) pn)"
    and put_root_run: "inv s \<Longrightarrow> node s [] = Some r \<Longrightarrow> hash_ok (hash_of n) \<Longrightarrow>
      \<exists>s'. put_root n s = (Ok (), s') \<and> inv s' \<and> frame s' = frame s \<and>
        node s' = (node s)([] \<mapsto> rehash (hash_of n) r)"
    and store_Nil: "store P i n [] = put_root n"
    and store_Cons: "store P i n (sb # sbs) =
      andThen (lift (GetNthBitFromRight P (int i))) (\<lambda>b. andThen (step b n sb) (\<lambda>_.
        andThen (lookup (GetParentPath (path_of n))) (\<lambda>n'. store P (Suc i) n' sbs)))"
begin

definition hashes :: "'s \<Rightarrow> string nodes" where
  "hashes s = (\<lambda>p. map_option hash_of (node s p))"

text \<open>Every node down to level \<open>d\<close> has its row, with a hash that can be read back.\<close>

definition complete :: "nat \<Rightarrow> 's \<Rightarrow> bool" where
  "complete d s \<longleftrightarrow> (\<forall>p. binary p \<and> length p \<le> d \<longrightarrow> (\<exists>n. node s p = Some n \<and> hash_ok (hash_of n)))"

lemma completeD:
  assumes "complete d s" "binary p" "length p \<le> d"
  obtains n where "node s p = Some n" "hash_ok (hash_of n)"
  using assms by (auto simp: complete_def)

lemma hashes_None: "hashes s p = None \<longleftrightarrow> node s p = None"
  by (simp add: hashes_def)

lemma siblings_run:
  assumes "inv s" "complete d s" "binary p" "length p \<le> d"
  shows "sib_loop (length p) p acc s = (Ok (acc @ sib_rows (node s) (rev p)), s)"
  using assms(3,4)
proof (induction p arbitrary: acc rule: rev_induct)
  case (snoc c p)
  let ?p = "p @ [c]"
  have "binary (sib ?p)" "length (sib ?p) \<le> d" using snoc.prems by (auto simp: flip_char_def)
  then obtain sb where sb: "node s (sib ?p) = Some sb" by (rule completeD [OF assms(2)])
  have "sib_loop (length ?p) ?p acc s = sib_loop (length p) p (acc @ [sb]) s"
    using snoc.prems sb lookup_run [OF assms(1) sb]
    by (simp add: sib_loop_Suc GetOtherChild_binary andThen_ok)
  also have "\<dots> = (Ok ((acc @ [sb]) @ sib_rows (node s) (rev p)), s)"
    by (rule snoc.IH) (use snoc.prems in auto)
  finally show ?case using sb by simp
qed (simp add: sib_loop_0)

text \<open>One round of the loop leaves the tree complete and the siblings still ahead untouched.\<close>

lemma round_complete:
  assumes "complete d s" "binary (p @ [c])" "length (p @ [c]) \<le> d"
    and "node s' = (node s)(p @ [c] \<mapsto> n, p \<mapsto> pn)" "hash_ok (hash_of n)" "hash_ok (hash_of pn)"
  shows "complete d s'"
  using assms by (auto simp: complete_def)

lemma round_siblings:
  assumes "node s' = (node s)(p @ [c] \<mapsto> n, p \<mapsto> pn)"
  shows "sib_rows (node s') (rev p) = sib_rows (node s) (rev p)"
proof (rule sib_rows_cong)
  fix x :: string assume "x \<noteq> []" "prefix x (rev (rev p))"
  then have "sib x \<noteq> p @ [c]" "sib x \<noteq> p"
    using sib_not_below [of x p "p @ [c]"] sib_not_below [of x p p] by auto
  then show "node s' (sib x) = node s (sib x)" by (simp add: assms)
qed

lemma hashes_upd2:
  "node s' = (node s)(p @ [c] \<mapsto> n, p \<mapsto> pn) \<Longrightarrow>
   hashes s' = (hashes s)(p @ [c] \<mapsto> hash_of n, p \<mapsto> hash_of pn)"
  by (auto simp: hashes_def fun_eq_iff)

lemma refresh_absorb: "refresh H (m(rev q \<mapsto> h)) q h = refresh H m q h"
proof (cases q)
  case (Cons c r)
  have "sib (rev (c # r)) \<noteq> rev (c # r)" using sib_neq [of "rev r" c] by simp
  then have "(m(rev q \<mapsto> h)) (sib (rev (c # r))) = m (sib (rev (c # r)))"
    unfolding Cons by (rule fun_upd_other)
  then show ?thesis unfolding Cons by (simp only: refresh.simps fun_upd_upd)
qed simp

lemma refresh_below:
  assumes "strict_prefix (rev q) y"
  shows "refresh H (m(y \<mapsto> v)) q h = (refresh H m q h)(y \<mapsto> v)"
  using assms
proof (induction q arbitrary: m h)
  case Nil
  then show ?case by (auto simp: fun_upd_twist)
next
  case (Cons c q)
  have y: "rev (c # q) \<noteq> y" using Cons.prems by (auto simp: strict_prefix_def)
  have "sib (rev (c # q)) \<noteq> y"
    by (rule sib_not_below [of _ "rev (c # q)"]) (use Cons.prems in \<open>auto simp: strict_prefix_def\<close>)
  then have s: "(m(y \<mapsto> v)) (sib (rev (c # q))) = m (sib (rev (c # q)))" by simp
  have "strict_prefix (rev q) y" using Cons.prems by (auto simp: strict_prefix_def prefix_def)
  from Cons.IH [OF this] show ?case
    unfolding refresh.simps s fun_upd_twist [OF y [symmetric]] by (simp only:)
qed

text \<open>What a completed store leaves behind, with respect to the state it started from.\<close>

definition stored :: "string \<Rightarrow> 'n \<Rightarrow> 'n \<Rightarrow> 's \<Rightarrow> 's \<Rightarrow> bool" where
  "stored p n r s s' \<longleftrightarrow> frame s' = frame s \<and>
     hashes s' = refresh H (hashes s) (rev p) (hash_of n) \<and>
     (\<forall>x. \<not> prefix x p \<longrightarrow> node s' x = node s x) \<and>
     (p \<noteq> [] \<longrightarrow> node s' p = Some (written n r)) \<and>
     (p = [] \<longrightarrow> (\<exists>h. hash_ok h \<and> node s' [] = Some (rehash h r))) \<and>
     (\<forall>x. strict_prefix x p \<longrightarrow> (\<exists>h. hash_ok h \<and> node s' x = map_option (rehash h) (node s x)))"

lemma store_run:
  assumes "inv s" "complete d s" "binary (p @ suf)" "length p \<le> d" "i = length suf"
    and "path_of n = p" "hash_ok (hash_of n)" "node s p = Some r" "writable n r"
  shows "\<exists>s'. store (p @ suf) i n (sib_rows (node s) (rev p)) s = (Ok (), s') \<and> inv s' \<and>
    complete d s' \<and> stored p n r s s'"
  using assms
proof (induction p arbitrary: s n r i suf rule: rev_induct)
  case Nil
  from put_root_run [OF Nil.prems(1,8,7)] obtain s' where
    s': "put_root n s = (Ok (), s')" "inv s'" "frame s' = frame s"
      "node s' = (node s)([] \<mapsto> rehash (hash_of n) r)" by blast
  have "complete d s'" using Nil.prems(2,7) s'(4) by (auto simp: complete_def rehash_hash)
  moreover have "hashes s' = refresh H (hashes s) (rev []) (hash_of n)"
    using s'(4) Nil.prems(7) by (auto simp: hashes_def rehash_hash fun_eq_iff)
  ultimately show ?case using s' Nil.prems(7) by (auto simp: store_Nil stored_def)
next
  case (snoc c p)
  let ?p = "p @ [c]"
  have bp: "binary ?p" "binary p" "length p \<le> d" "length ?p \<le> d" using snoc.prems(3,4) by auto
  have c: "c = CHR ''0'' \<or> c = CHR ''1''" using bp by auto
  have "binary (sib ?p)" "length (sib ?p) \<le> d" using bp by (auto simp: flip_char_def)
  then obtain sb where sb: "node s (sib ?p) = Some sb" "hash_ok (hash_of sb)"
    by (rule completeD [OF snoc.prems(2)])
  obtain pn where pn: "node s p = Some pn" by (rule completeD [OF snoc.prems(2) bp(2,3)])
  let ?h = "parent_of H c (hash_of n) (hash_of sb)"
  have h: "hash_ok ?h" using H_ok [OF snoc.prems(1)] snoc.prems(7) sb(2) by (simp add: parent_of_def)
  from step_run [OF snoc.prems(1) bp(1) snoc.prems(6,7,8,9) pn sb] obtain s1 where
    s1: "step (if c = CHR ''0'' then 0 else 1) n sb s = (Ok (), s1)" "inv s1" "frame s1 = frame s"
      "node s1 = (node s)(?p \<mapsto> written n r, p \<mapsto> rehash ?h pn)" by blast
  have c1: "complete d s1"
    by (rule round_complete [OF snoc.prems(2) bp(1,4) s1(4)])
      (use snoc.prems(7) h in \<open>simp_all add: written_hash rehash_hash\<close>)
  have n1: "node s1 p = Some (rehash ?h pn)" using s1(4) by simp
  have bit: "GetNthBitFromRight (?p @ suf) (int i) = Ok (if c = CHR ''0'' then 0 else 1)"
    using GetNthBitFromRight_binary [of "?p @ suf" i] snoc.prems(3,5) by (simp add: nth_append)
  have "store (?p @ suf) i n (sib_rows (node s) (rev ?p)) s =
      store (p @ (c # suf)) (Suc i) (rehash ?h pn) (sib_rows (node s1) (rev p)) s1"
    using sb(1) s1(1,2) bit bp(2) lookup_run [OF s1(2) n1] snoc.prems(1,6) bp(1)
    by (simp add: store_Cons andThen_ok round_siblings [OF s1(4)])
  moreover have "\<exists>s'. store (p @ (c # suf)) (Suc i) (rehash ?h pn) (sib_rows (node s1) (rev p)) s1 = (Ok (), s')
      \<and> inv s' \<and> complete d s' \<and> stored p (rehash ?h pn) (rehash ?h pn) s1 s'"
    by (rule snoc.IH)
      (use s1(2) c1 bp snoc.prems(3,5) n1 h in
        \<open>simp_all add: rehash_hash writable_self node_path [OF n1]\<close>)
  ultimately obtain s' where
    run: "store (?p @ suf) i n (sib_rows (node s) (rev ?p)) s = (Ok (), s')"
    and s': "inv s'" "complete d s'" and st: "stored p (rehash ?h pn) (rehash ?h pn) s1 s'" by metis
  have "stored ?p n r s s'"
  proof -
    note st = st [unfolded stored_def]
    have sbh: "the (hashes s (sib (rev (c # rev p)))) = hash_of sb" using sb by (simp add: hashes_def)
    have "hashes s' = refresh H ((hashes s)(?p \<mapsto> hash_of n, p \<mapsto> ?h)) (rev p) ?h"
      using st hashes_upd2 [OF s1(4)] h snoc.prems(7) by (simp add: rehash_hash written_hash)
    also have "\<dots> = refresh H ((hashes s)(?p \<mapsto> hash_of n)) (rev p) ?h"
      using refresh_absorb [of "(hashes s)(?p \<mapsto> hash_of n)" "rev p" ?h] by simp
    also have "\<dots> = refresh H (hashes s) (rev ?p) (hash_of n)"
      using sbh by (simp add: sb)
    finally have hs: "hashes s' = refresh H (hashes s) (rev ?p) (hash_of n)" .
    have other: "node s' x = node s x" if "\<not> prefix x ?p" for x
      using that st s1(4) by auto
    have self: "node s' ?p = Some (written n r)"
      using st s1(4) by (simp add: prefix_def)
    have anc: "\<exists>g. hash_ok g \<and> node s' x = map_option (rehash g) (node s x)" if x: "strict_prefix x ?p" for x
    proof (cases "x = p")
      case True
      show ?thesis
      proof (cases "p = []")
        case True
        with st obtain g where "hash_ok g" "node s' [] = Some (rehash g (rehash ?h pn))" by auto
        with True \<open>x = p\<close> pn show ?thesis by (intro exI [of _ g]) (simp add: rehash_rehash)
      next
        case False
        with st have "node s' p = Some (rehash ?h pn)" by (simp add: written_self)
        with True pn h show ?thesis by auto
      qed
    next
      case False
      with x have x: "strict_prefix x p" by (simp add: strict_prefix_snoc_iff)
      then have "node s1 x = node s x" using s1(4) by (auto simp: strict_prefix_def prefix_def)
      with st x show ?thesis by metis
    qed
    show ?thesis using hs other self anc st s1(3) by (simp add: stored_def)
  qed
  with run s' show ?case by blast
qed

text \<open>
  Storing a leaf with its own siblings refines \<open>refresh\<close>: the tree stays a Merkle tree,
  its root is the one that the changed leaves determine, and nothing else moves.
\<close>

lemma update_leaf:
  assumes "inv s" "complete d s" "merkle_tree d H (hashes s)"
    and p: "binary p" "length p = d" "0 < d"
    and n: "path_of n = p" "hash_ok (hash_of n)" "node s p = Some r" "writable n r"
  shows "\<exists>s'. store p 0 n (sib_rows (node s) (rev p)) s = (Ok (), s') \<and> inv s' \<and> frame s' = frame s \<and>
    complete d s' \<and> merkle_tree d H (hashes s') \<and> node s' p = Some (written n r) \<and>
    (\<forall>x. length x = d \<and> x \<noteq> p \<longrightarrow> node s' x = node s x) \<and>
    hashes s' [] = Some (merkle_root H ((\<lambda>x. the (hashes s x))(p := hash_of n)) d [])"
proof -
  have "\<exists>s'. store (p @ []) 0 n (sib_rows (node s) (rev p)) s = (Ok (), s') \<and> inv s' \<and>
      complete d s' \<and> stored p n r s s'"
    by (rule store_run) (use assms in simp_all)
  then obtain s' where run: "store p 0 n (sib_rows (node s) (rev p)) s = (Ok (), s')" and
    s': "inv s'" "complete d s'" "stored p n r s s'" by auto
  have h: "hashes s' = refresh H (hashes s) (rev p) (hash_of n)" using s'(3) by (simp add: stored_def)
  have "merkle_tree d H (hashes s')" unfolding h by (rule refresh_tree [OF assms(3) p(1,2)])
  moreover have "hashes s' [] = Some (merkle_root H ((\<lambda>x. the (hashes s x))(p := hash_of n)) d [])"
    unfolding h by (rule refresh_root [OF assms(3) p(1,2)])
  moreover have "node s' x = node s x" if "length x = d" "x \<noteq> p" for x
  proof -
    have "\<not> prefix x p" using that p(2) by (auto simp: prefix_def)
    with s'(3) show ?thesis by (simp add: stored_def)
  qed
  moreover have "frame s' = frame s" "node s' p = Some (written n r)"
    using s'(3) p by (auto simp: stored_def)
  ultimately show ?thesis using run s'(1,2) by blast
qed

text \<open>
  When the first write of the leaf reaches no row, the loop still rehashes the path: the
  root then belongs to leaves of which one is not stored.
\<close>

lemma store_unwritten:
  assumes "inv s" "complete d s" "merkle_tree d H (hashes s)"
    and p: "binary (p @ [c])" "length (p @ [c]) = d"
    and n: "path_of n = p @ [c]" "hash_ok (hash_of n)" "node s (p @ [c]) = Some r"
    and step1: "\<And>sb pn. node s p = Some pn \<Longrightarrow> node s (sib (p @ [c])) = Some sb \<Longrightarrow> hash_ok (hash_of sb) \<Longrightarrow>
      \<exists>s1. step (if c = CHR ''0'' then 0 else 1) n sb s = (Ok (), s1) \<and> inv s1 \<and> frame s1 = frame s \<and>
        node s1 = (node s)(p \<mapsto> rehash (parent_of H c (hash_of n) (hash_of sb)) pn)"
  shows "\<exists>s'. store (p @ [c]) 0 n (sib_rows (node s) (rev (p @ [c]))) s = (Ok (), s') \<and> inv s' \<and>
    frame s' = frame s \<and> complete d s' \<and> (\<forall>x. length x = d \<longrightarrow> node s' x = node s x) \<and>
    hashes s' [] = Some (merkle_root H ((\<lambda>x. the (hashes s x))(p @ [c] := hash_of n)) d [])"
proof -
  let ?p = "p @ [c]"
  have bp: "binary p" "length p \<le> d" "length ?p \<le> d" "length p < d" using p by auto
  have "binary (sib ?p)" "length (sib ?p) \<le> d" using p by (auto simp: flip_char_def)
  then obtain sb where sb: "node s (sib ?p) = Some sb" "hash_ok (hash_of sb)"
    by (rule completeD [OF assms(2)])
  obtain pn where pn: "node s p = Some pn" by (rule completeD [OF assms(2) bp(1,2)])
  let ?h = "parent_of H c (hash_of n) (hash_of sb)"
  have h: "hash_ok ?h" using H_ok [OF assms(1)] n(2) sb(2) by (simp add: parent_of_def)
  from step1 [OF pn sb] obtain s1 where
    s1: "step (if c = CHR ''0'' then 0 else 1) n sb s = (Ok (), s1)" "inv s1" "frame s1 = frame s"
      "node s1 = (node s)(p \<mapsto> rehash ?h pn)" by blast
  have s1': "node s1 = (node s)(?p \<mapsto> r, p \<mapsto> rehash ?h pn)" using s1(4) n(3) by (auto simp: fun_eq_iff)
  obtain r' where "node s ?p = Some r'" "hash_ok (hash_of r')" by (rule completeD [OF assms(2) p(1) bp(3)])
  with n(3) have r: "hash_ok (hash_of r)" by simp
  have c1: "complete d s1"
    by (rule round_complete [OF assms(2) p(1) bp(3) s1']) (use r h in \<open>simp_all add: rehash_hash\<close>)
  have n1: "node s1 p = Some (rehash ?h pn)" using s1(4) by simp
  have bit: "GetNthBitFromRight ?p (int 0) = Ok (if c = CHR ''0'' then 0 else 1)"
    using GetNthBitFromRight_binary [of ?p 0] p(1) by simp
  have "store ?p 0 n (sib_rows (node s) (rev ?p)) s =
      store ?p (Suc 0) (rehash ?h pn) (sib_rows (node s1) (rev p)) s1"
    using sb(1) s1(1,2) bit bp(1) lookup_run [OF s1(2) n1] n(1) p(1)
    by (simp add: store_Cons andThen_ok round_siblings [OF s1'])
  moreover have "\<exists>s'. store (p @ [c]) (Suc 0) (rehash ?h pn) (sib_rows (node s1) (rev p)) s1 = (Ok (), s')
      \<and> inv s' \<and> complete d s' \<and> stored p (rehash ?h pn) (rehash ?h pn) s1 s'"
    by (rule store_run) (use s1(2) c1 bp p n1 h in \<open>simp_all add: rehash_hash writable_self node_path [OF n1]\<close>)
  ultimately obtain s' where run: "store ?p 0 n (sib_rows (node s) (rev ?p)) s = (Ok (), s')"
    and s': "inv s'" "complete d s'" "stored p (rehash ?h pn) (rehash ?h pn) s1 s'" by metis
  note st = s'(3) [unfolded stored_def]
  have leaves: "node s' x = node s x" if "length x = d" for x
  proof -
    have "\<not> prefix x p" "x \<noteq> p" using that bp(4) by (auto dest: prefix_length_le)
    with st s1(4) show ?thesis by auto
  qed
  have hs1: "hashes s1 = (hashes s)(p \<mapsto> ?h)"
    using s1(4) h by (auto simp: hashes_def fun_eq_iff rehash_hash)
  have "hashes s' = refresh H (hashes s) (rev p) ?h"
    using st h refresh_absorb [of "hashes s" "rev p" ?h] by (simp add: hs1 rehash_hash)
  moreover have "refresh H (hashes s) (rev ?p) (hash_of n) = refresh H ((hashes s)(?p \<mapsto> hash_of n)) (rev p) ?h"
    using sb by (simp add: hashes_def)
  moreover have "refresh H ((hashes s)(?p \<mapsto> hash_of n)) (rev p) ?h [] = refresh H (hashes s) (rev p) ?h []"
    using refresh_below [of "rev p" ?p "hashes s" "hash_of n" ?h] by (simp add: strict_prefix_def)
  ultimately have "hashes s' [] = refresh H (hashes s) (rev ?p) (hash_of n) []" by simp
  with refresh_root [OF assms(3) p] run s'(1,2) st s1(3) leaves show ?thesis by simp
qed

text \<open>The siblings that a lookup returns prove the node's hash against the root.\<close>

lemma sib_rows_hashes:
  assumes "complete d s" "binary (rev q)" "length q \<le> d"
  shows "map hash_of (sib_rows (node s) q) = sib_hashes (hashes s) q"
  using assms(2,3)
proof (induction q)
  case (Cons c q)
  have "binary (sib (rev (c # q)))" "length (sib (rev (c # q))) \<le> d"
    using Cons.prems by (auto simp: flip_char_def)
  then obtain sb where sb: "node s (sib (rev (c # q))) = Some sb" by (rule completeD [OF assms(1)])
  then have "the (hashes s (sib (rev (c # q)))) = hash_of sb" by (simp add: hashes_def)
  with sb have "hash_of (the (node s (sib (rev (c # q))))) = the (hashes s (sib (rev (c # q))))" by (simp only: option.sel)
  with Cons show ?case by (simp only: sib_rows.simps sib_hashes.simps list.map) simp
qed simp

lemma siblings_prove_root:
  assumes "inv s" "complete d s" "merkle_tree d H (hashes s)" "binary p" "length p \<le> d" "node s p = Some n"
  shows "\<exists>sbs. sib_loop (length p) p [] s = (Ok sbs, s) \<and> length sbs = length p \<and>
    hashes s [] = Some (proof_root H (rev p) (hash_of n) (map hash_of sbs))"
proof -
  have "sib_loop (length p) p [] s = (Ok (sib_rows (node s) (rev p)), s)"
    using siblings_run [OF assms(1,2,4,5), of "[]"] by simp
  moreover have "hashes s [] = Some (proof_root H (rev p) (the (hashes s (rev (rev p)))) (sib_hashes (hashes s) (rev p)))"
    by (rule proof_root_ancestor [OF assms(3)]) (use assms(4,5) in simp_all)
  moreover have "map hash_of (sib_rows (node s) (rev p)) = sib_hashes (hashes s) (rev p)"
    by (rule sib_rows_hashes [OF assms(2)]) (use assms(4,5) in simp_all)
  ultimately show ?thesis using assms(6)
    by (intro exI [of _ "sib_rows (node s) (rev p)"]) (simp add: hashes_def)
qed

end

end
