(* ===== verification/Tree_Init.thy ===== *)
theory Tree_Init
  imports Node_Store
begin

text \<open>
  The second interface that the two trees share: how \<open>InitStateTree\<close> and
  \<open>InitAccountTree\<close> fill an empty table.  Leaves get the paths of the lowest level from
  left to right, and then every level is read back, paired up and the parents inserted.
  Inside the locale the result is proved to be a complete Merkle tree over the leaves.
\<close>

section \<open>The paths of a level, from left to right\<close>

fun level_paths :: "nat \<Rightarrow> string list" where
  "level_paths 0 = [[]]"
| "level_paths (Suc k) = concat (map (\<lambda>p. [p @ ''0'', p @ ''1'']) (level_paths k))"

lemma length_pairs: "length (concat (map (\<lambda>p. [f p, g p]) xs)) = 2 * length xs"
  by (induction xs) simp_all

lemma nth_pairs:
  "i < 2 * length xs \<Longrightarrow>
   concat (map (\<lambda>p. [f p, g p]) xs) ! i = (if even i then f (xs ! (i div 2)) else g (xs ! (i div 2)))"
proof (induction xs arbitrary: i)
  case (Cons x xs)
  show ?case
  proof (cases "i < 2")
    case True
    then have "i = 0 \<or> i = 1" by auto
    then show ?thesis by auto
  next
    case False
    then obtain j where j: "i = Suc (Suc j)" by (metis One_nat_def Suc_1 less_2_cases_iff not0_implies_Suc)
    with Cons.prems have "j < 2 * length xs" by simp
    from Cons.IH [OF this] show ?thesis by (simp add: j)
  qed
qed simp

lemma level_paths_length [simp]: "length (level_paths k) = 2 ^ k"
  by (induction k) (simp_all add: length_pairs)

lemma level_paths_nth:
  "i < 2 ^ k \<Longrightarrow> binary (level_paths k ! i) \<and> length (level_paths k ! i) = k \<and> bin_val (level_paths k ! i) = i"
proof (induction k arbitrary: i)
  case (Suc k)
  then have "i div 2 < 2 ^ k" by auto
  note IH = Suc.IH [OF this]
  have "i < 2 * length (level_paths k)" using Suc.prems by simp
  note e = nth_pairs [OF this, of "\<lambda>p. p @ ''0''" "\<lambda>p. p @ ''1''"]
  have "i = 2 * (i div 2) + (if even i then 0 else 1)" by auto
  with e IH show ?case by auto
qed simp

lemma level_paths_set: "set (level_paths k) = {p. binary p \<and> length p = k}"
proof (rule set_eqI, rule iffI)
  fix p assume "p \<in> set (level_paths k)"
  then show "p \<in> {p. binary p \<and> length p = k}" using level_paths_nth by (auto simp: in_set_conv_nth)
next
  fix p :: string assume p: "p \<in> {p. binary p \<and> length p = k}"
  then have "bin_val p < 2 ^ k" using bin_val_less [of p] by auto
  with p level_paths_nth [OF this] have "level_paths k ! bin_val p = p" by (intro bin_val_inj) auto
  with \<open>bin_val p < 2 ^ k\<close> show "p \<in> set (level_paths k)" by (metis level_paths_length nth_mem)
qed

lemma level_paths_distinct: "distinct (level_paths k)"
  by (auto simp: distinct_conv_nth) (metis level_paths_nth)

lemma level_paths_first: "level_paths k ! 0 = replicate k (CHR ''0'')"
  using level_paths_nth [of 0 k] by (intro bin_val_inj) auto

lemma level_paths_next:
  assumes "pad_left_spec pad" "Suc i < 2 ^ k" "k \<le> 63"
  shows "GetAdjacentNodePath pad (level_paths k ! i) = Ok (level_paths k ! Suc i)"
proof -
  note p = level_paths_nth [of i k] level_paths_nth [OF assms(2)]
  have k: "0 < k" using assms(2) by (cases k) auto
  have "(2::nat) ^ k \<le> 2 ^ 63" using assms(3) by (rule power_increasing) simp
  with assms(2) have "Suc i < 2 ^ 64" by simp
  then have "GetAdjacentNodePath pad (level_paths k ! i) = Ok (bits k (Suc i))"
    using GetAdjacentNodePath_bits [OF assms(1), of "level_paths k ! i"] p assms(2) k by fastforce
  also have "bits k (Suc i) = level_paths k ! Suc i"
    using p(2) bits_facts [OF assms(2) k] by (intro bin_val_inj) auto
  finally show ?thesis .
qed

lemma of_nat_level:
  "a < 2 ^ 64 \<Longrightarrow> b < 2 ^ 64 \<Longrightarrow> (of_nat a :: u64) = of_nat b \<longleftrightarrow> a = b"
  by (metis unat_of_nat_u64)

section \<open>The interface\<close>

locale tree_init =
  fixes inv :: "'s \<Rightarrow> bool"
    and rows :: "'s \<Rightarrow> 'n list"
    and frame :: "'s \<Rightarrow> 'f"
    and path_of :: "'n \<Rightarrow> string"
    and level_of :: "'n \<Rightarrow> u64"
    and hash_of :: "'n \<Rightarrow> string"
    and fresh :: "'n \<Rightarrow> bool"
    and same :: "'n \<Rightarrow> 'n \<Rightarrow> bool"
    and H :: "string \<Rightarrow> string \<Rightarrow> string"
    and pad :: "string \<Rightarrow> nat \<Rightarrow> string \<Rightarrow> string"
    and mk :: "string \<Rightarrow> string \<Rightarrow> 'n"
    and set_path :: "'n \<Rightarrow> string \<Rightarrow> 'n"
    and at_depth :: "u64 \<Rightarrow> ('s, 'n list) prog"
    and pair_up :: "'n list \<Rightarrow> 'n list \<Rightarrow> 'n list res"
    and bulk :: "string \<Rightarrow> 'n list \<Rightarrow> ('s, unit) prog"
    and leaves :: "string \<Rightarrow> 'n list \<Rightarrow> 'n list \<Rightarrow> 'n list res"
    and levels :: "nat \<Rightarrow> ('s, unit) prog"
    and msg :: string
  assumes pad_ok: "inv s \<Longrightarrow> pad_left_spec pad"
    and H_ok: "inv s \<Longrightarrow> hash_ok hl \<Longrightarrow> hash_ok hr \<Longrightarrow> hash_ok (H hl hr)"
    and same_keeps: "same x y \<Longrightarrow> path_of y = path_of x \<and> level_of y = level_of x \<and> hash_of y = hash_of x"
    and mk_keeps: "path_of (mk p h) = p \<and> level_of (mk p h) = of_nat (length p) \<and> hash_of (mk p h) = h \<and> fresh (mk p h)"
    and set_path_keeps: "path_of (set_path n p) = p \<and> level_of (set_path n p) = of_nat (length p) \<and>
      hash_of (set_path n p) = hash_of n \<and> (fresh n \<longrightarrow> fresh (set_path n p))"
    and at_depth_run: "inv s \<Longrightarrow> at_depth k s = (Ok (filter (\<lambda>r. level_of r = k) (rows s)), s)"
    and bulk_run: "inv s \<Longrightarrow> \<forall>x \<in> set xs. fresh x \<Longrightarrow>
      \<exists>s' ys. bulk m xs s = (Ok (), s') \<and> inv s' \<and> frame s' = frame s \<and> list_all2 same xs ys \<and>
        rows s' = rows s @ ys"
    and pair_up_Nil: "pair_up [] acc = Ok acc"
    and pair_up_Cons: "inv s \<Longrightarrow> binary (path_of a) \<Longrightarrow> hash_ok (hash_of a) \<Longrightarrow> hash_ok (hash_of b) \<Longrightarrow>
      pair_up (a # b # xs) acc = pair_up xs (acc @ [mk (butlast (path_of a)) (H (hash_of a) (hash_of b))])"
    and leaves_Nil: "leaves q [] acc = Ok acc"
    and leaves_Cons: "leaves q (g # gs) acc =
      res_bind (GetAdjacentNodePath pad q) (\<lambda>q'. leaves q' gs (acc @ [set_path g q']))"
    and levels_0: "levels 0 = ret ()"
    and levels_Suc: "levels (Suc i) = andThen (at_depth (of_nat (Suc i))) (\<lambda>accs.
      andThen (lift (pair_up accs [])) (\<lambda>next. andThen (bulk msg next) (\<lambda>_. levels i)))"
begin

definition row_hashes :: "'n list \<Rightarrow> string nodes" where
  "row_hashes rs = (\<lambda>p. map_option hash_of (row_at path_of rs p))"

text \<open>The rows while the tree is built from the leaves at level \<open>d\<close> up to level \<open>k\<close>.\<close>

definition built :: "nat \<Rightarrow> nat \<Rightarrow> 'n list \<Rightarrow> bool" where
  "built k d rs \<longleftrightarrow> distinct (map path_of rs) \<and>
     (\<forall>r \<in> set rs. binary (path_of r) \<and> k \<le> length (path_of r) \<and> length (path_of r) \<le> d \<and>
        level_of r = of_nat (length (path_of r)) \<and> hash_ok (hash_of r)) \<and>
     (\<forall>j. k \<le> j \<and> j \<le> d \<longrightarrow> map path_of (filter (\<lambda>r. level_of r = of_nat j) rs) = level_paths j) \<and>
     (\<forall>p. binary p \<and> k \<le> length p \<and> length p < d \<longrightarrow> node_ok H (row_hashes rs) p)"

lemma leaves_run:
  assumes "inv s" "d \<le> 63" "i + length gs < 2 ^ d"
  shows "leaves (level_paths d ! i) gs acc =
    Ok (acc @ map2 set_path gs (take (length gs) (drop (Suc i) (level_paths d))))"
  using assms(3)
proof (induction gs arbitrary: i acc)
  case (Cons g gs)
  then have i: "Suc i < 2 ^ d" by simp
  then have "drop (Suc i) (level_paths d) = level_paths d ! Suc i # drop (Suc (Suc i)) (level_paths d)"
    by (simp add: Cons_nth_drop_Suc)
  with Cons.IH [of "Suc i"] Cons.prems show ?case
    by (simp add: leaves_Cons level_paths_next [OF pad_ok [OF assms(1)] i assms(2)])
qed (simp add: leaves_Nil)

text \<open>Pairing up a level whose paths are the children of \<open>ps\<close>.\<close>

lemma pairs_run:
  assumes "inv s" "map path_of accs = concat (map (\<lambda>p. [p @ ''0'', p @ ''1'']) ps)"
    and "\<forall>a \<in> set accs. binary (path_of a) \<and> hash_ok (hash_of a)"
  shows "\<exists>ns. pair_up accs acc = Ok (acc @ ns) \<and> map path_of ns = ps \<and>
    (\<forall>n \<in> set ns. fresh n \<and> level_of n = of_nat (length (path_of n)) \<and> (\<exists>p h. n = mk p h) \<and>
      (\<exists>a \<in> set accs. \<exists>b \<in> set accs. path_of a = path_of n @ ''0'' \<and> path_of b = path_of n @ ''1'' \<and>
        hash_of n = H (hash_of a) (hash_of b)))"
  using assms(2,3)
proof (induction ps arbitrary: accs acc)
  case (Cons p ps)
  then obtain a b xs where accs: "accs = a # b # xs" "path_of a = p @ ''0''" "path_of b = p @ ''1''"
    "map path_of xs = concat (map (\<lambda>p. [p @ ''0'', p @ ''1'']) ps)" by (auto simp: map_eq_Cons_conv)
  let ?n = "mk p (H (hash_of a) (hash_of b))"
  have "pair_up accs acc = pair_up xs (acc @ [?n])"
    using accs Cons.prems(2) pair_up_Cons [OF assms(1), of a b] by auto
  moreover obtain ns where "pair_up xs (acc @ [?n]) = Ok ((acc @ [?n]) @ ns)" "map path_of ns = ps"
    "\<forall>n \<in> set ns. fresh n \<and> level_of n = of_nat (length (path_of n)) \<and> (\<exists>p h. n = mk p h) \<and>
      (\<exists>a \<in> set xs. \<exists>b \<in> set xs. path_of a = path_of n @ ''0'' \<and> path_of b = path_of n @ ''1'' \<and>
        hash_of n = H (hash_of a) (hash_of b))"
    using Cons.IH [OF accs(4), of "acc @ [?n]"] Cons.prems(2) accs(1) by auto
  ultimately show ?case using accs
    by (intro exI [of _ "?n # ns"]) (fastforce simp: mk_keeps)
qed (simp add: pair_up_Nil)

lemma builtD:
  assumes "built k d rs"
  shows "distinct (map path_of rs)"
    and "r \<in> set rs \<Longrightarrow> binary (path_of r) \<and> k \<le> length (path_of r) \<and> length (path_of r) \<le> d \<and>
      level_of r = of_nat (length (path_of r)) \<and> hash_ok (hash_of r)"
    and "k \<le> j \<Longrightarrow> j \<le> d \<Longrightarrow> map path_of (filter (\<lambda>r. level_of r = of_nat j) rs) = level_paths j"
    and "binary p \<Longrightarrow> k \<le> length p \<Longrightarrow> length p < d \<Longrightarrow> node_ok H (row_hashes rs) p"
  using assms by (simp_all add: built_def)

lemma row_hashes_node: "distinct (map path_of rs) \<Longrightarrow> r \<in> set rs \<Longrightarrow> row_hashes rs (path_of r) = Some (hash_of r)"
  by (simp add: row_hashes_def row_at_distinct)

text \<open>The rows that the levels above the leaves add are nodes made by \<open>mk\<close>.\<close>

definition inner :: "'n list \<Rightarrow> bool" where
  "inner ys \<longleftrightarrow> (\<forall>y \<in> set ys. \<exists>p h. same (mk p h) y)"

text \<open>Adding the parents of level \<open>Suc k\<close>.\<close>

lemma built_extend:
  assumes b: "built (Suc k) d rs" and d: "Suc k \<le> d" "d < 2 ^ 64"
    and ys: "map path_of ys = level_paths k"
      "\<And>y. y \<in> set ys \<Longrightarrow> level_of y = of_nat k \<and> hash_ok (hash_of y) \<and>
        (\<exists>a \<in> set rs. \<exists>b \<in> set rs. path_of a = path_of y @ ''0'' \<and> path_of b = path_of y @ ''1'' \<and>
          hash_of y = H (hash_of a) (hash_of b))"
  shows "built k d (rs @ ys)"
proof -
  note R = builtD [OF b]
  have yp: "binary (path_of y) \<and> length (path_of y) = k" if "y \<in> set ys" for y
    using that ys(1) level_paths_set [of k] by (metis (mono_tags) imageI list.set_map mem_Collect_eq)
  have "path_of ` set rs \<inter> path_of ` set ys = {}"
  proof -
    have "path_of r \<noteq> path_of y" if "r \<in> set rs" "y \<in> set ys" for r y
      using R(2) [OF that(1)] yp [OF that(2)] by auto
    then show ?thesis by auto
  qed
  moreover have "distinct (map path_of ys)" by (simp add: ys(1) level_paths_distinct)
  ultimately have dist: "distinct (map path_of (rs @ ys))" using R(1) by simp
  have lev_rs: "level_of r = of_nat j \<longleftrightarrow> length (path_of r) = j" if "r \<in> set rs" "j \<le> d" for r j
  proof -
    have *: "length (path_of r) < 2 ^ 64" "j < 2 ^ 64" using R(2) [OF that(1)] that(2) d(2) by linarith+
    have "level_of r = of_nat (length (path_of r))" using R(2) [OF that(1)] by blast
    then show ?thesis by (simp only: of_nat_level [OF *])
  qed
  have lev_ys: "level_of y = of_nat j \<longleftrightarrow> j = k" if "y \<in> set ys" "j \<le> d" for y j
  proof -
    have *: "k < 2 ^ 64" "j < 2 ^ 64" using that(2) d by linarith+
    have "level_of y = of_nat k" using ys(2) [OF that(1)] by blast
    then have "level_of y = of_nat j \<longleftrightarrow> k = j" by (simp only: of_nat_level [OF *])
    then show ?thesis by blast
  qed
  have levels_eq: "map path_of (filter (\<lambda>r. level_of r = of_nat j) (rs @ ys)) = level_paths j" if j: "k \<le> j" "j \<le> d" for j
  proof (cases "j = k")
    case True
    have "level_of r \<noteq> of_nat j" if "r \<in> set rs" for r
      using lev_rs [OF that j(2)] R(2) [OF that] True by linarith
    then have "filter (\<lambda>r. level_of r = of_nat j) rs = []" by (simp only: filter_empty_conv) blast
    moreover have "filter (\<lambda>r. level_of r = of_nat j) ys = ys"
      using lev_ys j(2) True by (simp only: filter_id_conv) blast
    ultimately show ?thesis using ys(1) True by (simp only: filter_append append_Nil)
  next
    case False
    then have "filter (\<lambda>r. level_of r = of_nat j) ys = []"
      using lev_ys j(2) by (simp only: filter_empty_conv) blast
    moreover have "Suc k \<le> j" using j(1) False by simp
    ultimately show ?thesis using R(3) [OF _ j(2)] by (simp only: filter_append append_Nil2)
  qed
  have nodes: "node_ok H (row_hashes (rs @ ys)) p" if p: "binary p" "k \<le> length p" "length p < d" for p
  proof (cases "length p = k")
    case True
    with p(1) have "p \<in> set (map path_of ys)" by (simp add: ys(1) level_paths_set)
    then obtain y where y: "y \<in> set ys" "path_of y = p" by auto
    with ys(2) obtain a b where "a \<in> set rs" "b \<in> set rs" "path_of a = p @ ''0''" "path_of b = p @ ''1''"
      "hash_of y = H (hash_of a) (hash_of b)" by blast
    with y row_hashes_node [OF dist, of a] row_hashes_node [OF dist, of b] row_hashes_node [OF dist, of y]
    show ?thesis by (auto simp: node_ok_def)
  next
    case False
    have "row_hashes (rs @ ys) q = row_hashes rs q" if "length q \<noteq> k" for q
      using that yp by (auto simp: row_hashes_def image_iff intro!: arg_cong [where f = "map_option hash_of"] row_at_append(1))
    moreover have "node_ok H (row_hashes rs) p" using R(4) p False by simp
    ultimately show ?thesis using p False by (simp add: node_ok_def)
  qed
  have "binary (path_of r) \<and> k \<le> length (path_of r) \<and> length (path_of r) \<le> d \<and>
      level_of r = of_nat (length (path_of r)) \<and> hash_ok (hash_of r)" if "r \<in> set (rs @ ys)" for r
    using that R(2) [of r] yp [of r] ys(2) [of r] d(1) by auto
  with dist levels_eq nodes show ?thesis unfolding built_def by blast
qed

lemma level_run:
  assumes i: "inv s" and b: "built (Suc k) d (rows s)" and d: "Suc k \<le> d" "d < 2 ^ 64"
  shows "\<exists>s' ys. levels (Suc k) s = levels k s' \<and> inv s' \<and> frame s' = frame s \<and>
    rows s' = rows s @ ys \<and> inner ys \<and> built k d (rows s')"
proof -
  let ?accs = "filter (\<lambda>r. level_of r = of_nat (Suc k)) (rows s)"
  have "map path_of ?accs = concat (map (\<lambda>p. [p @ ''0'', p @ ''1'']) (level_paths k))"
    using builtD(3) [OF b, of "Suc k"] d(1) by simp
  moreover have "\<forall>a \<in> set ?accs. binary (path_of a) \<and> hash_ok (hash_of a)" using builtD(2) [OF b] by auto
  ultimately obtain ns where ns: "pair_up ?accs [] = Ok ns" "map path_of ns = level_paths k"
    "\<And>n. n \<in> set ns \<Longrightarrow> fresh n \<and> level_of n = of_nat (length (path_of n)) \<and> (\<exists>p h. n = mk p h) \<and>
      (\<exists>a \<in> set ?accs. \<exists>b \<in> set ?accs. path_of a = path_of n @ ''0'' \<and> path_of b = path_of n @ ''1'' \<and>
        hash_of n = H (hash_of a) (hash_of b))"
    using pairs_run [OF i, of ?accs "level_paths k" "[]"] by auto
  have "\<forall>x \<in> set ns. fresh x" using ns(3) by blast
  from bulk_run [OF i this] obtain s' ys where s': "bulk msg ns s = (Ok (), s')" "inv s'" "frame s' = frame s"
    "list_all2 same ns ys" "rows s' = rows s @ ys" by blast
  from s'(4) have eq: "map path_of ys = map path_of ns" "map level_of ys = map level_of ns" "map hash_of ys = map hash_of ns"
    by (induction rule: list_all2_induct) (auto dest: same_keeps)
  have yn: "\<exists>n \<in> set ns. same n y" if "y \<in> set ys" for y
    using s'(4) that by (auto simp: list_all2_conv_all_nth in_set_conv_nth) (metis nth_mem)
  have inner: "inner ys" unfolding inner_def using yn ns(3) by metis
  have "built k d (rows s @ ys)"
  proof (rule built_extend [OF b d])
    show "map path_of ys = level_paths k" using eq ns(2) by simp
    fix y assume y: "y \<in> set ys"
    then obtain n where n: "n \<in> set ns" "same n y" using yn by blast
    from ns(3) [OF n(1)] obtain a c where ac: "a \<in> set (rows s)" "c \<in> set (rows s)"
      "path_of a = path_of n @ ''0''" "path_of c = path_of n @ ''1''" "hash_of n = H (hash_of a) (hash_of c)"
      "level_of n = of_nat (length (path_of n))" by auto
    moreover have "length (path_of n) = k"
      using n(1) ns(2) level_paths_set [of k] by (metis (mono_tags) imageI list.set_map mem_Collect_eq)
    moreover have "hash_ok (hash_of n)" using ac H_ok [OF i] builtD(2) [OF b] by metis
    ultimately show "level_of y = of_nat k \<and> hash_ok (hash_of y) \<and>
        (\<exists>a \<in> set (rows s). \<exists>b \<in> set (rows s). path_of a = path_of y @ ''0'' \<and> path_of b = path_of y @ ''1'' \<and>
          hash_of y = H (hash_of a) (hash_of b))"
      using same_keeps [OF n(2)] by metis
  qed
  moreover have "levels (Suc k) s = levels k s'"
    using at_depth_run [OF i] ns(1) s'(1) by (simp add: levels_Suc andThen_ok del: of_nat_Suc)
  ultimately show ?thesis using s' inner by metis
qed

lemma levels_run:
  assumes "inv s" "built k d (rows s)" "k \<le> d" "d < 2 ^ 64"
  shows "\<exists>s' ys. levels k s = (Ok (), s') \<and> inv s' \<and> frame s' = frame s \<and> rows s' = rows s @ ys \<and> inner ys \<and> built 0 d (rows s')"
  using assms(1-3)
proof (induction k arbitrary: s)
  case 0
  then show ?case by (simp add: levels_0 inner_def)
next
  case (Suc k)
  from level_run [OF Suc.prems assms(4)] obtain s1 ys where s1: "levels (Suc k) s = levels k s1" "inv s1"
    "frame s1 = frame s" "rows s1 = rows s @ ys" "inner ys" "built k d (rows s1)" by blast
  from Suc.IH [OF s1(2,6)] Suc.prems(3) obtain s2 zs where "levels k s1 = (Ok (), s2)" "inv s2"
    "frame s2 = frame s1" "rows s2 = rows s1 @ zs" "inner zs" "built 0 d (rows s2)" by auto
  with s1 show ?case by (intro exI [of _ s2] exI [of _ "ys @ zs"]) (auto simp: inner_def)
qed

text \<open>The leaf rows alone are level \<open>d\<close>.\<close>

lemma built_leaves:
  assumes "map path_of rs = level_paths d" "d < 2 ^ 64"
    and "\<And>r. r \<in> set rs \<Longrightarrow> level_of r = of_nat d \<and> hash_ok (hash_of r)"
  shows "built d d rs"
proof -
  have p: "binary (path_of r) \<and> length (path_of r) = d" if "r \<in> set rs" for r
    using that assms(1) level_paths_set [of d] by (metis (mono_tags) imageI list.set_map mem_Collect_eq)
  have "filter (\<lambda>r. level_of r = of_nat d) rs = rs" using assms(3) by (simp add: filter_id_conv)
  with assms p level_paths_distinct [of d] show ?thesis by (auto simp: built_def)
qed

lemma init_run:
  assumes i: "inv s" and c: "rows s = [c]" "path_of c = replicate d (CHR ''0'')" "level_of c = of_nat d" "hash_ok (hash_of c)"
    and gs: "\<forall>g \<in> set gs. fresh g \<and> hash_ok (hash_of g)" "Suc (length gs) = 2 ^ d" and d: "d \<le> 63"
  shows "\<exists>recs s1 s2. leaves (path_of c) gs [] = Ok recs \<and> bulk m recs s = (Ok (), s1) \<and>
    levels d s1 = (Ok (), s2) \<and> inv s2 \<and> frame s2 = frame s \<and> built 0 d (rows s2) \<and>
    row_at path_of (rows s2) (level_paths d ! 0) = Some c \<and>
    (\<forall>j < length gs. \<exists>r. row_at path_of (rows s2) (level_paths d ! Suc j) = Some r \<and>
       same (set_path (gs ! j) (level_paths d ! Suc j)) r) \<and>
    (\<exists>ys zs. rows s2 = c # ys @ zs \<and> map path_of (c # ys) = level_paths d \<and>
       list_all2 same (map2 set_path gs (drop 1 (level_paths d))) ys \<and> inner zs)"
proof -
  define recs where "recs = map2 set_path gs (drop 1 (level_paths d))"
  have len: "length (drop 1 (level_paths d)) = length gs" using gs(2) by simp
  have leaves: "leaves (path_of c) gs [] = Ok recs"
    using leaves_run [OF i d, of 0 gs "[]"] gs(2) c(2) len by (simp add: level_paths_first recs_def)
  have "\<forall>x \<in> set recs. fresh x" using gs(1) by (auto simp: recs_def set_path_keeps dest!: set_zip_leftD)
  from bulk_run [OF i this] obtain s1 ys where s1: "bulk m recs s = (Ok (), s1)" "inv s1" "frame s1 = frame s"
    "list_all2 same recs ys" "rows s1 = c # ys" using c(1) by fastforce
  have lys: "length ys = length gs" using list_all2_lengthD [OF s1(4)] len by (simp add: recs_def)
  have ys: "same (set_path (gs ! j) (level_paths d ! Suc j)) (ys ! j)" if "j < length gs" for j
    using list_all2_nthD [OF s1(4), of j] that len by (simp add: recs_def)
  have d64: "d < 2 ^ 64" using d by simp
  have paths: "map path_of (rows s1) = level_paths d"
  proof (rule nth_equalityI)
    show "length (map path_of (rows s1)) = length (level_paths d)" using s1(5) lys gs(2) by simp
    fix j assume "j < length (map path_of (rows s1))"
    then show "map path_of (rows s1) ! j = level_paths d ! j"
      using s1(5) lys c(2) by (cases j) (auto simp: level_paths_first set_path_keeps dest: same_keeps [OF ys])
  qed
  have "level_of r = of_nat d \<and> hash_ok (hash_of r)" if r: "r \<in> set (rows s1)" for r
  proof (cases "r = c")
    case False
    with r s1(5) obtain j where j: "j < length gs" "r = ys ! j" by (auto simp: in_set_conv_nth lys)
    have "Suc j < 2 ^ d" using j(1) gs(2) by simp
    with same_keeps [OF ys [OF j(1)]] j gs(1) level_paths_nth [of "Suc j" d] show ?thesis
      by (simp add: set_path_keeps)
  qed (use c in simp)
  from built_leaves [OF paths d64 this] have b: "built d d (rows s1)" .
  from levels_run [OF s1(2) b order_refl d64] obtain s2 zs where
    s2: "levels d s1 = (Ok (), s2)" "inv s2" "frame s2 = frame s1" "rows s2 = rows s1 @ zs" "built 0 d (rows s2)"
    "inner zs" by blast
  have at: "row_at path_of (rows s2) (level_paths d ! k) = Some (rows s1 ! k)" if "k < 2 ^ d" for k
  proof (rule row_at_distinct [OF builtD(1) [OF s2(5)]])
    have l: "k < length (rows s1)" using that paths by (metis length_map level_paths_length)
    then show "rows s1 ! k \<in> set (rows s2)" using s2(4) by simp
    show "path_of (rows s1 ! k) = level_paths d ! k" using l paths by (metis nth_map)
  qed
  have "row_at path_of (rows s2) (level_paths d ! Suc j) = Some (ys ! j)" if "j < length gs" for j
    using at [of "Suc j"] that s1(5) gs(2) by simp
  moreover have "\<exists>ys zs. rows s2 = c # ys @ zs \<and> map path_of (c # ys) = level_paths d \<and>
       list_all2 same (map2 set_path gs (drop 1 (level_paths d))) ys \<and> inner zs"
    using s1(4,5) s2(4,6) paths unfolding recs_def by auto
  moreover have "row_at path_of (rows s2) (level_paths d ! 0) = Some c" using at [of 0] s1(5) by simp
  ultimately show ?thesis using ys s1(1,3) s2(1-3,5) leaves
    by - (rule exI [of _ recs], rule exI [of _ s1], rule exI [of _ s2], simp)
qed

text \<open>What \<open>built 0 d\<close> gives: a complete Merkle tree.\<close>

lemma built_tree:
  assumes "built 0 d rs"
  shows "merkle_tree d H (row_hashes rs)"
    and "binary p \<Longrightarrow> length p \<le> d \<Longrightarrow> \<exists>n. row_at path_of rs p = Some n \<and> hash_ok (hash_of n)"
proof -
  note R = builtD [OF assms]
  have node: "\<exists>n. row_at path_of rs p = Some n \<and> hash_ok (hash_of n)" if "binary p" "length p \<le> d" for p
  proof -
    have "p \<in> set (level_paths (length p))" using that by (simp add: level_paths_set)
    then have "p \<in> set (map path_of (filter (\<lambda>r. level_of r = of_nat (length p)) rs))"
      using R(3) [of "length p"] that(2) by simp
    then obtain r where "r \<in> set rs" "path_of r = p" by auto
    with R(2) [of r] row_at_distinct [OF R(1), of r p] show ?thesis by blast
  qed
  then show "merkle_tree d H (row_hashes rs)"
    using R(4) by (fastforce simp: merkle_tree_def row_hashes_def)
  show "binary p \<Longrightarrow> length p \<le> d \<Longrightarrow> \<exists>n. row_at path_of rs p = Some n \<and> hash_ok (hash_of n)"
    by (rule node)
qed

end

end
