(* ===== verification/State_Tree.thy ===== *)
theory State_Tree
  imports Chain_Params Merkle_Hash Tree_Init
begin

text \<open>
  \<open>core/state.go\<close>: the balance tree.  Every node is a row of \<open>user_states\<close>; deposits that
  wait to enter the tree are rows of the same table whose path is \<open>-1\<close>.  The group of
  definitions follows the file; the pointer receivers that change their struct return the
  changed struct.  The laws of \<open>node_store\<close> are proved of them at the end, and with
  them that \<open>UpdateState\<close> keeps the tree a Merkle tree.
\<close>

section \<open>The struct\<close>

definition UpdatePath :: "UserState \<Rightarrow> string \<Rightarrow> UserState" where
  "UpdatePath acc path = acc\<lparr>us_Path := path, us_Level := of_nat (length path)\<rparr>"

definition CreateAccountHash :: "libs \<Rightarrow> UserState \<Rightarrow> UserState" where
  "CreateAccountHash L acc = acc\<lparr>us_Hash := l_hash_text L (Keccak256 L (us_Data acc))\<rparr>"

definition NewUserState :: "libs \<Rightarrow> u64 \<Rightarrow> u64 \<Rightarrow> string \<Rightarrow> bytes \<Rightarrow> UserState" where
  "NewUserState L id' status path data =
    (let newState = zero_UserState\<lparr>us_AccountID := id', us_Path := path, us_Status := status,
           us_Type := TYPE_TERMINAL, us_Data := data\<rparr>;
         newState = UpdatePath newState (us_Path newState)
     in CreateAccountHash L newState)"

definition newStateNode :: "string \<Rightarrow> string \<Rightarrow> UserState" where
  "newStateNode path hash =
    (let newUserState = zero_UserState\<lparr>us_AccountID := ZERO, us_Path := path,
           us_Status := STATUS_ACTIVE, us_Type := TYPE_NON_TERMINAL\<rparr>;
         newUserState = UpdatePath newUserState (us_Path newUserState)
     in newUserState\<lparr>us_Hash := hash\<rparr>)"

definition NewPendingUserState :: "libs \<Rightarrow> u64 \<Rightarrow> bytes \<Rightarrow> UserState" where
  "NewPendingUserState L id' data =
    (let newAcccount = zero_UserState\<lparr>us_AccountID := id', us_Path := UNINITIALIZED_PATH,
           us_Status := STATUS_PENDING, us_Type := TYPE_TERMINAL, us_Data := data\<rparr>;
         newAcccount = UpdatePath newAcccount (us_Path newAcccount)
     in CreateAccountHash L newAcccount)"

definition us_HashToByteArray :: "UserState \<Rightarrow> ByteArray res" where
  "us_HashToByteArray acc = hash_to_bytes (us_Hash acc)"

definition IsCoordinator :: "UserState \<Rightarrow> bool" where
  "IsCoordinator acc =
    (if us_Path acc \<noteq> '''' then False
     else if us_Status acc \<noteq> 1 then False
     else if us_Type acc \<noteq> 0 then False
     else True)"

definition EmptyUserState :: "libs \<Rightarrow> UserState" where
  "EmptyUserState L = NewUserState L ZERO STATUS_INACTIVE '''' []"

section \<open>Reading nodes\<close>

definition GetStatesAtDepth :: "'s gorm \<Rightarrow> u64 \<Rightarrow> ('s, UserState list) prog" where
  "GetStatesAtDepth G depth = db_read (t_find_all (g_states G) (\<lambda>r. us_Level r = depth))"

definition GetStateByPath :: "'s gorm \<Rightarrow> string \<Rightarrow> ('s, UserState) prog" where
  "GetStateByPath G path =
    onError (db_read (t_find_one (g_states G) (\<lambda>r. us_Path r = path))) (\<lambda>_. fail (ErrRecordNotFound path))"

definition GetStateByDepth :: "'s gorm \<Rightarrow> string \<Rightarrow> ('s, UserState) prog" where
  "GetStateByDepth G path =
    onError (db_read (t_find_one (g_states G) (\<lambda>r. us_Path r = path))) (\<lambda>_. fail (ErrRecordNotFound path))"

definition GetStateByIndex :: "'s gorm \<Rightarrow> u64 \<Rightarrow> ('s, UserState) prog" where
  "GetStateByIndex G index =
    andThen (GetParams G) (\<lambda>params.
    andThen (lift (SolidityPathToNodePath index (pm_MaxDepth params))) (\<lambda>path.
      GetStateByPath G path))"

text \<open>
  The next two look only at whether the error is \<open>RecordNotFound\<close>: after any other error
  they return the zero struct without an error.
\<close>

definition only_not_found :: "string \<Rightarrow> ('s \<Rightarrow> go_error + UserState) \<Rightarrow> ('s, UserState) prog" where
  "only_not_found hash f = (\<lambda>s. case f s of
     Inl e \<Rightarrow> (if e = RecordNotFound then Err (ErrRecordNotFound hash) else Ok zero_UserState, s)
   | Inr account \<Rightarrow> (Ok account, s))"

definition GetAccountByHash :: "'s gorm \<Rightarrow> string \<Rightarrow> ('s, UserState) prog" where
  "GetAccountByHash G hash = only_not_found hash (t_first_raw (g_states G) hash)"

definition GetDepositSubTreeRoot :: "'s gorm \<Rightarrow> string \<Rightarrow> u64 \<Rightarrow> ('s, UserState) prog" where
  "GetDepositSubTreeRoot G hash level =
    only_not_found hash (t_first (g_states G) (\<lambda>r. us_Level r = level \<and> us_Hash r = hash))"

definition GetRoot :: "'s gorm \<Rightarrow> ('s, UserState) prog" where
  "GetRoot G =
    onError (db_read (t_find_one (g_states G) (\<lambda>r. us_Level r = 0))) (\<lambda>_. fail (ErrRecordNotFound ''root''))"

definition GetAccountCount :: "'s gorm \<Rightarrow> ('s, int) prog" where
  "GetAccountCount G = (\<lambda>s. case g_count_named G ''user_accounts'' s of
     Inl _ \<Rightarrow> (Ok 0, s) | Inr n \<Rightarrow> (Ok n, s))"

definition GetFirstEmptyAccount :: "'s gorm \<Rightarrow> libs \<Rightarrow> ('s, UserState) prog" where
  "GetFirstEmptyAccount G L =
    andThen (GetParams G) (\<lambda>params.
    andThen (lift (default_hash L (pm_MaxDepositSubTreeHeight params))) (\<lambda>expectedHash.
      GetAccountByHash G (ByteArray_String expectedHash)))"

text \<open>\<open>for i := len(path); i > 0; i--\<close>\<close>

fun GetSiblings_loop :: "'s gorm \<Rightarrow> nat \<Rightarrow> string \<Rightarrow> UserState list \<Rightarrow> ('s, UserState list) prog" where
  "GetSiblings_loop G 0 relativePath siblings = ret siblings"
| "GetSiblings_loop G (Suc i) relativePath siblings =
     andThen (lift (GetOtherChild relativePath)) (\<lambda>otherChild.
     andThen (GetStateByPath G otherChild) (\<lambda>otherNode.
       GetSiblings_loop G i (GetParentPath relativePath) (siblings @ [otherNode])))"

definition GetSiblings :: "'s gorm \<Rightarrow> string \<Rightarrow> ('s, UserState list) prog" where
  "GetSiblings G path = GetSiblings_loop G (length path) path []"

section \<open>Writing nodes\<close>

text \<open>\<open>Updates(UserState{Data, Hash})\<close>: only these two columns, and only when not blank.\<close>

definition updateAccount :: "'s gorm \<Rightarrow> UserState \<Rightarrow> string \<Rightarrow> ('s, unit) prog" where
  "updateAccount G newAcc path =
    db_write (t_updates (g_states G) newAcc (\<lambda>r. us_Path r = path)
      (zero_UserState\<lparr>us_Data := us_Data newAcc, us_Hash := us_Hash newAcc\<rparr>))"

definition UpdateParentWithHash :: "'s gorm \<Rightarrow> string \<Rightarrow> ByteArray \<Rightarrow> ('s, unit) prog" where
  "UpdateParentWithHash G pathToParent newHash =
    (let tempAccount = zero_UserState\<lparr>us_Path := pathToParent, us_Hash := ByteArray_String newHash\<rparr>
     in updateAccount G tempAccount pathToParent)"

definition UpdateRootNodeHashes :: "'s gorm \<Rightarrow> ByteArray \<Rightarrow> ('s, unit) prog" where
  "UpdateRootNodeHashes G newRoot =
    (let tempAccount = zero_UserState\<lparr>us_Path := '''', us_Hash := ByteArray_String newRoot\<rparr>
     in updateAccount G tempAccount (us_Path tempAccount))"

definition StoreNode ::
  "'s gorm \<Rightarrow> ByteArray \<Rightarrow> UserState \<Rightarrow> UserState \<Rightarrow> bool \<Rightarrow> ('s, unit) prog" where
  "StoreNode G parentHash leftNode rightNode isLeft =
    andThen (if isLeft then updateAccount G leftNode (us_Path leftNode)
             else updateAccount G rightNode (us_Path rightNode)) (\<lambda>_.
      UpdateParentWithHash G (GetParentPath (us_Path leftNode)) parentHash)"

text \<open>The body of the loop of \<open>StoreLeaf\<close> up to the read of the parent.\<close>

definition StoreLeaf_step ::
  "'s gorm \<Rightarrow> libs \<Rightarrow> int \<Rightarrow> UserState \<Rightarrow> UserState \<Rightarrow> ('s, unit) prog" where
  "StoreLeaf_step G L isComputedRightSibling computedNode sibling =
    (if isComputedRightSibling = 0 then
       andThen (lift (us_HashToByteArray computedNode)) (\<lambda>l.
       andThen (lift (us_HashToByteArray sibling)) (\<lambda>r.
       andThen (lift (GetParent L l r)) (\<lambda>parentHash.
         StoreNode G parentHash computedNode sibling True)))
     else
       andThen (lift (us_HashToByteArray sibling)) (\<lambda>l.
       andThen (lift (us_HashToByteArray computedNode)) (\<lambda>r.
       andThen (lift (GetParent L l r)) (\<lambda>parentHash.
         StoreNode G parentHash sibling computedNode False))))"

definition StoreLeaf_root :: "'s gorm \<Rightarrow> UserState \<Rightarrow> ('s, unit) prog" where
  "StoreLeaf_root G computedNode =
    andThen (lift (us_HashToByteArray computedNode)) (\<lambda>h. UpdateRootNodeHashes G h)"

fun StoreLeaf_loop ::
  "'s gorm \<Rightarrow> libs \<Rightarrow> string \<Rightarrow> nat \<Rightarrow> UserState \<Rightarrow> UserState list \<Rightarrow> ('s, unit) prog" where
  "StoreLeaf_loop G L path i computedNode [] = StoreLeaf_root G computedNode"
| "StoreLeaf_loop G L path i computedNode (sibling # siblings) =
     andThen (lift (GetNthBitFromRight path (int i))) (\<lambda>isComputedRightSibling.
     andThen (StoreLeaf_step G L isComputedRightSibling computedNode sibling) (\<lambda>_.
     andThen (GetStateByPath G (GetParentPath (us_Path computedNode))) (\<lambda>parentAccount.
       StoreLeaf_loop G L path (Suc i) parentAccount siblings)))"

definition StoreLeaf ::
  "'s gorm \<Rightarrow> libs \<Rightarrow> UserState \<Rightarrow> string \<Rightarrow> UserState list \<Rightarrow> ('s, unit) prog" where
  "StoreLeaf G L state path siblings = StoreLeaf_loop G L path 0 state siblings"

definition UpdateState :: "'s gorm \<Rightarrow> libs \<Rightarrow> UserState \<Rightarrow> ('s, unit) prog" where
  "UpdateState G L account =
    (let account = CreateAccountHash L account
     in andThen (GetSiblings G (us_Path account)) (\<lambda>siblings.
          StoreLeaf G L account (us_Path account) siblings))"

definition AddNewPendingAccount :: "'s gorm \<Rightarrow> UserState \<Rightarrow> ('s, unit) prog" where
  "AddNewPendingAccount G acc = db_write (t_create (g_states G) acc)"

text \<open>The coordinator's leaf is changed through its pointer, so it is returned.\<close>

definition InsertCoordinatorAccounts ::
  "'s gorm \<Rightarrow> libs \<Rightarrow> UserState \<Rightarrow> u64 \<Rightarrow> ('s, UserState) prog" where
  "InsertCoordinatorAccounts G L acc depth =
    (let acc = UpdatePath acc (GenCoordinatorPath depth);
         acc = CreateAccountHash L acc;
         acc = acc\<lparr>us_Type := TYPE_TERMINAL\<rparr>
     in andThen (db_write (t_create (g_states G) acc)) (\<lambda>_. ret acc))"

definition DeletePendingAccount :: "'s gorm \<Rightarrow> u64 \<Rightarrow> ('s, unit) prog" where
  "DeletePendingAccount G ID =
    onError (db_write (t_delete (g_states G) (\<lambda>r. us_AccountID r = ID \<and> us_Status r = STATUS_PENDING)))
      (\<lambda>_. fail (ErrRecordNotFound ''unable to delete record''))"

definition AttachDepositInfo :: "'s gorm \<Rightarrow> ByteArray \<Rightarrow> ('s, unit) prog" where
  "AttachDepositInfo G root =
    (let account = zero_UserState\<lparr>us_CreatedByDepositSubTree := ByteArray_String root\<rparr>
     in db_write (t_updates (g_states G) account (\<lambda>r. us_Status r = STATUS_PENDING) account))"

definition GetPendingAccByDepositRoot :: "'s gorm \<Rightarrow> ByteArray \<Rightarrow> ('s, UserState list) prog" where
  "GetPendingAccByDepositRoot G root =
    db_read (t_find_all (g_states G)
      (\<lambda>r. us_CreatedByDepositSubTree r = ByteArray_String root \<and> us_Status r = STATUS_PENDING))"

section \<open>\<open>InitStateTree\<close>\<close>

text \<open>\<open>int(math.Exp2(float64(depth)))\<close>: exact while it fits an \<open>int\<close>.\<close>

definition exp2_int :: "libs \<Rightarrow> u64 \<Rightarrow> int" where
  "exp2_int L depth = (if unat depth < 63 then 2 ^ unat depth else l_exp2_overflow L depth)"

fun InitStateTree_leaves ::
  "libs \<Rightarrow> string \<Rightarrow> UserState list \<Rightarrow> UserState list \<Rightarrow> UserState list res" where
  "InitStateTree_leaves L prevNodePath [] insertRecords = Ok insertRecords"
| "InitStateTree_leaves L prevNodePath (g # gs) insertRecords =
     res_bind (GetAdjacentNodePath (l_pad_left L) prevNodePath) (\<lambda>pathToAdjacentNode.
       let g = UpdatePath g pathToAdjacentNode
       in InitStateTree_leaves L (us_Path g) gs (insertRecords @ [g]))"

fun InitStateTree_pairs :: "libs \<Rightarrow> UserState list \<Rightarrow> UserState list \<Rightarrow> UserState list res" where
  "InitStateTree_pairs L [] nextLevelAccounts = Ok nextLevelAccounts"
| "InitStateTree_pairs L [a] nextLevelAccounts =
     res_bind (HexToByteArray (us_Hash a)) (\<lambda>_. Panic IndexOutOfRange)"
| "InitStateTree_pairs L (a # b # accs) nextLevelAccounts =
     res_bind (HexToByteArray (us_Hash a)) (\<lambda>left.
     res_bind (HexToByteArray (us_Hash b)) (\<lambda>right.
     res_bind (GetParent L left right) (\<lambda>parentHash.
       let parentPath = GetParentPath (us_Path a);
           newAccNode = newStateNode parentPath (ByteArray_String parentHash)
       in InitStateTree_pairs L accs (nextLevelAccounts @ [newAccNode]))))"

definition bulk_states :: "'s gorm \<Rightarrow> string \<Rightarrow> UserState list \<Rightarrow> ('s, unit) prog" where
  "bulk_states G msg records =
    onError (db_write (t_bulk_insert (g_states G) records CHUNK_SIZE)) (\<lambda>_. fail (ErrMsg msg))"

text \<open>\<open>for i := depth; i > 0; i--\<close>\<close>

fun InitStateTree_levels :: "'s gorm \<Rightarrow> libs \<Rightarrow> nat \<Rightarrow> ('s, unit) prog" where
  "InitStateTree_levels G L 0 = ret ()"
| "InitStateTree_levels G L (Suc i) =
     andThen (GetStatesAtDepth G (of_nat (Suc i))) (\<lambda>accs.
     andThen (lift (InitStateTree_pairs L accs [])) (\<lambda>nextLevelAccounts.
     andThen (bulk_states G ''Unable to insert states'' nextLevelAccounts) (\<lambda>_.
       InitStateTree_levels G L i)))"

definition InitStateTree :: "'s gorm \<Rightarrow> libs \<Rightarrow> u64 \<Rightarrow> UserState list \<Rightarrow> ('s, unit) prog" where
  "InitStateTree G L depth genesisAccounts =
    (if exp2_int L depth \<noteq> int (length genesisAccounts)
     then fail (ErrMsg ''Depth and number of leaves do not match'')
     else (case genesisAccounts of
       [] \<Rightarrow> lift (Panic IndexOutOfRange)
     | g0 # gs \<Rightarrow>
         andThen (InsertCoordinatorAccounts G L g0 depth) (\<lambda>g0.
         andThen (lift (InitStateTree_leaves L (us_Path g0) gs [])) (\<lambda>insertRecords.
         andThen (bulk_states G ''Unable to insert accounts'' insertRecords) (\<lambda>_.
           InitStateTree_levels G L (unat depth))))))"

section \<open>The rows as a tree\<close>

definition state_node :: "('s \<Rightarrow> tables) \<Rightarrow> 's \<Rightarrow> string \<Rightarrow> UserState option" where
  "state_node view s = row_at us_Path (user_states (view s))"

definition state_hashes :: "('s \<Rightarrow> tables) \<Rightarrow> 's \<Rightarrow> string nodes" where
  "state_hashes view s = (\<lambda>p. map_option us_Hash (state_node view s p))"

text \<open>
  What storing leaves may not change: the other tables; the number and order of the
  rows with all their columns but \<open>Data\<close> and \<open>Hash\<close>; and the rows that are no nodes.
\<close>

definition keep_us :: "UserState \<Rightarrow> UserState" where
  "keep_us r = r\<lparr>us_Data := [], us_Hash := []\<rparr>"

definition state_frame :: "('s \<Rightarrow> tables) \<Rightarrow> 's \<Rightarrow> tables \<times> UserState list \<times> UserState list" where
  "state_frame view s = ((view s)\<lparr>user_states := []\<rparr>, map keep_us (user_states (view s)),
     filter (\<lambda>r. \<not> binary (us_Path r)) (user_states (view s)))"

definition db_inv :: "'s gorm \<Rightarrow> libs \<Rightarrow> ('s \<Rightarrow> tables) \<Rightarrow> ('s \<Rightarrow> bool) \<Rightarrow> 's \<Rightarrow> bool" where
  "db_inv G L view up s \<longleftrightarrow> gorm_ok G view up \<and> libs_ok L \<and> up s"

lemma db_invD:
  assumes "db_inv G L view up s" shows "gorm_ok G view up" "libs_ok L" "up s"
  using assms by (simp_all add: db_inv_def)

definition state_written :: "UserState \<Rightarrow> UserState \<Rightarrow> UserState" where
  "state_written n r = merge_us (zero_UserState\<lparr>us_Data := us_Data n, us_Hash := us_Hash n\<rparr>) r"

definition state_rehash :: "string \<Rightarrow> UserState \<Rightarrow> UserState" where
  "state_rehash h r = merge_us (zero_UserState\<lparr>us_Hash := h\<rparr>) r"

lemma state_written_alt:
  "state_written n r = r\<lparr>us_Data := (if us_Data n \<noteq> [] then us_Data n else us_Data r),
     us_Hash := (if us_Hash n \<noteq> [] then us_Hash n else us_Hash r)\<rparr>"
  by (simp add: state_written_def merge_us_def zero_UserState_def)

lemma state_rehash_alt: "state_rehash h r = r\<lparr>us_Hash := (if h \<noteq> [] then h else us_Hash r)\<rparr>"
  by (simp add: state_rehash_def merge_us_def zero_UserState_def)

lemma hash_ok_nonempty: "hash_ok h \<Longrightarrow> h \<noteq> []"
  by (auto simp: hash_ok_def)

lemma GetStateByPath_run:
  assumes "db_inv G L view up s" "state_node view s p = Some n"
  shows "GetStateByPath G p s = (Ok n, s)"
proof -
  have "t_find_one (g_states G) (\<lambda>r. us_Path r = p) s = Inr n"
    using find_one_run [OF gorm_states_find [OF db_invD(1) [OF assms(1)]]] db_invD(3) [OF assms(1)] assms(2)
    by (simp add: state_node_def row_at_Some)
  then show ?thesis by (simp add: GetStateByPath_def onError_ok db_read_Inr)
qed

lemma updateAccount_run:
  assumes "db_inv G L view up s"
  shows "\<exists>s'. updateAccount G n p s = (Ok (), s') \<and> db_inv G L view up s' \<and>
    view s' = user_states_update (map (\<lambda>r. if us_Path r = p then state_written n r else r)) (view s)"
proof -
  have "updates_ok (g_states G) user_states_update view up (\<lambda>m r. True) merge_us" "up s"
    using db_invD [OF assms] gorm_states_updates by auto
  from updates_run [OF this, of n "\<lambda>r. us_Path r = p"
      "zero_UserState\<lparr>us_Data := us_Data n, us_Hash := us_Hash n\<rparr>"] assms
  show ?thesis by (auto simp: updateAccount_def db_inv_def state_written_def)
qed

lemma updateAccount_node:
  assumes "db_inv G L view up s" "binary p" "state_node view s p = Some r"
  shows "\<exists>s'. updateAccount G n p s = (Ok (), s') \<and> db_inv G L view up s' \<and>
    state_frame view s' = state_frame view s \<and> state_node view s' = (state_node view s)(p \<mapsto> state_written n r)"
proof -
  obtain s' where s': "updateAccount G n p s = (Ok (), s')" "db_inv G L view up s'"
    "view s' = user_states_update (map (\<lambda>r. if us_Path r = p then state_written n r else r)) (view s)"
    using updateAccount_run [OF assms(1)] by blast
  let ?f = "\<lambda>r. if us_Path r = p then state_written n r else r"
  have "filter (\<lambda>r. \<not> binary (us_Path r)) (map ?f rows) = filter (\<lambda>r. \<not> binary (us_Path r)) rows" for rows
    using assms(2) by (induction rows) (auto simp: state_written_alt)
  then have "state_frame view s' = state_frame view s"
    by (simp add: s'(3) state_frame_def o_def keep_us_def state_written_alt if_distrib [of keep_us] cong: if_cong)
  moreover have "state_node view s' = (state_node view s)(p \<mapsto> state_written n r)"
    using assms(3) by (simp add: s'(3) state_node_def row_at_update state_written_alt fun_eq_iff)
  ultimately show ?thesis using s'(1,2) by blast
qed

text \<open>
  Writing one node and then its parent, which is what both arms of \<open>StoreNode\<close> come to.
\<close>

lemma store_two:
  assumes inv: "db_inv G L view up s" and b: "binary (p @ [c])"
    and n: "us_Path n = p @ [c]" "state_node view s (p @ [c]) = Some r" "state_node view s p = Some pn"
  shows "\<exists>s'. andThen (updateAccount G n (p @ [c])) (\<lambda>_. UpdateParentWithHash G p hb) s = (Ok (), s') \<and>
    db_inv G L view up s' \<and> state_frame view s' = state_frame view s \<and>
    state_node view s' = (state_node view s)(p @ [c] \<mapsto> state_written n r,
      p \<mapsto> state_rehash (ByteArray_String hb) pn)"
proof -
  obtain s1 where s1: "updateAccount G n (p @ [c]) s = (Ok (), s1)" "db_inv G L view up s1"
    "state_frame view s1 = state_frame view s"
    "state_node view s1 = (state_node view s)(p @ [c] \<mapsto> state_written n r)"
    using updateAccount_node [OF inv b n(2)] by blast
  have "state_node view s1 p = Some pn" using n(3) s1(4) by simp
  from updateAccount_node [OF s1(2) _ this, of "zero_UserState\<lparr>us_Path := p, us_Hash := ByteArray_String hb\<rparr>"] b
  obtain s2 where "UpdateParentWithHash G p hb s1 = (Ok (), s2)" "db_inv G L view up s2"
    "state_frame view s2 = state_frame view s1"
    "state_node view s2 = (state_node view s1)(p \<mapsto> state_rehash (ByteArray_String hb) pn)"
    by (auto simp: UpdateParentWithHash_def state_written_alt state_rehash_alt zero_UserState_def)
  with s1 show ?thesis by (simp add: andThen_ok)
qed

lemma StoreLeaf_step_run:
  assumes inv: "db_inv G L view up s" and b: "binary (p @ [c])"
    and n: "us_Path n = p @ [c]" "hash_ok (us_Hash n)" "state_node view s (p @ [c]) = Some r"
      "state_node view s p = Some pn"
    and sb: "state_node view s (sib (p @ [c])) = Some sb" "hash_ok (us_Hash sb)"
  shows "\<exists>s'. StoreLeaf_step G L (if c = CHR ''0'' then 0 else 1) n sb s = (Ok (), s') \<and>
    db_inv G L view up s' \<and> state_frame view s' = state_frame view s \<and>
    state_node view s' = (state_node view s)(p @ [c] \<mapsto> state_written n r,
      p \<mapsto> state_rehash (parent_of (node_hash L) c (us_Hash n) (us_Hash sb)) pn)"
proof -
  have bp: "binary p" "binary (sib (p @ [c]))" using b by (auto simp: flip_char_def)
  have sbp: "us_Path sb = sib (p @ [c])" using sb(1) row_at_path by (simp add: state_node_def)
  note L = db_invD(2) [OF inv]
  show ?thesis
  proof (cases "c = CHR ''0''")
    case True
    obtain lb rb hb where h: "hash_to_bytes (us_Hash n) = Ok lb" "hash_to_bytes (us_Hash sb) = Ok rb"
      "GetParent L lb rb = Ok hb" "ByteArray_String hb = node_hash L (us_Hash n) (us_Hash sb)"
      by (rule GetParent_text [OF L n(2) sb(2)])
    have "StoreLeaf_step G L 0 n sb s
        = andThen (updateAccount G n (p @ [c])) (\<lambda>_. UpdateParentWithHash G p hb) s"
      using h n(1) bp b by (simp add: StoreLeaf_step_def us_HashToByteArray_def StoreNode_def)
    with store_two [OF inv b n(1,3,4), of hb] True h(4) show ?thesis by (simp add: parent_of_def)
  next
    case False
    obtain lb rb hb where h: "hash_to_bytes (us_Hash sb) = Ok lb" "hash_to_bytes (us_Hash n) = Ok rb"
      "GetParent L lb rb = Ok hb" "ByteArray_String hb = node_hash L (us_Hash sb) (us_Hash n)"
      by (rule GetParent_text [OF L sb(2) n(2)])
    have "StoreLeaf_step G L 1 n sb s
        = andThen (updateAccount G n (p @ [c])) (\<lambda>_. UpdateParentWithHash G p hb) s"
      using h n(1) bp b sbp by (simp add: StoreLeaf_step_def us_HashToByteArray_def StoreNode_def)
    with store_two [OF inv b n(1,3,4), of hb] False h(4) show ?thesis by (simp add: parent_of_def)
  qed
qed

lemma StoreLeaf_root_run:
  assumes inv: "db_inv G L view up s" and n: "state_node view s [] = Some r" "hash_ok (us_Hash n)"
  shows "\<exists>s'. StoreLeaf_root G n s = (Ok (), s') \<and> db_inv G L view up s' \<and>
    state_frame view s' = state_frame view s \<and>
    state_node view s' = (state_node view s)([] \<mapsto> state_rehash (us_Hash n) r)"
proof -
  from n(2) obtain hb where hb: "us_Hash n = ByteArray_String hb" "hash_to_bytes (us_Hash n) = Ok hb"
    by (rule hash_okE)
  from updateAccount_node [OF inv _ n(1), of "zero_UserState\<lparr>us_Path := '''', us_Hash := us_Hash n\<rparr>"] hb
  show ?thesis
    by (simp add: StoreLeaf_root_def us_HashToByteArray_def UpdateRootNodeHashes_def
      state_written_alt state_rehash_alt zero_UserState_def)
qed

lemma state_node_laws:
  "hash_ok (us_Hash n) \<Longrightarrow> us_Hash (state_written n r) = us_Hash n"
  "state_written r r = r"
  "hash_ok h \<Longrightarrow> us_Hash (state_rehash h r) = h"
  "hash_ok h \<Longrightarrow> state_rehash h (state_rehash g r) = state_rehash h r"
  by (simp_all add: state_written_alt state_rehash_alt hash_ok_nonempty)

interpretation st: node_store "db_inv G L view up" "state_node view" "state_frame view"
  us_Path us_Hash "node_hash L" "\<lambda>n r. True" state_written state_rehash "GetStateByPath G"
  "GetSiblings_loop G" "StoreLeaf_step G L" "StoreLeaf_root G" "StoreLeaf_loop G L"
  for G L view up
proof unfold_locales
  show "db_inv G L view up s \<Longrightarrow> hash_ok hl \<Longrightarrow> hash_ok hr \<Longrightarrow> hash_ok (node_hash L hl hr)" for s hl hr
    by (simp add: node_hash_ok db_inv_def)
  show "state_node view s p = Some n \<Longrightarrow> us_Path n = p" for s p n
    by (simp add: state_node_def row_at_path)
qed (rule state_node_laws GetStateByPath_run StoreLeaf_step_run StoreLeaf_root_run TrueI ext; (assumption | simp)+)+

section \<open>Storing a leaf\<close>

text \<open>The balance tree of depth \<open>d\<close>: every node has its row, and every inner node its hash.\<close>

definition state_tree :: "libs \<Rightarrow> ('s \<Rightarrow> tables) \<Rightarrow> nat \<Rightarrow> 's \<Rightarrow> bool" where
  "state_tree L view d s \<longleftrightarrow>
     (\<forall>p. binary p \<and> length p \<le> d \<longrightarrow> (\<exists>n. state_node view s p = Some n \<and> hash_ok (us_Hash n))) \<and>
     merkle_tree d (node_hash L) (state_hashes view s)"

lemma st_hashes: "st.hashes view s = state_hashes view s"
  by (simp add: st.hashes_def state_hashes_def)

lemma state_tree_iff:
  "state_tree L view d s \<longleftrightarrow> st.complete view d s \<and> merkle_tree d (node_hash L) (st.hashes view s)"
  by (simp add: state_tree_def st.complete_def st_hashes)

lemma GetSiblings_run:
  assumes "db_inv G L view up s" "state_tree L view d s" "binary p" "length p \<le> d"
  shows "GetSiblings G p s = (Ok (sib_rows (state_node view s) (rev p)), s)"
  using st.siblings_run [OF assms(1) _ assms(3,4), of "[]"] assms(2)
  by (simp add: GetSiblings_def state_tree_iff)

lemma CreateAccountHash_simps [simp]:
  "us_Path (CreateAccountHash L a) = us_Path a" "us_Data (CreateAccountHash L a) = us_Data a"
  "us_AccountID (CreateAccountHash L a) = us_AccountID a"
  by (simp_all add: CreateAccountHash_def)

definition data_hash :: "libs \<Rightarrow> bytes \<Rightarrow> string" where
  "data_hash L data = ByteArray_String (l_keccak L data)"

lemma CreateAccountHash_hash: "libs_ok L \<Longrightarrow> us_Hash (CreateAccountHash L a) = data_hash L (us_Data a)"
  by (simp add: CreateAccountHash_def Keccak256_def data_hash_def libs_okD)

lemma data_hash_ok: "libs_ok L \<Longrightarrow> hash_ok (data_hash L x)"
  by (simp add: data_hash_def hash_okI libs_okD)

lemma UpdateState_run:
  assumes inv: "db_inv G L view up s" "state_tree L view d s"
    and a: "binary (us_Path a)" "length (us_Path a) = d" "0 < d" "state_node view s (us_Path a) = Some r"
  shows "\<exists>s'. UpdateState G L a s = (Ok (), s') \<and> db_inv G L view up s' \<and>
    state_tree L view d s' \<and> state_frame view s' = state_frame view s \<and>
    state_node view s' (us_Path a) = Some (r\<lparr>
       us_Data := if us_Data a = [] then us_Data r else us_Data a, us_Hash := data_hash L (us_Data a)\<rparr>) \<and>
    (\<forall>x. length x = d \<and> x \<noteq> us_Path a \<longrightarrow> state_node view s' x = state_node view s x) \<and>
    state_hashes view s' [] = Some (merkle_root (node_hash L)
      ((\<lambda>x. the (state_hashes view s x))(us_Path a := data_hash L (us_Data a))) d [])"
proof -
  let ?a = "CreateAccountHash L a"
  have L: "libs_ok L" by (rule db_invD(2) [OF inv(1)])
  have c: "st.complete view d s" "merkle_tree d (node_hash L) (st.hashes view s)"
    using inv(2) by (simp_all add: state_tree_iff)
  have h: "hash_ok (us_Hash ?a)" using L by (simp add: CreateAccountHash_hash data_hash_ok)
  obtain s' where
    run: "StoreLeaf_loop G L (us_Path a) 0 ?a (sib_rows (state_node view s) (rev (us_Path a))) s = (Ok (), s')"
    and s': "db_inv G L view up s'" "state_frame view s' = state_frame view s" "st.complete view d s'"
      "merkle_tree d (node_hash L) (st.hashes view s')" "state_node view s' (us_Path a) = Some (state_written ?a r)"
      "\<forall>x. length x = d \<and> x \<noteq> us_Path a \<longrightarrow> state_node view s' x = state_node view s x"
      "st.hashes view s' [] = Some (merkle_root (node_hash L)
         ((\<lambda>x. the (st.hashes view s x))(us_Path a := us_Hash ?a)) d [])"
    using st.update_leaf [OF inv(1) c a(1,2,3) _ h a(4)] by auto
  have "UpdateState G L a s = (Ok (), s')"
    using run GetSiblings_run [OF inv a(1)] a(2) by (simp add: UpdateState_def andThen_ok StoreLeaf_def)
  moreover have "state_written ?a r = r\<lparr>us_Data := if us_Data a = [] then us_Data r else us_Data a,
      us_Hash := data_hash L (us_Data a)\<rparr>"
    using h L by (simp add: state_written_alt CreateAccountHash_hash hash_ok_nonempty)
  ultimately show ?thesis
    using s' L by (simp add: state_tree_iff st_hashes CreateAccountHash_hash)
qed

lemma GetSiblings_proof:
  assumes "db_inv G L view up s" "state_tree L view d s" "binary p" "length p \<le> d"
    and "state_node view s p = Some n"
  shows "\<exists>sibs root. GetSiblings G p s = (Ok sibs, s) \<and> length sibs = length p \<and>
    state_node view s [] = Some root \<and>
    us_Hash root = proof_root (node_hash L) (rev p) (us_Hash n) (map us_Hash sibs)"
proof -
  have c: "st.complete view d s" "merkle_tree d (node_hash L) (st.hashes view s)"
    using assms(2) by (simp_all add: state_tree_iff)
  from st.siblings_prove_root [OF assms(1) c assms(3-5)] obtain sibs where
    "GetSiblings_loop G (length p) p [] s = (Ok sibs, s)" "length sibs = length p"
    "st.hashes view s [] = Some (proof_root (node_hash L) (rev p) (us_Hash n) (map us_Hash sibs))" by blast
  then show ?thesis by (auto simp: GetSiblings_def st.hashes_def)
qed

text \<open>Every row's \<open>Level\<close> column is the length of its path, so \<open>GetRoot\<close> finds the root.\<close>

definition state_levels :: "('s \<Rightarrow> tables) \<Rightarrow> 's \<Rightarrow> bool" where
  "state_levels view s \<longleftrightarrow> (\<forall>r \<in> set (user_states (view s)).
     us_Level r = of_nat (length (us_Path r)) \<and> length (us_Path r) < 2 ^ 64)"

text \<open>
  What the operations keep of the table besides the tree: the terminal rows of the tree are
  the leaves, from left to right; a row is a node or waits under the path \<open>-1\<close>, as every
  pending row does; levels are as they should be.
\<close>

definition state_rows :: "('s \<Rightarrow> tables) \<Rightarrow> nat \<Rightarrow> 's \<Rightarrow> bool" where
  "state_rows view d s \<longleftrightarrow>
     map us_Path (filter (\<lambda>r. binary (us_Path r) \<and> us_Type r = 1) (user_states (view s))) = level_paths d \<and>
     (\<forall>r \<in> set (user_states (view s)). (us_Status r = STATUS_PENDING \<longrightarrow> us_Path r = UNINITIALIZED_PATH) \<and>
        (binary (us_Path r) \<or> us_Path r = UNINITIALIZED_PATH)) \<and>
     state_levels view s"

lemma keep_us_simps [simp]:
  "us_Path (keep_us r) = us_Path r" "us_Level (keep_us r) = us_Level r" "us_Type (keep_us r) = us_Type r"
  "us_Status (keep_us r) = us_Status r" "us_AccountID (keep_us r) = us_AccountID r"
  "us_CreatedByDepositSubTree (keep_us r) = us_CreatedByDepositSubTree r"
  by (simp_all add: keep_us_def)

lemma state_frameD:
  assumes "state_frame view s' = state_frame view s"
  shows "(view s')\<lparr>user_states := []\<rparr> = (view s)\<lparr>user_states := []\<rparr>"
    and "map keep_us (user_states (view s')) = map keep_us (user_states (view s))"
    and "filter (\<lambda>r. \<not> binary (us_Path r)) (user_states (view s')) =
      filter (\<lambda>r. \<not> binary (us_Path r)) (user_states (view s))"
  using assms by (simp_all add: state_frame_def)

lemma frame_tables:
  assumes "(d')\<lparr>user_states := []\<rparr> = (d)\<lparr>user_states := []\<rparr>"
  shows "accounts d' = accounts d" "txes d' = txes d" "batches d' = batches d" "params d' = params d"
    "sync_statuses d' = sync_statuses d" "tokens d' = tokens d"
  using assms by (metis tables.select_convs(2-7) tables.update_convs(1) tables.surjective)+

lemma state_levels_frame:
  assumes "state_frame view s' = state_frame view s" "state_levels view s"
  shows "state_levels view s'"
  unfolding state_levels_def
proof
  fix r assume "r \<in> set (user_states (view s'))"
  then have "keep_us r \<in> keep_us ` set (user_states (view s))"
    using state_frameD(2) [OF assms(1)] by (metis imageI list.set_map)
  then obtain q where "q \<in> set (user_states (view s))" "keep_us r = keep_us q" by auto
  with assms(2) show "us_Level r = of_nat (length (us_Path r)) \<and> length (us_Path r) < 2 ^ 64"
    unfolding state_levels_def by (metis keep_us_simps(1,2))
qed

lemma GetRoot_run:
  assumes "db_inv G L view up s" "state_levels view s" "state_node view s [] = Some r"
  shows "GetRoot G s = (Ok r, s)"
proof -
  have z: "us_Level x = 0 \<longleftrightarrow> us_Path x = []" if "x \<in> set (user_states (view s))" for x
  proof -
    have "us_Level x = of_nat (length (us_Path x))" "length (us_Path x) < 2 ^ 64"
      using assms(2) that by (simp_all add: state_levels_def)
    then show ?thesis using of_nat_level [of "length (us_Path x)" 0] by simp
  qed
  have "filter (\<lambda>x. us_Level x = 0) (user_states (view s)) = filter (\<lambda>x. us_Path x = []) (user_states (view s))"
    by (rule filter_cong) (simp_all add: z)
  then have "filter (\<lambda>x. us_Level x = 0) (user_states (view s)) = [r]"
    using assms(3) by (simp add: state_node_def row_at_Some)
  with find_one_run [OF gorm_states_find [OF db_invD(1) [OF assms(1)]] db_invD(3) [OF assms(1)]]
  have "t_find_one (g_states G) (\<lambda>x. us_Level x = 0) s = Inr r" by simp
  then show ?thesis by (simp add: GetRoot_def onError_ok db_read_Inr)
qed

section \<open>Building the tree\<close>

lemma bulk_states_run:
  assumes "db_inv G L view up s"
  shows "\<exists>s' ys. bulk_states G m xs s = (Ok (), s') \<and> db_inv G L view up s' \<and>
    list_all2 stamp_us xs ys \<and> view s' = user_states_update (\<lambda>rs. rs @ ys) (view s)"
proof -
  have "bulk_ok (g_states G) user_states_update view up stamp_us" "up s"
    using db_invD [OF assms] gorm_states_bulk by auto
  from bulk_run [OF this, of xs CHUNK_SIZE] show ?thesis
    using assms by (auto simp: bulk_states_def onError_ok db_inv_def)
qed

lemma GetStatesAtDepth_run:
  "db_inv G L view up s \<Longrightarrow>
   GetStatesAtDepth G k s = (Ok (filter (\<lambda>r. us_Level r = k) (user_states (view s))), s)"
  using scan_run [OF gorm_states_scan, of G view up s] by (simp add: GetStatesAtDepth_def db_inv_def)

lemma InitStateTree_pairs_Cons:
  assumes "db_inv G L view up s" "binary (us_Path a)" "hash_ok (us_Hash a)" "hash_ok (us_Hash b)"
  shows "InitStateTree_pairs L (a # b # xs) acc = InitStateTree_pairs L xs
    (acc @ [newStateNode (butlast (us_Path a)) (node_hash L (us_Hash a) (us_Hash b))])"
  by (rule GetParent_text [OF db_invD(2) [OF assms(1)] assms(3,4)]) (simp add: assms(2))

interpretation st_init: tree_init "db_inv G L view up" "\<lambda>s. user_states (view s)"
  "\<lambda>s. (view s)\<lparr>user_states := []\<rparr>" us_Path us_Level us_Hash "\<lambda>_. True" stamp_us
  "node_hash L" "l_pad_left L" newStateNode UpdatePath "GetStatesAtDepth G" "InitStateTree_pairs L"
  "bulk_states G" "InitStateTree_leaves L" "InitStateTree_levels G L" "''Unable to insert states''"
  for G L view up
proof unfold_locales
  show "db_inv G L view up s \<Longrightarrow> \<forall>x \<in> set xs. True \<Longrightarrow>
      \<exists>s' ys. bulk_states G m xs s = (Ok (), s') \<and> db_inv G L view up s' \<and>
        (view s')\<lparr>user_states := []\<rparr> = (view s)\<lparr>user_states := []\<rparr> \<and> list_all2 stamp_us xs ys \<and>
        user_states (view s') = user_states (view s) @ ys" for s xs m
    using bulk_states_run [of G L view up s m xs] by fastforce
  show "db_inv G L view up s \<Longrightarrow> binary (us_Path a) \<Longrightarrow> hash_ok (us_Hash a) \<Longrightarrow> hash_ok (us_Hash b) \<Longrightarrow>
      InitStateTree_pairs L (a # b # xs) acc = InitStateTree_pairs L xs
        (acc @ [newStateNode (butlast (us_Path a)) (node_hash L (us_Hash a) (us_Hash b))])" for s a b xs acc
    by (rule InitStateTree_pairs_Cons)
  show "db_inv G L view up s \<Longrightarrow> pad_left_spec (l_pad_left L)" for s
    by (simp add: db_inv_def libs_okD)
  show "db_inv G L view up s \<Longrightarrow> hash_ok hl \<Longrightarrow> hash_ok hr \<Longrightarrow> hash_ok (node_hash L hl hr)" for s hl hr
    by (simp add: db_inv_def node_hash_ok)
qed (simp_all add: GetStatesAtDepth_run newStateNode_def UpdatePath_def stamp_us_keeps Let_def
    del: InitStateTree_pairs.simps(3))

lemma InsertCoordinatorAccounts_run:
  assumes "db_inv G L view up s" "user_states (view s) = []"
  shows "\<exists>s' c c'. InsertCoordinatorAccounts G L g d s = (Ok c, s') \<and> db_inv G L view up s' \<and>
    view s' = (view s)\<lparr>user_states := [c']\<rparr> \<and> stamp_us c c' \<and> us_Path c = replicate (unat d) (CHR ''0'') \<and> us_Level c = d \<and>
    us_Hash c = data_hash L (us_Data g) \<and> us_Type c = TYPE_TERMINAL \<and> us_Status c = us_Status g"
proof -
  let ?c = "(CreateAccountHash L (UpdatePath g (GenCoordinatorPath d)))\<lparr>us_Type := TYPE_TERMINAL\<rparr>"
  have "create_ok (g_states G) user_states_update view up stamp_us" "up s"
    using db_invD [OF assms(1)] gorm_states_create by auto
  from create_run [OF this, of ?c] obtain s' c' where "db_write (t_create (g_states G) ?c) s = (Ok (), s')" "up s'"
    "stamp_us ?c c'" "view s' = user_states_update (\<lambda>rs. rs @ [c']) (view s)" by blast
  then show ?thesis using assms
    by (intro exI [of _ s'] exI [of _ ?c] exI [of _ c']) (auto simp: InsertCoordinatorAccounts_def andThen_ok Let_def db_inv_def
      CreateAccountHash_def UpdatePath_def GenCoordinatorPath_zeros data_hash_def Keccak256_def libs_okD)
qed

lemma InitStateTree_run:
  assumes inv: "db_inv G L view up s" "user_states (view s) = []"
    and g: "length gs = 2 ^ unat d" "unat d < 63" "\<forall>g \<in> set (tl gs). hash_ok (us_Hash g)"
  shows "\<exists>s'. InitStateTree G L d gs s = (Ok (), s') \<and> db_inv G L view up s' \<and>
    (view s')\<lparr>user_states := []\<rparr> = (view s)\<lparr>user_states := []\<rparr> \<and> state_tree L view (unat d) s' \<and>
    state_levels view s' \<and> map_option us_Hash (state_node view s' (level_paths (unat d) ! 0)) = Some (data_hash L (us_Data (hd gs))) \<and>
    (\<forall>i. 0 < i \<and> i < length gs \<longrightarrow> (\<exists>r. state_node view s' (level_paths (unat d) ! i) = Some r \<and>
       stamp_us (UpdatePath (gs ! i) (level_paths (unat d) ! i)) r)) \<and>
    ((\<forall>g \<in> set gs. us_Type g = TYPE_TERMINAL \<and> us_Status g \<noteq> STATUS_PENDING) \<longrightarrow> state_rows view (unat d) s' \<and>
       (\<forall>r \<in> set (user_states (view s')). us_Status r \<noteq> STATUS_PENDING))"
proof -
  obtain g0 rest where gs: "gs = g0 # rest" using g(1) by (cases gs) auto
  obtain s1 c c' where s1: "InsertCoordinatorAccounts G L g0 d s = (Ok c, s1)" "db_inv G L view up s1"
    "view s1 = (view s)\<lparr>user_states := [c']\<rparr>" "us_Path c = replicate (unat d) (CHR ''0'')" "us_Level c = d"
    "us_Hash c = data_hash L (us_Data g0)" "us_Type c = TYPE_TERMINAL" "us_Status c = us_Status g0"
    "stamp_us c c'"
    using InsertCoordinatorAccounts_run [OF inv] by blast
  note keep = stamp_us_keeps [OF s1(9)]
  have "\<exists>recs s2 s3. InitStateTree_leaves L (us_Path c') rest [] = Ok recs \<and>
      bulk_states G ''Unable to insert accounts'' recs s1 = (Ok (), s2) \<and>
      InitStateTree_levels G L (unat d) s2 = (Ok (), s3) \<and> db_inv G L view up s3 \<and>
      (view s3)\<lparr>user_states := []\<rparr> = (view s1)\<lparr>user_states := []\<rparr> \<and>
      st_init.built L 0 (unat d) (user_states (view s3)) \<and>
      row_at us_Path (user_states (view s3)) (level_paths (unat d) ! 0) = Some c' \<and>
      (\<forall>j < length rest. \<exists>r. row_at us_Path (user_states (view s3)) (level_paths (unat d) ! Suc j) = Some r \<and>
         stamp_us (UpdatePath (rest ! j) (level_paths (unat d) ! Suc j)) r) \<and>
      (\<exists>ys zs. user_states (view s3) = c' # ys @ zs \<and> map us_Path (c' # ys) = level_paths (unat d) \<and>
         list_all2 stamp_us (map2 UpdatePath rest (drop 1 (level_paths (unat d)))) ys \<and> st_init.inner zs)"
    by (rule st_init.init_run)
      (use s1 keep g gs db_invD(2) [OF inv(1)] in \<open>simp_all add: data_hash_ok\<close>)
  then obtain recs s2 s3 where r: "InitStateTree_leaves L (us_Path c) rest [] = Ok recs"
      "bulk_states G ''Unable to insert accounts'' recs s1 = (Ok (), s2)"
      "InitStateTree_levels G L (unat d) s2 = (Ok (), s3)" "db_inv G L view up s3"
      "(view s3)\<lparr>user_states := []\<rparr> = (view s1)\<lparr>user_states := []\<rparr>"
      "st_init.built L 0 (unat d) (user_states (view s3))"
      "state_node view s3 (level_paths (unat d) ! 0) = Some c'"
      "\<forall>j < length rest. \<exists>r. state_node view s3 (level_paths (unat d) ! Suc j) = Some r \<and>
         stamp_us (UpdatePath (rest ! j) (level_paths (unat d) ! Suc j)) r"
      "\<exists>ys zs. user_states (view s3) = c' # ys @ zs \<and> map us_Path (c' # ys) = level_paths (unat d) \<and>
         list_all2 stamp_us (map2 UpdatePath rest (drop 1 (level_paths (unat d)))) ys \<and> st_init.inner zs"
    unfolding state_node_def conjunct1 [OF conjunct2 [OF keep]] by blast
  have "state_tree L view (unat d) s3"
    using st_init.built_tree [OF r(6)]
    by (simp add: state_tree_def state_hashes_def state_node_def st_init.row_hashes_def)
  moreover have lv: "state_levels view s3"
    unfolding state_levels_def
  proof
    fix x assume "x \<in> set (user_states (view s3))"
    from st_init.builtD(2) [OF r(6) this] g(2)
    show "us_Level x = of_nat (length (us_Path x)) \<and> length (us_Path x) < 2 ^ 64" by simp
  qed
  moreover have "InitStateTree G L d gs s = (Ok (), s3)"
    using r(1-3) s1(1) g(1,2) gs by (simp add: InitStateTree_def exp2_int_def andThen_ok)
  moreover have "\<forall>i. 0 < i \<and> i < length gs \<longrightarrow> (\<exists>r. state_node view s3 (level_paths (unat d) ! i) = Some r \<and>
       stamp_us (UpdatePath (gs ! i) (level_paths (unat d) ! i)) r)"
    using r(8) gs by (auto simp: gr0_conv_Suc)
  moreover have "state_rows view (unat d) s3 \<and> (\<forall>r \<in> set (user_states (view s3)). us_Status r \<noteq> STATUS_PENDING)"
    if t: "\<forall>g \<in> set gs. us_Type g = TYPE_TERMINAL \<and> us_Status g \<noteq> STATUS_PENDING"
  proof -
    from r(9) obtain ys zs where rows: "user_states (view s3) = c' # ys @ zs" "map us_Path (c' # ys) = level_paths (unat d)"
      "list_all2 stamp_us (map2 UpdatePath rest (drop 1 (level_paths (unat d)))) ys" "st_init.inner zs" by blast
    have ys: "\<exists>x \<in> set (map2 UpdatePath rest (drop 1 (level_paths (unat d)))). stamp_us x y" if "y \<in> set ys" for y
      by (rule list_all2_in_set [OF rows(3) that])
    have "us_Type y = TYPE_TERMINAL \<and> us_Status y \<noteq> STATUS_PENDING" if "y \<in> set (c' # ys)" for y
      using that t gs s1(7,8) keep ys [of y]
      by (auto simp: UpdatePath_def dest!: set_zip_leftD stamp_us_keeps)
    moreover have "us_Type z = TYPE_NON_TERMINAL \<and> us_Status z \<noteq> STATUS_PENDING" if "z \<in> set zs" for z
      using that rows(4) by (auto simp: st_init.inner_def newStateNode_def UpdatePath_def Let_def dest!: stamp_us_keeps)
    moreover have b: "binary (us_Path x)" if "x \<in> set (user_states (view s3))" for x
      using st_init.builtD(2) [OF r(6) that] by blast
    ultimately have f: "filter (\<lambda>x. binary (us_Path x) \<and> us_Type x = 1) (c' # ys) = c' # ys"
      "filter (\<lambda>x. binary (us_Path x) \<and> us_Type x = 1) zs = []"
      and st: "\<forall>x \<in> set (user_states (view s3)). us_Status x \<noteq> STATUS_PENDING"
      using rows(1) by (auto simp: filter_id_conv filter_empty_conv)
    have "filter (\<lambda>x. binary (us_Path x) \<and> us_Type x = 1) (user_states (view s3)) = c' # ys"
      unfolding rows(1) append_Cons [symmetric] filter_append f by simp
    then have "map us_Path (filter (\<lambda>x. binary (us_Path x) \<and> us_Type x = 1) (user_states (view s3))) = level_paths (unat d)"
      using rows(2) by (simp only:)
    with b lv st show ?thesis unfolding state_rows_def by blast
  qed
  moreover have "(view s3)\<lparr>user_states := []\<rparr> = (view s)\<lparr>user_states := []\<rparr>" using r(5) s1(3) by simp
  moreover have "map_option us_Hash (state_node view s3 (level_paths (unat d) ! 0)) = Some (data_hash L (us_Data (hd gs)))"
    using r(7) s1(6) keep gs by simp
  ultimately show ?thesis using r(4) by blast
qed

section \<open>Properties\<close>

text \<open>A small tree for the witnesses: four leaves of which two are empty, built by \<open>InitStateTree\<close> itself.\<close>

definition ex_leaves :: "UserState list" where
  "ex_leaves = map (\<lambda>b. NewUserState ref_libs 1 STATUS_ACTIVE '''' [b]) [1, 2] @
     replicate 2 ((EmptyUserState ref_libs)\<lparr>us_Hash := ByteArray_String ZERO_VALUE_LEAF\<rparr>)"

definition ex_db :: tables where
  "ex_db = snd (InitStateTree mem_gorm ref_libs 2 ex_leaves empty_tables)"

lemma ex_start: "db_inv mem_gorm ref_libs (\<lambda>d. d) (\<lambda>_. True) t"
  by (simp add: db_inv_def mem_gorm_ok ref_libs_ok)

lemma ex_leaves_ok: "length ex_leaves = 2 ^ unat (2 :: u64)" "\<forall>g \<in> set (tl ex_leaves). hash_ok (us_Hash g)"
  using ref_libs_ok by (simp_all add: ex_leaves_def NewUserState_def CreateAccountHash_def Keccak256_def
    libs_okD hash_okI Let_def)

lemma ex_db_ok:
  "InitStateTree mem_gorm ref_libs 2 ex_leaves empty_tables = (Ok (), ex_db)"
  "state_tree ref_libs (\<lambda>d. d) 2 ex_db" "state_levels (\<lambda>d. d) ex_db"
  "params ex_db = []" "accounts ex_db = []"
proof -
  have "user_states empty_tables = []" by (simp add: empty_tables_def)
  from InitStateTree_run [OF ex_start this ex_leaves_ok(1) _ ex_leaves_ok(2)]
  obtain s' where s': "InitStateTree mem_gorm ref_libs 2 ex_leaves empty_tables = (Ok (), s')"
    "state_tree ref_libs (\<lambda>d. d) 2 s'" "state_levels (\<lambda>d. d) s'"
    "s'\<lparr>user_states := []\<rparr> = empty_tables\<lparr>user_states := []\<rparr>" by auto
  then have "s' = ex_db" by (simp add: ex_db_def)
  with s' frame_tables [OF s'(4)] show
    "InitStateTree mem_gorm ref_libs 2 ex_leaves empty_tables = (Ok (), ex_db)"
    "state_tree ref_libs (\<lambda>d. d) 2 ex_db" "state_levels (\<lambda>d. d) ex_db"
    "params ex_db = []" "accounts ex_db = []"
    by (auto simp: empty_tables_def)
qed

lemma ex_db_node: "binary p \<Longrightarrow> length p \<le> 2 \<Longrightarrow> \<exists>n. state_node (\<lambda>d. d) ex_db p = Some n"
  using ex_db_ok(2) by (auto simp: state_tree_def)

text \<open>
  C4. \<open>UpdateState\<close> on a leaf of a balance tree of depth \<open>d\<close> succeeds and leaves a
  balance tree: the leaf holds the new data and its hash, every other leaf, every other
  column and every other table is as before, and \<open>GetRoot\<close> returns the root that the
  leaf hashes determine (Merkle root over the old leaves with this one replaced).
\<close>

theorem UpdateState_correct:
  assumes "gorm_ok G view up" "libs_ok L" "up s" "state_tree L view d s" "state_levels view s"
    and "binary (us_Path a)" "length (us_Path a) = d" "0 < d"
    and "state_node view s (us_Path a) = Some r" "us_Data a \<noteq> []"
  shows "\<exists>s' root. UpdateState G L a s = (Ok (), s') \<and> up s' \<and>
    state_tree L view d s' \<and> state_levels view s' \<and> state_frame view s' = state_frame view s \<and>
    state_node view s' (us_Path a) = Some (r\<lparr>us_Data := us_Data a, us_Hash := data_hash L (us_Data a)\<rparr>) \<and>
    (\<forall>x. length x = d \<and> x \<noteq> us_Path a \<longrightarrow> state_node view s' x = state_node view s x) \<and>
    GetRoot G s' = (Ok root, s') \<and> us_Hash root = merkle_root (node_hash L)
      ((\<lambda>x. the (state_hashes view s x))(us_Path a := data_hash L (us_Data a))) d []"
proof -
  have inv: "db_inv G L view up s" using assms by (simp add: db_inv_def)
  obtain s' where s': "UpdateState G L a s = (Ok (), s')" "db_inv G L view up s'"
    "state_tree L view d s'" "state_frame view s' = state_frame view s"
    "state_node view s' (us_Path a) = Some (r\<lparr>us_Data := us_Data a, us_Hash := data_hash L (us_Data a)\<rparr>)"
    "\<forall>x. length x = d \<and> x \<noteq> us_Path a \<longrightarrow> state_node view s' x = state_node view s x"
    "state_hashes view s' [] = Some (merkle_root (node_hash L)
      ((\<lambda>x. the (state_hashes view s x))(us_Path a := data_hash L (us_Data a))) d [])"
    using UpdateState_run [OF inv assms(4,6-9)] assms(10) by auto
  from s'(7) obtain root where root: "state_node view s' [] = Some root" "us_Hash root = merkle_root (node_hash L)
      ((\<lambda>x. the (state_hashes view s x))(us_Path a := data_hash L (us_Data a))) d []"
    by (auto simp: state_hashes_def)
  have lv: "state_levels view s'" by (rule state_levels_frame [OF s'(4) assms(5)])
  from GetRoot_run [OF s'(2) lv root(1)] s' root(2) lv show ?thesis
    by (auto simp: db_inv_def)
qed

definition ex_change :: UserState where
  "ex_change = UpdatePath (zero_UserState\<lparr>us_Data := [9]\<rparr>) ''10''"

theorem UpdateState_correct_witness:
  "\<exists>s' root. UpdateState mem_gorm ref_libs ex_change ex_db = (Ok (), s') \<and>
     state_tree ref_libs (\<lambda>d. d) 2 s' \<and> GetRoot mem_gorm s' = (Ok root, s') \<and>
     us_Hash root = merkle_root (node_hash ref_libs)
       ((\<lambda>x. the (state_hashes (\<lambda>d. d) ex_db x))(''10'' := data_hash ref_libs [9])) 2 []"
proof -
  obtain r where "state_node (\<lambda>d. d) ex_db ''10'' = Some r" using ex_db_node [of "''10''"] by auto
  then show ?thesis
    using UpdateState_correct [OF mem_gorm_ok ref_libs_ok TrueI ex_db_ok(2,3), of ex_change r]
    by (auto simp: ex_change_def UpdatePath_def)
qed

text \<open>
  C5. \<open>InitStateTree\<close> on an empty table, given \<open>2 ^ depth\<close> leaves whose hashes are set,
  inserts them from left to right under the paths of level \<open>depth\<close> and builds the whole
  tree above them; the other tables are untouched.  The coordinator's leaf comes first
  and is the only one whose hash is computed from its data.
\<close>

theorem InitStateTree_correct:
  assumes "gorm_ok G view up" "libs_ok L" "up s" "user_states (view s) = []"
    and "length gs = 2 ^ unat depth" "unat depth < 63" "\<forall>g \<in> set (tl gs). hash_ok (us_Hash g)"
  shows "\<exists>s' root. InitStateTree G L depth gs s = (Ok (), s') \<and> up s' \<and>
    (view s')\<lparr>user_states := []\<rparr> = (view s)\<lparr>user_states := []\<rparr> \<and>
    state_tree L view (unat depth) s' \<and> state_levels view s' \<and>
    (\<forall>i < length gs. map_option us_Hash (state_node view s' (level_paths (unat depth) ! i)) =
       Some (if i = 0 then data_hash L (us_Data (gs ! 0)) else us_Hash (gs ! i))) \<and>
    GetRoot G s' = (Ok root, s') \<and>
    us_Hash root = merkle_root (node_hash L) (\<lambda>x. the (state_hashes view s' x)) (unat depth) []"
proof -
  have inv: "db_inv G L view up s" using assms by (simp add: db_inv_def)
  obtain s' where s': "InitStateTree G L depth gs s = (Ok (), s')" "db_inv G L view up s'"
    "(view s')\<lparr>user_states := []\<rparr> = (view s)\<lparr>user_states := []\<rparr>" "state_tree L view (unat depth) s'"
    "state_levels view s'"
    "map_option us_Hash (state_node view s' (level_paths (unat depth) ! 0)) = Some (data_hash L (us_Data (hd gs)))"
    "\<forall>i. 0 < i \<and> i < length gs \<longrightarrow> (\<exists>r. state_node view s' (level_paths (unat depth) ! i) = Some r \<and>
       stamp_us (UpdatePath (gs ! i) (level_paths (unat depth) ! i)) r)"
    using InitStateTree_run [OF inv assms(4-7)] by blast
  have "gs \<noteq> []" using assms(5) by auto
  then have leaf: "map_option us_Hash (state_node view s' (level_paths (unat depth) ! i)) =
       Some (if i = 0 then data_hash L (us_Data (gs ! 0)) else us_Hash (gs ! i))" if "i < length gs" for i
    using s'(6,7) that stamp_us_keeps by (cases "i = 0") (auto simp: hd_conv_nth UpdatePath_def)
  have "state_hashes view s' [] =
      Some (merkle_root (node_hash L) (\<lambda>x. the (state_hashes view s' x)) (unat depth) [])"
    by (rule merkle_tree_root) (use s'(4) in \<open>simp_all add: state_tree_def\<close>)
  then obtain root where "state_node view s' [] = Some root"
    "us_Hash root = merkle_root (node_hash L) (\<lambda>x. the (state_hashes view s' x)) (unat depth) []"
    by (auto simp: state_hashes_def)
  with GetRoot_run [OF s'(2,5)] s' leaf show ?thesis by (auto simp: db_inv_def)
qed

theorem InitStateTree_correct_witness:
  "\<exists>s'. InitStateTree mem_gorm ref_libs 2 ex_leaves empty_tables = (Ok (), s') \<and>
     state_tree ref_libs (\<lambda>d. d) 2 s'"
  using InitStateTree_correct [OF mem_gorm_ok ref_libs_ok, of empty_tables ex_leaves 2] ex_leaves_ok
  by (auto simp: empty_tables_def)

lemma GetParentPath_iter: "binary p \<Longrightarrow> (GetParentPath ^^ n) p = take (length p - n) p"
proof (induction n)
  case (Suc n)
  then have "binary ((GetParentPath ^^ n) p)" by (simp add: binary_take)
  with Suc show ?case by (simp add: butlast_take)
qed simp

lemma GetStateByPath_returns:
  "(\<exists>n. GetStateByPath G p s = (Ok n, s)) \<or> (\<exists>e. GetStateByPath G p s = (Err e, s))"
  by (auto simp: GetStateByPath_def onError_def db_read_def fail_def split: sum.splits)

lemma GetSiblings_loop_returns:
  "binary p \<Longrightarrow> length p = i \<Longrightarrow>
   (\<exists>sibs. GetSiblings_loop G i p acc s = (Ok (acc @ sibs), s) \<and> length sibs = i) \<or>
   (\<exists>e. GetSiblings_loop G i p acc s = (Err e, s))"
proof (induction i arbitrary: p acc)
  case (Suc i)
  then have "p \<noteq> []" by auto
  with Suc.prems have p: "GetOtherChild p = Ok (sib p)" "GetParentPath p = butlast p" "binary (butlast p)" "length (butlast p) = i"
    by (simp_all add: GetOtherChild_binary binary_butlast)
  consider n where "GetStateByPath G (sib p) s = (Ok n, s)" | e where "GetStateByPath G (sib p) s = (Err e, s)"
    using GetStateByPath_returns [of G "sib p" s] by blast
  then show ?case
  proof cases
    case (1 n)
    then have step: "GetSiblings_loop G (Suc i) p acc s = GetSiblings_loop G i (butlast p) (acc @ [n]) s"
      using p(1,2) by (simp add: andThen_ok)
    from Suc.IH [OF p(3,4), of "acc @ [n]"] show ?thesis
    proof (elim disjE exE conjE)
      fix sibs assume "GetSiblings_loop G i (butlast p) (acc @ [n]) s = (Ok ((acc @ [n]) @ sibs), s)" "length sibs = i"
      then show ?thesis by (intro disjI1 exI [of _ "n # sibs"]) (simp only: step append_assoc append_Cons append_Nil, simp)
    qed (simp only: step, blast)
  qed (use p(1) in \<open>simp add: andThen_def\<close>)
qed simp

text \<open>
  C40. The walk of \<open>GetSiblings\<close> from a node to the root ends, whatever the database holds or answers:
  \<open>GetParentPath\<close> reaches the root after exactly as many steps as the path has bits, so that the
  loop never asks for the other child of the root, which would panic.  It returns one sibling per
  level, or the error of a read, and writes nothing.
\<close>

theorem GetSiblings_returns:
  assumes "binary p"
  shows "((GetParentPath ^^ n) p = '''' \<longleftrightarrow> length p \<le> n) \<and>
    ((\<exists>sibs. GetSiblings G p s = (Ok sibs, s) \<and> length sibs = length p) \<or> (\<exists>e. GetSiblings G p s = (Err e, s))) \<and>
    GetOtherChild '''' = Panic IndexOutOfRange"
  using GetSiblings_loop_returns [OF assms refl, of G "[]" s] GetParentPath_iter [OF assms, of n]
  by (auto simp: GetSiblings_def GetOtherChild_empty)

theorem GetSiblings_returns_witness:
  "(GetParentPath ^^ 3) ''010'' = '''' \<and> (GetParentPath ^^ 2) ''010'' \<noteq> '''' \<and>
   (\<exists>e. GetSiblings (mem_gorm\<lparr>g_states := (g_states mem_gorm)\<lparr>t_find_one := (\<lambda>c s. Inl (DriverError ''gone''))\<rparr>\<rparr>) ''010'' empty_tables
      = (Err e, empty_tables))"
proof -
  let ?G = "mem_gorm\<lparr>g_states := (g_states mem_gorm)\<lparr>t_find_one := (\<lambda>c s. Inl (DriverError ''gone''))\<rparr>\<rparr>"
  have b: "binary ''010''" by (simp add: binary_def)
  have o: "GetOtherChild ''010'' = Ok ''011''" by (simp add: GetOtherChild_binary b) (simp add: sib_def flip_char_def)
  have "\<not> (\<exists>sibs. GetSiblings ?G ''010'' empty_tables = (Ok sibs, empty_tables))"
    by (simp add: GetSiblings_def o numeral_3_eq_3 andThen_def GetStateByPath_def onError_def db_read_def fail_def)
  then show ?thesis
    using GetSiblings_returns [OF b, of 3 ?G empty_tables] GetSiblings_returns [OF b, of 2 ?G empty_tables] by auto
qed

text \<open>
  C11. The siblings that \<open>GetSiblings\<close> returns for any node of the tree are an inclusion
  proof: folded onto the node's hash along its path they give the hash of the root row.
  Their number is the level of the node, and the database is only read.
\<close>

theorem GetSiblings_is_proof:
  assumes "gorm_ok G view up" "libs_ok L" "up s" "state_tree L view d s"
    and "binary p" "length p \<le> d" "state_node view s p = Some n"
  shows "\<exists>siblings root. GetSiblings G p s = (Ok siblings, s) \<and> length siblings = length p \<and>
    GetStateByPath G [] s = (Ok root, s) \<and>
    proof_root (node_hash L) (rev p) (us_Hash n) (map us_Hash siblings) = us_Hash root"
proof -
  have inv: "db_inv G L view up s" using assms by (simp add: db_inv_def)
  from GetSiblings_proof [OF inv assms(4-7)] obtain sibs root where
    "GetSiblings G p s = (Ok sibs, s)" "length sibs = length p" "state_node view s [] = Some root"
    "us_Hash root = proof_root (node_hash L) (rev p) (us_Hash n) (map us_Hash sibs)" by blast
  with GetStateByPath_run [OF inv] show ?thesis by fastforce
qed

theorem GetSiblings_is_proof_witness:
  "\<exists>siblings. GetSiblings mem_gorm ''01'' ex_db = (Ok siblings, ex_db) \<and> length siblings = 2"
proof -
  obtain n where "state_node (\<lambda>d. d) ex_db ''01'' = Some n" using ex_db_node [of "''01''"] by auto
  then show ?thesis
    using GetSiblings_is_proof [OF mem_gorm_ok ref_libs_ok TrueI ex_db_ok(2), of "''01''" n] by auto
qed

end
