(* ===== verification/Account_Tree.thy ===== *)
theory Account_Tree
  imports State_Tree
begin

text \<open>
  \<open>core/account.go\<close>: the account tree, which holds the public keys.  It is kept like the
  balance tree, in rows of \<open>accounts\<close>, but its nodes are written with all their
  non-blank columns, and the sibling is written back as well.  Both interfaces of the
  trees are interpreted again, on these operations.
\<close>

section \<open>The struct\<close>

definition acc_UpdatePath :: "Account \<Rightarrow> string \<Rightarrow> Account" where
  "acc_UpdatePath p path = p\<lparr>acc_Path := path, acc_Level := of_nat (length path)\<rparr>"

definition acc_HashToByteArray :: "Account \<Rightarrow> ByteArray res" where
  "acc_HashToByteArray p = hash_to_bytes (acc_Hash p)"

definition PopulateHash :: "libs \<Rightarrow> Account \<Rightarrow> Account res" where
  "PopulateHash L p =
    (if acc_PublicKey p = '''' then Ok (p\<lparr>acc_Hash := ByteArray_String ZERO_VALUE_LEAF\<rparr>)
     else res_bind (encodePubkey L (acc_PublicKey p)) (\<lambda>bz.
       Ok (p\<lparr>acc_Hash := l_hash_text L (Keccak256 L bz)\<rparr>)))"

definition NewAccount :: "libs \<Rightarrow> u64 \<Rightarrow> string \<Rightarrow> string \<Rightarrow> Account res" where
  "NewAccount L id' pubkey path =
    (let newAccount = zero_Account\<lparr>acc_ID := id', acc_PublicKey := pubkey, acc_Path := path,
           acc_Type := TYPE_TERMINAL\<rparr>
     in PopulateHash L newAccount)"

definition newAccountNode :: "string \<Rightarrow> string \<Rightarrow> Account" where
  "newAccountNode path hash =
    (let newAccount = zero_Account\<lparr>acc_ID := ZERO, acc_Path := path, acc_Type := TYPE_NON_TERMINAL\<rparr>;
         newAccount = acc_UpdatePath newAccount path
     in newAccount\<lparr>acc_Hash := hash\<rparr>)"

definition NewEmptyAccount :: Account where
  "NewEmptyAccount = zero_Account\<lparr>acc_ID := ZERO, acc_PublicKey := '''', acc_Type := TYPE_TERMINAL\<rparr>"

section \<open>Reading nodes\<close>

definition GetAccountLeafByPath :: "'s gorm \<Rightarrow> string \<Rightarrow> ('s, Account) prog" where
  "GetAccountLeafByPath G path =
    onError (db_read (t_find_one (g_accounts G) (\<lambda>r. acc_Path r = path))) (\<lambda>_. fail (ErrRecordNotFound path))"

text \<open>The struct has no column \<open>account_id\<close>.\<close>

definition GetAccountLeafByID :: "'s gorm \<Rightarrow> u64 \<Rightarrow> ('s, Account) prog" where
  "GetAccountLeafByID G ID =
    onError (db_read (t_find_col (g_accounts G) ''account_id'' ID))
      (\<lambda>_. fail (ErrRecordNotFound ''ID in Account tree''))"

definition GetAccountRoot :: "'s gorm \<Rightarrow> ('s, Account) prog" where
  "GetAccountRoot G =
    onError (db_read (t_find_one (g_accounts G) (\<lambda>r. acc_Level r = 0)))
      (\<lambda>_. fail (ErrRecordNotFound ''root in Account tree''))"

definition GetAccountByDepth :: "'s gorm \<Rightarrow> u64 \<Rightarrow> ('s, Account list) prog" where
  "GetAccountByDepth G depth = db_read (t_find_all (g_accounts G) (\<lambda>r. acc_Level r = depth))"

fun GetAccountSiblings_loop :: "'s gorm \<Rightarrow> nat \<Rightarrow> string \<Rightarrow> Account list \<Rightarrow> ('s, Account list) prog" where
  "GetAccountSiblings_loop G 0 relativePath siblings = ret siblings"
| "GetAccountSiblings_loop G (Suc i) relativePath siblings =
     andThen (lift (GetOtherChild relativePath)) (\<lambda>otherChild.
     andThen (GetAccountLeafByPath G otherChild) (\<lambda>otherNode.
       GetAccountSiblings_loop G i (GetParentPath relativePath) (siblings @ [otherNode])))"

definition GetAccountSiblings :: "'s gorm \<Rightarrow> string \<Rightarrow> ('s, Account list) prog" where
  "GetAccountSiblings G path = GetAccountSiblings_loop G (length path) path []"

section \<open>Writing nodes\<close>

definition updateSingleAccount :: "'s gorm \<Rightarrow> Account \<Rightarrow> string \<Rightarrow> ('s, unit) prog" where
  "updateSingleAccount G newAccount path =
    db_write (t_updates (g_accounts G) newAccount (\<lambda>r. acc_Path r = path) newAccount)"

definition updateParentAccountWithHash :: "'s gorm \<Rightarrow> string \<Rightarrow> ByteArray \<Rightarrow> ('s, unit) prog" where
  "updateParentAccountWithHash G pathToParent newHash =
    (let tempAccount = zero_Account\<lparr>acc_Path := pathToParent, acc_Hash := ByteArray_String newHash\<rparr>
     in updateSingleAccount G tempAccount pathToParent)"

definition updateAccountRootNodes :: "'s gorm \<Rightarrow> ByteArray \<Rightarrow> ('s, unit) prog" where
  "updateAccountRootNodes G newRoot =
    (let tempAccountLeaf = zero_Account\<lparr>acc_Path := '''', acc_Hash := ByteArray_String newRoot\<rparr>
     in updateSingleAccount G tempAccountLeaf (acc_Path tempAccountLeaf))"

definition storeAccountNode :: "'s gorm \<Rightarrow> ByteArray \<Rightarrow> Account \<Rightarrow> Account \<Rightarrow> ('s, unit) prog" where
  "storeAccountNode G parentHash leftNode rightNode =
    andThen (updateSingleAccount G leftNode (acc_Path leftNode)) (\<lambda>_.
    andThen (updateSingleAccount G rightNode (acc_Path rightNode)) (\<lambda>_.
      updateParentAccountWithHash G (GetParentPath (acc_Path leftNode)) parentHash))"

definition storeAccountLeaf_step ::
  "'s gorm \<Rightarrow> libs \<Rightarrow> int \<Rightarrow> Account \<Rightarrow> Account \<Rightarrow> ('s, unit) prog" where
  "storeAccountLeaf_step G L isComputedRightSibling computedNode sibling =
    (if isComputedRightSibling = 0 then
       andThen (lift (acc_HashToByteArray computedNode)) (\<lambda>l.
       andThen (lift (acc_HashToByteArray sibling)) (\<lambda>r.
       andThen (lift (GetParent L l r)) (\<lambda>parentHash.
         storeAccountNode G parentHash computedNode sibling)))
     else
       andThen (lift (acc_HashToByteArray sibling)) (\<lambda>l.
       andThen (lift (acc_HashToByteArray computedNode)) (\<lambda>r.
       andThen (lift (GetParent L l r)) (\<lambda>parentHash.
         storeAccountNode G parentHash sibling computedNode))))"

definition storeAccountLeaf_root :: "'s gorm \<Rightarrow> Account \<Rightarrow> ('s, unit) prog" where
  "storeAccountLeaf_root G computedNode =
    andThen (lift (acc_HashToByteArray computedNode)) (\<lambda>h. updateAccountRootNodes G h)"

fun storeAccountLeaf_loop ::
  "'s gorm \<Rightarrow> libs \<Rightarrow> string \<Rightarrow> nat \<Rightarrow> Account \<Rightarrow> Account list \<Rightarrow> ('s, unit) prog" where
  "storeAccountLeaf_loop G L path i computedNode [] = storeAccountLeaf_root G computedNode"
| "storeAccountLeaf_loop G L path i computedNode (sibling # siblings) =
     andThen (lift (GetNthBitFromRight path (int i))) (\<lambda>isComputedRightSibling.
     andThen (storeAccountLeaf_step G L isComputedRightSibling computedNode sibling) (\<lambda>_.
     andThen (GetAccountLeafByPath G (GetParentPath (acc_Path computedNode))) (\<lambda>parentAccount.
       storeAccountLeaf_loop G L path (Suc i) parentAccount siblings)))"

definition storeAccountLeaf ::
  "'s gorm \<Rightarrow> libs \<Rightarrow> Account \<Rightarrow> string \<Rightarrow> Account list \<Rightarrow> ('s, unit) prog" where
  "storeAccountLeaf G L pdaLeaf path siblings = storeAccountLeaf_loop G L path 0 pdaLeaf siblings"

text \<open>\<open>leaf.PopulateHash()\<close> as a statement: an error is dropped and the old hash kept.\<close>

definition populate_dropped :: "libs \<Rightarrow> Account \<Rightarrow> Account res" where
  "populate_dropped L leaf = (case PopulateHash L leaf of Err _ \<Rightarrow> Ok leaf | r \<Rightarrow> r)"

definition UpdateAccount :: "'s gorm \<Rightarrow> libs \<Rightarrow> Account \<Rightarrow> ('s, unit) prog" where
  "UpdateAccount G L leaf =
    andThen (lift (populate_dropped L leaf)) (\<lambda>leaf.
    andThen (GetAccountSiblings G (acc_Path leaf)) (\<lambda>siblings.
      storeAccountLeaf G L leaf (acc_Path leaf) siblings))"

section \<open>\<open>InitAccountTree\<close>\<close>

definition InsertCoordinatorPubkeyAccounts ::
  "'s gorm \<Rightarrow> libs \<Rightarrow> Account \<Rightarrow> u64 \<Rightarrow> ('s, Account) prog" where
  "InsertCoordinatorPubkeyAccounts G L coordinatorAccount depth =
    (let coordinatorAccount = acc_UpdatePath coordinatorAccount (GenCoordinatorPath depth)
     in andThen (lift (populate_dropped L coordinatorAccount)) (\<lambda>coordinatorAccount.
        let coordinatorAccount = coordinatorAccount\<lparr>acc_Type := TYPE_TERMINAL\<rparr>
        in andThen (db_write (t_create (g_accounts G) coordinatorAccount)) (\<lambda>_. ret coordinatorAccount)))"

fun InitAccountTree_leaves ::
  "libs \<Rightarrow> string \<Rightarrow> Account list \<Rightarrow> Account list \<Rightarrow> Account list res" where
  "InitAccountTree_leaves L prevNodePath [] insertRecords = Ok insertRecords"
| "InitAccountTree_leaves L prevNodePath (g # gs) insertRecords =
     res_bind (GetAdjacentNodePath (l_pad_left L) prevNodePath) (\<lambda>pathToAdjacentNode.
       let g = acc_UpdatePath g pathToAdjacentNode
       in InitAccountTree_leaves L (acc_Path g) gs (insertRecords @ [g]))"

fun InitAccountTree_pairs :: "libs \<Rightarrow> Account list \<Rightarrow> Account list \<Rightarrow> Account list res" where
  "InitAccountTree_pairs L [] nextLevelAccounts = Ok nextLevelAccounts"
| "InitAccountTree_pairs L [a] nextLevelAccounts =
     res_bind (HexToByteArray (acc_Hash a)) (\<lambda>_. Panic IndexOutOfRange)"
| "InitAccountTree_pairs L (a # b # accs) nextLevelAccounts =
     res_bind (HexToByteArray (acc_Hash a)) (\<lambda>left.
     res_bind (HexToByteArray (acc_Hash b)) (\<lambda>right.
     res_bind (GetParent L left right) (\<lambda>parentHash.
       let parentPath = GetParentPath (acc_Path a);
           newAccNode = newAccountNode parentPath (ByteArray_String parentHash)
       in InitAccountTree_pairs L accs (nextLevelAccounts @ [newAccNode]))))"

definition bulk_accounts :: "'s gorm \<Rightarrow> string \<Rightarrow> Account list \<Rightarrow> ('s, unit) prog" where
  "bulk_accounts G msg records =
    onError (db_write (t_bulk_insert (g_accounts G) records CHUNK_SIZE)) (\<lambda>_. fail (ErrMsg msg))"

fun InitAccountTree_levels :: "'s gorm \<Rightarrow> libs \<Rightarrow> nat \<Rightarrow> ('s, unit) prog" where
  "InitAccountTree_levels G L 0 = ret ()"
| "InitAccountTree_levels G L (Suc j) =
     andThen (GetAccountByDepth G (of_nat (Suc j))) (\<lambda>accs.
     andThen (lift (InitAccountTree_pairs L accs [])) (\<lambda>nextLevelAccounts.
     andThen (bulk_accounts G ''Unable to insert Account leaves'' nextLevelAccounts) (\<lambda>_.
       InitAccountTree_levels G L j)))"

definition InitAccountTree :: "'s gorm \<Rightarrow> libs \<Rightarrow> u64 \<Rightarrow> Account list \<Rightarrow> ('s, unit) prog" where
  "InitAccountTree G L depth genesisAccount =
    (if exp2_int L depth \<noteq> int (length genesisAccount)
     then fail (ErrMsg ''Depth and number of leaves do not match'')
     else (case genesisAccount of
       [] \<Rightarrow> lift (Panic IndexOutOfRange)
     | g0 # gs \<Rightarrow>
         andThen (InsertCoordinatorPubkeyAccounts G L g0 depth) (\<lambda>g0.
         andThen (lift (InitAccountTree_leaves L (acc_Path g0) gs [])) (\<lambda>insertRecords.
         andThen (bulk_accounts G ''Unable to insert leaves'' insertRecords) (\<lambda>_.
           InitAccountTree_levels G L (unat depth))))))"

section \<open>The rows as a tree\<close>

definition acc_node :: "('s \<Rightarrow> tables) \<Rightarrow> 's \<Rightarrow> string \<Rightarrow> Account option" where
  "acc_node view s = row_at acc_Path (accounts (view s))"

definition acc_hashes :: "('s \<Rightarrow> tables) \<Rightarrow> 's \<Rightarrow> string nodes" where
  "acc_hashes view s = (\<lambda>p. map_option acc_Hash (acc_node view s p))"

definition acc_frame :: "('s \<Rightarrow> tables) \<Rightarrow> 's \<Rightarrow> tables \<times> Account list" where
  "acc_frame view s = ((view s)\<lparr>accounts := []\<rparr>,
     filter (\<lambda>r. \<not> binary (acc_Path r)) (accounts (view s)))"

text \<open>
  A node reaches its row only when its primary key is blank or that of the row: \<open>pk_acc\<close>.
\<close>

definition acc_write :: "Account \<Rightarrow> Account \<Rightarrow> Account" where
  "acc_write n r = (if pk_acc n r then merge_acc n r else r)"

definition acc_rehash :: "string \<Rightarrow> Account \<Rightarrow> Account" where
  "acc_rehash h r = merge_acc (zero_Account\<lparr>acc_Hash := h\<rparr>) r"

lemma acc_rehash_alt: "acc_rehash h r = r\<lparr>acc_Hash := (if h \<noteq> [] then h else acc_Hash r)\<rparr>"
  by (simp add: acc_rehash_def merge_acc_def zero_Account_def)

lemma acc_node_laws:
  "hash_ok (acc_Hash n) \<Longrightarrow> acc_Hash (merge_acc n r) = acc_Hash n"
  "merge_acc r r = r"
  "pk_acc r r"
  "hash_ok h \<Longrightarrow> acc_Hash (acc_rehash h r) = h"
  "hash_ok h \<Longrightarrow> acc_rehash h (acc_rehash g r) = acc_rehash h r"
  by (simp_all add: merge_acc_def acc_rehash_alt hash_ok_nonempty pk_acc_def)

lemma GetAccountLeafByPath_run:
  assumes "db_inv G L view up s" "acc_node view s p = Some n"
  shows "GetAccountLeafByPath G p s = (Ok n, s)"
proof -
  have "t_find_one (g_accounts G) (\<lambda>r. acc_Path r = p) s = Inr n"
    using find_one_run [OF gorm_accounts_find [OF db_invD(1) [OF assms(1)]]] db_invD(3) [OF assms(1)] assms(2)
    by (simp add: acc_node_def row_at_Some)
  then show ?thesis by (simp add: GetAccountLeafByPath_def onError_ok db_read_Inr)
qed

lemma updateSingleAccount_run:
  assumes "db_inv G L view up s"
  shows "\<exists>s'. updateSingleAccount G n p s = (Ok (), s') \<and> db_inv G L view up s' \<and>
    view s' = accounts_update (map (\<lambda>r. if acc_Path r = p \<and> pk_acc n r then merge_acc n r else r)) (view s)"
proof -
  have "updates_ok (g_accounts G) accounts_update view up pk_acc merge_acc" "up s"
    using db_invD [OF assms] gorm_accounts_updates by auto
  from updates_run [OF this, of n "\<lambda>r. acc_Path r = p" n] assms
  show ?thesis by (auto simp: updateSingleAccount_def db_inv_def)
qed

text \<open>Writing a node onto its own row: nothing else moves.\<close>

lemma acc_write_self [simp]: "acc_write r r = r"
  by (simp add: acc_write_def acc_node_laws(2))

lemma updateSingleAccount_node:
  assumes "db_inv G L view up s" "binary p" "acc_node view s p = Some r"
    and "acc_Path n = p \<or> acc_Path n = []"
  shows "\<exists>s'. updateSingleAccount G n p s = (Ok (), s') \<and> db_inv G L view up s' \<and>
    acc_frame view s' = acc_frame view s \<and> acc_node view s' = (acc_node view s)(p \<mapsto> acc_write n r)"
proof -
  obtain s' where s': "updateSingleAccount G n p s = (Ok (), s')" "db_inv G L view up s'"
    "view s' = accounts_update (map (\<lambda>r. if acc_Path r = p \<and> pk_acc n r then merge_acc n r else r)) (view s)"
    using updateSingleAccount_run [OF assms(1)] by blast
  let ?f = "\<lambda>r. if pk_acc n r then merge_acc n r else r"
  have f: "(\<lambda>r. if acc_Path r = p \<and> pk_acc n r then merge_acc n r else r) = (\<lambda>r. if acc_Path r = p then ?f r else r)"
    by auto
  have fp: "acc_Path (?f x) = p" if "acc_Path x = p" for x using that assms(4) by (auto simp: merge_acc_def)
  have "filter (\<lambda>r. \<not> binary (acc_Path r)) (map (\<lambda>r. if acc_Path r = p then ?f r else r) rows)
      = filter (\<lambda>r. \<not> binary (acc_Path r)) rows" for rows
    using assms(2) fp by (induction rows) auto
  then have "acc_frame view s' = acc_frame view s"
    by (simp add: s'(3) acc_frame_def f o_def)
  moreover have "acc_node view s' = (acc_node view s)(p \<mapsto> acc_write n r)"
    unfolding acc_node_def s'(3) f
    using assms(3)
    by (simp add: acc_write_def acc_node_def row_at_update [where path = acc_Path and f = ?f and p = p, OF fp] fun_eq_iff)
  ultimately show ?thesis using s'(1,2) by blast
qed

text \<open>Writing a node, its sibling (back to what it is) and the parent, in either order.\<close>

lemma write_sibling:
  assumes "db_inv G L view up s" "binary p" "acc_node view s p = Some sb"
  shows "\<exists>s'. updateSingleAccount G sb p s = (Ok (), s') \<and> db_inv G L view up s' \<and>
    acc_frame view s' = acc_frame view s \<and> acc_node view s' = acc_node view s"
proof -
  have "acc_Path sb = p" using assms(3) row_at_path by (simp add: acc_node_def)
  then show ?thesis
    using updateSingleAccount_node [OF assms, of sb] assms(3) by (simp add: fun_upd_idem)
qed

lemma write_parent:
  assumes "db_inv G L view up s" "binary p" "acc_node view s p = Some pn"
  shows "\<exists>s'. updateParentAccountWithHash G p hb s = (Ok (), s') \<and> db_inv G L view up s' \<and>
    acc_frame view s' = acc_frame view s \<and>
    acc_node view s' = (acc_node view s)(p \<mapsto> acc_rehash (ByteArray_String hb) pn)"
proof -
  have pn: "acc_Path pn = p" using assms(3) row_at_path by (simp add: acc_node_def)
  have "merge_acc (zero_Account\<lparr>acc_Path := p, acc_Hash := ByteArray_String hb\<rparr>) pn
      = acc_rehash (ByteArray_String hb) pn"
    by (simp add: acc_rehash_alt merge_acc_def zero_Account_def pn)
  moreover have "pk_acc (zero_Account\<lparr>acc_Path := p, acc_Hash := ByteArray_String hb\<rparr>) pn"
    by (simp add: pk_acc_def zero_Account_def)
  ultimately show ?thesis
    using updateSingleAccount_node [OF assms, of "zero_Account\<lparr>acc_Path := p, acc_Hash := ByteArray_String hb\<rparr>"]
    by (simp add: updateParentAccountWithHash_def acc_write_def)
qed

lemma storeAccountNode_run:
  assumes inv: "db_inv G L view up s" and b: "binary (p @ [c])"
    and n: "acc_Path n = p @ [c]" "acc_node view s (p @ [c]) = Some r" "acc_node view s p = Some pn"
    and sb: "acc_node view s (sib (p @ [c])) = Some sb"
    and order: "(x, y) = (n, sb) \<or> (x, y) = (sb, n)"
  shows "\<exists>s'. storeAccountNode G hb x y s = (Ok (), s') \<and> db_inv G L view up s' \<and>
    acc_frame view s' = acc_frame view s \<and>
    acc_node view s' = (acc_node view s)(p @ [c] \<mapsto> acc_write n r, p \<mapsto> acc_rehash (ByteArray_String hb) pn)"
proof -
  let ?q = "p @ [c]"
  have bs: "binary (sib ?q)" "binary p" "sib ?q \<noteq> ?q" using b by (auto simp: flip_char_def)
  have sbp: "acc_Path sb = sib ?q" using sb row_at_path by (simp add: acc_node_def)
  have pp: "GetParentPath (acc_Path x) = p" using order n(1) sbp b bs by auto
  have "\<exists>s2. andThen (updateSingleAccount G x (acc_Path x)) (\<lambda>_. updateSingleAccount G y (acc_Path y)) s = (Ok (), s2) \<and>
      db_inv G L view up s2 \<and> acc_frame view s2 = acc_frame view s \<and>
      acc_node view s2 = (acc_node view s)(?q \<mapsto> acc_write n r)"
  proof (rule disjE [OF order])
    assume "(x, y) = (n, sb)"
    obtain s1 where s1: "updateSingleAccount G n ?q s = (Ok (), s1)" "db_inv G L view up s1"
      "acc_frame view s1 = acc_frame view s" "acc_node view s1 = (acc_node view s)(?q \<mapsto> acc_write n r)"
      using updateSingleAccount_node [OF inv b n(2)] n(1) by blast
    have "acc_node view s1 (sib ?q) = Some sb" using s1(4) sb bs(3) by (simp del: sib_snoc)
    from write_sibling [OF s1(2) bs(1) this] s1 \<open>(x, y) = (n, sb)\<close> n(1) sbp show ?thesis
      by (auto simp: andThen_ok)
  next
    assume "(x, y) = (sb, n)"
    obtain s1 where s1: "updateSingleAccount G sb (sib ?q) s = (Ok (), s1)" "db_inv G L view up s1"
      "acc_frame view s1 = acc_frame view s" "acc_node view s1 = acc_node view s"
      using write_sibling [OF inv bs(1) sb] by blast
    have "acc_node view s1 ?q = Some r" using s1(4) n(2) by simp
    from updateSingleAccount_node [OF s1(2) b this] s1 \<open>(x, y) = (sb, n)\<close> n(1) sbp show ?thesis
      by (auto simp: andThen_ok)
  qed
  then obtain s2 where s2: "andThen (updateSingleAccount G x (acc_Path x)) (\<lambda>_. updateSingleAccount G y (acc_Path y)) s = (Ok (), s2)"
    "db_inv G L view up s2" "acc_frame view s2 = acc_frame view s"
    "acc_node view s2 = (acc_node view s)(?q \<mapsto> acc_write n r)" by blast
  have "acc_node view s2 p = Some pn" using s2(4) n(3) by simp
  from write_parent [OF s2(2) bs(2) this, of hb] obtain s3 where
    "updateParentAccountWithHash G p hb s2 = (Ok (), s3)" "db_inv G L view up s3"
    "acc_frame view s3 = acc_frame view s2"
    "acc_node view s3 = (acc_node view s2)(p \<mapsto> acc_rehash (ByteArray_String hb) pn)" by blast
  moreover have "storeAccountNode G hb x y s = updateParentAccountWithHash G p hb s2"
    using s2(1) pp by (simp add: storeAccountNode_def andThen_assoc [symmetric] andThen_ok)
  ultimately show ?thesis using s2 by metis
qed

lemma storeAccountLeaf_step_write:
  assumes inv: "db_inv G L view up s" and b: "binary (p @ [c])"
    and n: "acc_Path n = p @ [c]" "hash_ok (acc_Hash n)" "acc_node view s (p @ [c]) = Some r"
      "acc_node view s p = Some pn"
    and sb: "acc_node view s (sib (p @ [c])) = Some sb" "hash_ok (acc_Hash sb)"
  shows "\<exists>s'. storeAccountLeaf_step G L (if c = CHR ''0'' then 0 else 1) n sb s = (Ok (), s') \<and>
    db_inv G L view up s' \<and> acc_frame view s' = acc_frame view s \<and>
    acc_node view s' = (acc_node view s)(p @ [c] \<mapsto> acc_write n r,
      p \<mapsto> acc_rehash (parent_of (node_hash L) c (acc_Hash n) (acc_Hash sb)) pn)"
proof -
  note L = db_invD(2) [OF inv]
  note store = storeAccountNode_run [OF inv b n(1,3,4) sb(1)]
  show ?thesis
  proof (cases "c = CHR ''0''")
    case True
    obtain lb rb hb where h: "hash_to_bytes (acc_Hash n) = Ok lb" "hash_to_bytes (acc_Hash sb) = Ok rb"
      "GetParent L lb rb = Ok hb" "ByteArray_String hb = node_hash L (acc_Hash n) (acc_Hash sb)"
      by (rule GetParent_text [OF L n(2) sb(2)])
    then have "storeAccountLeaf_step G L 0 n sb s = storeAccountNode G hb n sb s"
      by (simp add: storeAccountLeaf_step_def acc_HashToByteArray_def)
    with store [of n sb hb] True h(4) show ?thesis by (simp add: parent_of_def)
  next
    case False
    obtain lb rb hb where h: "hash_to_bytes (acc_Hash sb) = Ok lb" "hash_to_bytes (acc_Hash n) = Ok rb"
      "GetParent L lb rb = Ok hb" "ByteArray_String hb = node_hash L (acc_Hash sb) (acc_Hash n)"
      by (rule GetParent_text [OF L sb(2) n(2)])
    then have "storeAccountLeaf_step G L 1 n sb s = storeAccountNode G hb sb n s"
      by (simp add: storeAccountLeaf_step_def acc_HashToByteArray_def)
    with store [of sb n hb] False h(4) show ?thesis by (simp add: parent_of_def)
  qed
qed

lemma storeAccountLeaf_step_run:
  assumes "db_inv G L view up s" "binary (p @ [c])"
    and "acc_Path n = p @ [c]" "hash_ok (acc_Hash n)" "acc_node view s (p @ [c]) = Some r" "pk_acc n r"
      "acc_node view s p = Some pn"
    and "acc_node view s (sib (p @ [c])) = Some sb" "hash_ok (acc_Hash sb)"
  shows "\<exists>s'. storeAccountLeaf_step G L (if c = CHR ''0'' then 0 else 1) n sb s = (Ok (), s') \<and>
    db_inv G L view up s' \<and> acc_frame view s' = acc_frame view s \<and>
    acc_node view s' = (acc_node view s)(p @ [c] \<mapsto> merge_acc n r,
      p \<mapsto> acc_rehash (parent_of (node_hash L) c (acc_Hash n) (acc_Hash sb)) pn)"
  using storeAccountLeaf_step_write [OF assms(1-5) assms(7-9)] assms(6) by (simp add: acc_write_def)

lemma storeAccountLeaf_root_run:
  assumes inv: "db_inv G L view up s" and n: "acc_node view s [] = Some r" "hash_ok (acc_Hash n)"
  shows "\<exists>s'. storeAccountLeaf_root G n s = (Ok (), s') \<and> db_inv G L view up s' \<and>
    acc_frame view s' = acc_frame view s \<and>
    acc_node view s' = (acc_node view s)([] \<mapsto> acc_rehash (acc_Hash n) r)"
proof -
  from n(2) obtain hb where hb: "acc_Hash n = ByteArray_String hb" "hash_to_bytes (acc_Hash n) = Ok hb"
    by (rule hash_okE)
  have "storeAccountLeaf_root G n s = updateParentAccountWithHash G [] hb s"
    using hb by (simp add: storeAccountLeaf_root_def acc_HashToByteArray_def updateAccountRootNodes_def
      updateParentAccountWithHash_def zero_Account_def)
  with write_parent [OF inv _ n(1), of hb] hb(1) show ?thesis by simp
qed

interpretation ac: node_store "db_inv G L view up" "acc_node view" "acc_frame view"
  acc_Path acc_Hash "node_hash L" pk_acc merge_acc acc_rehash "GetAccountLeafByPath G"
  "GetAccountSiblings_loop G" "storeAccountLeaf_step G L" "storeAccountLeaf_root G" "storeAccountLeaf_loop G L"
  for G L view up
proof unfold_locales
  show "db_inv G L view up s \<Longrightarrow> hash_ok hl \<Longrightarrow> hash_ok hr \<Longrightarrow> hash_ok (node_hash L hl hr)" for s hl hr
    by (simp add: node_hash_ok db_inv_def)
  show "acc_node view s p = Some n \<Longrightarrow> acc_Path n = p" for s p n
    by (simp add: acc_node_def row_at_path)
qed (rule acc_node_laws GetAccountLeafByPath_run storeAccountLeaf_step_run storeAccountLeaf_root_run ext;
    (assumption | simp)+)+

section \<open>Storing a leaf\<close>

definition account_tree :: "libs \<Rightarrow> ('s \<Rightarrow> tables) \<Rightarrow> nat \<Rightarrow> 's \<Rightarrow> bool" where
  "account_tree L view d s \<longleftrightarrow>
     (\<forall>p. binary p \<and> length p \<le> d \<longrightarrow> (\<exists>n. acc_node view s p = Some n \<and> hash_ok (acc_Hash n))) \<and>
     merkle_tree d (node_hash L) (acc_hashes view s)"

lemma ac_hashes: "ac.hashes view s = acc_hashes view s"
  by (simp add: ac.hashes_def acc_hashes_def)

lemma account_tree_iff:
  "account_tree L view d s \<longleftrightarrow> ac.complete view d s \<and> merkle_tree d (node_hash L) (ac.hashes view s)"
  by (simp add: account_tree_def ac.complete_def ac_hashes)

text \<open>The hash of a leaf, a function of its public key.\<close>

definition key_hash :: "libs \<Rightarrow> string \<Rightarrow> string" where
  "key_hash L pubkey = (if pubkey = '''' then ByteArray_String ZERO_VALUE_LEAF
     else (case encodePubkey L pubkey of Ok bz \<Rightarrow> ByteArray_String (l_keccak L bz) | _ \<Rightarrow> []))"

definition key_ok :: "string \<Rightarrow> bool" where
  "key_ok pubkey \<longleftrightarrow> (\<exists>bz. hex_DecodeString pubkey = Inr bz)"

lemma encodePubkey_ok:
  assumes "libs_ok L" "key_ok pubkey" obtains bz where "encodePubkey L pubkey = Ok bz"
proof -
  from assms(2) obtain kb where "hex_DecodeString pubkey = Inr kb" by (auto simp: key_ok_def)
  moreover obtain e where "l_pack_bytes L kb = Inr e" using libs_okD(6) [OF assms(1)] by blast
  ultimately show ?thesis using assms(1) by (intro that) (simp add: encodePubkey_def of_abi_def libs_okD)
qed

lemma PopulateHash_ok:
  assumes "libs_ok L" "key_ok (acc_PublicKey a)"
  shows "PopulateHash L a = Ok (a\<lparr>acc_Hash := key_hash L (acc_PublicKey a)\<rparr>)"
    and "hash_ok (key_hash L (acc_PublicKey a))"
proof -
  obtain bz where "encodePubkey L (acc_PublicKey a) = Ok bz" by (rule encodePubkey_ok [OF assms])
  then show "PopulateHash L a = Ok (a\<lparr>acc_Hash := key_hash L (acc_PublicKey a)\<rparr>)"
    and "hash_ok (key_hash L (acc_PublicKey a))"
    using assms(1) by (simp_all add: PopulateHash_def key_hash_def Keccak256_def libs_okD hash_okI)
qed

lemma populate_dropped_ok:
  "libs_ok L \<Longrightarrow> key_ok (acc_PublicKey a) \<Longrightarrow>
   populate_dropped L a = Ok (a\<lparr>acc_Hash := key_hash L (acc_PublicKey a)\<rparr>)"
  by (simp add: populate_dropped_def PopulateHash_ok)

lemma populate_dropped_bad_key:
  "hex_DecodeString (acc_PublicKey a) = Inl e \<Longrightarrow> acc_PublicKey a \<noteq> [] \<Longrightarrow>
   populate_dropped L a = Panic (PanicErr (ErrHex e))"
  by (simp add: populate_dropped_def PopulateHash_def encodePubkey_def)

lemma GetAccountSiblings_run:
  assumes "db_inv G L view up s" "account_tree L view d s" "binary p" "length p \<le> d"
  shows "GetAccountSiblings G p s = (Ok (sib_rows (acc_node view s) (rev p)), s)"
  using ac.siblings_run [OF assms(1) _ assms(3,4), of "[]"] assms(2)
  by (simp add: GetAccountSiblings_def account_tree_iff)

lemma UpdateAccount_run:
  assumes inv: "db_inv G L view up s" "account_tree L view d s"
    and a: "binary (acc_Path a)" "length (acc_Path a) = d" "0 < d" "acc_node view s (acc_Path a) = Some r"
      "pk_acc a r" "key_ok (acc_PublicKey a)"
  shows "\<exists>s'. UpdateAccount G L a s = (Ok (), s') \<and> db_inv G L view up s' \<and>
    account_tree L view d s' \<and> acc_frame view s' = acc_frame view s \<and>
    acc_node view s' (acc_Path a) = Some (merge_acc (a\<lparr>acc_Hash := key_hash L (acc_PublicKey a)\<rparr>) r) \<and>
    (\<forall>x. length x = d \<and> x \<noteq> acc_Path a \<longrightarrow> acc_node view s' x = acc_node view s x) \<and>
    acc_hashes view s' [] = Some (merkle_root (node_hash L)
      ((\<lambda>x. the (acc_hashes view s x))(acc_Path a := key_hash L (acc_PublicKey a))) d [])"
proof -
  let ?a = "a\<lparr>acc_Hash := key_hash L (acc_PublicKey a)\<rparr>"
  have L: "libs_ok L" by (rule db_invD(2) [OF inv(1)])
  have c: "ac.complete view d s" "merkle_tree d (node_hash L) (ac.hashes view s)"
    using inv(2) by (simp_all add: account_tree_iff)
  have h: "hash_ok (acc_Hash ?a)" using PopulateHash_ok(2) [OF L a(6)] by simp
  have w: "pk_acc ?a r" using a(5) by (simp add: pk_acc_def)
  obtain s' where
    run: "storeAccountLeaf_loop G L (acc_Path a) 0 ?a (sib_rows (acc_node view s) (rev (acc_Path a))) s = (Ok (), s')"
    and s': "db_inv G L view up s'" "acc_frame view s' = acc_frame view s" "ac.complete view d s'"
      "merkle_tree d (node_hash L) (ac.hashes view s')" "acc_node view s' (acc_Path a) = Some (merge_acc ?a r)"
      "\<forall>x. length x = d \<and> x \<noteq> acc_Path a \<longrightarrow> acc_node view s' x = acc_node view s x"
      "ac.hashes view s' [] = Some (merkle_root (node_hash L)
         ((\<lambda>x. the (ac.hashes view s x))(acc_Path a := acc_Hash ?a)) d [])"
    using ac.update_leaf [OF inv(1) c a(1,2,3) _ h a(4) w] by auto
  have "UpdateAccount G L a s = (Ok (), s')"
    using run GetAccountSiblings_run [OF inv a(1)] a(2) populate_dropped_ok [OF L a(6)]
    by (simp add: UpdateAccount_def andThen_ok storeAccountLeaf_def)
  then show ?thesis using s' by (simp add: account_tree_iff ac_hashes)
qed

text \<open>
  With an ID that is neither blank nor the row's, the key is not stored, but the path is
  rehashed as if it were.
\<close>

lemma UpdateAccount_foreign:
  assumes inv: "db_inv G L view up s" "account_tree L view d s"
    and a: "binary (acc_Path a)" "length (acc_Path a) = d" "0 < d" "acc_node view s (acc_Path a) = Some r"
      "\<not> pk_acc a r" "key_ok (acc_PublicKey a)"
  shows "\<exists>s'. UpdateAccount G L a s = (Ok (), s') \<and> db_inv G L view up s' \<and>
    acc_frame view s' = acc_frame view s \<and>
    (\<forall>x. length x = d \<longrightarrow> acc_node view s' x = acc_node view s x) \<and>
    acc_hashes view s' [] = Some (merkle_root (node_hash L)
      ((\<lambda>x. the (acc_hashes view s x))(acc_Path a := key_hash L (acc_PublicKey a))) d [])"
proof -
  let ?a = "a\<lparr>acc_Hash := key_hash L (acc_PublicKey a)\<rparr>"
  have L: "libs_ok L" by (rule db_invD(2) [OF inv(1)])
  have c: "ac.complete view d s" "merkle_tree d (node_hash L) (ac.hashes view s)"
    using inv(2) by (simp_all add: account_tree_iff)
  have h: "hash_ok (acc_Hash ?a)" using PopulateHash_ok(2) [OF L a(6)] by simp
  obtain p b where p: "acc_Path a = p @ [b]" using a(2,3) by (metis length_0_conv less_irrefl rev_exhaust)
  have w: "acc_write ?a r = r" using a(5) by (simp add: acc_write_def pk_acc_def)
  obtain s' where
    run: "storeAccountLeaf_loop G L (acc_Path a) 0 ?a (sib_rows (acc_node view s) (rev (acc_Path a))) s = (Ok (), s')"
    and s': "db_inv G L view up s'" "acc_frame view s' = acc_frame view s"
      "\<forall>x. length x = d \<longrightarrow> acc_node view s' x = acc_node view s x"
      "ac.hashes view s' [] = Some (merkle_root (node_hash L)
         ((\<lambda>x. the (ac.hashes view s x))(acc_Path a := acc_Hash ?a)) d [])"
  proof -
    have "\<exists>s1. storeAccountLeaf_step G L (if b = CHR ''0'' then 0 else 1) ?a sb s = (Ok (), s1) \<and>
        db_inv G L view up s1 \<and> acc_frame view s1 = acc_frame view s \<and>
        acc_node view s1 = (acc_node view s)(p \<mapsto> acc_rehash (parent_of (node_hash L) b (acc_Hash ?a) (acc_Hash sb)) pn)"
      if "acc_node view s p = Some pn" "acc_node view s (sib (p @ [b])) = Some sb" "hash_ok (acc_Hash sb)" for sb pn
    proof -
      have "(acc_node view s)(p @ [b] \<mapsto> r) = acc_node view s" using a(4) p by (simp add: fun_upd_idem)
      then show ?thesis
        using storeAccountLeaf_step_write [OF inv(1) _ _ h _ that, of r] a(1,4) p w by simp
    qed
    from ac.store_unwritten [OF inv(1) c _ _ _ h _ this, of r] a p that show ?thesis by auto
  qed
  have "UpdateAccount G L a s = (Ok (), s')"
    using run GetAccountSiblings_run [OF inv a(1)] a(2) populate_dropped_ok [OF L a(6)]
    by (simp add: UpdateAccount_def andThen_ok storeAccountLeaf_def)
  then show ?thesis using s' by (simp add: ac_hashes)
qed

section \<open>Building the tree\<close>

lemma bulk_accounts_run:
  assumes "db_inv G L view up s" "\<forall>x \<in> set xs. acc_ID x = 0"
  shows "\<exists>s' ys. bulk_accounts G m xs s = (Ok (), s') \<and> db_inv G L view up s' \<and>
    list_all2 stamp_acc xs ys \<and> view s' = accounts_update (\<lambda>rs. rs @ ys) (view s)"
proof -
  have "acc_bulk_ok G view up" "up s" using db_invD [OF assms(1)] gorm_accounts_bulk by auto
  from acc_bulk_run [OF this assms(2), of CHUNK_SIZE] show ?thesis
    using assms(1) by (auto simp: bulk_accounts_def onError_ok db_inv_def)
qed

lemma GetAccountByDepth_run:
  "db_inv G L view up s \<Longrightarrow>
   GetAccountByDepth G k s = (Ok (filter (\<lambda>r. acc_Level r = k) (accounts (view s))), s)"
  using scan_run [OF gorm_accounts_scan, of G view up s] by (simp add: GetAccountByDepth_def db_inv_def)

lemma InitAccountTree_pairs_Cons:
  assumes "db_inv G L view up s" "binary (acc_Path a)" "hash_ok (acc_Hash a)" "hash_ok (acc_Hash b)"
  shows "InitAccountTree_pairs L (a # b # xs) acc = InitAccountTree_pairs L xs
    (acc @ [newAccountNode (butlast (acc_Path a)) (node_hash L (acc_Hash a) (acc_Hash b))])"
  by (rule GetParent_text [OF db_invD(2) [OF assms(1)] assms(3,4)]) (simp add: assms(2))

lemma stamp_acc_keeps:
  "stamp_acc x y \<Longrightarrow> acc_Path y = acc_Path x \<and> acc_Level y = acc_Level x \<and> acc_Hash y = acc_Hash x"
  by (auto simp: stamp_acc_def split: if_splits)

interpretation ac_init: tree_init "db_inv G L view up" "\<lambda>s. accounts (view s)"
  "\<lambda>s. (view s)\<lparr>accounts := []\<rparr>" acc_Path acc_Level acc_Hash "\<lambda>a. acc_ID a = 0" stamp_acc
  "node_hash L" "l_pad_left L" newAccountNode acc_UpdatePath "GetAccountByDepth G" "InitAccountTree_pairs L"
  "bulk_accounts G" "InitAccountTree_leaves L" "InitAccountTree_levels G L" "''Unable to insert Account leaves''"
  for G L view up
proof unfold_locales
  show "db_inv G L view up s \<Longrightarrow> \<forall>x \<in> set xs. acc_ID x = 0 \<Longrightarrow>
      \<exists>s' ys. bulk_accounts G m xs s = (Ok (), s') \<and> db_inv G L view up s' \<and>
        (view s')\<lparr>accounts := []\<rparr> = (view s)\<lparr>accounts := []\<rparr> \<and> list_all2 stamp_acc xs ys \<and>
        accounts (view s') = accounts (view s) @ ys" for s xs m
    using bulk_accounts_run [of G L view up s xs m] by fastforce
  show "db_inv G L view up s \<Longrightarrow> binary (acc_Path a) \<Longrightarrow> hash_ok (acc_Hash a) \<Longrightarrow> hash_ok (acc_Hash b) \<Longrightarrow>
      InitAccountTree_pairs L (a # b # xs) acc = InitAccountTree_pairs L xs
        (acc @ [newAccountNode (butlast (acc_Path a)) (node_hash L (acc_Hash a) (acc_Hash b))])" for s a b xs acc
    by (rule InitAccountTree_pairs_Cons)
  show "db_inv G L view up s \<Longrightarrow> pad_left_spec (l_pad_left L)" for s
    by (simp add: db_inv_def libs_okD)
  show "db_inv G L view up s \<Longrightarrow> hash_ok hl \<Longrightarrow> hash_ok hr \<Longrightarrow> hash_ok (node_hash L hl hr)" for s hl hr
    by (simp add: db_inv_def node_hash_ok)
qed (simp_all add: GetAccountByDepth_run newAccountNode_def acc_UpdatePath_def stamp_acc_keeps Let_def
    del: InitAccountTree_pairs.simps(3))

lemma InsertCoordinatorPubkeyAccounts_run:
  assumes "db_inv G L view up s" "accounts (view s) = []" "key_ok (acc_PublicKey g)"
  shows "\<exists>s' c c'. InsertCoordinatorPubkeyAccounts G L g d s = (Ok c, s') \<and> db_inv G L view up s' \<and>
    view s' = (view s)\<lparr>accounts := [c']\<rparr> \<and> stamp_acc c c' \<and> acc_Path c = replicate (unat d) (CHR ''0'') \<and>
    acc_Level c = d \<and> acc_Hash c = key_hash L (acc_PublicKey g) \<and> acc_ID c = acc_ID g \<and>
    t_create (g_accounts G) c s = (None, s')"
proof -
  note L = db_invD(2) [OF assms(1)]
  let ?c = "(acc_UpdatePath g (GenCoordinatorPath d))\<lparr>acc_Hash := key_hash L (acc_PublicKey g), acc_Type := TYPE_TERMINAL\<rparr>"
  have k: "populate_dropped L (acc_UpdatePath g (GenCoordinatorPath d)) =
      Ok ((acc_UpdatePath g (GenCoordinatorPath d))\<lparr>acc_Hash := key_hash L (acc_PublicKey g)\<rparr>)"
    using populate_dropped_ok [OF L, of "acc_UpdatePath g (GenCoordinatorPath d)"] assms(3)
    by (simp add: acc_UpdatePath_def)
  have "acc_create_ok G view up" "up s" using db_invD [OF assms(1)] gorm_accounts_create by auto
  from acc_create_run [OF this, of ?c] assms(2) obtain s' c' where
    "db_write (t_create (g_accounts G) ?c) s = (Ok (), s')" "up s'" "stamp_acc ?c c'"
    "view s' = accounts_update (\<lambda>rs. rs @ [c']) (view s)" by auto
  moreover from this(1) have "t_create (g_accounts G) ?c s = (None, s')"
    by (auto simp: db_write_def split: prod.splits option.splits)
  ultimately show ?thesis using assms k
    by (intro exI [of _ s'] exI [of _ ?c] exI [of _ c']) (auto simp: InsertCoordinatorPubkeyAccounts_def
      andThen_ok Let_def db_inv_def acc_UpdatePath_def GenCoordinatorPath_zeros)
qed

lemma InitAccountTree_run:
  assumes inv: "db_inv G L view up s" "accounts (view s) = []"
    and g: "length gs = 2 ^ unat d" "unat d < 63" "key_ok (acc_PublicKey (hd gs))"
      "\<forall>g \<in> set (tl gs). acc_ID g = 0 \<and> hash_ok (acc_Hash g)"
  shows "\<exists>s'. InitAccountTree G L d gs s = (Ok (), s') \<and> db_inv G L view up s' \<and>
    (view s')\<lparr>accounts := []\<rparr> = (view s)\<lparr>accounts := []\<rparr> \<and> account_tree L view (unat d) s' \<and>
    (\<forall>i < length gs. acc_hashes view s' (level_paths (unat d) ! i) =
       Some (if i = 0 then key_hash L (acc_PublicKey (hd gs)) else acc_Hash (gs ! i)))"
proof -
  obtain g0 rest where gs: "gs = g0 # rest" using g(1) by (cases gs) auto
  note L = db_invD(2) [OF inv(1)]
  obtain s1 c c' where s1: "InsertCoordinatorPubkeyAccounts G L g0 d s = (Ok c, s1)" "db_inv G L view up s1"
    "view s1 = (view s)\<lparr>accounts := [c']\<rparr>" "stamp_acc c c'" "acc_Path c = replicate (unat d) (CHR ''0'')"
    "acc_Level c = d" "acc_Hash c = key_hash L (acc_PublicKey g0)"
    using InsertCoordinatorPubkeyAccounts_run [OF inv] g(3) gs by fastforce
  have hc: "hash_ok (key_hash L (acc_PublicKey g0))" using PopulateHash_ok(2) [OF L] g(3) gs by simp
  have keep: "acc_Path c' = acc_Path c" "acc_Level c' = d" "acc_Hash c' = key_hash L (acc_PublicKey g0)"
    using stamp_acc_keeps [OF s1(4)] s1(6,7) by simp_all
  have "\<exists>recs s2 s3. InitAccountTree_leaves L (acc_Path c') rest [] = Ok recs \<and>
      bulk_accounts G ''Unable to insert leaves'' recs s1 = (Ok (), s2) \<and>
      InitAccountTree_levels G L (unat d) s2 = (Ok (), s3) \<and> db_inv G L view up s3 \<and>
      (view s3)\<lparr>accounts := []\<rparr> = (view s1)\<lparr>accounts := []\<rparr> \<and>
      ac_init.built L 0 (unat d) (accounts (view s3)) \<and>
      row_at acc_Path (accounts (view s3)) (level_paths (unat d) ! 0) = Some c' \<and>
      (\<forall>j < length rest. \<exists>r. row_at acc_Path (accounts (view s3)) (level_paths (unat d) ! Suc j) = Some r \<and>
         stamp_acc (acc_UpdatePath (rest ! j) (level_paths (unat d) ! Suc j)) r) \<and>
      (\<exists>ys zs. accounts (view s3) = c' # ys @ zs \<and> map acc_Path (c' # ys) = level_paths (unat d) \<and>
         list_all2 stamp_acc (map2 acc_UpdatePath rest (drop 1 (level_paths (unat d)))) ys \<and> ac_init.inner zs)"
    by (rule ac_init.init_run) (use s1 keep g gs hc in simp_all)
  then obtain recs s2 s3 where r: "InitAccountTree_leaves L (acc_Path c) rest [] = Ok recs"
      "bulk_accounts G ''Unable to insert leaves'' recs s1 = (Ok (), s2)"
      "InitAccountTree_levels G L (unat d) s2 = (Ok (), s3)" "db_inv G L view up s3"
      "(view s3)\<lparr>accounts := []\<rparr> = (view s1)\<lparr>accounts := []\<rparr>"
      "ac_init.built L 0 (unat d) (accounts (view s3))"
    and first: "acc_node view s3 (level_paths (unat d) ! 0) = Some c'"
    and rest: "\<forall>j < length rest. \<exists>r. acc_node view s3 (level_paths (unat d) ! Suc j) = Some r \<and>
         stamp_acc (acc_UpdatePath (rest ! j) (level_paths (unat d) ! Suc j)) r"
    unfolding acc_node_def keep(1) by blast
  have "account_tree L view (unat d) s3"
    using ac_init.built_tree [OF r(6)]
    by (simp add: account_tree_def acc_hashes_def acc_node_def ac_init.row_hashes_def)
  moreover have "InitAccountTree G L d gs s = (Ok (), s3)"
    using r(1-3) s1(1) g(1,2) gs by (simp add: InitAccountTree_def exp2_int_def andThen_ok)
  moreover have "acc_hashes view s3 (level_paths (unat d) ! i) =
       Some (if i = 0 then key_hash L (acc_PublicKey (hd gs)) else acc_Hash (gs ! i))" if "i < length gs" for i
  proof (cases i)
    case 0
    with first keep(3) gs show ?thesis by (simp add: acc_hashes_def)
  next
    case (Suc j)
    with that gs rest obtain r where "acc_node view s3 (level_paths (unat d) ! Suc j) = Some r"
      "stamp_acc (acc_UpdatePath (rest ! j) (level_paths (unat d) ! Suc j)) r" by auto
    with stamp_acc_keeps [OF this(2)] Suc gs show ?thesis by (simp add: acc_hashes_def acc_UpdatePath_def)
  qed
  ultimately show ?thesis using r(4,5) s1(3) by auto
qed

text \<open>
  The auto-increment key of \<open>accounts\<close>: the first row that is inserted with a blank key gets the
  key 1 (no statement of the program deletes from this table, so that one without rows was
  never written), and a bulk insert with a row whose key is taken is refused, with whatever
  of the rest in the table.
\<close>

definition auto_increment_ok :: "'s gorm \<Rightarrow> ('s \<Rightarrow> tables) \<Rightarrow> ('s \<Rightarrow> bool) \<Rightarrow> bool" where
  "auto_increment_ok G view up \<longleftrightarrow>
     (\<forall>s s' r. up s \<and> accounts (view s) = [] \<and> acc_ID r = 0 \<and> t_create (g_accounts G) r s = (None, s') \<longrightarrow>
        map acc_ID (accounts (view s')) = [1]) \<and>
     (\<forall>s xs n. up s \<and> (\<exists>x \<in> set xs. acc_ID x \<noteq> 0 \<and> acc_ID x \<in> acc_ID ` set (accounts (view s))) \<longrightarrow>
        (\<exists>e s'. t_bulk_insert (g_accounts G) xs n s = (Some e, s') \<and> up s' \<and>
           (view s')\<lparr>accounts := []\<rparr> = (view s)\<lparr>accounts := []\<rparr>))"

lemma InitAccountTree_taken:
  assumes inv: "db_inv G L view up s" "accounts (view s) = []" "auto_increment_ok G view up"
    and g: "length gs = 2 ^ unat d" "unat d < 63" "key_ok (acc_PublicKey (hd gs))" "acc_ID (hd gs) = 0" "1 \<in> acc_ID ` set (tl gs)"
  shows "\<exists>s'. InitAccountTree G L d gs s = (Err (ErrMsg ''Unable to insert leaves''), s') \<and> up s' \<and>
    (view s')\<lparr>accounts := []\<rparr> = (view s)\<lparr>accounts := []\<rparr>"
proof -
  obtain g0 rest where gs: "gs = g0 # rest" using g(1) by (cases gs) auto
  obtain s1 c c' where s1: "InsertCoordinatorPubkeyAccounts G L g0 d s = (Ok c, s1)" "db_inv G L view up s1"
    "view s1 = (view s)\<lparr>accounts := [c']\<rparr>" "acc_Path c = replicate (unat d) (CHR ''0'')"
    "acc_ID c = acc_ID g0" "t_create (g_accounts G) c s = (None, s1)"
    using InsertCoordinatorPubkeyAccounts_run [OF inv(1,2)] g(3) gs by fastforce
  have "map acc_ID (accounts (view s1)) = [1]"
    using inv(2,3) db_invD(3) [OF inv(1)] s1(5,6) g(4) gs unfolding auto_increment_ok_def by simp blast
  then have c': "acc_ID c' = 1" by (simp add: s1(3))
  let ?recs = "map2 acc_UpdatePath rest (take (length rest) (drop (Suc 0) (level_paths (unat d))))"
  have n: "0 + length rest < 2 ^ unat d" "unat d \<le> 63" using g(1,2) gs by simp_all
  have "level_paths (unat d) ! 0 = acc_Path c" using s1(4) by (simp add: level_paths_first)
  then have recs: "InitAccountTree_leaves L (acc_Path c) rest [] = Ok ?recs"
    using ac_init.leaves_run [OF s1(2) n(2,1), of "[]"] by simp
  have "map acc_ID ?recs = map acc_ID rest"
    using n(1) by (intro nth_equalityI) (simp_all add: acc_UpdatePath_def)
  then have "acc_ID ` set ?recs = acc_ID ` set rest" by (metis list.set_map)
  with g(5) gs have "1 \<in> acc_ID ` set ?recs" by simp
  then obtain x where "x \<in> set ?recs" "acc_ID x = 1" by (metis imageE)
  then have "x \<in> set ?recs \<and> acc_ID x \<noteq> 0 \<and> acc_ID x \<in> acc_ID ` set (accounts (view s1))" using c' by (simp add: s1(3))
  then have "\<exists>x \<in> set ?recs. acc_ID x \<noteq> 0 \<and> acc_ID x \<in> acc_ID ` set (accounts (view s1))" by blast
  with inv(3) db_invD(3) [OF s1(2)] obtain e s2 where s2: "t_bulk_insert (g_accounts G) ?recs CHUNK_SIZE s1 = (Some e, s2)" "up s2"
    "(view s2)\<lparr>accounts := []\<rparr> = (view s1)\<lparr>accounts := []\<rparr>"
    unfolding auto_increment_ok_def by blast
  then have "bulk_accounts G ''Unable to insert leaves'' ?recs s1 = (Err (ErrMsg ''Unable to insert leaves''), s2)"
    by (simp add: bulk_accounts_def onError_def db_write_def fail_def)
  then have "InitAccountTree G L d gs s = (Err (ErrMsg ''Unable to insert leaves''), s2)"
    using s1(1) recs g(1,2) gs by (simp add: InitAccountTree_def exp2_int_def andThen_ok andThen_err)
  then show ?thesis using s2(2,3) s1(3) by (intro exI [of _ s2]) simp
qed

text \<open>A handle in memory whose table \<open>accounts\<close> numbers its rows and has a unique key.\<close>

fun number_rows :: "u64 \<Rightarrow> Account list \<Rightarrow> Account list" where
  "number_rows k [] = []"
| "number_rows k (a # as) =
     (if acc_ID a = 0 then a\<lparr>acc_ID := k\<rparr> # number_rows (k + 1) as else a # number_rows k as)"

definition next_key :: "tables \<Rightarrow> u64" where
  "next_key d = foldr max (map acc_ID (accounts d)) 0 + 1"

definition taken_key :: "Account list \<Rightarrow> tables \<Rightarrow> bool" where
  "taken_key xs d \<longleftrightarrow> list_ex (\<lambda>x. acc_ID x \<noteq> 0 \<and> acc_ID x \<in> acc_ID ` set (accounts d)) xs"

definition key_insert :: "Account list \<Rightarrow> tables \<Rightarrow> go_error option \<times> tables" where
  "key_insert xs d = (if taken_key xs d then (Some (DriverError ''Duplicate entry''), d)
     else (None, accounts_update (\<lambda>rs. rs @ number_rows (next_key d) xs) d))"

definition key_gorm :: "tables gorm" where
  "key_gorm = mem_gorm\<lparr>g_accounts := (g_accounts mem_gorm)\<lparr>
     t_create := \<lambda>r. key_insert [r], t_bulk_insert := \<lambda>xs n. key_insert xs\<rparr>\<rparr>"

lemma number_rows_stamps: "list_all2 stamp_acc xs (number_rows k xs)"
  by (induction xs arbitrary: k) (auto simp: stamp_acc_def)

lemma key_gorm_ok: "gorm_ok key_gorm (\<lambda>d. d) (\<lambda>_. True)"
proof -
  have t: "find_ok (g_accounts key_gorm) accounts (\<lambda>d. d) (\<lambda>_. True)"
    "scan_ok (g_accounts key_gorm) accounts (\<lambda>d. d) (\<lambda>_. True)"
    "updates_ok (g_accounts key_gorm) accounts_update (\<lambda>d. d) (\<lambda>_. True) pk_acc merge_acc"
    using mem_gorm_ok
    by (simp_all add: gorm_ok_def accounts_ok_def key_gorm_def find_ok_def scan_ok_def updates_ok_def)
  have st: "acc_ID r = 0 \<Longrightarrow> stamp_acc r (r\<lparr>acc_ID := k\<rparr>)" "acc_ID r \<noteq> 0 \<Longrightarrow> stamp_acc r r" for r k
    by (auto simp: stamp_acc_def)
  have c: "acc_create_ok key_gorm (\<lambda>d. d) (\<lambda>_. True)"
    unfolding acc_create_ok_def
    by (auto simp: key_gorm_def key_insert_def taken_key_def) (use st in blast)+
  have b: "acc_bulk_ok key_gorm (\<lambda>d. d) (\<lambda>_. True)"
    unfolding acc_bulk_ok_def
    by (auto simp: key_gorm_def key_insert_def taken_key_def list_ex_iff intro: number_rows_stamps)
  have "accounts_ok key_gorm (\<lambda>d. d) (\<lambda>_. True)" using t c b by (simp add: accounts_ok_def)
  with mem_gorm_ok show ?thesis
    by (simp add: gorm_ok_def states_ok_def txes_ok_def batches_ok_def params_ok_def sync_ok_def tokens_ok_def key_gorm_def)
qed

lemma key_gorm_increments: "auto_increment_ok key_gorm (\<lambda>d. d) (\<lambda>_. True)"
  by (auto simp: auto_increment_ok_def key_gorm_def key_insert_def taken_key_def next_key_def list_ex_iff)

section \<open>Properties\<close>

text \<open>An account tree for the witnesses, on top of the balance tree of \<open>ex_db\<close>.\<close>

definition ex_accounts :: "Account list" where
  "ex_accounts = (case NewAccount ref_libs 0 ''a1'' '''' of Ok a \<Rightarrow> [a] | _ \<Rightarrow> []) @
     replicate 3 (NewEmptyAccount\<lparr>acc_Hash := ByteArray_String ZERO_VALUE_LEAF\<rparr>)"

definition ex_db2 :: tables where
  "ex_db2 = snd (InitAccountTree mem_gorm ref_libs 2 ex_accounts ex_db)"

lemma hex_a1: "key_ok ''a1''" "key_ok ''b2c3''"
  by (simp_all add: key_ok_def hex_value_def)

lemma ex_accounts_ok:
  "length ex_accounts = 2 ^ unat (2 :: u64)" "acc_PublicKey (hd ex_accounts) = ''a1''"
  "\<forall>g \<in> set (tl ex_accounts). acc_ID g = 0 \<and> hash_ok (acc_Hash g)"
proof -
  have "\<exists>h. NewAccount ref_libs 0 ''a1'' '''' = Ok (zero_Account\<lparr>acc_ID := 0, acc_PublicKey := ''a1'',
      acc_Path := '''', acc_Type := TYPE_TERMINAL, acc_Hash := h\<rparr>)"
    using PopulateHash_ok(1) [OF ref_libs_ok, of "zero_Account\<lparr>acc_ID := 0, acc_PublicKey := ''a1'',
      acc_Path := '''', acc_Type := TYPE_TERMINAL\<rparr>"] hex_a1
    by (intro exI [of _ "key_hash ref_libs ''a1''"]) (simp add: NewAccount_def)
  then show "length ex_accounts = 2 ^ unat (2 :: u64)" "acc_PublicKey (hd ex_accounts) = ''a1''"
    "\<forall>g \<in> set (tl ex_accounts). acc_ID g = 0 \<and> hash_ok (acc_Hash g)"
    by (auto simp: ex_accounts_def NewEmptyAccount_def zero_Account_def hash_okI)
qed

lemma ex_db2_ok:
  "InitAccountTree mem_gorm ref_libs 2 ex_accounts ex_db = (Ok (), ex_db2)"
  "account_tree ref_libs (\<lambda>d. d) 2 ex_db2"
  "ex_db2\<lparr>accounts := []\<rparr> = ex_db\<lparr>accounts := []\<rparr>"
proof -
  have k: "key_ok (acc_PublicKey (hd ex_accounts))" using ex_accounts_ok(2) hex_a1 by simp
  obtain s' where s': "InitAccountTree mem_gorm ref_libs 2 ex_accounts ex_db = (Ok (), s')"
    "account_tree ref_libs (\<lambda>d. d) 2 s'" "s'\<lparr>accounts := []\<rparr> = ex_db\<lparr>accounts := []\<rparr>"
    using InitAccountTree_run [OF ex_start ex_db_ok(5) ex_accounts_ok(1) _ k ex_accounts_ok(3)] by auto
  then have "s' = ex_db2" by (simp add: ex_db2_def)
  with s' show "InitAccountTree mem_gorm ref_libs 2 ex_accounts ex_db = (Ok (), ex_db2)"
    "account_tree ref_libs (\<lambda>d. d) 2 ex_db2" "ex_db2\<lparr>accounts := []\<rparr> = ex_db\<lparr>accounts := []\<rparr>" by simp_all
qed

text \<open>
  C10. \<open>UpdateAccount\<close> on a leaf of the account tree whose key is hex and whose ID does
  not contradict the row's: it succeeds, the row takes the non-blank columns and the hash
  of the key, the other leaves and tables stay, the tree stays a Merkle tree and its root
  row holds the root of the changed leaves.
\<close>

theorem UpdateAccount_correct:
  assumes "gorm_ok G view up" "libs_ok L" "up s" "account_tree L view d s"
    and "binary (acc_Path a)" "length (acc_Path a) = d" "0 < d" "acc_node view s (acc_Path a) = Some r"
    and "acc_ID a = 0 \<or> acc_ID a = acc_ID r" "key_ok (acc_PublicKey a)"
  shows "\<exists>s' root. UpdateAccount G L a s = (Ok (), s') \<and> up s' \<and> account_tree L view d s' \<and>
    acc_frame view s' = acc_frame view s \<and>
    acc_node view s' (acc_Path a) = Some (merge_acc (a\<lparr>acc_Hash := key_hash L (acc_PublicKey a)\<rparr>) r) \<and>
    (\<forall>x. length x = d \<and> x \<noteq> acc_Path a \<longrightarrow> acc_node view s' x = acc_node view s x) \<and>
    GetAccountLeafByPath G [] s' = (Ok root, s') \<and>
    acc_Hash root = merkle_root (node_hash L)
      ((\<lambda>x. the (acc_hashes view s x))(acc_Path a := key_hash L (acc_PublicKey a))) d []"
proof -
  have inv: "db_inv G L view up s" using assms by (simp add: db_inv_def)
  have pk: "pk_acc a r" using assms(9) by (simp add: pk_acc_def)
  obtain s' where s': "UpdateAccount G L a s = (Ok (), s')" "db_inv G L view up s'"
    "account_tree L view d s'" "acc_frame view s' = acc_frame view s"
    "acc_node view s' (acc_Path a) = Some (merge_acc (a\<lparr>acc_Hash := key_hash L (acc_PublicKey a)\<rparr>) r)"
    "\<forall>x. length x = d \<and> x \<noteq> acc_Path a \<longrightarrow> acc_node view s' x = acc_node view s x"
    "acc_hashes view s' [] = Some (merkle_root (node_hash L)
      ((\<lambda>x. the (acc_hashes view s x))(acc_Path a := key_hash L (acc_PublicKey a))) d [])"
    using UpdateAccount_run [OF inv assms(4-8) pk assms(10)] by blast
  from s'(7) obtain root where "acc_node view s' [] = Some root" "acc_Hash root = merkle_root (node_hash L)
      ((\<lambda>x. the (acc_hashes view s x))(acc_Path a := key_hash L (acc_PublicKey a))) d []"
    by (auto simp: acc_hashes_def)
  with GetAccountLeafByPath_run [OF s'(2)] s' show ?thesis by (auto simp: db_inv_def)
qed

definition ex_key_change :: Account where
  "ex_key_change = acc_UpdatePath (zero_Account\<lparr>acc_PublicKey := ''b2c3''\<rparr>) ''01''"

theorem UpdateAccount_correct_witness:
  "\<exists>s' root. UpdateAccount mem_gorm ref_libs ex_key_change ex_db2 = (Ok (), s') \<and>
     account_tree ref_libs (\<lambda>d. d) 2 s' \<and> GetAccountLeafByPath mem_gorm [] s' = (Ok root, s') \<and>
     acc_Hash root = merkle_root (node_hash ref_libs)
       ((\<lambda>x. the (acc_hashes (\<lambda>d. d) ex_db2 x))(''01'' := key_hash ref_libs ''b2c3'')) 2 []"
proof -
  have "binary ''01''" "length ''01'' \<le> 2" by simp_all
  then obtain r where "acc_node (\<lambda>d. d) ex_db2 ''01'' = Some r"
    using ex_db2_ok(2) unfolding account_tree_def by blast
  then show ?thesis
    using UpdateAccount_correct [OF mem_gorm_ok ref_libs_ok TrueI ex_db2_ok(2), of ex_key_change r] hex_a1
    by (auto simp: ex_key_change_def acc_UpdatePath_def zero_Account_def)
qed

text \<open>
  C39. \<open>InitAccountTree\<close> on an empty table, given \<open>2 ^ depth\<close> accounts with blank IDs and
  hashes set, builds the account tree over them from left to right; the coordinator's
  account comes first and has its hash computed from its key, and the row of the root, at
  the empty path, holds the Merkle root.  The other tables stay as they are.
\<close>

theorem InitAccountTree_correct:
  assumes "gorm_ok G view up" "libs_ok L" "up s" "accounts (view s) = []"
    and "length gs = 2 ^ unat depth" "unat depth < 63" "key_ok (acc_PublicKey (hd gs))"
    and "\<forall>g \<in> set (tl gs). acc_ID g = 0 \<and> hash_ok (acc_Hash g)"
  shows "\<exists>s' root. InitAccountTree G L depth gs s = (Ok (), s') \<and> up s' \<and>
    (view s')\<lparr>accounts := []\<rparr> = (view s)\<lparr>accounts := []\<rparr> \<and> account_tree L view (unat depth) s' \<and>
    (\<forall>i < length gs. acc_hashes view s' (level_paths (unat depth) ! i) =
       Some (if i = 0 then key_hash L (acc_PublicKey (hd gs)) else acc_Hash (gs ! i))) \<and>
    GetAccountLeafByPath G [] s' = (Ok root, s') \<and>
    acc_Hash root = merkle_root (node_hash L) (\<lambda>x. the (acc_hashes view s' x)) (unat depth) []"
proof -
  have inv: "db_inv G L view up s" using assms by (simp add: db_inv_def)
  from InitAccountTree_run [OF inv assms(4-8)] obtain s' where
    s': "InitAccountTree G L depth gs s = (Ok (), s')" "db_inv G L view up s'"
      "(view s')\<lparr>accounts := []\<rparr> = (view s)\<lparr>accounts := []\<rparr>" "account_tree L view (unat depth) s'"
      "\<forall>i < length gs. acc_hashes view s' (level_paths (unat depth) ! i) =
         Some (if i = 0 then key_hash L (acc_PublicKey (hd gs)) else acc_Hash (gs ! i))" by blast
  have "acc_hashes view s' [] =
      Some (merkle_root (node_hash L) (\<lambda>x. the (acc_hashes view s' x)) (unat depth) [])"
    by (rule merkle_tree_root) (use s'(4) in \<open>simp_all add: account_tree_def\<close>)
  then obtain root where "acc_node view s' [] = Some root"
    "acc_Hash root = merkle_root (node_hash L) (\<lambda>x. the (acc_hashes view s' x)) (unat depth) []"
    by (auto simp: acc_hashes_def)
  with GetAccountLeafByPath_run [OF s'(2)] s' show ?thesis by (auto simp: db_inv_def)
qed

theorem InitAccountTree_correct_witness:
  "\<exists>s'. InitAccountTree mem_gorm ref_libs 2 ex_accounts ex_db = (Ok (), s') \<and>
     account_tree ref_libs (\<lambda>d. d) 2 s'"
  using InitAccountTree_correct [OF mem_gorm_ok ref_libs_ok, of ex_db ex_accounts 2]
    ex_accounts_ok hex_a1 ex_db_ok(5) by auto

end
