(* ===== verification/Transactions.thy ===== *)
theory Transactions
  imports State_Tree Account_Tree Wallets Db_Connection
begin

text \<open>
  \<open>core/tx.go\<close>, with the proofs of \<open>core/merkleProof.go\<close> that it fetches: transactions,
  the mempool, and how a transaction is applied to the balance tree.  \<open>Apply\<close> works on two
  handles, the connection's transaction \<open>c_tx C\<close> and the global \<open>DBInstance\<close>, which is \<open>G\<close>.
  RLP is a library: \<open>rlp\<close> gives the bytes that \<open>rlp.Encode\<close> writes for a transaction.
\<close>

section \<open>\<open>core/merkleProof.go\<close>\<close>

record StateMerkleProof =
  smp_State :: UserState
  smp_Siblings :: "UserState list"

record AccountMerkleProof =
  amp_Path :: string
  amp_PublicKey :: string
  amp_Siblings :: "Account list"

definition NewStateMerkleProof :: "UserState \<Rightarrow> UserState list \<Rightarrow> StateMerkleProof" where
  "NewStateMerkleProof account siblings = \<lparr>smp_State = account, smp_Siblings = siblings\<rparr>"

definition NewAccountMerkleProof :: "string \<Rightarrow> string \<Rightarrow> Account list \<Rightarrow> AccountMerkleProof" where
  "NewAccountMerkleProof path publicKey siblings =
    \<lparr>amp_Path = path, amp_PublicKey = publicKey, amp_Siblings = siblings\<rparr>"

definition zero_StateMerkleProof :: StateMerkleProof where
  "zero_StateMerkleProof = \<lparr>smp_State = zero_UserState, smp_Siblings = []\<rparr>"

definition zero_AccountMerkleProof :: AccountMerkleProof where
  "zero_AccountMerkleProof = \<lparr>amp_Path = [], amp_PublicKey = [], amp_Siblings = []\<rparr>"

section \<open>Making and signing transactions\<close>

definition rlpHash :: "libs \<Rightarrow> (Tx \<Rightarrow> bytes) \<Rightarrow> Tx \<Rightarrow> bytes" where
  "rlpHash L rlp x = l_keccak L (rlp x)"

definition AssignHash :: "libs \<Rightarrow> (Tx \<Rightarrow> bytes) \<Rightarrow> Tx \<Rightarrow> Tx" where
  "AssignHash L rlp t =
    (if tx_TxHash t \<noteq> '''' then t
     else (let hash = rlpHash L rlp t in t\<lparr>tx_TxHash := l_hash_text L hash\<rparr>))"

definition NewTx :: "u64 \<Rightarrow> u64 \<Rightarrow> u64 \<Rightarrow> bytes \<Rightarrow> bytes \<Rightarrow> Tx" where
  "NewTx from to txType sig message =
    zero_Tx\<lparr>tx_From := from, tx_To := to, tx_Data := message, tx_Signature := sig, tx_Type := txType\<rparr>"

definition NewPendingTx ::
  "libs \<Rightarrow> (Tx \<Rightarrow> bytes) \<Rightarrow> u64 \<Rightarrow> u64 \<Rightarrow> u64 \<Rightarrow> bytes \<Rightarrow> bytes \<Rightarrow> Tx" where
  "NewPendingTx L rlp from to txType sig message =
    AssignHash L rlp (zero_Tx\<lparr>tx_To := to, tx_From := from, tx_Data := message, tx_Signature := sig,
      tx_Status := TX_STATUS_PENDING, tx_Type := txType\<rparr>)"

definition GetSignBytes :: "Tx \<Rightarrow> bytes" where
  "GetSignBytes tx = tx_Data tx"

text \<open>The receiver is a pointer: the result is the transaction afterwards.\<close>

definition SignTx :: "('k, 'p, 'g) bls \<Rightarrow> Tx \<Rightarrow> string \<Rightarrow> string \<Rightarrow> bytes \<Rightarrow> Tx res" where
  "SignTx B tx key pubkey txBytes =
    (case hex_DecodeString key of Inl err \<Rightarrow> Err (ErrHex err) | Inr privKeyBytes \<Rightarrow>
    (case hex_DecodeString pubkey of Inl err \<Rightarrow> Err (ErrHex err) | Inr pubkeyBytes \<Rightarrow>
     res_bind (SecretToWallet B privKeyBytes pubkeyBytes) (\<lambda>wallet.
     res_bind (Wallet_Sign B wallet txBytes) (\<lambda>sig.
       Ok (tx\<lparr>tx_Signature := b_SignatureToBytes B sig\<rparr>)))))"

fun ConcatTxs_loop :: "bytes list \<Rightarrow> bytes \<Rightarrow> bytes" where
  "ConcatTxs_loop [] concatenatedTxs = concatenatedTxs"
| "ConcatTxs_loop (tx # txs) concatenatedTxs = ConcatTxs_loop txs (concatenatedTxs @ tx)"

definition ConcatTxs :: "bytes list \<Rightarrow> bytes" where
  "ConcatTxs txs = ConcatTxs_loop txs []"

section \<open>The mempool\<close>

definition InsertTx :: "'s gorm \<Rightarrow> Tx \<Rightarrow> ('s, unit) prog" where
  "InsertTx G t = db_write (t_create (g_txes G) t)"

definition GetCountPerTxType :: "'s gorm \<Rightarrow> u64 \<Rightarrow> ('s, u64) prog" where
  "GetCountPerTxType G txType =
    db_read (t_count (g_txes G) (\<lambda>t. tx_Type t = txType \<and> tx_Status t = TX_STATUS_PENDING))"

fun FetchTxType_loop :: "'s gorm \<Rightarrow> u64 list \<Rightarrow> u64 \<Rightarrow> u64 \<Rightarrow> ('s, u64) prog" where
  "FetchTxType_loop G [] maxTxType maxCount = ret maxTxType"
| "FetchTxType_loop G (txType # txTypes) maxTxType maxCount =
     andThen (GetCountPerTxType G txType) (\<lambda>cnt.
       if cnt > maxCount then FetchTxType_loop G txTypes txType cnt
       else FetchTxType_loop G txTypes maxTxType maxCount)"

definition FetchTxType :: "'s gorm \<Rightarrow> ('s, u64) prog" where
  "FetchTxType G = FetchTxType_loop G [TX_TRANSFER_TYPE] 0 0"

text \<open>
  The body of \<open>PopTxs\<close> inside the transaction \<open>tx\<close>.  \<open>err\<close> is the error of \<open>FetchTxType\<close>,
  which is tested in place of that of the update; returning on it leaves the transaction
  open.
\<close>

definition PopTxs_body ::
  "'s conn \<Rightarrow> u64 \<Rightarrow> u64 \<Rightarrow> go_error option \<Rightarrow> go_error option \<Rightarrow> ('s, Tx list) prog" where
  "PopTxs_body C txsPerBatch txType err beginErr =
    (case beginErr of Some e \<Rightarrow> fail e | None \<Rightarrow>
     (let T = g_txes (c_tx C) in
      andThen (db_read (t_limit T txsPerBatch (Some db_CreatedAt)
        (t_struct_cond T (zero_Tx\<lparr>tx_Status := TX_STATUS_PENDING, tx_Type := txType\<rparr>)))) (\<lambda>pendingTxs.
      let ids = map db_ID pendingTxs in
      andThen (ignoreErr (db_write (t_update_cols T (\<lambda>t. db_ID t \<in> set ids)
        (\<lambda>t. t\<lparr>tx_Status := TX_STATUS_PROCESSING\<rparr>)))) (\<lambda>_.
      case err of Some e \<Rightarrow> fail e | None \<Rightarrow>
        andThen (db_write (c_commit C)) (\<lambda>_. ret pendingTxs)))))"

definition PopTxs :: "'s gorm \<Rightarrow> 's conn \<Rightarrow> u64 \<Rightarrow> ('s, Tx list) prog" where
  "PopTxs G C txsPerBatch = (\<lambda>s.
    case FetchTxType G s of
      (Panic p, s) \<Rightarrow> (Panic p, s)
    | (r, s) \<Rightarrow>
       (let txType = (case r of Ok t \<Rightarrow> t | _ \<Rightarrow> 0);
            err = (case r of Err e \<Rightarrow> Some e | _ \<Rightarrow> None)
        in case c_begin C s of (beginErr, s) \<Rightarrow>
             recovering (c_rollback C) (case err of Some e \<Rightarrow> Err e | None \<Rightarrow> Ok [])
               (PopTxs_body C txsPerBatch txType err beginErr) s))"

definition UpdateStatus :: "'s gorm \<Rightarrow> Tx \<Rightarrow> u64 \<Rightarrow> ('s, unit) prog" where
  "UpdateStatus G tx status = db_write (t_update_model (g_txes G) tx (\<lambda>t. t\<lparr>tx_Status := status\<rparr>))"

section \<open>Applying a transaction\<close>

text \<open>
  The receiver's leaf is read through the global handle, outside the transaction; the
  errors of the status update and of the commit are not looked at.
\<close>

definition Apply_body :: "'s gorm \<Rightarrow> 's conn \<Rightarrow> libs \<Rightarrow> Tx \<Rightarrow> bytes \<Rightarrow> bytes \<Rightarrow> ('s, unit) prog" where
  "Apply_body G C L tx updatedFrom updatedTo =
    (let db = c_tx C; rb = c_rollback C in
     andThen (rollbackOnErr rb (GetStateByIndex db (tx_From tx))) (\<lambda>fromAcc.
     andThen (rollbackOnErr rb (UpdateState db L (fromAcc\<lparr>us_Data := updatedFrom\<rparr>))) (\<lambda>_.
     andThen (rollbackOnErr rb (GetStateByIndex G (tx_To tx))) (\<lambda>toAcc.
     andThen (rollbackOnErr rb (UpdateState db L (toAcc\<lparr>us_Data := updatedTo\<rparr>))) (\<lambda>_.
     andThen (ignoreErr (UpdateStatus G tx TX_STATUS_PROCESSED)) (\<lambda>_.
       ignoreErr (db_write (c_commit C))))))))"

definition Apply :: "'s gorm \<Rightarrow> 's conn \<Rightarrow> libs \<Rightarrow> Tx \<Rightarrow> bytes \<Rightarrow> bytes \<Rightarrow> ('s, unit) prog" where
  "Apply G C L tx updatedFrom updatedTo =
    andThen (db_write (c_open C)) (\<lambda>_.
      deferring (c_close C) (\<lambda>s. case c_begin C s of (_, s) \<Rightarrow>
        recovering (c_rollback C) (Ok ()) (Apply_body G C L tx updatedFrom updatedTo) s))"

definition ApplySingleTx :: "'s gorm \<Rightarrow> libs \<Rightarrow> UserState \<Rightarrow> bytes \<Rightarrow> ('s, unit) prog" where
  "ApplySingleTx G L account updatedData = UpdateState G L (account\<lparr>us_Data := updatedData\<rparr>)"

section \<open>Data for the verifier\<close>

text \<open>The last component says whether the connection that is returned was opened.\<close>

type_synonym verification_data = "StateMerkleProof \<times> StateMerkleProof \<times> AccountMerkleProof \<times> bool"

definition CreateVerificationDataForTransfer :: "'s conn \<Rightarrow> ('s, verification_data) prog" where
  "CreateVerificationDataForTransfer C = (\<lambda>s. case c_open C s of (e, s) \<Rightarrow>
     (Ok (zero_StateMerkleProof, zero_StateMerkleProof, zero_AccountMerkleProof, e = None), s))"

definition GetVerificationData :: "'s conn \<Rightarrow> Tx \<Rightarrow> ('s, verification_data) prog" where
  "GetVerificationData C tx =
    (if tx_Type tx = TX_TRANSFER_TYPE then CreateVerificationDataForTransfer C
     else ret (zero_StateMerkleProof, zero_StateMerkleProof, zero_AccountMerkleProof, False))"

text \<open>\<open>VerifierWaitGroup.Done()\<close>: the counter of a wait group must not become negative.\<close>

definition wait_done :: "int \<Rightarrow> int res" where
  "wait_done n = (if n - 1 < 0 then Panic (PanicMsg ''sync: negative WaitGroup counter'') else Ok (n - 1))"

definition FetchAccountProofWithID ::
  "'s gorm \<Rightarrow> u64 \<Rightarrow> int \<Rightarrow> ('s, AccountMerkleProof \<times> int) prog" where
  "FetchAccountProofWithID G id' wg =
    andThen (GetAccountLeafByID G id') (\<lambda>leaf.
    andThen (GetAccountSiblings G (acc_Path leaf)) (\<lambda>siblings.
    let pdaMP = NewAccountMerkleProof (acc_Path leaf) (acc_PublicKey leaf) siblings in
    andThen (lift (wait_done wg)) (\<lambda>wg. ret (pdaMP, wg))))"

definition FetchMPWithID :: "'s gorm \<Rightarrow> u64 \<Rightarrow> int \<Rightarrow> ('s, StateMerkleProof \<times> int) prog" where
  "FetchMPWithID G id' wg =
    andThen (GetStateByIndex G id') (\<lambda>leaf.
    andThen (GetSiblings G (us_Path leaf)) (\<lambda>siblings.
    let accMP = NewStateMerkleProof leaf siblings in
    andThen (lift (wait_done wg)) (\<lambda>wg. ret (accMP, wg))))"

section \<open>What updates leave alone\<close>

lemma gorm_keeps_states: "gorm_keeps G f \<Longrightarrow> table_keeps (g_states G) f"
  by (simp add: gorm_keeps_def)

lemma keeps_updateAccount: "table_keeps (g_states G) f \<Longrightarrow> keeps f (updateAccount G n p)"
  by (simp add: updateAccount_def table_keeps_def keeps_db_write)

lemma keeps_StoreLeaf_step:
  assumes "table_keeps (g_states G) f" shows "keeps f (StoreLeaf_step G L b n sibling)"
  unfolding StoreLeaf_step_def StoreNode_def UpdateParentWithHash_def Let_def
  by (intro keeps_intros keeps_updateAccount assms)

lemma keeps_GetStateByPath: "keeps f (GetStateByPath G p)"
  unfolding GetStateByPath_def by (intro keeps_intros)

lemma keeps_StoreLeaf_loop:
  assumes "table_keeps (g_states G) f" shows "keeps f (StoreLeaf_loop G L path i n siblings)"
proof (induction siblings arbitrary: i n)
  case Nil
  show ?case
    unfolding StoreLeaf_loop.simps StoreLeaf_root_def UpdateRootNodeHashes_def Let_def
    by (intro keeps_intros keeps_updateAccount assms)
next
  case (Cons sibling siblings)
  show ?case
    unfolding StoreLeaf_loop.simps
    by (intro keeps_intros keeps_StoreLeaf_step keeps_GetStateByPath assms Cons.IH)
qed

lemma keeps_GetSiblings_loop: "keeps f (GetSiblings_loop G i p siblings)"
proof (induction i arbitrary: p siblings)
  case (Suc i)
  show ?case
    unfolding GetSiblings_loop.simps by (intro keeps_intros keeps_GetStateByPath Suc.IH)
qed (simp add: keeps_lift)

lemma keeps_UpdateState: "table_keeps (g_states G) f \<Longrightarrow> keeps f (UpdateState G L a)"
  unfolding UpdateState_def GetSiblings_def StoreLeaf_def Let_def
  by (intro keeps_intros keeps_GetSiblings_loop keeps_StoreLeaf_loop)

lemma keeps_GetStateByIndex: "keeps f (GetStateByIndex G i)"
  unfolding GetStateByIndex_def GetParams_def by (intro keeps_intros keeps_GetStateByPath)

lemma keeps_UpdateStatus: "gorm_keeps G f \<Longrightarrow> keeps f (UpdateStatus G tx st)"
  by (simp add: UpdateStatus_def gorm_keeps_def table_keeps_def keeps_db_write)

lemma GetStateByIndex_run:
  assumes "db_inv G L view up s" "params (view s) = [pm]" "d = unat (pm_MaxDepth pm)" "0 < d"
    and "unat i < 2 ^ d" "state_node view s (bits d (unat i)) = Some n"
  shows "GetStateByIndex G i s = (Ok n, s)"
proof -
  have "0 < pm_MaxDepth pm" using assms(3,4) by (simp add: word_less_nat_alt)
  then have "SolidityPathToNodePath i (pm_MaxDepth pm) = Ok (bits d (unat i))"
    using SolidityPathToNodePath_bits [of i "pm_MaxDepth pm"] assms(3,5) by simp
  moreover have "GetParams G s = (Ok pm, s)"
    by (rule GetParams_run [OF db_invD(1) [OF assms(1)] db_invD(3) [OF assms(1)] assms(2)])
  ultimately show ?thesis
    using GetStateByPath_run [OF assms(1,6)] by (simp add: GetStateByIndex_def andThen_ok)
qed

text \<open>The first four steps of \<open>Apply\<close>, on the two handles.\<close>

definition Apply_updates :: "'s gorm \<Rightarrow> 's conn \<Rightarrow> libs \<Rightarrow> Tx \<Rightarrow> bytes \<Rightarrow> bytes \<Rightarrow> ('s, unit) prog" where
  "Apply_updates G C L tx updatedFrom updatedTo =
    (let db = c_tx C; rb = c_rollback C in
     andThen (rollbackOnErr rb (GetStateByIndex db (tx_From tx))) (\<lambda>fromAcc.
     andThen (rollbackOnErr rb (UpdateState db L (fromAcc\<lparr>us_Data := updatedFrom\<rparr>))) (\<lambda>_.
     andThen (rollbackOnErr rb (GetStateByIndex G (tx_To tx))) (\<lambda>toAcc.
       rollbackOnErr rb (UpdateState db L (toAcc\<lparr>us_Data := updatedTo\<rparr>))))))"

lemma Apply_body_split:
  "Apply_body G C L tx uf ut = andThen (Apply_updates G C L tx uf ut) (\<lambda>_.
     andThen (ignoreErr (UpdateStatus G tx TX_STATUS_PROCESSED)) (\<lambda>_. ignoreErr (db_write (c_commit C))))"
  by (simp add: Apply_body_def Apply_updates_def andThen_assoc Let_def)

lemma keeps_Apply_updates:
  assumes "isolated C view" shows "keeps view (Apply_updates G C L tx uf ut)"
  unfolding Apply_updates_def Let_def
  using assms by (intro keeps_intros keeps_GetStateByIndex keeps_UpdateState) (simp_all add: isolated_def gorm_keeps_states)

lemma Apply_tail_ok:
  "\<exists>s'. andThen (ignoreErr (UpdateStatus G tx st)) (\<lambda>_. ignoreErr (db_write (c_commit C))) s = (Ok (), s')"
  by (auto simp: andThen_def ignoreErr_def UpdateStatus_def db_write_def split: prod.split option.split)

lemma Apply_body_not_ok:
  assumes "isolated C view" "Apply_body G C L tx uf ut s = (r, s')" "r \<noteq> Ok ()"
  shows "view s' = view s"
proof -
  obtain r1 s1 where u: "Apply_updates G C L tx uf ut s = (r1, s1)" by (cases "Apply_updates G C L tx uf ut s")
  show ?thesis
  proof (cases r1)
    case (Ok x)
    then show ?thesis
      using u assms(2,3) Apply_tail_ok [of G tx TX_STATUS_PROCESSED C s1]
      by (auto simp: Apply_body_split andThen_ok)
  qed (use u assms(2) keepsD [OF keeps_Apply_updates [OF assms(1)] u] in
    \<open>auto simp: Apply_body_split andThen_def\<close>)
qed


section \<open>A transaction that goes through\<close>

lemma conn_okD:
  assumes "conn_ok C G view up txv base intx"
  shows "isolated C view" "gorm_ok G view up" "gorm_ok (c_tx C) txv (\<lambda>s. up s \<and> intx s)"
    "gorm_keeps (c_tx C) base" "gorm_keeps (c_tx C) view" "gorm_keeps G txv" "gorm_keeps G base"
    "gorm_keeps G intx"
    "up s \<Longrightarrow> \<exists>s'. c_open C s = (None, s') \<and> up s' \<and> view s' = view s"
    "up s \<Longrightarrow> up (c_close C s)" "view (c_close C s) = view s"
    "up s \<Longrightarrow> \<exists>s'. c_begin C s = (None, s') \<and> up s' \<and> intx s' \<and> txv s' = view s \<and>
       base s' = view s \<and> view s' = view s"
    "up s \<Longrightarrow> intx s \<Longrightarrow> \<exists>s'. c_commit C s = (None, s') \<and> up s' \<and>
       published_all (base s) (txv s) (view s) (view s')"
proof -
  show "isolated C view" "gorm_ok G view up" "gorm_ok (c_tx C) txv (\<lambda>s. up s \<and> intx s)"
    "gorm_keeps (c_tx C) base" "gorm_keeps (c_tx C) view" "gorm_keeps G txv" "gorm_keeps G base"
    "gorm_keeps G intx" "up s \<Longrightarrow> up (c_close C s)" "view (c_close C s) = view s"
    "up s \<Longrightarrow> intx s \<Longrightarrow> \<exists>s'. c_commit C s = (None, s') \<and> up s' \<and>
       published_all (base s) (txv s) (view s) (view s')"
    using assms by (simp_all add: conn_ok_def isolated_def)
  have o: "view (snd (c_open C s)) = view s" "view (snd (c_begin C s)) = view s"
    using assms by (simp_all add: conn_ok_def isolated_def)
  show "up s \<Longrightarrow> \<exists>s'. c_open C s = (None, s') \<and> up s' \<and> view s' = view s"
    using assms o(1) unfolding conn_ok_def by (metis snd_conv)
  show "up s \<Longrightarrow> \<exists>s'. c_begin C s = (None, s') \<and> up s' \<and> intx s' \<and> txv s' = view s \<and>
       base s' = view s \<and> view s' = view s"
    using assms o(2) unfolding conn_ok_def by (metis snd_conv)
qed

lemma published_all_states:
  assumes "published_all b t c n" "t\<lparr>user_states := []\<rparr> = b\<lparr>user_states := []\<rparr>" "user_states c = user_states b"
  shows "n = c\<lparr>user_states := user_states t\<rparr>"
proof -
  note eq = frame_tables [OF assms(2)]
  have "user_states n = user_states t" "accounts n = accounts c" "txes n = txes c" "batches n = batches c"
    "params n = params c" "sync_statuses n = sync_statuses c" "tokens n = tokens c"
    using assms(1,3) eq by (auto simp: published_all_def published_def)
  then show ?thesis by simp
qed

lemma state_node_same_rows:
  "user_states (view' s') = user_states (view s) \<Longrightarrow> state_node view' s' = state_node view s"
  by (simp add: state_node_def)

lemma state_tree_same_node:
  "state_node view' s' = state_node view s \<Longrightarrow> state_tree L view' d s' = state_tree L view d s"
  "state_node view' s' = state_node view s \<Longrightarrow> state_hashes view' s' = state_hashes view s"
  by (simp_all add: state_tree_def state_hashes_def)

text \<open>
  The leaves after a transaction: the sender's and the receiver's hold the new data and its
  hash (the receiver's when both are the same leaf), the others are as before, and the root
  is that of the changed leaves.
\<close>

definition set_leaf :: "libs \<Rightarrow> bytes \<Rightarrow> UserState \<Rightarrow> UserState" where
  "set_leaf L data r = r\<lparr>us_Data := data, us_Hash := data_hash L data\<rparr>"

definition applied ::
  "libs \<Rightarrow> nat \<Rightarrow> string \<Rightarrow> bytes \<Rightarrow> string \<Rightarrow> bytes \<Rightarrow> ('s \<Rightarrow> tables) \<Rightarrow> 's \<Rightarrow> ('s \<Rightarrow> tables) \<Rightarrow> 's \<Rightarrow> bool" where
  "applied L d p uf q ut view s view' s' \<longleftrightarrow>
     state_tree L view' d s' \<and>
     (\<forall>x. length x = d \<longrightarrow> state_node view' s' x =
        map_option (if x = q then set_leaf L ut else if x = p then set_leaf L uf else id) (state_node view s x)) \<and>
     state_hashes view' s' [] = Some (merkle_root (node_hash L)
       ((\<lambda>x. the (state_hashes view s x))(p := data_hash L uf, q := data_hash L ut)) d [])"

lemma two_updates:
  assumes inv: "db_inv G L view up s" "state_tree L view d s" "0 < d"
    and a: "binary (us_Path a)" "length (us_Path a) = d" "us_Data a \<noteq> []"
    and b: "binary (us_Path b)" "length (us_Path b) = d" "us_Data b \<noteq> []"
  shows "\<exists>s1 s2. UpdateState G L a s = (Ok (), s1) \<and> db_inv G L view up s1 \<and>
    UpdateState G L b s1 = (Ok (), s2) \<and> db_inv G L view up s2 \<and> state_frame view s2 = state_frame view s \<and>
    applied L d (us_Path a) (us_Data a) (us_Path b) (us_Data b) view s view s2"
proof -
  have some: "\<exists>n. state_node view t p = Some n" if "state_tree L view d t" "binary p" "length p = d" for t p
    using that by (auto simp: state_tree_def)
  obtain ra where ra: "state_node view s (us_Path a) = Some ra" using some [OF inv(2) a(1,2)] by blast
  from UpdateState_run [OF inv(1,2) a(1,2) inv(3) ra] a(3) obtain s1 where
    s1: "UpdateState G L a s = (Ok (), s1)" "db_inv G L view up s1" "state_tree L view d s1"
      "state_frame view s1 = state_frame view s"
      "state_node view s1 (us_Path a) = Some (set_leaf L (us_Data a) ra)"
      "\<And>x. length x = d \<Longrightarrow> x \<noteq> us_Path a \<Longrightarrow> state_node view s1 x = state_node view s x"
    by (auto simp: set_leaf_def)
  obtain rb where rb: "state_node view s1 (us_Path b) = Some rb" using some [OF s1(3) b(1,2)] by blast
  from UpdateState_run [OF s1(2,3) b(1,2) inv(3) rb] b(3) obtain s2 where
    s2: "UpdateState G L b s1 = (Ok (), s2)" "db_inv G L view up s2" "state_tree L view d s2"
      "state_frame view s2 = state_frame view s1"
      "state_node view s2 (us_Path b) = Some (set_leaf L (us_Data b) rb)"
      "\<And>x. length x = d \<Longrightarrow> x \<noteq> us_Path b \<Longrightarrow> state_node view s2 x = state_node view s1 x"
      "state_hashes view s2 [] = Some (merkle_root (node_hash L)
        ((\<lambda>x. the (state_hashes view s1 x))(us_Path b := data_hash L (us_Data b))) d [])"
    by (auto simp: set_leaf_def)
  have node1: "state_node view s1 x =
      map_option (if x = us_Path a then set_leaf L (us_Data a) else id) (state_node view s x)" if "length x = d" for x
    using s1(5,6) ra that by (auto simp: option.map_id)
  have twice: "set_leaf L u (set_leaf L v r) = set_leaf L u r" for u v r by (simp add: set_leaf_def)
  have "state_node view s2 x = map_option (if x = us_Path b then set_leaf L (us_Data b)
      else if x = us_Path a then set_leaf L (us_Data a) else id) (state_node view s x)" if x: "length x = d" for x
  proof (cases "x = us_Path b")
    case True
    with rb s2(5) node1 [OF x] show ?thesis
      by (cases "state_node view s x") (auto simp: twice split: if_splits)
  qed (use s2(6) node1 x in auto)
  moreover have "merkle_root (node_hash L)
        ((\<lambda>x. the (state_hashes view s1 x))(us_Path b := data_hash L (us_Data b))) d [] =
      merkle_root (node_hash L) ((\<lambda>x. the (state_hashes view s x))
        (us_Path a := data_hash L (us_Data a), us_Path b := data_hash L (us_Data b))) d []"
  proof (rule merkle_root_cong)
    fix x :: string assume "length x = length ([] :: string) + d"
    then show "((\<lambda>x. the (state_hashes view s1 x))(us_Path b := data_hash L (us_Data b))) x =
        ((\<lambda>x. the (state_hashes view s x))
          (us_Path a := data_hash L (us_Data a), us_Path b := data_hash L (us_Data b))) x"
      using node1 [of x] ra by (simp add: state_hashes_def set_leaf_def option.map_id)
  qed simp
  ultimately show ?thesis using s1 s2 by (auto simp: applied_def)
qed

lemma Apply_updates_run:
  assumes conn: "conn_ok C G view up txv base intx" and L: "libs_ok L"
    and s: "up s" "intx s" "txv s = view s" "state_tree L view d s"
    and pm: "params (view s) = [pm]" "d = unat (pm_MaxDepth pm)" "0 < d"
    and tx: "unat (tx_From tx) < 2 ^ d" "unat (tx_To tx) < 2 ^ d" "uf \<noteq> []" "ut \<noteq> []"
  shows "\<exists>s'. Apply_updates G C L tx uf ut s = (Ok (), s') \<and> up s' \<and> intx s' \<and>
    view s' = view s \<and> base s' = base s \<and> (txv s')\<lparr>user_states := []\<rparr> = (view s)\<lparr>user_states := []\<rparr> \<and>
    applied L d (bits d (unat (tx_From tx))) uf (bits d (unat (tx_To tx))) ut view s txv s'"
proof -
  let ?p = "bits d (unat (tx_From tx))" and ?q = "bits d (unat (tx_To tx))" and ?T = "c_tx C"
  note C = conn_okD [OF conn]
  have invT: "db_inv ?T L txv (\<lambda>s. up s \<and> intx s) s" using C(3) L s by (simp add: db_inv_def)
  have nodes: "state_node txv s = state_node view s" by (rule state_node_same_rows) (simp add: s(3))
  have treeT: "state_tree L txv d s" using s(4) state_tree_same_node(1) [OF nodes] by simp
  have pq: "binary ?p" "length ?p = d" "binary ?q" "length ?q = d"
    using bits_facts [OF tx(1) pm(3)] bits_facts [OF tx(2) pm(3)] by auto
  obtain m n where mn: "state_node view s ?p = Some m" "state_node view s ?q = Some n"
    using conjunct1 [OF s(4) [unfolded state_tree_def], rule_format] pq by (metis order_refl)
  then have path: "us_Path m = ?p" "us_Path n = ?q" by (simp_all add: state_node_def row_at_path)
  have getF: "GetStateByIndex ?T (tx_From tx) s = (Ok m, s)"
    by (rule GetStateByIndex_run [OF invT _ pm(2,3) tx(1)]) (use s(3) pm(1) mn(1) nodes in simp_all)
  obtain s1 s2 where run: "UpdateState ?T L (m\<lparr>us_Data := uf\<rparr>) s = (Ok (), s1)"
      "db_inv ?T L txv (\<lambda>s. up s \<and> intx s) s1" "UpdateState ?T L (n\<lparr>us_Data := ut\<rparr>) s1 = (Ok (), s2)"
      "db_inv ?T L txv (\<lambda>s. up s \<and> intx s) s2" "state_frame txv s2 = state_frame txv s"
      "applied L d ?p uf ?q ut txv s txv s2"
    using two_updates [OF invT treeT pm(3), of "m\<lparr>us_Data := uf\<rparr>" "n\<lparr>us_Data := ut\<rparr>"] pq path tx(3,4) by auto
  note k = keepsD [OF keeps_UpdateState [OF gorm_keeps_states [OF C(5)]]]
    keepsD [OF keeps_UpdateState [OF gorm_keeps_states [OF C(4)]]]
  have v1: "view s1 = view s" and v2: "view s2 = view s" "base s2 = base s"
    using k(1) [OF run(1)] k(1) [OF run(3)] k(2) [OF run(1)] k(2) [OF run(3)] by simp_all
  have inv1: "db_inv G L view up s1" using run(2) C(2) L by (simp add: db_inv_def)
  have "state_node view s1 = state_node view s" by (rule state_node_same_rows) (simp add: v1)
  then have getT: "GetStateByIndex G (tx_To tx) s1 = (Ok n, s1)"
    by (intro GetStateByIndex_run [OF inv1 _ pm(2,3) tx(2)]) (use v1 pm(1) mn(2) in simp_all)
  have "Apply_updates G C L tx uf ut s = (Ok (), s2)"
    using getF run(1,3) getT by (simp add: Apply_updates_def andThen_ok rollbackOnErr_ok Let_def)
  moreover have "applied L d ?p uf ?q ut view s txv s2"
    using run(6) nodes state_tree_same_node(2) [OF nodes] by (simp add: applied_def)
  moreover have "(txv s2)\<lparr>user_states := []\<rparr> = (view s)\<lparr>user_states := []\<rparr>"
    using state_frameD(1) [OF run(5)] s(3) by simp
  ultimately show ?thesis using run(4) v2 by (auto simp: db_inv_def)
qed

lemma Apply_run:
  assumes conn: "conn_ok C G view up txv base intx" and L: "libs_ok L"
    and s: "up s" "state_tree L view d s"
    and pm: "params (view s) = [pm]" "d = unat (pm_MaxDepth pm)" "0 < d"
    and tx: "unat (tx_From tx) < 2 ^ d" "unat (tx_To tx) < 2 ^ d" "uf \<noteq> []" "ut \<noteq> []"
  shows "\<exists>s' g. Apply G C L tx uf ut s = (Ok (), s') \<and> up s' \<and>
    applied L d (bits d (unat (tx_From tx))) uf (bits d (unat (tx_To tx))) ut view s view s' \<and>
    (\<forall>r. touch r (g r)) \<and> (view s')\<lparr>user_states := []\<rparr> = (view s)\<lparr>user_states := [],
      txes := map (\<lambda>r. if pk_tx tx r then g (r\<lparr>tx_Status := TX_STATUS_PROCESSED\<rparr>) else r) (txes (view s))\<rparr>"
proof -
  note C = conn_okD [OF conn]
  obtain s0 where o: "c_open C s = (None, s0)" "up s0" "view s0 = view s" using C(9) [OF s(1)] by blast
  obtain s1 where b: "c_begin C s0 = (None, s1)" "up s1" "intx s1" "txv s1 = view s1" "base s1 = view s1"
    "view s1 = view s" using C(12) [OF o(2)] o(3) by metis
  have same: "state_node view s1 = state_node view s" by (rule state_node_same_rows) (simp add: b(6))
  have tree: "state_tree L view d s1" using s(2) state_tree_same_node(1) [OF same] by simp
  obtain s2 where u: "Apply_updates G C L tx uf ut s1 = (Ok (), s2)" "up s2" "intx s2" "view s2 = view s1"
      "base s2 = base s1" "(txv s2)\<lparr>user_states := []\<rparr> = (view s1)\<lparr>user_states := []\<rparr>"
      "applied L d (bits d (unat (tx_From tx))) uf (bits d (unat (tx_To tx))) ut view s1 txv s2"
    using Apply_updates_run [OF conn L b(2,3,4) tree _ pm(2,3) tx] b(6) pm(1) by auto
  obtain s3 g where t: "UpdateStatus G tx TX_STATUS_PROCESSED s2 = (Ok (), s3)" "up s3" "\<forall>r. touch r (g r)"
      "view s3 = txes_update (map (\<lambda>r. if pk_tx tx r then g (r\<lparr>tx_Status := TX_STATUS_PROCESSED\<rparr>) else r)) (view s2)"
    using update_model_run [OF gorm_txes_cols [OF C(2)] u(2), of tx "\<lambda>r. r\<lparr>tx_Status := TX_STATUS_PROCESSED\<rparr>"]
    by (auto simp: UpdateStatus_def)
  have k: "txv s3 = txv s2" "base s3 = base s2" "intx s3 = intx s2"
    using keepsD [OF keeps_UpdateStatus t(1)] C(6,7,8) by blast+
  obtain s4 where c: "c_commit C s3 = (None, s4)" "up s4" "published_all (base s3) (txv s3) (view s3) (view s4)"
    using C(13) [OF t(2)] u(3) k(3) by auto
  have v4: "view s4 = (view s3)\<lparr>user_states := user_states (txv s3)\<rparr>"
    by (rule published_all_states [OF c(3)]) (use t(4) k u b in simp_all)
  have node: "state_node view s4 = state_node txv s2" by (rule state_node_same_rows) (simp add: v4 k(1))
  have "Apply_body G C L tx uf ut s1 = (Ok (), s4)"
    using u(1) t(1) c(1) by (simp add: Apply_body_split andThen_ok ignoreErr_ok db_write_None)
  then have "Apply G C L tx uf ut s = (Ok (), c_close C s4)"
    using o(1) b(1) by (simp add: Apply_def andThen_ok db_write_None deferring_def recovering_def)
  moreover have node': "state_node view (c_close C s4) = state_node txv s2"
    using node C(11) [of s4] by (simp add: state_node_def)
  moreover have "applied L d (bits d (unat (tx_From tx))) uf (bits d (unat (tx_To tx))) ut view s view (c_close C s4)"
    using u(7) state_tree_same_node [OF node'] node' state_tree_same_node(2) [OF same] same
    by (simp add: applied_def)
  ultimately show ?thesis
    using t(3,4) c(2) v4 u(4) b(6) C(10) C(11) [of s4] by (intro exI [of _ "c_close C s4"] exI [of _ g]) simp
qed

text \<open>However it ends, \<open>Apply\<close> closes the connection that it opened.\<close>

lemma Apply_conns:
  assumes "conns_ok C G conns" shows "conns (snd (Apply G C L tx uf ut s)) = conns s"
proof -
  note C = assms [unfolded conns_ok_def]
  have body: "keeps conns (Apply_body G C L tx uf ut)"
    unfolding Apply_body_def Let_def using C
    by (intro keeps_intros keeps_GetStateByIndex keeps_UpdateState keeps_UpdateStatus) (simp_all add: gorm_keeps_states)
  obtain e s0 where o: "c_open C s = (e, s0)" by (cases "c_open C s")
  have s0: "conns s0 = (if e = None then conns s + 1 else conns s)" using C o by (metis fst_conv snd_conv)
  obtain e1 s1 where b: "c_begin C s0 = (e1, s1)" by (cases "c_begin C s0")
  have s1: "conns s1 = conns s0" using C b by (metis snd_conv)
  obtain r s2 where a: "Apply_body G C L tx uf ut s1 = (r, s2)" by (cases "Apply_body G C L tx uf ut s1")
  have "conns s2 = conns s1" by (rule keepsD [OF body a])
  then show ?thesis
    using o b a s0 s1 C
    by (cases e; cases r) (simp_all add: Apply_def andThen_def db_write_def deferring_def recovering_def)
qed

section \<open>Taking transactions from the mempool\<close>

text \<open>Which rows \<open>PopTxs\<close> asks for: without a pending transfer the type is not restricted.\<close>

definition poppable :: "Tx list \<Rightarrow> Tx \<Rightarrow> bool" where
  "poppable ts t \<longleftrightarrow> tx_Status t = TX_STATUS_PENDING \<and>
     ((\<exists>u \<in> set ts. tx_Status u = TX_STATUS_PENDING \<and> tx_Type u = TX_TRANSFER_TYPE) \<longrightarrow>
       tx_Type t = TX_TRANSFER_TYPE)"

lemma FetchTxType_run:
  assumes "gorm_ok G view up" "up s" "length (txes (view s)) < 2 ^ 64"
  shows "FetchTxType G s = (Ok (if \<exists>u \<in> set (txes (view s)). tx_Status u = TX_STATUS_PENDING \<and>
    tx_Type u = TX_TRANSFER_TYPE then TX_TRANSFER_TYPE else 0), s)"
proof -
  let ?c = "\<lambda>t. tx_Type t = TX_TRANSFER_TYPE \<and> tx_Status t = TX_STATUS_PENDING"
  let ?n = "length (filter ?c (txes (view s)))"
  have "GetCountPerTxType G TX_TRANSFER_TYPE s = (Ok (of_nat ?n), s)"
    using gorm_txes_count [OF assms(1)] assms(2) unfolding count_ok_def GetCountPerTxType_def
    by (simp add: db_read_Inr)
  moreover have "?n < 2 ^ 64" by (rule le_less_trans [OF length_filter_le assms(3)])
  then have "(0 :: u64) < of_nat ?n \<longleftrightarrow> 0 < ?n" by (simp add: word_less_nat_alt unat_of_nat_u64)
  moreover have "0 < ?n \<longleftrightarrow> (\<exists>u \<in> set (txes (view s)). tx_Status u = TX_STATUS_PENDING \<and>
      tx_Type u = TX_TRANSFER_TYPE)" by (auto simp: filter_empty_conv)
  ultimately show ?thesis by (simp add: FetchTxType_def andThen_ok)
qed

lemma published_all_txes:
  assumes "published_all b t c n" "t = txes_update f b" "c = b"
  shows "n = t"
proof -
  have "user_states n = user_states t" "accounts n = accounts t" "txes n = txes t" "batches n = batches t"
    "params n = params t" "sync_statuses n = sync_statuses t" "tokens n = tokens t"
    using assms by (auto simp: published_all_def published_def)
  then show ?thesis by simp
qed

lemma FetchTxType_reads: "FetchTxType G s = (r, s') \<Longrightarrow> s' = s"
proof -
  have "reads_only (FetchTxType G)"
    by (auto simp: FetchTxType_def GetCountPerTxType_def intro!: reads_only_andThen)
  then show "FetchTxType G s = (r, s') \<Longrightarrow> s' = s" by (metis reads_only_snd snd_conv)
qed

lemma keeps_update_cols:
  "gorm_keeps G f \<Longrightarrow> keeps f (db_write (t_update_cols (g_txes G) c h))"
  by (simp add: gorm_keeps_def table_keeps_def keeps_db_write)

lemma keeps_PopTxs_body_err:
  assumes "isolated C view" shows "keeps view (PopTxs_body C n ty (Some e) be)"
proof -
  have k: "gorm_keeps (c_tx C) view" using assms by (simp add: isolated_def)
  show ?thesis
    by (cases be) (simp_all add: PopTxs_body_def Let_def keeps_andThen keeps_db_read keeps_ignoreErr
      keeps_update_cols [OF k] keeps_lift)
qed

text \<open>Whatever type was chosen: those of the pending transactions that match it.\<close>

lemma PopTxs_run_type:
  assumes "conn_ok C G view up txv base intx" "up s" "FetchTxType G s = (Ok ty, s)"
    and "cond = tx_struct_cond (zero_Tx\<lparr>tx_Status := TX_STATUS_PENDING, tx_Type := ty\<rparr>)"
  shows "\<exists>ys s'. PopTxs G C n s = (Ok (take (unat n) ys), s') \<and> up s' \<and>
    mset ys = mset (filter cond (txes (view s))) \<and> sorted (map db_CreatedAt ys) \<and>
    view s' = (view s)\<lparr>txes := map (\<lambda>t. if db_ID t \<in> db_ID ` set (take (unat n) ys)
      then t\<lparr>tx_Status := TX_STATUS_PROCESSING\<rparr> else t) (txes (view s))\<rparr>"
proof -
  note C = conn_okD [OF assms(1)]
  obtain s1 where b: "c_begin C s = (None, s1)" "up s1" "intx s1" "txv s1 = view s" "base s1 = view s"
    "view s1 = view s" using C(12) [OF assms(2)] by blast
  let ?T = "g_txes (c_tx C)" and ?v = "zero_Tx\<lparr>tx_Status := TX_STATUS_PENDING, tx_Type := ty\<rparr>"
  have cond: "t_struct_cond ?T ?v = cond" unfolding gorm_txes_struct_cond [OF C(3)] assms(4) ..
  obtain ys where ys: "mset ys = mset (filter cond (txes (view s)))" "sorted (map db_CreatedAt ys)"
      "t_limit ?T n (Some db_CreatedAt) (t_struct_cond ?T ?v) s1 = Inr (take (unat n) ys)"
    using gorm_txes_limit [OF C(3), unfolded limit_ok_def, rule_format, of s1 "t_struct_cond ?T ?v"
      "Some db_CreatedAt" n] b cond by auto
  let ?ids = "map db_ID (take (unat n) ys)"
  obtain s2 where w: "db_write (t_update_cols ?T (\<lambda>t. db_ID t \<in> set ?ids)
        (\<lambda>t. t\<lparr>tx_Status := TX_STATUS_PROCESSING\<rparr>)) s1 = (Ok (), s2)" "up s2 \<and> intx s2"
      "txv s2 = txes_update (map (\<lambda>t. if db_ID t \<in> set ?ids then t\<lparr>tx_Status := TX_STATUS_PROCESSING\<rparr> else t)) (txv s1)"
    using cols_run [OF gorm_txes_cols [OF C(3)], of s1 "\<lambda>t. db_ID t \<in> set ?ids"] b(2,3) by blast
  have k: "view s2 = view s" "base s2 = view s"
    using keepsD [OF keeps_update_cols w(1)] C(4,5) b(5,6) by metis+
  obtain s3 where c: "c_commit C s2 = (None, s3)" "up s3" "published_all (base s2) (txv s2) (view s2) (view s3)"
    using C(13) w(2) by blast
  have "view s3 = txv s2" by (rule published_all_txes [OF c(3)]) (use k w(3) b(4) in simp_all)
  moreover have "PopTxs_body C n ty None None s1 = (Ok (take (unat n) ys), s3)"
    using ys(3) w(1) c(1)
    by (simp add: PopTxs_body_def Let_def andThen_ok db_read_Inr ignoreErr_ok db_write_None)
  then have "PopTxs G C n s = (Ok (take (unat n) ys), s3)"
    using assms(3) b(1) by (simp add: PopTxs_def Let_def recovering_def)
  ultimately show ?thesis using ys c(2) w(3) b(4) by (intro exI [of _ ys] exI [of _ s3]) simp
qed

lemma PopTxs_run:
  assumes "conn_ok C G view up txv base intx" "up s" "length (txes (view s)) < 2 ^ 64"
  shows "\<exists>ys s'. PopTxs G C n s = (Ok (take (unat n) ys), s') \<and> up s' \<and>
    mset ys = mset (filter (poppable (txes (view s))) (txes (view s))) \<and> sorted (map db_CreatedAt ys) \<and>
    view s' = (view s)\<lparr>txes := map (\<lambda>t. if db_ID t \<in> db_ID ` set (take (unat n) ys)
      then t\<lparr>tx_Status := TX_STATUS_PROCESSING\<rparr> else t) (txes (view s))\<rparr>"
  by (rule PopTxs_run_type [OF assms(1,2) FetchTxType_run [OF conn_okD(2) [OF assms(1)] assms(2,3)]])
    (auto simp: fun_eq_iff tx_struct_cond_def poppable_def zero_Tx_def)

text \<open>Nothing but the mempool changes, however large it is.\<close>

lemma PopTxs_frame:
  assumes "conn_ok C G view up txv base intx" "up s" "PopTxs G C n s = (r, s')"
  shows "up s' \<and> (view s')\<lparr>txes := []\<rparr> = (view s)\<lparr>txes := []\<rparr> \<and> (\<exists>ts. r = Ok ts)"
proof -
  have "\<exists>k. GetCountPerTxType G t s = (Ok k, s)" for t
    using gorm_txes_count [OF conn_okD(2) [OF assms(1)]] assms(2) unfolding count_ok_def GetCountPerTxType_def
    by (simp add: db_read_Inr)
  then obtain k where "GetCountPerTxType G TX_TRANSFER_TYPE s = (Ok k, s)" by blast
  then have "\<exists>ty. FetchTxType G s = (Ok ty, s)" by (cases "0 < k") (simp_all add: FetchTxType_def andThen_ok)
  then obtain ty where ty: "FetchTxType G s = (Ok ty, s)" by blast
  from PopTxs_run_type [OF assms(1,2) ty refl, of n] assms(3) show ?thesis by auto
qed

section \<open>Properties\<close>

text \<open>The tree of the earlier examples, in the database with transactions, and one pending transfer.\<close>

definition ex_tx :: Tx where
  "ex_tx = zero_Tx\<lparr>db_ID := ''t1'', tx_From := 0, tx_To := 2, tx_Type := TX_TRANSFER_TYPE,
     tx_Status := TX_STATUS_PENDING\<rparr>"

definition ex_ms :: mem_state where
  "ex_ms = \<lparr>ms_rows = ex_db\<lparr>params := [pm_example], txes := [ex_tx]\<rparr>, ms_txn = None, ms_conns = 1\<rparr>"

lemma ex_ms_tree: "state_tree ref_libs ms_rows 2 ex_ms"
proof -
  have "state_node ms_rows ex_ms = state_node (\<lambda>d. d) ex_db"
    by (rule state_node_same_rows) (simp add: ex_ms_def)
  from state_tree_same_node(1) [OF this] ex_db_ok(2) show ?thesis by simp
qed

text \<open>
  C7. \<open>Apply\<close> moves both leaves of a transaction at once: when it is given leaves of a
  tree, the committed rows afterwards are a Merkle tree in which the sender's leaf holds
  the first data and the receiver's the second, with every other leaf as before and the
  root of the changed leaves; besides, only the transaction's own status changes.  The
  connection that it opened is closed again: as many are open as before.
\<close>

theorem Apply_correct:
  assumes "conn_ok C G view up txv base intx" "conns_ok C G conns" "libs_ok L" "up s" "state_tree L view d s"
    and "params (view s) = [pm]" "d = unat (pm_MaxDepth pm)" "0 < d"
    and "unat (tx_From tx) < 2 ^ d" "unat (tx_To tx) < 2 ^ d" "uf \<noteq> []" "ut \<noteq> []"
  shows "\<exists>s' g. Apply G C L tx uf ut s = (Ok (), s') \<and> up s' \<and> conns s' = conns s \<and>
    applied L d (bits d (unat (tx_From tx))) uf (bits d (unat (tx_To tx))) ut view s view s' \<and>
    (\<forall>r. touch r (g r)) \<and> (view s')\<lparr>user_states := []\<rparr> = (view s)\<lparr>user_states := [],
      txes := map (\<lambda>r. if pk_tx tx r then g (r\<lparr>tx_Status := TX_STATUS_PROCESSED\<rparr>) else r) (txes (view s))\<rparr>"
  using Apply_run [OF assms(1,3-12)] Apply_conns [OF assms(2), of L tx uf ut s] by fastforce

theorem Apply_correct_witness:
  "\<exists>s'. Apply ms_gorm mem_conn ref_libs ex_tx [7] [8] ex_ms = (Ok (), s') \<and> ms_conns s' = 1 \<and>
     applied ref_libs 2 (bits 2 0) [7] (bits 2 2) [8] ms_rows ex_ms ms_rows s'"
  using Apply_correct [OF mem_conn_ok mem_conns_ok ref_libs_ok TrueI ex_ms_tree, of pm_example ex_tx "[7]" "[8]"]
  by (auto simp: ex_ms_def ex_tx_def pm_example_def)

text \<open>
  C8. \<open>Apply\<close> is atomic: whenever it returns an error, and also when its steps panic, the
  committed rows are those from before.  After a panic it still returns no error.
\<close>

theorem Apply_atomic:
  assumes "isolated C view"
  shows "(case Apply G C L tx uf ut s of (Err e, s') \<Rightarrow> view s' = view s | _ \<Rightarrow> True) \<and>
    (\<forall>s0 s1 be p s2. c_open C s = (None, s0) \<and> c_begin C s0 = (be, s1) \<and>
       Apply_body G C L tx uf ut s1 = (Panic p, s2) \<longrightarrow>
       (\<exists>s'. Apply G C L tx uf ut s = (Ok (), s') \<and> view s' = view s))"
proof -
  have iso: "view (snd (c_open C x)) = view x" "view (c_close C x) = view x"
    "view (snd (c_begin C x)) = view x" "view (c_rollback C x) = view x" for x
    using assms by (simp_all add: isolated_def)
  obtain oe s0 where o: "c_open C s = (oe, s0)" by (cases "c_open C s")
  obtain be s1 where b: "c_begin C s0 = (be, s1)" by (cases "c_begin C s0")
  obtain r s2 where body: "Apply_body G C L tx uf ut s1 = (r, s2)" by (cases "Apply_body G C L tx uf ut s1")
  have v: "view s0 = view s" "view s1 = view s" using iso(1) [of s] iso(3) [of s0] o b by simp_all
  note stay = Apply_body_not_ok [OF assms body]
  show ?thesis
    using o b body v stay iso(2,4)
    by (cases oe; cases r) (auto simp: Apply_def andThen_def db_write_def deferring_def recovering_def)
qed

text \<open>A leaf whose sibling has a hash that is no hex text: computing the parent panics.\<close>

definition ex_bad_ms :: mem_state where
  "ex_bad_ms = \<lparr>ms_rows = empty_tables\<lparr>params := [pm_example\<lparr>pm_MaxDepth := 1\<rparr>], txes := [ex_tx],
     user_states := [zero_UserState\<lparr>us_Path := ''0'', us_Level := 1\<rparr>,
       zero_UserState\<lparr>us_Path := ''1'', us_Level := 1, us_Hash := ''0xzz''\<rparr>, zero_UserState]\<rparr>, ms_txn = None, ms_conns = 1\<rparr>"

lemma ex_bad_panics: "fst (Apply_body ms_gorm mem_conn ref_libs ex_tx [7] [8]
    (snd (c_begin mem_conn ex_bad_ms))) = Panic (PanicErr (ErrHex (InvalidByteError CHR ''z'')))"
proof -
  let ?s = "snd (c_begin mem_conn ex_bad_ms)" and ?T = "c_tx mem_conn"
  let ?a = "zero_UserState\<lparr>us_Path := ''0'', us_Level := 1\<rparr>"
  let ?b = "zero_UserState\<lparr>us_Path := ''1'', us_Level := 1, us_Hash := ''0xzz''\<rparr>"
  have inv: "db_inv ?T ref_libs ms_tx_rows (\<lambda>s. True \<and> ms_open s) ?s"
    using conn_okD(3) [OF mem_conn_ok] by (simp add: db_inv_def ref_libs_ok mem_conn_def)
  have rows: "user_states (ms_tx_rows ?s) = [?a, ?b, zero_UserState]"
      "params (ms_tx_rows ?s) = [pm_example\<lparr>pm_MaxDepth := 1\<rparr>]"
    by (simp_all add: ex_bad_ms_def mem_conn_def ms_tx_rows_def)
  have bits0: "bits 1 0 = ''0''" using bits_bin_val [of "''0''"] bin_val_snoc [of "[]" "CHR ''0''"] by simp
  have nodes: "state_node ms_tx_rows ?s ''0'' = Some ?a" "state_node ms_tx_rows ?s ''1'' = Some ?b"
    unfolding state_node_def rows by (simp_all add: row_at_Some zero_UserState_def)
  have get: "GetStateByIndex ?T 0 ?s = (Ok ?a, ?s)"
    by (rule GetStateByIndex_run [OF inv rows(2), of 1]) (use nodes bits0 in simp_all)
  have sib: "GetSiblings ?T ''0'' ?s = (Ok [?b], ?s)"
    using GetStateByPath_run [OF inv nodes(2)]
    by (simp add: GetSiblings_def GetOtherChild_binary sib_def flip_char_def andThen_ok)
  have "hash_to_bytes (data_hash ref_libs x) = Ok (l_keccak ref_libs x)" for x
    using libs_okD(1) [OF ref_libs_ok] by (simp add: data_hash_def hash_to_bytes_String)
  moreover have "hash_to_bytes ''0xzz'' = Panic (PanicErr (ErrHex (InvalidByteError CHR ''z'')))"
    by (simp add: hash_to_bytes_def HexToByteArray_def hex_value_def)
  moreover have "GetNthBitFromRight ''0'' (int 0) = Ok 0"
    by (subst GetNthBitFromRight_binary) simp_all
  ultimately have "UpdateState ?T ref_libs (?a\<lparr>us_Data := [7]\<rparr>) ?s =
      (Panic (PanicErr (ErrHex (InvalidByteError CHR ''z''))), ?s)"
    using sib by (simp add: UpdateState_def andThen_ok andThen_panic StoreLeaf_def StoreLeaf_step_def us_HashToByteArray_def
      CreateAccountHash_hash [OF ref_libs_ok])
  then show ?thesis
    using get by (simp add: Apply_body_def Let_def andThen_ok andThen_panic rollbackOnErr_def ex_tx_def)
qed

theorem Apply_atomic_witness:
  "\<exists>s'. Apply ms_gorm mem_conn ref_libs ex_tx [7] [8] (ex_bad_ms\<lparr>ms_conns := 0\<rparr>) = (Ok (), s') \<and>
     ms_rows s' = ms_rows ex_bad_ms"
proof -
  let ?s0 = "ex_bad_ms\<lparr>ms_conns := 0\<rparr>"
  let ?s1 = "snd (c_begin mem_conn ex_bad_ms)"
  obtain s2 where "Apply_body ms_gorm mem_conn ref_libs ex_tx [7] [8] ?s1 =
      (Panic (PanicErr (ErrHex (InvalidByteError CHR ''z''))), s2)"
    using ex_bad_panics by (metis prod.collapse)
  moreover have "isolated mem_conn ms_rows" by (rule conn_okD(1) [OF mem_conn_ok])
  moreover have "c_open mem_conn ?s0 = (None, ex_bad_ms)" "c_begin mem_conn ex_bad_ms = (None, ?s1)"
    by (simp_all add: mem_conn_def ex_bad_ms_def)
  moreover have "ms_rows ?s0 = ms_rows ex_bad_ms" by simp
  ultimately show ?thesis using Apply_atomic [of mem_conn ms_rows] by metis
qed

text \<open>
  C9. \<open>PopTxs\<close> hands out the oldest pending transactions, at most \<open>TxsPerBatch\<close> of them, and
  marks exactly these as processing; nothing else in the database changes.  They are transfers
  as long as a transfer is pending; when none is, the type that \<open>FetchTxType\<close> returns is zero,
  which gorm leaves out of the condition, and pending transactions of whatever type are handed
  out.
\<close>

theorem PopTxs_correct:
  assumes "conn_ok C G view up txv base intx" "up s" "ts = txes (view s)" "length ts < 2 ^ 64"
    and "pending_transfer = (\<lambda>t. tx_Status t = TX_STATUS_PENDING \<and> tx_Type t = TX_TRANSFER_TYPE)"
  shows "\<exists>ys s'. PopTxs G C n s = (Ok (take (unat n) ys), s') \<and> up s' \<and> sorted (map db_CreatedAt ys) \<and>
    mset ys = mset (filter (if list_ex pending_transfer ts then pending_transfer
      else (\<lambda>t. tx_Status t = TX_STATUS_PENDING)) ts) \<and>
    view s' = (view s)\<lparr>txes := map (\<lambda>t. if db_ID t \<in> db_ID ` set (take (unat n) ys)
      then t\<lparr>tx_Status := TX_STATUS_PROCESSING\<rparr> else t) ts\<rparr>"
proof -
  have p: "poppable ts = (if list_ex pending_transfer ts then pending_transfer else (\<lambda>t. tx_Status t = TX_STATUS_PENDING))"
    by (auto simp: fun_eq_iff poppable_def assms(5) list_ex_iff)
  have "length (txes (view s)) < 2 ^ 64" using assms(3,4) by simp
  from PopTxs_run [OF assms(1,2) this, of n] show ?thesis unfolding assms(3) [symmetric] p by blast
qed

theorem PopTxs_correct_witness:
  "\<exists>ys s'. PopTxs ms_gorm mem_conn 5 ex_ms = (Ok (take 5 ys), s') \<and> mset ys = {#ex_tx#} \<and>
     txes (ms_rows s') = [ex_tx\<lparr>tx_Status := TX_STATUS_PROCESSING\<rparr>]"
proof -
  have t: "txes (ms_rows ex_ms) = [ex_tx]" "length [ex_tx] < 2 ^ 64" by (simp_all add: ex_ms_def)
  from PopTxs_correct [OF mem_conn_ok TrueI t(1) [symmetric] t(2) refl, of 5] obtain ys s' where
    run: "PopTxs ms_gorm mem_conn 5 ex_ms = (Ok (take 5 ys), s')" and ys: "mset ys = {#ex_tx#}"
    and v: "txes (ms_rows s') = map (\<lambda>t. if db_ID t \<in> db_ID ` set (take 5 ys)
      then t\<lparr>tx_Status := TX_STATUS_PROCESSING\<rparr> else t) [ex_tx]"
    by (auto simp: ex_tx_def)
  then have "ys = [ex_tx]" by (metis mset_single_iff_right)
  with run v ys show ?thesis by auto
qed

text \<open>
  When counting the pending transactions fails, \<open>PopTxs\<close> goes on, marks rows of any
  type inside its transaction, and then returns the error without committing: nothing of
  it is seen outside.
\<close>

theorem PopTxs_count_error:
  assumes "isolated C view" "FetchTxType G s = (Err e, s0)"
  shows "\<exists>e' s'. PopTxs G C n s = (Err e', s') \<and> view s' = view s"
proof -
  obtain be s1 where b: "c_begin C s = (be, s1)" by (cases "c_begin C s")
  have "view s1 = view s" using assms(1) b by (metis isolated_def snd_conv)
  moreover obtain r s2 where body: "PopTxs_body C n 0 (Some e) be s1 = (r, s2)" by (cases "PopTxs_body C n 0 (Some e) be s1")
  moreover have "view s2 = view s1" by (rule keepsD [OF keeps_PopTxs_body_err [OF assms(1)] body])
  moreover have "r \<noteq> Ok ts" for ts
    using body by (auto simp: PopTxs_body_def Let_def andThen_def split: option.splits prod.splits res.splits)
  moreover have "view (c_rollback C s2) = view s2" using assms(1) by (simp add: isolated_def)
  ultimately show ?thesis
    using FetchTxType_reads [OF assms(2)] assms(2) b
    by (cases r) (auto simp: PopTxs_def Let_def recovering_def)
qed

text \<open>A handle whose \<open>Count\<close> on the mempool fails.\<close>

definition ex_no_count :: "mem_state gorm" where
  "ex_no_count = ms_gorm\<lparr>g_txes := (g_txes ms_gorm)\<lparr>t_count := (\<lambda>_ _. Inl (DriverError ''gone''))\<rparr>\<rparr>"

theorem PopTxs_count_error_witness:
  "\<exists>e s'. PopTxs ex_no_count mem_conn 5 ex_ms = (Err e, s') \<and> ms_rows s' = ms_rows ex_ms"
proof -
  have "FetchTxType ex_no_count ex_ms = (Err (DriverError ''gone''), ex_ms)"
    by (simp add: FetchTxType_def GetCountPerTxType_def ex_no_count_def andThen_def db_read_def)
  then show ?thesis by (rule PopTxs_count_error [OF conn_okD(1) [OF mem_conn_ok]])
qed

text \<open>
  Signing with the hex texts of the bytes of a wallet writes exactly what that wallet
  signs, and changes no other field; with a key that is no hex text the transaction is not
  signed.
\<close>

theorem SignTx_with_wallet_keys:
  assumes "bls_keys_ok B" "Wallet_Bytes B w = Ok (secret, pub)" "Wallet_Sign B w txBytes = Ok sig"
    and "hex_DecodeString bad = Inl e"
  shows "SignTx B tx (hex_EncodeToString secret) (hex_EncodeToString pub) txBytes =
      Ok (tx\<lparr>tx_Signature := b_SignatureToBytes B sig\<rparr>) \<and>
    SignTx B tx bad pubkey txBytes = Err (ErrHex e) \<and>
    SignTx B tx (hex_EncodeToString secret) bad txBytes = Err (ErrHex e)"
  using SecretToWallet_Bytes [OF assms(1,2)] assms(3,4) by (simp add: SignTx_def hex_roundtrip)

theorem SignTx_with_wallet_keys_witness:
  "SignTx ref_bls ex_tx (hex_EncodeToString [7]) (hex_EncodeToString (replicate 128 7)) [1, 2] =
     Ok (ex_tx\<lparr>tx_Signature := [7, 1, 2]\<rparr>)"
proof -
  have "Wallet_Bytes ref_bls \<lparr>w_Account = 7\<rparr> = Ok ([7], replicate 128 7)"
    by (simp add: Wallet_Bytes_def ref_bls_def Let_def)
  moreover have "Wallet_Sign ref_bls \<lparr>w_Account = 7\<rparr> [1, 2] = Ok [7, 1, 2]"
    by (simp add: Wallet_Sign_def of_sum_def ref_bls_def createMessage_def)
  moreover have "hex_DecodeString ''z'' = Inl (InvalidByteError CHR ''z'')"
    by (simp add: hex_value_def)
  ultimately show ?thesis
    using SignTx_with_wallet_keys [OF ref_bls_keys, of "\<lparr>w_Account = 7\<rparr>" "[7]" "replicate 128 7" "[1, 2]" _ "''z''" _ ex_tx]
    by (simp add: ref_bls_def)
qed

end
