(* ===== verification/Unpack.thy ===== *)
theory Unpack
  imports Go_Std
begin

text \<open>
  \<open>common/unpack.go\<close>: turning a log of the Ethereum node into an event struct.  The struct is
  filled through reflection: \<open>gstruct\<close> gives the Go type of each field and the values set so
  far (a field without one still has its zero value).  The ABI decoder of the non-indexed
  data belongs to go-ethereum and is a field of \<open>abi\<close>.
\<close>

section \<open>Go values as reflection sees them\<close>

datatype gkind = KBool | KInt nat | KUint nat | KHash | KAddress | KBigInt | KArray nat | KSlice | KOther

datatype gvalue =
    VBool bool
  | VNum int             \<comment> \<open>a sized integer\<close>
  | VBig int             \<comment> \<open>a \<open>*big.Int\<close>\<close>
  | VBytes "byte list"   \<comment> \<open>a hash, an address, a byte array or slice\<close>

record gstruct =
  gs_kinds :: "string \<rightharpoonup> gkind"
  gs_values :: "string \<rightharpoonup> gvalue"

datatype abi_type = FixedBytesTy nat | OtherTy

record argument =
  arg_Name :: string
  arg_Type :: abi_type
  arg_Indexed :: bool

record event =
  ev_Name :: string
  ev_ID :: bytes
  ev_Inputs :: "argument list"

text \<open>\<open>abi.ABI\<close>: its events by name, and the decoder, which gives the fields it sets.\<close>

record abi =
  abi_Events :: "(string \<times> event) list"
  abi_Unpack :: "string \<Rightarrow> bytes \<Rightarrow> go_error + (string \<rightharpoonup> gvalue)"

record eth_log =
  log_Topics :: "bytes list"
  log_Data :: bytes
  log_TxHash :: bytes

section \<open>Names\<close>

text \<open>
  \<open>strings.ToUpper\<close> and \<open>ToLower\<close> map every rune; \<open>up\<close> and \<open>low\<close> stand for the Unicode
  tables on runes outside ASCII.
\<close>

definition upper_rune :: "(rune \<Rightarrow> rune) \<Rightarrow> rune \<Rightarrow> rune" where
  "upper_rune up r = (if r < 128 then (if 97 \<le> r \<and> r \<le> 122 then r - 32 else r) else up r)"

definition lower_rune :: "(rune \<Rightarrow> rune) \<Rightarrow> rune \<Rightarrow> rune" where
  "lower_rune low r = (if r < 128 then (if 65 \<le> r \<and> r \<le> 90 then r + 32 else r) else low r)"

definition ToUpper :: "(rune \<Rightarrow> rune) \<Rightarrow> string \<Rightarrow> string" where
  "ToUpper up s = string_of_runes (map (upper_rune up) (runes s))"

definition ToLower :: "(rune \<Rightarrow> rune) \<Rightarrow> string \<Rightarrow> string" where
  "ToLower low s = string_of_runes (map (lower_rune low) (runes s))"

text \<open>The loop over the runes after the first; \<open>string(v)\<close> is the text of a rune.\<close>

fun toCamelCase_loop :: "(rune \<Rightarrow> rune) \<Rightarrow> rune list \<Rightarrow> bool \<Rightarrow> string \<Rightarrow> string" where
  "toCamelCase_loop up [] toupper result = result"
| "toCamelCase_loop up (v # vs) toupper result =
     (if toupper then toCamelCase_loop up vs False (result @ ToUpper up (encode_rune v))
      else if v = 95 then toCamelCase_loop up vs True result
      else toCamelCase_loop up vs toupper (result @ encode_rune v))"

text \<open>\<open>k == 0\<close> is the first rune; \<open>string(input[0])\<close> is the rune of the first byte.\<close>

definition toCamelCase :: "(rune \<Rightarrow> rune) \<Rightarrow> string \<Rightarrow> string" where
  "toCamelCase up input = (case runes input of
     [] \<Rightarrow> ''''
   | _ # vs \<Rightarrow> toCamelCase_loop up vs False (ToUpper up (encode_rune (byte_of (hd input)))))"

fun strip_underscores :: "string \<Rightarrow> string" where
  "strip_underscores [] = []"
| "strip_underscores (c # cs) = (if c = CHR ''_'' then strip_underscores cs else c # cs)"

definition capitalise :: "(rune \<Rightarrow> rune) \<Rightarrow> string \<Rightarrow> string" where
  "capitalise up input =
    (let input = strip_underscores input in
     if input = '''' then '''' else toCamelCase up (ToUpper up (take 1 input) @ drop 1 input))"

definition decapitalise :: "(rune \<Rightarrow> rune) \<Rightarrow> (rune \<Rightarrow> rune) \<Rightarrow> string \<Rightarrow> string" where
  "decapitalise up low input =
    (let input = strip_underscores input in
     if input = '''' then '''' else toCamelCase up (ToLower low (take 1 input) @ drop 1 input))"

section \<open>Topics\<close>

text \<open>\<open>new(big.Int).SetBytes\<close>: big-endian.\<close>

definition be_val :: "bytes \<Rightarrow> int" where
  "be_val bs = foldl (\<lambda>n b. 256 * n + int (unat b)) 0 bs"

text \<open>The last \<open>n\<close> bytes of a topic of 32 bytes; \<open>t[32-n:]\<close> panics when \<open>n\<close> exceeds 32.\<close>

definition topic_tail :: "nat \<Rightarrow> bytes \<Rightarrow> bytes res" where
  "topic_tail n t = (if 32 < n then Panic SliceOutOfRange else Ok (drop (32 - n) t))"

text \<open>
  \<open>reflect.Copy\<close> into a field: as many bytes as fit an array, none into a nil slice, a panic
  for any other type.
\<close>

definition reflect_copy :: "gkind \<Rightarrow> gvalue option \<Rightarrow> bytes \<Rightarrow> gvalue option res" where
  "reflect_copy k old src = (case k of
     KArray n \<Rightarrow> (let dst = (case old of Some (VBytes d) \<Rightarrow> d | _ \<Rightarrow> replicate n 0)
                  in Ok (Some (VBytes (take n src @ drop (length (take n src)) dst))))
   | KSlice \<Rightarrow> (let dst = (case old of Some (VBytes d) \<Rightarrow> d | _ \<Rightarrow> [])
                in Ok (Some (VBytes (take (length dst) src @ drop (length (take (length dst) src)) dst))))
   | _ \<Rightarrow> Panic (PanicMsg ''reflect: call of Copy''))"

text \<open>One topic into the field of its name; a field that is not there panics.\<close>

definition parseTopic :: "argument \<Rightarrow> gkind option \<Rightarrow> gvalue option \<Rightarrow> bytes \<Rightarrow> gvalue option res" where
  "parseTopic arg kind old t = (let num = be_val t in case kind of
     None \<Rightarrow> Panic (PanicMsg ''reflect: call of Type on zero Value'')
   | Some KBool \<Rightarrow> Ok (if t ! 31 = 1 then Some (VBool True) else old)
   | Some (KInt n) \<Rightarrow> Ok (Some (VNum (signed_take_bit (n - 1) num)))
   | Some (KUint n) \<Rightarrow> Ok (Some (VNum (take_bit n num)))
   | Some KHash \<Rightarrow> Ok (Some (VBytes t))
   | Some KAddress \<Rightarrow> Ok (Some (VBytes (drop 12 t)))
   | Some KBigInt \<Rightarrow> Ok (Some (VBig num))
   | Some k \<Rightarrow> (case arg_Type arg of
        FixedBytesTy n \<Rightarrow> res_bind (topic_tail n t) (\<lambda>src. reflect_copy k old src)
      | OtherTy \<Rightarrow> Err (ErrMsg ''unsupported indexed type'')))"

fun parseTopics_loop :: "(rune \<Rightarrow> rune) \<Rightarrow> gstruct \<Rightarrow> argument list \<Rightarrow> bytes list \<Rightarrow> gstruct res" where
  "parseTopics_loop up out [] topics = Ok out"
| "parseTopics_loop up out (arg # args) topics =
     (if \<not> arg_Indexed arg then Err (ErrMsg ''non-indexed field in topic reconstruction'')
      else (case topics of
        [] \<Rightarrow> Panic IndexOutOfRange
      | t # topics \<Rightarrow>
         (let name = capitalise up (arg_Name arg) in
          res_bind (parseTopic arg (gs_kinds out name) (gs_values out name) t) (\<lambda>v.
            parseTopics_loop up (out\<lparr>gs_values := (gs_values out)(name := v)\<rparr>) args topics))))"

definition parseTopics :: "(rune \<Rightarrow> rune) \<Rightarrow> gstruct \<Rightarrow> argument list \<Rightarrow> bytes list \<Rightarrow> gstruct res" where
  "parseTopics up out args topics =
    (if length args \<noteq> length topics then Err (ErrMsg ''topic/field count mismatch'')
     else parseTopics_loop up out args topics)"

text \<open>\<open>abiObject.Events[event]\<close>: a missing event is the zero one, without inputs.\<close>

definition event_inputs :: "abi \<Rightarrow> string \<Rightarrow> argument list" where
  "event_inputs abiObject event = (case map_of (abi_Events abiObject) event of
     None \<Rightarrow> [] | Some e \<Rightarrow> ev_Inputs e)"

definition UnpackLog :: "(rune \<Rightarrow> rune) \<Rightarrow> abi \<Rightarrow> gstruct \<Rightarrow> string \<Rightarrow> eth_log \<Rightarrow> gstruct res" where
  "UnpackLog up abiObject out event log =
    res_bind (if log_Data log \<noteq> [] then
        (case abi_Unpack abiObject event (log_Data log) of
           Inl err \<Rightarrow> Err err
         | Inr vs \<Rightarrow> Ok (out\<lparr>gs_values := gs_values out ++ vs\<rparr>))
      else Ok out) (\<lambda>out.
    let indexed = filter arg_Indexed (event_inputs abiObject event)
    in if log_Topics log = [] then Panic SliceOutOfRange
       else parseTopics up out indexed (tl (log_Topics log)))"

section \<open>Lemmas\<close>

lemma ToUpper_ascii: "ascii s \<Longrightarrow> ToUpper up s = map (\<lambda>c. char_of (upper_rune up (byte_of c))) s"
proof -
  assume s: "ascii s"
  then have "\<forall>r \<in> set (map (upper_rune up) (map byte_of s)). r < 128"
    by (auto simp: ascii_def upper_rune_def)
  from string_of_runes_ascii [OF this] s show ?thesis by (simp add: ToUpper_def runes_ascii comp_def)
qed

lemma ascii_simps [simp]: "ascii []" "ascii (c # s) \<longleftrightarrow> byte_of c < 128 \<and> ascii s"
  "ascii (s @ t) \<longleftrightarrow> ascii s \<and> ascii t"
  by (auto simp: ascii_def)

text \<open>The upper case of an ASCII character, and a word with its first letter in upper case.\<close>

definition upc :: "char \<Rightarrow> char" where
  "upc c = char_of (if 97 \<le> byte_of c \<and> byte_of c \<le> 122 then byte_of c - 32 else byte_of c :: nat)"

definition capword :: "string \<Rightarrow> string" where
  "capword w = (case w of [] \<Rightarrow> [] | c # cs \<Rightarrow> upc c # cs)"

fun join_words :: "string list \<Rightarrow> string" where
  "join_words [] = []"
| "join_words [w] = w"
| "join_words (w # v # ws) = w @ CHR ''_'' # join_words (v # ws)"

definition plain_word :: "string \<Rightarrow> bool" where
  "plain_word w \<longleftrightarrow> w \<noteq> [] \<and> ascii w \<and> CHR ''_'' \<notin> set w"

lemma upper_rune_upc: "byte_of c < 128 \<Longrightarrow> char_of (upper_rune up (byte_of c)) = upc c"
  by (simp add: upper_rune_def upc_def)

lemma byte_of_upc: "byte_of c < 128 \<Longrightarrow> byte_of (upc c) < 128"
  by (auto simp: upc_def)

lemma upc_idem: "byte_of c < 128 \<Longrightarrow> upc (upc c) = upc c"
  by (auto simp: upc_def)

lemma byte_of_underscore: "byte_of c = 95 \<longleftrightarrow> c = CHR ''_''"
proof -
  have "byte_of (CHR ''_'') = 95" by simp
  then show ?thesis by (metis of_char_eq_iff)
qed

lemma ToUpper_rune: "byte_of c < 128 \<Longrightarrow> ToUpper up (encode_rune (byte_of c)) = [upc c]"
  by (simp add: encode_rune_ascii ToUpper_ascii upper_rune_upc)

lemma toCamelCase_loop_word:
  assumes "ascii w" "CHR ''_'' \<notin> set w"
  shows "toCamelCase_loop up (map byte_of w @ vs) False r = toCamelCase_loop up vs False (r @ w)"
  using assms by (induction w arbitrary: r) (auto simp: encode_rune_ascii byte_of_underscore)

lemma toCamelCase_loop_next:
  assumes "plain_word w"
  shows "toCamelCase_loop up (95 # map byte_of w @ vs) False r = toCamelCase_loop up vs False (r @ capword w)"
  using assms
  by (cases w) (auto simp: plain_word_def capword_def ToUpper_rune toCamelCase_loop_word)

lemma toCamelCase_loop_words:
  assumes "\<forall>w \<in> set ws. plain_word w" "ws \<noteq> []"
  shows "toCamelCase_loop up (95 # map byte_of (join_words ws)) False r = r @ concat (map capword ws)"
  using assms
proof (induction ws arbitrary: r rule: join_words.induct)
  case (2 w)
  then show ?case using toCamelCase_loop_next [of w up "[]"] by simp
next
  case (3 w v ws)
  then show ?case using toCamelCase_loop_next [of w up "95 # map byte_of (join_words (v # ws))"] by simp
qed simp

lemma ascii_join_words: "\<forall>w \<in> set ws. plain_word w \<Longrightarrow> ascii (join_words ws)"
  by (induction ws rule: join_words.induct) (simp_all add: plain_word_def)

lemma capitalise_plain:
  assumes "plain_word (c # cs)" "ascii s"
  shows "capitalise up (c # cs @ s) = toCamelCase_loop up (map byte_of s) False (upc c # cs)"
proof -
  have c: "byte_of c < 128" "c \<noteq> CHR ''_''" "ascii cs" "CHR ''_'' \<notin> set cs"
    using assms(1) by (auto simp: plain_word_def)
  have "capitalise up (c # cs @ s) = toCamelCase up (upc c # cs @ s)"
    using c by (simp add: capitalise_def ToUpper_ascii upper_rune_upc)
  also have "\<dots> = toCamelCase_loop up (map byte_of (cs @ s)) False [upc (upc c)]"
  proof -
    have "runes (upc c # cs @ s) = map byte_of (upc c # cs @ s)"
      by (rule runes_ascii) (use c assms(2) in \<open>simp add: byte_of_upc\<close>)
    then show ?thesis using c by (simp add: toCamelCase_def byte_of_upc ToUpper_rune del: runes.simps)
  qed
  finally show ?thesis using c by (simp add: upc_idem toCamelCase_loop_word)
qed

lemma capitalise_words:
  assumes "\<forall>w \<in> set ws. plain_word w" "ws \<noteq> []"
  shows "capitalise up (join_words ws) = concat (map capword ws)"
proof -
  obtain c cs ws' where ws: "ws = (c # cs) # ws'" "plain_word (c # cs)"
    using assms by (cases ws; cases "hd ws") (auto simp: plain_word_def)
  show ?thesis
  proof (cases ws')
    case Nil
    then show ?thesis using ws capitalise_plain [OF ws(2), of "[]" up] by (simp add: capword_def)
  next
    case (Cons v vs)
    have "ascii (CHR ''_'' # join_words (v # vs))"
      using ascii_join_words [of "v # vs"] assms(1) ws(1) Cons by simp
    from capitalise_plain [OF ws(2) this, of up] show ?thesis
      using toCamelCase_loop_words [of "v # vs" up "upc c # cs"] assms(1) ws(1) Cons
      by (simp add: capword_def)
  qed
qed

lemma UnpackLog_not_indexed:
  assumes "\<forall>a \<in> set (event_inputs A ev). \<not> arg_Indexed a" "log_Topics log = [t]"
    and "log_Data log \<noteq> []" "abi_Unpack A ev (log_Data log) = Inr vs"
  shows "UnpackLog up A out ev log = Ok (out\<lparr>gs_values := gs_values out ++ vs\<rparr>)"
  using assms by (simp add: UnpackLog_def parseTopics_def filter_False)

section \<open>Properties\<close>

text \<open>
  C21. \<open>capitalise\<close> turns an ASCII name in snake case into the Go field name: it drops the
  underscores between the words and puts every word's first letter in upper case, which is
  the specification by words of the loop over runes.
\<close>

theorem capitalise_snake_case:
  assumes "\<forall>w \<in> set ws. plain_word w" "ws \<noteq> []"
  shows "capitalise up (replicate k (CHR ''_'') @ join_words ws) = concat (map capword ws)"
proof -
  have strip: "strip_underscores (replicate k (CHR ''_'') @ s) = strip_underscores s" for s
    by (induction k) simp_all
  show ?thesis using capitalise_words [OF assms, of up] by (simp add: capitalise_def strip)
qed

theorem capitalise_snake_case_witness:
  "capitalise id ''_batch_id'' = ''BatchId''"
proof -
  have "\<forall>w \<in> set [''batch'', ''id'']. plain_word w" by (simp add: plain_word_def)
  from capitalise_snake_case [OF this, of id 1] show ?thesis
    by (simp add: capword_def upc_def char_of_def bit_iff_odd)
qed

text \<open>The value that a topic stands for, for the kinds of fields that events index.\<close>

definition topic_value :: "gkind \<Rightarrow> bytes \<Rightarrow> gvalue" where
  "topic_value k t = (case k of KBigInt \<Rightarrow> VBig (be_val t) | KAddress \<Rightarrow> VBytes (drop 12 t) | _ \<Rightarrow> VBytes t)"

definition topic_field :: "(rune \<Rightarrow> rune) \<Rightarrow> gstruct \<Rightarrow> argument \<Rightarrow> bool" where
  "topic_field up out a \<longleftrightarrow> arg_Indexed a \<and>
     (\<exists>k \<in> {KBigInt, KAddress, KHash}. gs_kinds out (capitalise up (arg_Name a)) = Some k)"

lemma parseTopics_loop_fields:
  assumes "length args = length topics" "\<forall>a \<in> set args. topic_field up out a"
    and "distinct (map (\<lambda>a. capitalise up (arg_Name a)) args)"
  shows "\<exists>out'. parseTopics_loop up out args topics = Ok out' \<and> gs_kinds out' = gs_kinds out \<and>
    (\<forall>i < length args. gs_values out' (capitalise up (arg_Name (args ! i))) =
       Some (topic_value (the (gs_kinds out (capitalise up (arg_Name (args ! i))))) (topics ! i))) \<and>
    (\<forall>n. n \<notin> (\<lambda>a. capitalise up (arg_Name a)) ` set args \<longrightarrow> gs_values out' n = gs_values out n)"
  using assms
proof (induction args topics arbitrary: out rule: list_induct2)
  case (Cons a args t topics)
  let ?n = "capitalise up (arg_Name a)"
  obtain k where k: "gs_kinds out ?n = Some k" "k \<in> {KBigInt, KAddress, KHash}" "arg_Indexed a"
    using Cons.prems(1) by (auto simp: topic_field_def)
  let ?v = "topic_value k t"
  let ?out = "out\<lparr>gs_values := (gs_values out)(?n := Some ?v)\<rparr>"
  have p: "parseTopic a (Some k) old t = Ok (Some ?v)" for old
    using k(2) by (auto simp: parseTopic_def topic_value_def)
  have "\<forall>a \<in> set args. topic_field up ?out a" using Cons.prems(1) by (simp add: topic_field_def)
  moreover have "distinct (map (\<lambda>a. capitalise up (arg_Name a)) args)" using Cons.prems(2) by simp
  ultimately obtain out' where out': "parseTopics_loop up ?out args topics = Ok out'" "gs_kinds out' = gs_kinds ?out"
    "\<forall>i < length args. gs_values out' (capitalise up (arg_Name (args ! i))) =
       Some (topic_value (the (gs_kinds ?out (capitalise up (arg_Name (args ! i))))) (topics ! i))"
    "\<forall>n. n \<notin> (\<lambda>a. capitalise up (arg_Name a)) ` set args \<longrightarrow> gs_values out' n = gs_values ?out n"
    using Cons.IH [of ?out] by blast
  have "?n \<notin> (\<lambda>a. capitalise up (arg_Name a)) ` set args" using Cons.prems(2) by simp
  then have "gs_values out' ?n = Some ?v" using out'(4) by simp
  moreover have "parseTopics_loop up out (a # args) (t # topics) = Ok out'"
    using k p out'(1) by simp
  ultimately show ?case using out' k(1)
    by (intro exI [of _ out']) (auto simp: nth_Cons split: nat.split)
qed simp

text \<open>
  \<open>parseTopics\<close> restores the indexed fields of an event: for fields of the types
  \<open>uint256\<close>, \<open>address\<close> and \<open>bytes32\<close> with different names, each gets the value of its own
  topic, in order, and no other field changes.  A wrong number of topics is an error.
\<close>

theorem parseTopics_fields:
  assumes "\<forall>a \<in> set args. topic_field up out a"
    and "distinct (map (\<lambda>a. capitalise up (arg_Name a)) args)"
  shows "if length args = length topics then
      (\<exists>out'. parseTopics up out args topics = Ok out' \<and> gs_kinds out' = gs_kinds out \<and>
        (\<forall>i < length args. gs_values out' (capitalise up (arg_Name (args ! i))) =
          Some (topic_value (the (gs_kinds out (capitalise up (arg_Name (args ! i))))) (topics ! i))) \<and>
        (\<forall>n. n \<notin> (\<lambda>a. capitalise up (arg_Name a)) ` set args \<longrightarrow> gs_values out' n = gs_values out n))
    else parseTopics up out args topics = Err (ErrMsg ''topic/field count mismatch'')"
  using parseTopics_loop_fields [OF _ assms, of topics] by (simp add: parseTopics_def)

definition ex_out :: gstruct where
  "ex_out = \<lparr>gs_kinds = [''BatchId'' \<mapsto> KBigInt, ''Committed'' \<mapsto> KAddress], gs_values = Map.empty\<rparr>"

definition ex_args :: "argument list" where
  "ex_args = [\<lparr>arg_Name = ''committed'', arg_Type = OtherTy, arg_Indexed = True\<rparr>,
     \<lparr>arg_Name = ''batch_id'', arg_Type = OtherTy, arg_Indexed = True\<rparr>]"

lemma ex_names: "capitalise up ''committed'' = ''Committed''" "capitalise up ''batch_id'' = ''BatchId''"
  using capitalise_words [of "[''committed'']" up] capitalise_words [of "[''batch'', ''id'']" up]
  by (simp_all add: plain_word_def capword_def upc_def char_of_def bit_iff_odd)

theorem parseTopics_fields_witness:
  "\<exists>out'. parseTopics id ex_out ex_args [replicate 32 3, replicate 31 0 @ [5]] = Ok out' \<and>
     gs_values out' ''BatchId'' = Some (VBig 5)"
proof -
  have f: "\<forall>a \<in> set ex_args. topic_field id ex_out a"
    "distinct (map (\<lambda>a. capitalise id (arg_Name a)) ex_args)"
    by (simp_all add: ex_args_def topic_field_def ex_names ex_out_def)
  have be: "be_val (replicate 31 0 @ [5]) = 5" 
  proof -
    have "be_val (replicate n 0) = 0" for n by (induction n) (simp_all add: be_val_def)
    from this [of 31] show ?thesis by (simp add: be_val_def)
  qed
  have two: "length ex_args = length [replicate 32 (3 :: byte), replicate 31 0 @ [5]]" by (simp add: ex_args_def)
  obtain out' where "parseTopics id ex_out ex_args [replicate 32 3, replicate 31 0 @ [5]] = Ok out'"
    "\<forall>i < length ex_args. gs_values out' (capitalise id (arg_Name (ex_args ! i))) =
      Some (topic_value (the (gs_kinds ex_out (capitalise id (arg_Name (ex_args ! i)))))
        ([replicate 32 3, replicate 31 0 @ [5]] ! i))"
    using parseTopics_fields [OF f, of "[replicate 32 3, replicate 31 0 @ [5]]"] two by auto
  then show ?thesis
    by (auto simp: ex_args_def ex_names ex_out_def topic_value_def be dest!: spec [of _ 1])
qed

end
