(* ===== verification/Contract_Caller.thy ===== *)
theory Contract_Caller
  imports Transactions Unpack
begin

text \<open>
  \<open>core/bazooka.go\<close> and the conversions to contract types of \<open>core/state.go\<close> and
  \<open>core/merkleProof.go\<close>: what the coordinator asks of the contracts and of the Ethereum
  node.  The calls themselves go through the generated bindings to a remote node; they are
  the fields of \<open>chain\<close>, functions of the world state, so their answers may change with it.
  \<open>big.Int\<close> is \<open>int\<close>.  \<open>opts.From\<close> is the operator's address in every call and is left
  implicit in the fields.
\<close>

section \<open>Types of the contracts\<close>

record TypesUserState =
  ts_PubkeyIndex :: int
  ts_TokenType :: int
  ts_Balance :: int
  ts_Nonce :: int

record TypesStateMerkleProof =
  tp_State :: TypesUserState
  tp_Witness :: "ByteArray list"

record Transfer =
  tr_TxType :: int
  tr_FromIndex :: int
  tr_ToIndex :: int
  tr_Amount :: int
  tr_Fee :: int
  tr_Nonce :: int

record updates =
  up_NewSender :: bytes
  up_NewReceiver :: bytes
  up_Result :: byte

text \<open>What \<open>UnpackIntoMap\<close> puts into a map: the one kind of value that is looked at, or another.\<close>

datatype abi_value = BytesList "bytes list" | OtherValue

record Header =
  hd_Number :: int

record call_msg =
  cm_From :: string
  cm_Data :: bytes

record transact_opts =
  to_GasPrice :: int
  to_Nonce :: int
  to_GasLimit :: u64

record 's chain =
  ch_HeaderByNumber :: "int option \<Rightarrow> 's \<Rightarrow> go_error + Header"
  ch_NumOfBatchesSubmitted :: "'s \<Rightarrow> go_error + int"
  ch_TransactionByHash :: "bytes \<Rightarrow> 's \<Rightarrow> go_error + (bytes \<times> bool)"
  ch_UnpackSubmitBatch :: "bytes \<Rightarrow> go_error + (string \<rightharpoonup> abi_value)"
  ch_ProcessTransfer :: "ByteArray \<Rightarrow> bytes \<Rightarrow> int \<Rightarrow> TypesStateMerkleProof \<Rightarrow>
    TypesStateMerkleProof \<Rightarrow> 's \<Rightarrow> go_error + (ByteArray \<times> byte)"
  ch_ValidateAndApplyTransfer :: "bytes \<Rightarrow> bytes \<Rightarrow> bytes \<Rightarrow> 's \<Rightarrow> go_error + updates"
  ch_ValidateAndApplyCreate2Transfer :: "bytes \<Rightarrow> bytes \<Rightarrow> 's \<Rightarrow> go_error + updates"
  ch_ValidateAndApplyMassMigration :: "bytes \<Rightarrow> bytes \<Rightarrow> 's \<Rightarrow> go_error + updates"
  ch_CompressTransfer :: "bytes list \<Rightarrow> 's \<Rightarrow> go_error + bytes"
  ch_CompressCreate2Transfer :: "bytes list \<Rightarrow> 's \<Rightarrow> go_error + bytes"
  ch_CompressMassMigration :: "bytes list \<Rightarrow> 's \<Rightarrow> go_error + bytes"
  ch_EncodeTransfer :: "Transfer \<Rightarrow> 's \<Rightarrow> go_error + bytes"
  ch_DecodeTransfer :: "bytes \<Rightarrow> 's \<Rightarrow> go_error + Transfer"
  ch_Encode :: "TypesUserState \<Rightarrow> 's \<Rightarrow> go_error + bytes"
  ch_DecodeState :: "bytes \<Rightarrow> 's \<Rightarrow> go_error + TypesUserState"
  ch_SuggestGasPrice :: "'s \<Rightarrow> go_error + int"
  ch_PendingNonceAt :: "string \<Rightarrow> 's \<Rightarrow> go_error + u64"
  ch_EstimateGas :: "call_msg \<Rightarrow> 's \<Rightarrow> go_error + u64"

section \<open>Reading the chain\<close>

definition GetMainChainBlock :: "'s chain \<Rightarrow> int option \<Rightarrow> ('s, Header) prog" where
  "GetMainChainBlock N blockNum =
    andThen (db_read (ch_HeaderByNumber N blockNum)) (\<lambda>latestBlock. ret latestBlock)"

text \<open>\<open>(*big.Int).Uint64()\<close>: the low 64 bits of the magnitude.\<close>

definition big_Uint64 :: "int \<Rightarrow> u64" where
  "big_Uint64 x = of_int \<bar>x\<bar>"

definition TotalBatches :: "'s chain \<Rightarrow> ('s, u64) prog" where
  "TotalBatches N = andThen (db_read (ch_NumOfBatchesSubmitted N)) (\<lambda>totalBatches. ret (big_Uint64 totalBatches))"

text \<open>The type assertion panics when the key is missing or holds another type.\<close>

definition GetTxsFromInput :: "(string \<rightharpoonup> abi_value) \<Rightarrow> bytes list res" where
  "GetTxsFromInput input = (case input ''_txs'' of
     Some (BytesList data) \<Rightarrow> Ok data | _ \<Rightarrow> Panic (PanicMsg ''interface conversion''))"

definition FetchBatchInputData :: "'s chain \<Rightarrow> bytes \<Rightarrow> ('s, bytes list) prog" where
  "FetchBatchInputData N txHash =
    andThen (db_read (ch_TransactionByHash N txHash)) (\<lambda>(payload, isPending).
    if isPending then fail (ErrMsg ''Transaction is pending'')
    else if length payload < 4 then lift (Panic SliceOutOfRange)
    else (let decodedPayload = drop 4 payload in
      case ch_UnpackSubmitBatch N decodedPayload of
        Inl err \<Rightarrow> fail err
      | Inr inputDataMap \<Rightarrow> lift (GetTxsFromInput inputDataMap)))"

section \<open>States and proofs for the contracts\<close>

text \<open>\<open>int64(x)\<close> of a \<open>uint64\<close> reads the same bits as a signed number.\<close>

definition int64 :: "u64 \<Rightarrow> int" where
  "int64 x = sint x"

definition EncodeState :: "'s chain \<Rightarrow> u64 \<Rightarrow> u64 \<Rightarrow> u64 \<Rightarrow> u64 \<Rightarrow> ('s, bytes) prog" where
  "EncodeState N id' balance nonce token =
    db_read (ch_Encode N \<lparr>ts_PubkeyIndex = int64 id', ts_TokenType = int64 token,
      ts_Balance = int64 balance, ts_Nonce = int64 nonce\<rparr>)"

text \<open>\<open>(ID, balance, nonce, token)\<close>\<close>

definition DecodeState :: "'s chain \<Rightarrow> bytes \<Rightarrow> ('s, int \<times> int \<times> int \<times> int) prog" where
  "DecodeState N stateBytes =
    andThen (db_read (ch_DecodeState N stateBytes)) (\<lambda>state.
      ret (ts_PubkeyIndex state, ts_Balance state, ts_Nonce state, ts_TokenType state))"

definition ToABIAccount :: "'s chain \<Rightarrow> UserState \<Rightarrow> ('s, TypesUserState) prog" where
  "ToABIAccount N s =
    andThen (DecodeState N (us_Data s)) (\<lambda>(id', balance, nonce, token).
      ret \<lparr>ts_PubkeyIndex = id', ts_TokenType = token, ts_Balance = balance, ts_Nonce = nonce\<rparr>)"

fun ToABIVersion_witnesses :: "UserState list \<Rightarrow> ByteArray list \<Rightarrow> ByteArray list res" where
  "ToABIVersion_witnesses [] witnesses = Ok witnesses"
| "ToABIVersion_witnesses (s # siblings) witnesses =
     res_bind (us_HashToByteArray s) (\<lambda>h. ToABIVersion_witnesses siblings (witnesses @ [h]))"

definition ToABIVersion :: "'s chain \<Rightarrow> StateMerkleProof \<Rightarrow> ('s, TypesStateMerkleProof) prog" where
  "ToABIVersion N m =
    andThen (lift (ToABIVersion_witnesses (smp_Siblings m) [])) (\<lambda>witnesses.
    andThen (ToABIAccount N (smp_State m)) (\<lambda>state.
      ret \<lparr>tp_State = state, tp_Witness = witnesses\<rparr>))"

section \<open>Checking and applying transactions\<close>

definition processTransferTx ::
  "'s chain \<Rightarrow> ByteArray \<Rightarrow> Tx \<Rightarrow> StateMerkleProof \<Rightarrow> StateMerkleProof \<Rightarrow> ('s, ByteArray) prog" where
  "processTransferTx N balanceTreeRoot tx fromMerkleProof toMerkleProof =
    andThen (ToABIVersion N fromMerkleProof) (\<lambda>fromMP.
    andThen (ToABIVersion N toMerkleProof) (\<lambda>toMP.
    andThen (db_read (ch_ProcessTransfer N balanceTreeRoot (tx_Data tx) (ts_TokenType (tp_State fromMP)) fromMP toMP))
      (\<lambda>(newRoot, result). ret newRoot)))"

definition Bazooka_ProcessTx ::
  "'s chain \<Rightarrow> ByteArray \<Rightarrow> Tx \<Rightarrow> StateMerkleProof \<Rightarrow> StateMerkleProof \<Rightarrow> ('s, ByteArray) prog" where
  "Bazooka_ProcessTx N balanceTreeRoot tx fromMerkleProof toMerkleProof =
    (if tx_Type tx = TX_TRANSFER_TYPE
     then processTransferTx N balanceTreeRoot tx fromMerkleProof toMerkleProof
     else fail (ErrMsg ''Did not match any options''))"

definition applyTransferTx :: "'s chain \<Rightarrow> bytes \<Rightarrow> bytes \<Rightarrow> Tx \<Rightarrow> ('s, bytes \<times> bytes) prog" where
  "applyTransferTx N sender receiver tx =
    andThen (db_read (ch_ValidateAndApplyTransfer N sender receiver (tx_Data tx))) (\<lambda>u.
      if up_Result u \<noteq> 0 then ret (sender, receiver) else ret (up_NewSender u, up_NewReceiver u))"

definition applyCreate2TransferTx :: "'s chain \<Rightarrow> bytes \<Rightarrow> bytes \<Rightarrow> Tx \<Rightarrow> ('s, bytes \<times> bytes) prog" where
  "applyCreate2TransferTx N sender receiver tx =
    andThen (db_read (ch_ValidateAndApplyCreate2Transfer N sender (tx_Data tx))) (\<lambda>u.
      if up_Result u \<noteq> 0 then ret (sender, receiver) else ret (up_NewSender u, up_NewReceiver u))"

text \<open>The named result \<open>updatedReceiver\<close> is returned without having been set.\<close>

definition applyMassMigrationTx :: "'s chain \<Rightarrow> bytes \<Rightarrow> bytes \<Rightarrow> Tx \<Rightarrow> ('s, bytes \<times> bytes) prog" where
  "applyMassMigrationTx N sender receiver tx =
    andThen (db_read (ch_ValidateAndApplyMassMigration N sender (tx_Data tx))) (\<lambda>u.
      if up_Result u \<noteq> 0 then ret (sender, receiver) else ret (up_NewSender u, []))"

definition ApplyTx :: "'s chain \<Rightarrow> bytes \<Rightarrow> bytes \<Rightarrow> Tx \<Rightarrow> ('s, bytes \<times> bytes) prog" where
  "ApplyTx N sender receiver tx =
    (if tx_Type tx = TX_TRANSFER_TYPE then applyTransferTx N sender receiver tx
     else if tx_Type tx = TX_CREATE_2_TRANSFER then applyCreate2TransferTx N sender receiver tx
     else if tx_Type tx = TX_MASS_MIGRATIONS then applyMassMigrationTx N sender receiver tx
     else fail (ErrMsg ''Didnt match any options''))"

definition compressTransferTxs :: "'s chain \<Rightarrow> bytes list \<Rightarrow> ('s, bytes) prog" where
  "compressTransferTxs N data = db_read (ch_CompressTransfer N data)"

definition compressCreate2TransferTxs :: "'s chain \<Rightarrow> bytes list \<Rightarrow> ('s, bytes) prog" where
  "compressCreate2TransferTxs N data = db_read (ch_CompressCreate2Transfer N data)"

definition compressMassMigrationTxs :: "'s chain \<Rightarrow> bytes list \<Rightarrow> ('s, bytes) prog" where
  "compressMassMigrationTxs N data = db_read (ch_CompressMassMigration N data)"

text \<open>The type of the first transaction decides; \<open>txs[0]\<close> panics on an empty slice.\<close>

definition CompressTxs :: "'s chain \<Rightarrow> Tx list \<Rightarrow> ('s, bytes) prog" where
  "CompressTxs N txs =
    (let data = map tx_Data txs in
     case txs of [] \<Rightarrow> lift (Panic IndexOutOfRange)
     | tx # _ \<Rightarrow>
        (if tx_Type tx = TX_TRANSFER_TYPE then compressTransferTxs N data
         else if tx_Type tx = TX_CREATE_2_TRANSFER then compressCreate2TransferTxs N data
         else if tx_Type tx = TX_MASS_MIGRATIONS then compressMassMigrationTxs N data
         else fail (ErrMsg ''Did not match any options'')))"

text \<open>The arguments as the struct literal places them, \<open>token\<close> in \<open>Amount\<close> and so on.\<close>

definition EncodeTransferTx ::
  "'s chain \<Rightarrow> int \<Rightarrow> int \<Rightarrow> int \<Rightarrow> int \<Rightarrow> int \<Rightarrow> int \<Rightarrow> ('s, bytes) prog" where
  "EncodeTransferTx N from to token nonce amount txType =
    (let tx = \<lparr>tr_TxType = txType, tr_FromIndex = from, tr_ToIndex = to, tr_Amount = token,
       tr_Fee = nonce, tr_Nonce = amount\<rparr>
     in db_read (ch_EncodeTransfer N tx))"

text \<open>\<open>(from, to, nonce, txType, amount, fee)\<close>\<close>

definition DecodeTransferTx ::
  "'s chain \<Rightarrow> bytes \<Rightarrow> ('s, int \<times> int \<times> int \<times> int \<times> int \<times> int) prog" where
  "DecodeTransferTx N txBytes =
    andThen (db_read (ch_DecodeTransfer N txBytes)) (\<lambda>tx.
      ret (tr_FromIndex tx, tr_ToIndex tx, tr_Nonce tx, tr_TxType tx, tr_Amount tx, tr_Fee tx))"

section \<open>Sending\<close>

text \<open>Both functions have their bodies commented out: they return no error and do nothing.\<close>

definition FireDepositFinalisation :: "UserState \<Rightarrow> UserState list \<Rightarrow> u64 \<Rightarrow> ('s, unit) prog" where
  "FireDepositFinalisation TBreplaced siblings subTreeHeight = ret ()"

definition SubmitBatch :: "Commitment list \<Rightarrow> ('s, unit) prog" where
  "SubmitBatch commitments = ret ()"

definition GenerateAuthObj :: "'s chain \<Rightarrow> string \<Rightarrow> call_msg \<Rightarrow> ('s, transact_opts) prog" where
  "GenerateAuthObj N operatorAddress callMsg =
    andThen (db_read (ch_SuggestGasPrice N)) (\<lambda>gasprice.
    andThen (db_read (ch_PendingNonceAt N operatorAddress)) (\<lambda>nonce.
    andThen (db_read (ch_EstimateGas N (callMsg\<lparr>cm_From := operatorAddress\<rparr>))) (\<lambda>gasLimit.
      ret \<lparr>to_GasPrice = gasprice, to_Nonce = int64 nonce, to_GasLimit = gasLimit\<rparr>)))"

section \<open>A reference chain\<close>

text \<open>
  The encoder of go-ethereum packs a number as its 256 low bits and refuses none; what a codec
  of the contract gives back are these bits, read as an unsigned number.  A chain whose codecs
  write every number as a word of 32 bytes, as \<open>abi.encode\<close> does, meets this.
\<close>

definition wrap256 :: "int \<Rightarrow> int" where
  "wrap256 x = x mod 2 ^ 256"

definition wrap_state :: "TypesUserState \<Rightarrow> TypesUserState" where
  "wrap_state t = \<lparr>ts_PubkeyIndex = wrap256 (ts_PubkeyIndex t), ts_TokenType = wrap256 (ts_TokenType t),
     ts_Balance = wrap256 (ts_Balance t), ts_Nonce = wrap256 (ts_Nonce t)\<rparr>"

definition wrap_transfer :: "Transfer \<Rightarrow> Transfer" where
  "wrap_transfer t = \<lparr>tr_TxType = wrap256 (tr_TxType t), tr_FromIndex = wrap256 (tr_FromIndex t),
     tr_ToIndex = wrap256 (tr_ToIndex t), tr_Amount = wrap256 (tr_Amount t), tr_Fee = wrap256 (tr_Fee t),
     tr_Nonce = wrap256 (tr_Nonce t)\<rparr>"

definition state_codec_ok :: "'s chain \<Rightarrow> bool" where
  "state_codec_ok N \<longleftrightarrow> (\<forall>t s. \<exists>b. ch_Encode N t s = Inr b \<and> ch_DecodeState N b s = Inr (wrap_state t))"

definition transfer_codec_ok :: "'s chain \<Rightarrow> bool" where
  "transfer_codec_ok N \<longleftrightarrow> (\<forall>t s. \<exists>b. ch_EncodeTransfer N t s = Inr b \<and> ch_DecodeTransfer N b s = Inr (wrap_transfer t))"

text \<open>Big-endian words.\<close>

fun be_bytes :: "nat \<Rightarrow> int \<Rightarrow> bytes" where
  "be_bytes 0 x = []"
| "be_bytes (Suc n) x = be_bytes n (x div 256) @ [of_int x]"

definition enc_words :: "int list \<Rightarrow> bytes" where
  "enc_words xs = concat (map (be_bytes 32) xs)"

definition word_at :: "nat \<Rightarrow> bytes \<Rightarrow> int" where
  "word_at i b = be_val (take 32 (drop (32 * i) b))"

lemma length_be_bytes [simp]: "length (be_bytes n x) = n"
  by (induction n arbitrary: x) simp_all

lemma be_val_snoc: "be_val (bs @ [b]) = 256 * be_val bs + int (unat b)"
  by (simp add: be_val_def)

lemma be_val_be_bytes: "be_val (be_bytes n x) = x mod 256 ^ n"
proof (induction n arbitrary: x)
  case (Suc n)
  have "int (unat (word_of_int x :: byte)) = x mod 256"
    by (simp add: unsigned_of_int take_bit_eq_mod)
  then show ?case using mod_mult2_eq' [of x "256" "256 ^ n"] Suc
    by (simp add: be_val_snoc)
qed (simp add: be_val_def)

lemma word_at_enc_words:
  assumes "i < length xs"
  shows "word_at i (enc_words xs) = wrap256 (xs ! i)"
  using assms
proof (induction xs arbitrary: i)
  case (Cons x xs)
  have "(256 :: int) ^ 32 = 2 ^ 256" by simp
  with Cons show ?case
    by (cases i) (simp_all add: word_at_def enc_words_def be_val_be_bytes wrap256_def)
qed simp

definition ref_chain :: "'s chain" where
  "ref_chain = \<lparr>
     ch_HeaderByNumber = (\<lambda>n s. Inr \<lparr>hd_Number = (case n of None \<Rightarrow> 9 | Some k \<Rightarrow> k)\<rparr>),
     ch_NumOfBatchesSubmitted = (\<lambda>s. Inr 3),
     ch_TransactionByHash = (\<lambda>h s. Inr ([1, 2, 3, 4] @ h, h = [])),
     ch_UnpackSubmitBatch = (\<lambda>b. Inr [''_txs'' \<mapsto> BytesList [b]]),
     ch_ProcessTransfer = (\<lambda>root d t f u s. Inr (root, 0)),
     ch_ValidateAndApplyTransfer = (\<lambda>a b d s. Inr \<lparr>up_NewSender = a @ d, up_NewReceiver = b @ d,
        up_Result = of_nat (length d)\<rparr>),
     ch_ValidateAndApplyCreate2Transfer = (\<lambda>a d s. Inr \<lparr>up_NewSender = a @ d, up_NewReceiver = d,
        up_Result = of_nat (length d)\<rparr>),
     ch_ValidateAndApplyMassMigration = (\<lambda>a d s. Inr \<lparr>up_NewSender = a @ d, up_NewReceiver = d,
        up_Result = of_nat (length d)\<rparr>),
     ch_CompressTransfer = (\<lambda>d s. Inr (concat d)), ch_CompressCreate2Transfer = (\<lambda>d s. Inr (concat d)),
     ch_CompressMassMigration = (\<lambda>d s. Inr (concat d)),
     ch_EncodeTransfer = (\<lambda>t s. Inr (enc_words [tr_TxType t, tr_FromIndex t, tr_ToIndex t, tr_Amount t, tr_Fee t, tr_Nonce t])),
     ch_DecodeTransfer = (\<lambda>b s. Inr \<lparr>tr_TxType = word_at 0 b, tr_FromIndex = word_at 1 b, tr_ToIndex = word_at 2 b,
        tr_Amount = word_at 3 b, tr_Fee = word_at 4 b, tr_Nonce = word_at 5 b\<rparr>),
     ch_Encode = (\<lambda>t s. Inr (enc_words [ts_PubkeyIndex t, ts_TokenType t, ts_Balance t, ts_Nonce t])),
     ch_DecodeState = (\<lambda>b s. Inr \<lparr>ts_PubkeyIndex = word_at 0 b, ts_TokenType = word_at 1 b, ts_Balance = word_at 2 b,
        ts_Nonce = word_at 3 b\<rparr>),
     ch_SuggestGasPrice = (\<lambda>s. Inr 1), ch_PendingNonceAt = (\<lambda>a s. Inr 0), ch_EstimateGas = (\<lambda>m s. Inr 21000)\<rparr>"

lemma ref_codecs_ok: "state_codec_ok ref_chain" "transfer_codec_ok ref_chain"
  by (simp_all add: state_codec_ok_def transfer_codec_ok_def ref_chain_def wrap_state_def wrap_transfer_def
    word_at_enc_words)

section \<open>Lemmas\<close>

lemma int64_small: "unat x < 2 ^ 63 \<Longrightarrow> int64 x = int (unat x)"
proof -
  assume x: "unat x < 2 ^ 63"
  have "int (unat x) < int (2 ^ 63)" using x by (simp only: of_nat_less_iff)
  then have u: "uint x < 2 ^ 63" by simp
  have nn: "- (2 ^ 63) \<le> uint x" by (rule order_trans [of _ 0]) simp_all
  have "sint x = signed_take_bit 63 (uint x)" using sint_uint [of x] by simp
  also have "\<dots> = uint x" by (rule signed_take_bit_int_eq_self) (use u nn in simp_all)
  finally show "int64 x = int (unat x)" by (simp add: int64_def)
qed

lemma ToABIVersion_witnesses_ok:
  "\<forall>s \<in> set sibs. hash_ok (us_Hash s) \<Longrightarrow>
   ToABIVersion_witnesses sibs ws = Ok (ws @ map (\<lambda>s. bytes_of_text (us_Hash s)) sibs)"
proof (induction sibs arbitrary: ws)
  case (Cons s sibs)
  then obtain b where "hash_to_bytes (us_Hash s) = Ok b" "HexToByteArray (us_Hash s) = Ok b"
    by (auto elim: hash_okE)
  with Cons show ?case by (simp add: us_HashToByteArray_def bytes_of_text_def)
qed simp

lemma sib_rows_hash_ok:
  assumes "state_tree L view d s" "binary p" "length p \<le> d"
  shows "\<forall>x \<in> set (sib_rows (state_node view s) (rev p)). hash_ok (us_Hash x)"
  using assms(2,3)
proof (induction p rule: rev_induct)
  case (snoc c p)
  have "binary (sib (p @ [c]))" "length (sib (p @ [c])) \<le> d"
    using snoc.prems by (simp_all add: flip_char_def)
  then obtain n where "state_node view s (sib (p @ [c])) = Some n" "hash_ok (us_Hash n)"
    using assms(1) unfolding state_tree_def by blast
  with snoc show ?case by simp
qed simp

lemma int64_large: "\<not> unat x < 2 ^ 63 \<Longrightarrow> int64 x = int (unat x) - 2 ^ 64"
proof -
  assume big: "\<not> unat x < 2 ^ 63"
  have "sint x = (uint x + 2 ^ 63) mod 2 ^ 64 - 2 ^ 63"
    by (simp add: sint_uint signed_take_bit_eq_take_bit_shift take_bit_eq_mod)
  moreover have "uint x < 2 ^ 64" using uint_lt2p [of x] by simp
  moreover have "2 ^ 63 \<le> uint x"
  proof -
    have "int (2 ^ 63) \<le> int (unat x)" using big by (simp only: of_nat_le_iff not_less)
    then show ?thesis by simp
  qed
  ultimately have "(uint x + 2 ^ 63) mod 2 ^ 64 = uint x + 2 ^ 63 - 2 ^ 64"
    using mod_pos_pos_trivial [of "uint x + 2 ^ 63 - 2 ^ 64" "2 ^ 64"]
      minus_mod_self2 [of "uint x + 2 ^ 63" "2 ^ 64"] by simp
  with \<open>sint x = _\<close> show ?thesis by (simp add: int64_def)
qed

text \<open>The number that arrives at the contract.\<close>

definition contract_num :: "u64 \<Rightarrow> int" where
  "contract_num x = (if unat x < 2 ^ 63 then int (unat x) else 2 ^ 256 - 2 ^ 64 + int (unat x))"

lemma wrap256_int64: "wrap256 (int64 x) = contract_num x"
proof (cases "unat x < 2 ^ 63")
  case True
  then have "int (unat x) < 2 ^ 63" by (simp flip: of_nat_less_iff [where 'a = int])
  then show ?thesis using True by (simp add: wrap256_def contract_num_def int64_small mod_pos_pos_trivial)
next
  case False
  have u: "int (unat x) < 2 ^ 64" using unsigned_less [of x, where 'a = int] by simp
  have "int64 x mod 2 ^ 256 = (int64 x + 2 ^ 256) mod 2 ^ 256" by simp
  also have "\<dots> = int64 x + 2 ^ 256"
    by (rule mod_pos_pos_trivial) (use u int64_large [OF False] in simp_all)
  finally show ?thesis using False by (simp add: wrap256_def contract_num_def int64_large)
qed

lemma contract_num_eq: "contract_num x = uint x \<longleftrightarrow> unat x < 2 ^ 63"
  by (simp add: contract_num_def)

lemma DecodeState_Encode:
  assumes "state_codec_ok N"
  shows "\<exists>b. EncodeState N i ba n t s = (Ok b, s) \<and>
    ch_DecodeState N b s = Inr \<lparr>ts_PubkeyIndex = contract_num i, ts_TokenType = contract_num t,
      ts_Balance = contract_num ba, ts_Nonce = contract_num n\<rparr>"
  using assms[unfolded state_codec_ok_def, rule_format, of "\<lparr>ts_PubkeyIndex = int64 i,
      ts_TokenType = int64 t, ts_Balance = int64 ba, ts_Nonce = int64 n\<rparr>" s]
  by (auto simp: EncodeState_def db_read_Inr wrap_state_def wrap256_int64)

lemma DecodeState_small:
  assumes "state_codec_ok N" "unat i < 2 ^ 63" "unat ba < 2 ^ 63" "unat n < 2 ^ 63" "unat t < 2 ^ 63"
  shows "\<exists>b. EncodeState N i ba n t s = (Ok b, s) \<and>
    ch_DecodeState N b s = Inr \<lparr>ts_PubkeyIndex = int (unat i), ts_TokenType = int (unat t),
      ts_Balance = int (unat ba), ts_Nonce = int (unat n)\<rparr>"
  using DecodeState_Encode [OF assms(1), of i ba n t s] assms(2-5) by (simp add: contract_num_def)

section \<open>Properties\<close>

text \<open>
  A state that is encoded through the contract is decoded with the same four numbers,
  as long as each is below \<open>2 ^ 63\<close>.
\<close>

theorem state_codec_roundtrip:
  assumes "state_codec_ok N" "unat i < 2 ^ 63" "unat ba < 2 ^ 63" "unat n < 2 ^ 63" "unat t < 2 ^ 63"
  shows "\<exists>b. EncodeState N i ba n t s = (Ok b, s) \<and>
    DecodeState N b s = (Ok (int (unat i), int (unat ba), int (unat n), int (unat t)), s) \<and>
    ToABIAccount N (u\<lparr>us_Data := b\<rparr>) s = (Ok \<lparr>ts_PubkeyIndex = int (unat i), ts_TokenType = int (unat t),
      ts_Balance = int (unat ba), ts_Nonce = int (unat n)\<rparr>, s)"
  using DecodeState_small [OF assms, of s]
  by (auto simp: DecodeState_def ToABIAccount_def andThen_def db_read_def)

theorem state_codec_roundtrip_witness:
  "\<exists>b. EncodeState ref_chain 1 2 3 4 () = (Ok b, ()) \<and> DecodeState ref_chain b () = (Ok (1, 2, 3, 4), ())"
  using state_codec_roundtrip [OF ref_codecs_ok(1), of 1 2 3 4 "()"] by auto

text \<open>
  \<open>EncodeTransferTx\<close> puts its arguments into the wrong fields: decoding what it encoded
  gives the token as the amount, the nonce as the fee and the amount as the nonce.
\<close>

theorem transfer_codec_misplaces:
  assumes "transfer_codec_ok N" "list_all (\<lambda>x. 0 \<le> x \<and> x < 2 ^ 63) [from, to, token, nonce, amount, txType]"
  shows "\<exists>b. EncodeTransferTx N from to token nonce amount txType s = (Ok b, s) \<and>
    DecodeTransferTx N b s = (Ok (from, to, amount, txType, token, nonce), s)"
proof -
  have "wrap256 x = x" if "0 \<le> x \<and> x < 2 ^ 63" for x
    using that by (simp add: wrap256_def mod_pos_pos_trivial)
  then show ?thesis
    using assms(1)[unfolded transfer_codec_ok_def, rule_format, of "\<lparr>tr_TxType = txType, tr_FromIndex = from,
        tr_ToIndex = to, tr_Amount = token, tr_Fee = nonce, tr_Nonce = amount\<rparr>" s] assms(2)
    by (auto simp: EncodeTransferTx_def DecodeTransferTx_def db_read_Inr andThen_ok wrap_transfer_def)
qed

theorem transfer_codec_misplaces_witness:
  "\<exists>b. EncodeTransferTx ref_chain 1 2 7 3 9 1 () = (Ok b, ()) \<and> DecodeTransferTx ref_chain b () = (Ok (1, 2, 9, 1, 7, 3), ())"
  using transfer_codec_misplaces [OF ref_codecs_ok(2), of 1 2 7 3 9 1 "()"] by simp

text \<open>
  C17. A transaction that the contract rejects is applied as one that changes nothing: the
  result code is dropped, and \<open>ApplyTx\<close> returns both states unchanged without an error.
\<close>

theorem ApplyTx_rejected_is_noop:
  assumes "tx_Type tx = TX_TRANSFER_TYPE \<and> ch_ValidateAndApplyTransfer N a b (tx_Data tx) s = Inr u \<or>
      tx_Type tx = TX_CREATE_2_TRANSFER \<and> ch_ValidateAndApplyCreate2Transfer N a (tx_Data tx) s = Inr u \<or>
      tx_Type tx = TX_MASS_MIGRATIONS \<and> ch_ValidateAndApplyMassMigration N a (tx_Data tx) s = Inr u"
    and "up_Result u \<noteq> 0"
  shows "ApplyTx N a b tx s = (Ok (a, b), s)"
  using assms by (auto simp: ApplyTx_def applyTransferTx_def applyCreate2TransferTx_def applyMassMigrationTx_def
    andThen_def db_read_def)

theorem ApplyTx_rejected_is_noop_witness:
  "ApplyTx ref_chain [1] [2] (zero_Tx\<lparr>tx_Type := TX_TRANSFER_TYPE, tx_Data := [5]\<rparr>) () = (Ok ([1], [2]), ())"
  by (rule ApplyTx_rejected_is_noop [where u = "\<lparr>up_NewSender = [1, 5], up_NewReceiver = [2, 5], up_Result = 1\<rparr>"])
    (simp_all add: ref_chain_def)

text \<open>
  C14. The proof that the contracts get of a tree's leaf is one that they accept: its
  witness, folded along the path onto the leaf's hash, is the stored root.
\<close>

theorem ToABIVersion_proves_root:
  assumes "gorm_ok G view up" "libs_ok L" "up s" "state_tree L view d s" "params (view s) = [pm]"
    and "d = unat (pm_MaxDepth pm)" "0 < d" "unat i < 2 ^ d" "0 < wg"
    and "state_node view s (bits d (unat i)) = Some n" "ch_DecodeState N (us_Data n) s = Inr t"
  shows "\<exists>mp abi root. FetchMPWithID G i wg s = (Ok (mp, wg - 1), s) \<and> smp_State mp = n \<and>
    ToABIVersion N mp s = (Ok abi, s) \<and> tp_State abi = t \<and> length (tp_Witness abi) = d \<and>
    state_node view s [] = Some root \<and>
    us_Hash root = proof_root (node_hash L) (rev (bits d (unat i))) (us_Hash n)
      (map ByteArray_String (tp_Witness abi))"
proof -
  have inv: "db_inv G L view up s" using assms by (simp add: db_inv_def)
  let ?p = "bits d (unat i)"
  have p: "binary ?p" "length ?p = d" using bits_facts [OF assms(8,7)] by simp_all
  have path: "us_Path n = ?p" using assms(10) by (simp add: state_node_def row_at_path)
  obtain sibs root where sib: "GetSiblings G ?p s = (Ok sibs, s)" "length sibs = d"
    "state_node view s [] = Some root"
    "us_Hash root = proof_root (node_hash L) (rev ?p) (us_Hash n) (map us_Hash sibs)"
    using GetSiblings_proof [OF inv assms(4) p(1) _ assms(10)] p(2) by auto
  have "sibs = sib_rows (state_node view s) (rev ?p)"
    using GetSiblings_run [OF inv assms(4) p(1)] p(2) sib(1) by simp
  then have ok: "\<forall>x \<in> set sibs. hash_ok (us_Hash x)"
    using sib_rows_hash_ok [OF assms(4) p(1)] p(2) by simp
  have "FetchMPWithID G i wg s = (Ok (NewStateMerkleProof n sibs, wg - 1), s)"
    using GetStateByIndex_run [OF inv assms(5-8,10)] sib(1) path assms(9)
    by (simp add: FetchMPWithID_def andThen_ok wait_done_def Let_def)
  moreover have "us_Hash root = proof_root (node_hash L) (rev ?p) (us_Hash n)
      (map ByteArray_String (map (\<lambda>x. bytes_of_text (us_Hash x)) sibs))"
    unfolding sib(4) by (rule arg_cong [of "map us_Hash sibs"]) (use ok in \<open>auto simp: hash_ok_def\<close>)
  moreover have "ToABIVersion N (NewStateMerkleProof n sibs) s =
      (Ok \<lparr>tp_State = t, tp_Witness = map (\<lambda>x. bytes_of_text (us_Hash x)) sibs\<rparr>, s)"
    using assms(11) ToABIVersion_witnesses_ok [OF ok, of "[]"]
    by (simp add: NewStateMerkleProof_def ToABIVersion_def ToABIAccount_def DecodeState_def andThen_ok db_read_Inr)
  ultimately show ?thesis
    using sib(2,3)
    by (intro exI [of _ "NewStateMerkleProof n sibs"] exI [of _ root]
      exI [of _ "\<lparr>tp_State = t, tp_Witness = map (\<lambda>x. bytes_of_text (us_Hash x)) sibs\<rparr>"])
      (simp add: NewStateMerkleProof_def)
qed

theorem ToABIVersion_proves_root_witness:
  "\<exists>mp abi root. FetchMPWithID ms_gorm 2 1 ex_ms = (Ok (mp, 0), ex_ms) \<and>
    ToABIVersion ref_chain mp ex_ms = (Ok abi, ex_ms) \<and> length (tp_Witness abi) = 2 \<and>
    state_node ms_rows ex_ms [] = Some root \<and>
    us_Hash root = proof_root (node_hash ref_libs) (rev (bits 2 2)) (us_Hash (smp_State mp))
      (map ByteArray_String (tp_Witness abi))"
proof -
  have b: "binary (bits 2 2)" "length (bits 2 2) = 2" using bits_facts [of 2 2] by simp_all
  obtain n where n: "state_node ms_rows ex_ms (bits 2 2) = Some n"
    using ex_ms_tree b unfolding state_tree_def by (metis order_refl)
  have "\<exists>t. ch_DecodeState ref_chain (us_Data n) ex_ms = Inr t"
    by (simp add: ref_chain_def case_prod_beta)
  then obtain t where t: "ch_DecodeState ref_chain (us_Data n) ex_ms = Inr t" ..
  have pm: "params (ms_rows ex_ms) = [pm_example]" "2 = unat (pm_MaxDepth pm_example)"
    by (simp_all add: ex_ms_def pm_example_def)
  show ?thesis
    using ToABIVersion_proves_root [OF conn_okD(2) [OF mem_conn_ok] ref_libs_ok TrueI ex_ms_tree pm,
        where i = 2 and wg = 1 and n = n and t = t and N = ref_chain] n t by auto
qed

text \<open>
  C30. What becomes of the numbers that \<open>EncodeState\<close> hands to the contract: it never refuses
  one; one below \<open>2 ^ 63\<close> arrives as it is, and one from \<open>2 ^ 63\<close> on, which the cast to \<open>int64\<close>
  has made negative, arrives as a number above \<open>2 ^ 255\<close>.
\<close>

theorem EncodeState_range:
  assumes "state_codec_ok N"
  shows "\<exists>b. EncodeState N i ba n t s = (Ok b, s) \<and>
    DecodeState N b s = (Ok (contract_num i, contract_num ba, contract_num n, contract_num t), s) \<and>
    (\<forall>x. (contract_num x = int (unat x) \<longleftrightarrow> unat x < 2 ^ 63) \<and> (contract_num x < 2 ^ 255 \<longleftrightarrow> unat x < 2 ^ 63))"
proof -
  have "contract_num x < 2 ^ 255 \<longleftrightarrow> unat x < 2 ^ 63" for x
  proof (cases "unat x < 2 ^ 63")
    case True
    then have "int (unat x) < 2 ^ 63" by (simp flip: of_nat_less_iff [where 'a = int])
    then show ?thesis using True by (simp add: contract_num_def)
  next
    case False
    have "0 \<le> uint x" by (rule unsigned_greater_eq)
    then have "\<not> k + uint x < 0" if "0 \<le> k" for k using that by linarith
    with False show ?thesis by (simp add: contract_num_def)
  qed
  with DecodeState_Encode [OF assms, of i ba n t s] show ?thesis
    by (auto simp: DecodeState_def andThen_def db_read_def contract_num_eq)
qed

theorem EncodeState_range_witness:
  "\<exists>b. EncodeState ref_chain (2 ^ 63) 2 3 4 () = (Ok b, ()) \<and>
     DecodeState ref_chain b () = (Ok (2 ^ 256 - 2 ^ 63, 2, 3, 4), ())"
  using EncodeState_range [OF ref_codecs_ok(1), of "2 ^ 63" 2 3 4 "()"] by (auto simp: contract_num_def)

end
