(* ===== verification/Services.thy ===== *)
theory Services
  imports Go_Prelude
begin

text \<open>
  \<open>core/service.go\<close>: the life cycle that the syncer and the aggregator share.  A service is
  the two atomic flags, whether its quit channel is closed, and the state \<open>'w\<close> of the struct
  that embeds it, on which the callbacks \<open>OnStart\<close>, \<open>OnStop\<close>, \<open>OnReset\<close> of its \<open>impl\<close> run.
  The calls are not concurrent (``The caller must ensure that Start and Stop are not called
  concurrently''), so each is one step of the relation \<open>svc_step\<close>.
\<close>

record 'w svc =
  sv_name :: string
  sv_started :: u32
  sv_stopped :: u32
  sv_quit :: bool
  sv_world :: 'w

record 'w impl =
  im_OnStart :: "('w, unit) prog"
  im_OnStop :: "('w, unit) prog"
  im_OnReset :: "('w, unit) prog"

definition ErrAlreadyStarted :: go_error where "ErrAlreadyStarted = ErrMsg ''already started''"
definition ErrAlreadyStopped :: go_error where "ErrAlreadyStopped = ErrMsg ''already stopped''"
definition ErrNotStarted :: go_error where "ErrNotStarted = ErrMsg ''not started''"

section \<open>Operations\<close>

definition NewBaseService :: "string \<Rightarrow> 'w \<Rightarrow> 'w svc" where
  "NewBaseService name w = \<lparr>sv_name = name, sv_started = 0, sv_stopped = 0, sv_quit = False, sv_world = w\<rparr>"

text \<open>A callback runs on the struct's own part of the state.\<close>

definition on_world :: "('w, 'a) prog \<Rightarrow> ('w svc, 'a) prog" where
  "on_world m = (\<lambda>s. case m (sv_world s) of (r, w) \<Rightarrow> (r, s\<lparr>sv_world := w\<rparr>))"

definition Start :: "'w impl \<Rightarrow> ('w svc, unit) prog" where
  "Start I = (\<lambda>s.
    if sv_started s = 0 then
      (let s = s\<lparr>sv_started := 1\<rparr> in
       if sv_stopped s = 1 then (Err ErrAlreadyStopped, s\<lparr>sv_started := 0\<rparr>)
       else (case on_world (im_OnStart I) s of
           (Err err, s) \<Rightarrow> (Err err, s\<lparr>sv_started := 0\<rparr>)
         | (r, s) \<Rightarrow> (r, s)))
    else (Err ErrAlreadyStarted, s))"

text \<open>\<open>close(bs.quit)\<close> panics on a channel that is closed.\<close>

definition close_quit :: "('w svc, unit) prog" where
  "close_quit = (\<lambda>s. if sv_quit s then (Panic (PanicMsg ''close of closed channel''), s)
     else (Ok (), s\<lparr>sv_quit := True\<rparr>))"

text \<open>\<open>OnStop\<close> has no result, so it can only return or panic.\<close>

definition Stop :: "'w impl \<Rightarrow> ('w svc, unit) prog" where
  "Stop I = (\<lambda>s.
    if sv_stopped s = 0 then
      (let s = s\<lparr>sv_stopped := 1\<rparr> in
       if sv_started s = 0 then (Err ErrNotStarted, s\<lparr>sv_stopped := 0\<rparr>)
       else andThen (on_world (ignoreErr (im_OnStop I))) (\<lambda>_. close_quit) s)
    else (Err ErrAlreadyStopped, s))"

definition Reset :: "'w impl \<Rightarrow> ('w svc, unit) prog" where
  "Reset I = (\<lambda>s.
    if sv_stopped s \<noteq> 1 then (Err (ErrMsg (''can'' @ [CHR 0x27] @ ''t reset running '' @ sv_name s)), s)
    else (let s = s\<lparr>sv_stopped := 0\<rparr>;
              s = (if sv_started s = 1 then s\<lparr>sv_started := 0\<rparr> else s);
              s = s\<lparr>sv_quit := False\<rparr>
          in on_world (im_OnReset I) s))"

definition Base_OnStart :: "('w, unit) prog" where
  "Base_OnStart = ret ()"

definition Base_OnStop :: "('w, unit) prog" where
  "Base_OnStop = ret ()"

definition Base_OnReset :: "('w, unit) prog" where
  "Base_OnReset = lift (Panic (PanicMsg ''The service cannot be reset''))"

definition IsRunning :: "'w svc \<Rightarrow> bool" where
  "IsRunning s \<longleftrightarrow> sv_started s = 1 \<and> sv_stopped s = 0"

text \<open>\<open>Wait\<close> returns once the quit channel is closed.\<close>

definition Wait_returns :: "'w svc \<Rightarrow> bool" where
  "Wait_returns s = sv_quit s"

section \<open>The state machine\<close>

text \<open>The calls that return; one that panics ends the program.\<close>

inductive svc_step :: "'w impl \<Rightarrow> 'w svc \<Rightarrow> 'w svc \<Rightarrow> bool" for I where
  step_Start: "Start I s = (r, s') \<Longrightarrow> \<not> is_Panic r \<Longrightarrow> svc_step I s s'"
| step_Stop: "Stop I s = (r, s') \<Longrightarrow> \<not> is_Panic r \<Longrightarrow> svc_step I s s'"
| step_Reset: "Reset I s = (r, s') \<Longrightarrow> \<not> is_Panic r \<Longrightarrow> svc_step I s s'"

inductive svc_reach :: "'w impl \<Rightarrow> 'w \<Rightarrow> 'w svc \<Rightarrow> bool" for I w where
  reach_new: "svc_reach I w (NewBaseService name w)"
| reach_step: "svc_reach I w s \<Longrightarrow> svc_step I s s' \<Longrightarrow> svc_reach I w s'"

inductive_cases svc_stepE: "svc_step I s s'"
inductive_simps svc_step_iff: "svc_step I s s'"

definition svc_inv :: "'w svc \<Rightarrow> bool" where
  "svc_inv s \<longleftrightarrow> sv_started s \<in> {0, 1} \<and> sv_stopped s \<in> {0, 1} \<and>
     (sv_stopped s = 1 \<longrightarrow> sv_started s = 1) \<and> (sv_quit s \<longleftrightarrow> sv_stopped s = 1)"

lemma svc_inv_Start: "svc_inv s \<Longrightarrow> Start I s = (r, s') \<Longrightarrow> svc_inv s'"
  by (auto simp: svc_inv_def Start_def on_world_def Let_def split: if_splits prod.splits res.splits)

lemma svc_inv_Stop: "svc_inv s \<Longrightarrow> Stop I s = (r, s') \<Longrightarrow> \<not> is_Panic r \<Longrightarrow> svc_inv s'"
  by (auto simp: svc_inv_def Stop_def on_world_def close_quit_def andThen_def ignoreErr_def Let_def
    split: if_splits prod.splits res.splits)

lemma svc_inv_Reset: "svc_inv s \<Longrightarrow> Reset I s = (r, s') \<Longrightarrow> svc_inv s'"
  by (auto simp: svc_inv_def Reset_def on_world_def Let_def split: if_splits prod.splits)

lemma svc_reach_inv: "svc_reach I w s \<Longrightarrow> svc_inv s"
proof (induction rule: svc_reach.induct)
  case (reach_new name)
  show ?case by (simp add: svc_inv_def NewBaseService_def)
next
  case (reach_step s s')
  then show ?case by (auto elim!: svc_stepE dest: svc_inv_Start svc_inv_Stop svc_inv_Reset)
qed

lemma Start_fresh:
  assumes "sv_started s = 0" "sv_stopped s = 0"
  shows "Start I s = (case im_OnStart I (sv_world s) of
     (Ok _, w) \<Rightarrow> (Ok (), s\<lparr>sv_started := 1, sv_world := w\<rparr>)
   | (Err e, w) \<Rightarrow> (Err e, s\<lparr>sv_world := w\<rparr>)
   | (Panic p, w) \<Rightarrow> (Panic p, s\<lparr>sv_started := 1, sv_world := w\<rparr>))"
  using assms by (simp add: Start_def on_world_def Let_def split: prod.split res.split)

lemma Stop_running:
  assumes "IsRunning s" "svc_inv s" "im_OnStop I (sv_world s) = (Ok (), w)"
  shows "Stop I s = (Ok (), s\<lparr>sv_stopped := 1, sv_quit := True, sv_world := w\<rparr>)"
  using assms by (auto simp: IsRunning_def svc_inv_def Stop_def on_world_def andThen_def close_quit_def ignoreErr_def Let_def)

section \<open>What a service promises its users\<close>

text \<open>
  The contract between \<open>BaseService\<close> and the struct that embeds it: \<open>OnStart\<close> leaves the
  struct \<open>ready\<close> to be stopped, and \<open>OnStop\<close> of a struct that is ready never fails.
\<close>

locale managed_service =
  fixes I :: "'w impl" and ready :: "'w \<Rightarrow> bool"
  assumes start_ready: "im_OnStart I w = (Ok (), w') \<Longrightarrow> ready w'"
    and stop_total: "ready w \<Longrightarrow> \<exists>w'. im_OnStop I w = (Ok (), w')"
begin

lemma reach_ready: "svc_reach I w0 s \<Longrightarrow> IsRunning s \<Longrightarrow> ready (sv_world s)"
proof (induction rule: svc_reach.induct)
  case (reach_new name)
  then show ?case by (simp add: NewBaseService_def IsRunning_def)
next
  case (reach_step s s')
  note inv = svc_reach_inv [OF reach_step.hyps(1)]
  from reach_step.hyps(2) show ?case
  proof (cases rule: svc_step.cases)
    case (step_Start r)
    then show ?thesis
      using reach_step.prems reach_step.IH inv
      by (cases "sv_started s = 0")
        (auto simp: Start_def on_world_def IsRunning_def svc_inv_def Let_def start_ready
          split: if_splits prod.splits res.splits)
  next
    case (step_Stop r)
    then show ?thesis
      using reach_step.prems reach_step.IH inv
      by (auto simp: Stop_def on_world_def IsRunning_def svc_inv_def andThen_def close_quit_def ignoreErr_def Let_def
          split: if_splits prod.splits res.splits)
  next
    case (step_Reset r)
    then show ?thesis
      using reach_step.prems reach_step.IH inv
      by (auto simp: Reset_def on_world_def IsRunning_def svc_inv_def Let_def split: if_splits prod.splits)
  qed
qed

lemma stop_works:
  assumes "svc_reach I w0 s" "IsRunning s"
  shows "\<exists>s'. Stop I s = (Ok (), s') \<and> \<not> IsRunning s' \<and> Wait_returns s'"
proof -
  obtain w where "im_OnStop I (sv_world s) = (Ok (), w)"
    using stop_total [OF reach_ready [OF assms]] by blast
  from Stop_running [OF assms(2) svc_reach_inv [OF assms(1)] this] show ?thesis
    by (simp add: IsRunning_def Wait_returns_def)
qed

end

text \<open>
  A service that always starts and refuses to be reset, as both services of the program do:
  while it runs, its struct is what \<open>OnStart\<close> made of the new one, and \<open>Stop\<close> leaves what
  \<open>OnStop\<close> makes of that.
\<close>

locale one_shot_service = managed_service I ready for I :: "'w impl" and ready +
  assumes start_total: "\<exists>w'. im_OnStart I w = (Ok (), w')"
    and reset_refused: "is_Panic (fst (im_OnReset I w))"
begin

lemma reach_world:
  "svc_reach I w0 s \<Longrightarrow> (sv_started s = 0 \<longrightarrow> sv_world s = w0) \<and>
     (IsRunning s \<longrightarrow> im_OnStart I w0 = (Ok (), sv_world s))"
proof (induction rule: svc_reach.induct)
  case (reach_new name)
  show ?case by (simp add: NewBaseService_def IsRunning_def)
next
  case (reach_step s s')
  note inv = svc_reach_inv [OF reach_step.hyps(1)]
  from reach_step.hyps(2) show ?case
  proof (cases rule: svc_step.cases)
    case (step_Start r)
    obtain w' where "im_OnStart I (sv_world s) = (Ok (), w')" using start_total by blast
    with step_Start reach_step.IH inv show ?thesis
      by (cases "sv_started s = 0") (auto simp: Start_def on_world_def IsRunning_def svc_inv_def Let_def)
  next
    case (step_Stop r)
    with reach_step.IH inv show ?thesis
      by (auto simp: Stop_def on_world_def IsRunning_def svc_inv_def andThen_def close_quit_def ignoreErr_def Let_def
          split: if_splits prod.splits res.splits)
  next
    case (step_Reset r)
    then have "\<not> sv_stopped s = 1"
      using reset_refused [of "sv_world s"] by (auto simp: Reset_def on_world_def Let_def split: prod.splits if_splits)
    with step_Reset reach_step.IH show ?thesis by (simp add: Reset_def)
  qed
qed

lemma stop_world:
  assumes "svc_reach I w0 s" "IsRunning s" "im_OnStart I w0 = (Ok (), w1)" "im_OnStop I w1 = (Ok (), w2)"
  shows "\<exists>s'. Stop I s = (Ok (), s') \<and> \<not> IsRunning s' \<and> Wait_returns s' \<and> sv_world s' = w2"
proof -
  have "im_OnStop I (sv_world s) = (Ok (), w2)" using reach_world [OF assms(1)] assms(2-4) by simp
  from Stop_running [OF assms(2) svc_reach_inv [OF assms(1)] this] show ?thesis
    by (simp add: IsRunning_def Wait_returns_def)
qed

lemma start_world:
  "\<exists>s w. Start I (NewBaseService name w0) = (Ok (), s) \<and> im_OnStart I w0 = (Ok (), w) \<and> sv_world s = w \<and>
     IsRunning s \<and> svc_reach I w0 s"
proof -
  obtain w where w: "im_OnStart I w0 = (Ok (), w)" using start_total by blast
  let ?s = "(NewBaseService name w0)\<lparr>sv_started := 1, sv_world := w\<rparr>"
  have start: "Start I (NewBaseService name w0) = (Ok (), ?s)"
    by (subst Start_fresh) (simp_all add: NewBaseService_def w)
  have "svc_reach I w0 ?s" by (rule reach_step [OF reach_new step_Start [OF start]]) simp
  with start show ?thesis using w by (intro exI [of _ ?s] exI [of _ w]) (simp add: IsRunning_def NewBaseService_def)
qed

end

section \<open>Goroutines of a service\<close>

text \<open>
  The part of a service's struct that deals with its goroutines: the contexts made so far
  are numbered, \<open>lw_cancel\<close> says of which context each field's cancel function is, \<open>lw_loops\<close>
  lists the loops that were started with the context they watch.
\<close>

record 's loops =
  lw_db :: 's
  lw_contexts :: nat
  lw_cancel :: "string \<rightharpoonup> nat"
  lw_loops :: "(string \<times> nat) list"
  lw_cancelled :: "nat list"

text \<open>\<open>ctx, cancel := context.WithCancel(..); s.field = cancel\<close>\<close>

definition WithCancel :: "string \<Rightarrow> ('s loops, nat) prog" where
  "WithCancel fld = (\<lambda>w. (Ok (lw_contexts w),
     w\<lparr>lw_contexts := Suc (lw_contexts w), lw_cancel := (lw_cancel w)(fld \<mapsto> lw_contexts w)\<rparr>))"

definition go_loop :: "string \<Rightarrow> nat \<Rightarrow> ('s loops, unit) prog" where
  "go_loop name ctx = (\<lambda>w. (Ok (), w\<lparr>lw_loops := lw_loops w @ [(name, ctx)]\<rparr>))"

text \<open>\<open>s.field()\<close>: a nil function value panics.\<close>

definition call_cancel :: "string \<Rightarrow> ('s loops, unit) prog" where
  "call_cancel fld = (\<lambda>w. case lw_cancel w fld of
     None \<Rightarrow> (Panic NilDereference, w)
   | Some ctx \<Rightarrow> (Ok (), w\<lparr>lw_cancelled := ctx # lw_cancelled w\<rparr>))"

definition on_db :: "('s \<Rightarrow> 's) \<Rightarrow> ('s loops, unit) prog" where
  "on_db f = (\<lambda>w. (Ok (), w\<lparr>lw_db := f (lw_db w)\<rparr>))"

definition new_loops :: "'s \<Rightarrow> 's loops" where
  "new_loops s = \<lparr>lw_db = s, lw_contexts = 0, lw_cancel = Map.empty, lw_loops = [], lw_cancelled = []\<rparr>"

definition all_cancelled :: "'s loops \<Rightarrow> bool" where
  "all_cancelled w \<longleftrightarrow> snd ` set (lw_loops w) \<subseteq> set (lw_cancelled w)"

lemmas loops_defs = WithCancel_def go_loop_def call_cancel_def on_db_def

section \<open>Properties\<close>

text \<open>
  C19. In every state that calls of \<open>Start\<close>, \<open>Stop\<close> and \<open>Reset\<close> can lead to, the flags are
  consistent: a stopped service was started, its quit channel is closed exactly when it is
  stopped, \<open>close(quit)\<close> never panics, and a service that runs cannot be started again.
  \<open>Start\<close> never finds a service stopped but not started: that branch is dead, and starting
  a stopped service reports that it is already started.
\<close>

theorem service_flags:
  assumes "svc_reach I w s"
  shows "svc_inv s \<and> (IsRunning s \<longrightarrow> \<not> Wait_returns s \<and> Start I s = (Err ErrAlreadyStarted, s)) \<and>
    (sv_stopped s = 1 \<longrightarrow> Start I s = (Err ErrAlreadyStarted, s) \<and> Stop I s = (Err ErrAlreadyStopped, s)) \<and>
    (\<forall>p. fst (Stop I s) = Panic p \<longrightarrow> fst (im_OnStop I (sv_world s)) = Panic p)"
  using svc_reach_inv [OF assms]
  by (auto simp: svc_inv_def IsRunning_def Wait_returns_def Start_def Stop_def Let_def andThen_def on_world_def
    close_quit_def ignoreErr_def split: prod.splits res.splits)

definition ex_impl :: "nat impl" where
  "ex_impl = \<lparr>im_OnStart = (\<lambda>w. (if w = 0 then Err (ErrMsg ''not yet'') else Ok (), Suc w)),
     im_OnStop = (\<lambda>w. (Ok (), w)), im_OnReset = (\<lambda>w. (Ok (), w))\<rparr>"

lemma ex_stopped: "\<exists>s. svc_reach ex_impl 0 s \<and> sv_stopped s = 1"
proof -
  have r0: "svc_reach ex_impl 0 (NewBaseService ''x'' 0)" by (rule reach_new)
  have r1: "svc_reach ex_impl 0 (snd (Start ex_impl (NewBaseService ''x'' 0)))"
    by (rule reach_step [OF r0 step_Start]) (auto simp: Start_fresh NewBaseService_def ex_impl_def)
  have r2: "svc_reach ex_impl 0 (snd (Start ex_impl (snd (Start ex_impl (NewBaseService ''x'' 0)))))"
    by (rule reach_step [OF r1 step_Start]) (auto simp: Start_fresh NewBaseService_def ex_impl_def)
  have "svc_reach ex_impl 0 (snd (Stop ex_impl (snd (Start ex_impl (snd (Start ex_impl (NewBaseService ''x'' 0)))))))"
    by (rule reach_step [OF r2 step_Stop])
      (auto simp: Start_fresh Stop_def NewBaseService_def ex_impl_def on_world_def close_quit_def andThen_def ignoreErr_def)
  moreover have "sv_stopped (snd (Stop ex_impl (snd (Start ex_impl (snd (Start ex_impl (NewBaseService ''x'' 0))))))) = 1"
    by (simp add: Start_fresh Stop_def NewBaseService_def ex_impl_def on_world_def close_quit_def andThen_def ignoreErr_def)
  ultimately show ?thesis by blast
qed

theorem service_flags_witness:
  "\<exists>s. sv_stopped s = 1 \<and> Start ex_impl s = (Err ErrAlreadyStarted, s) \<and> Stop ex_impl s = (Err ErrAlreadyStopped, s)"
proof -
  obtain s where "svc_reach ex_impl 0 s" "sv_stopped s = 1" using ex_stopped by blast
  with service_flags [of ex_impl 0 s] show ?thesis by blast
qed

text \<open>
  C20. A service whose \<open>OnStart\<close> fails is as if it had not been started, and can be started
  again.  As long as it runs nobody's \<open>Wait\<close> returns.  When its \<open>OnStop\<close> returns, \<open>Stop\<close> succeeds
  and releases everyone who waits; a service that was stopped like that and whose \<open>OnReset\<close>
  succeeds is to be waited for again and starts like a new one.
\<close>

theorem service_restart:
  assumes "svc_reach I w s"
  shows "(\<forall>e s'. \<not> IsRunning s \<and> Start I s = (Err e, s') \<longrightarrow>
      sv_started s' = sv_started s \<and> sv_stopped s' = sv_stopped s \<and> sv_quit s' = sv_quit s) \<and>
    (IsRunning s \<longrightarrow> \<not> Wait_returns s) \<and>
    (\<forall>w0. IsRunning s \<and> im_OnStop I (sv_world s) = (Ok (), w0) \<longrightarrow>
      (\<exists>s0. Stop I s = (Ok (), s0) \<and> \<not> IsRunning s0 \<and> Wait_returns s0 \<and> sv_world s0 = w0 \<and>
        (\<forall>w1 w2. im_OnReset I w0 = (Ok (), w1) \<and> im_OnStart I w1 = (Ok (), w2) \<longrightarrow>
          (\<exists>s1 s2. Reset I s0 = (Ok (), s1) \<and> \<not> IsRunning s1 \<and> \<not> Wait_returns s1 \<and>
            Start I s1 = (Ok (), s2) \<and> IsRunning s2 \<and> \<not> Wait_returns s2 \<and> sv_world s2 = w2))))"
proof (intro conjI allI impI; (elim conjE)?)
  note inv = svc_reach_inv [OF assms]
  fix e s' assume "\<not> IsRunning s" "Start I s = (Err e, s')"
  then show "sv_started s' = sv_started s" "sv_stopped s' = sv_stopped s" "sv_quit s' = sv_quit s"
    using inv by (auto simp: Start_def IsRunning_def svc_inv_def on_world_def Let_def
      split: if_splits prod.splits res.splits)
next
  assume "IsRunning s"
  then show "\<not> Wait_returns s" using svc_reach_inv [OF assms] by (simp add: IsRunning_def Wait_returns_def svc_inv_def)
next
  fix w0 assume run: "IsRunning s" and w0: "im_OnStop I (sv_world s) = (Ok (), w0)"
  let ?s0 = "s\<lparr>sv_stopped := 1, sv_quit := True, sv_world := w0\<rparr>"
  have started: "sv_started s = 1" using run by (simp add: IsRunning_def)
  have stop: "Stop I s = (Ok (), ?s0)" by (rule Stop_running [OF run svc_reach_inv [OF assms] w0])
  have "\<exists>s1 s2. Reset I ?s0 = (Ok (), s1) \<and> \<not> IsRunning s1 \<and> \<not> Wait_returns s1 \<and>
      Start I s1 = (Ok (), s2) \<and> IsRunning s2 \<and> \<not> Wait_returns s2 \<and> sv_world s2 = w2"
    if r: "im_OnReset I w0 = (Ok (), w1)" "im_OnStart I w1 = (Ok (), w2)" for w1 w2
  proof -
    let ?s1 = "s\<lparr>sv_stopped := 0, sv_started := 0, sv_quit := False, sv_world := w1\<rparr>"
    have "Reset I ?s0 = (Ok (), ?s1)" using r(1) started by (simp add: Reset_def on_world_def Let_def)
    moreover have "Start I ?s1 = (Ok (), ?s1\<lparr>sv_started := 1, sv_world := w2\<rparr>)"
      using r(2) by (subst Start_fresh) simp_all
    ultimately show ?thesis
      by (intro exI [of _ ?s1] exI [of _ "?s1\<lparr>sv_started := 1, sv_world := w2\<rparr>"])
        (simp add: IsRunning_def Wait_returns_def)
  qed
  with stop show "\<exists>s0. Stop I s = (Ok (), s0) \<and> \<not> IsRunning s0 \<and> Wait_returns s0 \<and> sv_world s0 = w0 \<and>
      (\<forall>w1 w2. im_OnReset I w0 = (Ok (), w1) \<and> im_OnStart I w1 = (Ok (), w2) \<longrightarrow>
        (\<exists>s1 s2. Reset I s0 = (Ok (), s1) \<and> \<not> IsRunning s1 \<and> \<not> Wait_returns s1 \<and>
          Start I s1 = (Ok (), s2) \<and> IsRunning s2 \<and> \<not> Wait_returns s2 \<and> sv_world s2 = w2))"
    by (intro exI [of _ ?s0]) (simp add: IsRunning_def Wait_returns_def)
qed

theorem service_restart_witness:
  "\<exists>s s0 s1 s2 :: nat svc. Stop ex_impl s = (Ok (), s0) \<and> Wait_returns s0 \<and> Reset ex_impl s0 = (Ok (), s1) \<and>
     \<not> Wait_returns s1 \<and> Start ex_impl s1 = (Ok (), s2) \<and> IsRunning s2"
proof -
  let ?s = "(NewBaseService ''x'' (1 :: nat))\<lparr>sv_started := 1, sv_world := 2\<rparr>"
  have "Start ex_impl (NewBaseService ''x'' 1) = (Ok (), ?s)"
    by (subst Start_fresh) (simp_all add: NewBaseService_def ex_impl_def)
  then have r: "svc_reach ex_impl 1 ?s" by (rule reach_step [OF reach_new step_Start]) simp
  have "IsRunning ?s" "im_OnStop ex_impl (sv_world ?s) = (Ok (), 2)" "im_OnReset ex_impl 2 = (Ok (), 2)"
    "im_OnStart ex_impl 2 = (Ok (), 3)" by (simp_all add: IsRunning_def NewBaseService_def ex_impl_def)
  with service_restart [OF r] show ?thesis by metis
qed

end
