(* ===== verification/Deposit_Tree.thy ===== *)
theory Deposit_Tree
  imports Account_Tree
begin

text \<open>
  \<open>core/DepositTree.go\<close>: finding room for a deposit subtree and moving the deposits that
  the contract has merged from their pending rows into the leaves of the balance tree.
\<close>

section \<open>Definitions\<close>

definition GetDepositNodeAndSiblings :: "'s gorm \<Rightarrow> libs \<Rightarrow> ('s, UserState \<times> UserState list) prog" where
  "GetDepositNodeAndSiblings G L =
    andThen (GetParams G) (\<lambda>params.
    andThen (lift (default_hash L (pm_MaxDepositSubTreeHeight params))) (\<lambda>expectedHash.
    andThen (GetDepositSubTreeRoot G (ByteArray_String expectedHash)
        (pm_MaxDepth params - pm_MaxDepositSubTreeHeight params)) (\<lambda>NodeToBeReplaced.
    andThen (GetSiblings G (us_Path NodeToBeReplaced)) (\<lambda>siblings.
      ret (NodeToBeReplaced, siblings)))))"

text \<open>\<open>path LIKE 'p%'\<close> for a \<open>p\<close> without wildcards, which a node path is.\<close>

fun GetAllTerminalNodes_loop :: "UserState list \<Rightarrow> string list \<Rightarrow> string list res" where
  "GetAllTerminalNodes_loop [] terminalNodes = Ok terminalNodes"
| "GetAllTerminalNodes_loop (account # accs) terminalNodes =
     (if us_Hash account \<noteq> ByteArray_String ZERO_VALUE_LEAF
      then Err (ErrMsg ''Account not zero, aborting operation'')
      else GetAllTerminalNodes_loop accs (terminalNodes @ [us_Path account]))"

definition GetAllTerminalNodes :: "'s gorm \<Rightarrow> string \<Rightarrow> ('s, string list) prog" where
  "GetAllTerminalNodes G pathToDepositSubTree =
    andThen (db_read (t_find_all (g_states G)
      (\<lambda>r. prefix pathToDepositSubTree (us_Path r) \<and> us_Type r = 1))) (\<lambda>accounts.
      lift (GetAllTerminalNodes_loop accounts []))"

definition GetPendingDeposits :: "'s gorm \<Rightarrow> u64 \<Rightarrow> ('s, UserState list) prog" where
  "GetPendingDeposits G numberOfAccs =
    db_read (t_limit (g_states G) numberOfAccs None (\<lambda>r. us_Status r = 0))"

fun FinaliseDeposits_loop ::
  "'s gorm \<Rightarrow> libs \<Rightarrow> string list \<Rightarrow> nat \<Rightarrow> UserState list \<Rightarrow> ('s, unit) prog" where
  "FinaliseDeposits_loop G L terminalNodes i [] = ret ()"
| "FinaliseDeposits_loop G L terminalNodes i (acc # accs) =
     (if i < length terminalNodes then
        (let acc = acc\<lparr>us_Status := STATUS_ACTIVE\<rparr>;
             acc = UpdatePath acc (terminalNodes ! i);
             acc = CreateAccountHash L acc
         in andThen (UpdateState G L acc) (\<lambda>_.
            andThen (DeletePendingAccount G (us_AccountID acc)) (\<lambda>_.
              FinaliseDeposits_loop G L terminalNodes (Suc i) accs)))
      else lift (Panic IndexOutOfRange))"

definition FinaliseDeposits :: "'s gorm \<Rightarrow> libs \<Rightarrow> u64 \<Rightarrow> ByteArray \<Rightarrow> ('s, unit) prog" where
  "FinaliseDeposits G L pathToDepositSubTree depositRoot =
    andThen (GetParams G) (\<lambda>params.
    andThen (GetPendingAccByDepositRoot G depositRoot) (\<lambda>accounts.
      let height = pm_MaxDepth params - 1 in
    andThen (lift (SolidityPathToNodePath pathToDepositSubTree height)) (\<lambda>getTerminalNodesOf.
    andThen (GetAllTerminalNodes G getTerminalNodesOf) (\<lambda>terminalNodes.
      FinaliseDeposits_loop G L terminalNodes 0 accounts))))"

definition FinaliseDepositsAndAddBatch :: "'s gorm \<Rightarrow> libs \<Rightarrow> ByteArray \<Rightarrow> u64 \<Rightarrow> ('s, string) prog" where
  "FinaliseDepositsAndAddBatch G L depositRoot pathToDepositSubTree =
    andThen (FinaliseDeposits G L pathToDepositSubTree depositRoot) (\<lambda>_.
    andThen (GetRoot G) (\<lambda>rootAccount. ret (us_Hash rootAccount)))"

section \<open>The rows of the tree and the pending rows\<close>

definition pending :: "('s \<Rightarrow> tables) \<Rightarrow> 's \<Rightarrow> UserState list" where
  "pending view s = filter (\<lambda>r. us_Status r = STATUS_PENDING) (user_states (view s))"

lemma not_binary_uninit [simp]: "\<not> binary (UNINITIALIZED_PATH)"
  by simp

text \<open>The conditions look only at what \<open>keep_us\<close> keeps, so they carry over the frame.\<close>

lemma map_filter_keep:
  assumes "map keep_us xs = map keep_us ys" "\<And>r. Q (keep_us r) = Q r" "\<And>r. f (keep_us r) = f r"
  shows "map f (filter Q xs) = map f (filter Q ys)"
  using assms(1)
proof (induction xs arbitrary: ys)
  case (Cons x xs)
  then obtain y zs where ys: "ys = y # zs" "keep_us x = keep_us y" "map keep_us xs = map keep_us zs"
    by (cases ys) auto
  then have "Q x = Q y" "f x = f y" using assms(2,3) by metis+
  with Cons.IH [OF ys(3)] ys(1) show ?case by simp
qed simp

lemma state_rows_keep:
  assumes "map keep_us (user_states (view s')) = map keep_us (user_states (view s))" "state_rows view d s"
  shows "state_rows view d s'"
proof -
  have "map us_Path (filter (\<lambda>r. binary (us_Path r) \<and> us_Type r = 1) (user_states (view s'))) = level_paths d"
    using map_filter_keep [OF assms(1), of "\<lambda>r. binary (us_Path r) \<and> us_Type r = 1" us_Path] assms(2)
    by (simp add: state_rows_def)
  moreover have "(us_Status r = STATUS_PENDING \<longrightarrow> us_Path r = UNINITIALIZED_PATH) \<and>
      (binary (us_Path r) \<or> us_Path r = UNINITIALIZED_PATH) \<and> us_Level r = of_nat (length (us_Path r)) \<and> length (us_Path r) < 2 ^ 64"
    if r: "r \<in> set (user_states (view s'))" for r
  proof -
    have "keep_us r \<in> keep_us ` set (user_states (view s))" using r assms(1) by (metis imageI list.set_map)
    then obtain q where "q \<in> set (user_states (view s))" "keep_us r = keep_us q" by auto
    with assms(2) show ?thesis unfolding state_rows_def state_levels_def by (metis keep_us_simps)
  qed
  ultimately show ?thesis by (simp add: state_rows_def state_levels_def)
qed

lemma state_tree_cong:
  assumes "\<And>x. binary x \<Longrightarrow> state_node view s' x = state_node view s x" "state_tree L view d s"
  shows "state_tree L view d s'"
proof -
  have h: "binary x \<Longrightarrow> state_hashes view s' x = state_hashes view s x" for x
    using assms(1) by (simp add: state_hashes_def)
  have "merkle_tree d (node_hash L) (state_hashes view s')"
    unfolding merkle_tree_def
  proof (intro conjI allI impI; elim conjE)
    show "state_hashes view s' p \<noteq> None" if "binary p" "length p \<le> d" for p
      using that assms(2) h by (simp add: state_tree_def merkle_tree_def)
    show "node_ok (node_hash L) (state_hashes view s') p" if "binary p" "length p < d" for p
    proof -
      have "node_ok (node_hash L) (state_hashes view s) p"
        using that assms(2) by (simp add: state_tree_def merkle_tree_def)
      then show ?thesis using h that(1) by (simp add: node_ok_def)
    qed
  qed
  with assms show ?thesis by (simp add: state_tree_def)
qed

text \<open>Adding or dropping rows that are no nodes.\<close>

lemma row_at_filter:
  assumes "\<And>r. path r = p \<Longrightarrow> Q r"
  shows "row_at path (filter Q rows) p = row_at path rows p"
proof -
  have "filter (\<lambda>r. path r = p) (filter Q rows) = filter (\<lambda>r. path r = p) rows"
    using assms by (auto intro: filter_cong)
  then show ?thesis by (simp add: row_at_def)
qed

text \<open>Drops the pending rows of an account.\<close>

definition not_pending_of :: "u64 set \<Rightarrow> UserState \<Rightarrow> bool" where
  "not_pending_of ids r \<longleftrightarrow> \<not> (us_AccountID r \<in> ids \<and> us_Status r = STATUS_PENDING)"

lemma DeletePendingAccount_run:
  assumes "db_inv G L view up s"
  shows "\<exists>s'. DeletePendingAccount G ID s = (Ok (), s') \<and> db_inv G L view up s' \<and>
    view s' = user_states_update (filter (not_pending_of {ID})) (view s)"
proof -
  have "delete_ok (g_states G) user_states_update view up" "up s"
    using db_invD [OF assms] gorm_states_delete by auto
  from delete_run [OF this, of "\<lambda>r. us_AccountID r = ID \<and> us_Status r = STATUS_PENDING"] assms
  show ?thesis by (fastforce simp: DeletePendingAccount_def onError_ok db_inv_def not_pending_of_def [abs_def])
qed

lemma state_node_drop_pending:
  assumes "state_rows view d s" "user_states (view s') = filter (not_pending_of ids) (user_states (view s))" "binary p"
  shows "state_node view s' p = state_node view s p"
proof -
  have "filter (\<lambda>r. us_Path r = p) (filter (not_pending_of ids) (user_states (view s)))
      = filter (\<lambda>r. us_Path r = p) (user_states (view s))"
    using assms(1,3) by (auto simp: not_pending_of_def state_rows_def intro!: filter_cong)
  then show ?thesis by (simp add: state_node_def row_at_def assms(2))
qed

lemma state_rows_drop_pending:
  assumes "state_rows view d s" "user_states (view s') = filter (not_pending_of ids) (user_states (view s))"
  shows "state_rows view d s'"
proof -
  have "filter (\<lambda>r. binary (us_Path r) \<and> us_Type r = 1) (filter (not_pending_of ids) (user_states (view s)))
      = filter (\<lambda>r. binary (us_Path r) \<and> us_Type r = 1) (user_states (view s))"
    using assms(1) by (auto simp: not_pending_of_def state_rows_def intro!: filter_cong)
  with assms show ?thesis by (auto simp: state_rows_def state_levels_def)
qed

section \<open>The loop of \<open>FinaliseDeposits\<close>\<close>

lemma terminal_loop:
  "GetAllTerminalNodes_loop accs acc =
    (if \<forall>a \<in> set accs. us_Hash a = ByteArray_String ZERO_VALUE_LEAF then Ok (acc @ map us_Path accs)
     else Err (ErrMsg ''Account not zero, aborting operation''))"
  by (induction accs arbitrary: acc) auto

lemma not_pending_of_keep: "not_pending_of ids (keep_us r) = not_pending_of ids r"
  by (simp add: not_pending_of_def)

text \<open>What finalising the deposits \<open>as\<close> into the leaves \<open>ts\<close> leaves behind.\<close>

definition finalised ::
  "libs \<Rightarrow> ('s \<Rightarrow> tables) \<Rightarrow> nat \<Rightarrow> string list \<Rightarrow> UserState list \<Rightarrow> 's \<Rightarrow> 's \<Rightarrow> bool" where
  "finalised L view d ts as s s' \<longleftrightarrow>
     state_tree L view d s' \<and> state_rows view d s' \<and>
     (view s')\<lparr>user_states := []\<rparr> = (view s)\<lparr>user_states := []\<rparr> \<and>
     pending view s' = filter (not_pending_of (us_AccountID ` set as)) (pending view s) \<and>
     (\<forall>j < length as. state_node view s' (ts ! j) = map_option (\<lambda>r. r\<lparr>us_Data := us_Data (as ! j),
        us_Hash := data_hash L (us_Data (as ! j))\<rparr>) (state_node view s (ts ! j))) \<and>
     (\<forall>x. length x = d \<and> binary x \<and> x \<notin> set ts \<longrightarrow> state_node view s' x = state_node view s x)"

lemma finalised_Nil: "state_tree L view d s \<Longrightarrow> state_rows view d s \<Longrightarrow> finalised L view d ts [] s s"
  by (simp add: finalised_def not_pending_of_def)

text \<open>One deposit: its leaf is stored, then its pending row is deleted.\<close>

lemma finalise_one:
  assumes inv: "db_inv G L view up s" "state_tree L view d s" "state_rows view d s" "0 < d"
    and t: "binary t" "length t = d"
  shows "\<exists>s'. andThen (UpdateState G L (CreateAccountHash L (UpdatePath (a\<lparr>us_Status := STATUS_ACTIVE\<rparr>) t)))
      (\<lambda>_. DeletePendingAccount G (us_AccountID a)) s = (Ok (), s') \<and> db_inv G L view up s' \<and>
    state_tree L view d s' \<and> state_rows view d s' \<and>
    (view s')\<lparr>user_states := []\<rparr> = (view s)\<lparr>user_states := []\<rparr> \<and>
    pending view s' = filter (not_pending_of {us_AccountID a}) (pending view s) \<and>
    state_node view s' t = map_option (\<lambda>r. r\<lparr>us_Data := if us_Data a = [] then us_Data r else us_Data a,
      us_Hash := data_hash L (us_Data a)\<rparr>) (state_node view s t) \<and>
    (\<forall>x. length x = d \<and> binary x \<and> x \<noteq> t \<longrightarrow> state_node view s' x = state_node view s x)"
proof -
  let ?a = "CreateAccountHash L (UpdatePath (a\<lparr>us_Status := STATUS_ACTIVE\<rparr>) t)"
  have ap: "us_Path ?a = t" "us_Data ?a = us_Data a" by (simp_all add: UpdatePath_def)
  obtain r where r: "state_node view s t = Some r" using inv(2) t by (auto simp: state_tree_def)
  obtain s1 where s1: "UpdateState G L ?a s = (Ok (), s1)" "db_inv G L view up s1" "state_tree L view d s1"
    "state_frame view s1 = state_frame view s"
    "state_node view s1 t = Some (r\<lparr>us_Data := if us_Data a = [] then us_Data r else us_Data a,
      us_Hash := data_hash L (us_Data a)\<rparr>)"
    "\<forall>x. length x = d \<and> x \<noteq> t \<longrightarrow> state_node view s1 x = state_node view s x"
    using UpdateState_run [OF inv(1,2), of ?a r] ap t inv(4) r by auto
  obtain s2 where s2: "DeletePendingAccount G (us_AccountID a) s1 = (Ok (), s2)" "db_inv G L view up s2"
    "view s2 = user_states_update (filter (not_pending_of {us_AccountID a})) (view s1)"
    using DeletePendingAccount_run [OF s1(2)] by blast
  have rows1: "state_rows view d s1" by (rule state_rows_keep [OF state_frameD(2) [OF s1(4)] inv(3)])
  have drop: "user_states (view s2) = filter (not_pending_of {us_AccountID a}) (user_states (view s1))"
    by (simp add: s2(3))
  have nodes: "state_node view s2 x = state_node view s1 x" if "binary x" for x
    by (rule state_node_drop_pending [OF rows1 drop that])
  have st: "filter (\<lambda>r. us_Status r = STATUS_PENDING) rows =
      filter (\<lambda>r. us_Status r = STATUS_PENDING) (filter (\<lambda>r. \<not> binary (us_Path r)) rows)"
    if "\<forall>r \<in> set rows. us_Status r = STATUS_PENDING \<longrightarrow> us_Path r = UNINITIALIZED_PATH" for rows
    using that by (auto intro!: filter_cong)
  have "pending view s1 = pending view s"
  proof -
    have "pending view s1 = filter (\<lambda>r. us_Status r = STATUS_PENDING) (filter (\<lambda>r. \<not> binary (us_Path r)) (user_states (view s1)))"
      unfolding pending_def by (rule st) (use rows1 in \<open>simp add: state_rows_def\<close>)
    also have "\<dots> = filter (\<lambda>r. us_Status r = STATUS_PENDING) (filter (\<lambda>r. \<not> binary (us_Path r)) (user_states (view s)))"
      by (simp only: state_frameD(3) [OF s1(4)])
    also have "\<dots> = pending view s"
      unfolding pending_def by (rule st [symmetric]) (use inv(3) in \<open>simp add: state_rows_def\<close>)
    finally show ?thesis .
  qed
  moreover have "pending view s2 = filter (not_pending_of {us_AccountID a}) (pending view s1)"
    by (simp add: pending_def drop conj_commute)
  ultimately have "pending view s2 = filter (not_pending_of {us_AccountID a}) (pending view s)" by simp
  moreover have "(view s2)\<lparr>user_states := []\<rparr> = (view s)\<lparr>user_states := []\<rparr>"
    using state_frameD(1) [OF s1(4)] by (simp add: s2(3))
  moreover have "andThen (UpdateState G L ?a) (\<lambda>_. DeletePendingAccount G (us_AccountID a)) s = (Ok (), s2)"
    using s1(1) s2(1) by (simp add: andThen_ok)
  moreover have "state_tree L view d s2" by (rule state_tree_cong [OF nodes s1(3)])
  moreover have "state_rows view d s2" by (rule state_rows_drop_pending [OF rows1 drop])
  ultimately show ?thesis using s2(2) nodes t s1(5,6) r by auto
qed

lemma nth_not_later: "distinct ts \<Longrightarrow> i < length ts \<Longrightarrow> ts ! i \<notin> set (drop (Suc i) ts)"
  by (metis Cons_nth_drop_Suc distinct.simps(2) distinct_drop)

lemma FinaliseDeposits_loop_run:
  assumes "db_inv G L view up s" "state_tree L view d s" "state_rows view d s" "0 < d"
    and "\<forall>t \<in> set ts. binary t \<and> length t = d" "distinct ts" "i + length as \<le> length ts" "\<forall>a \<in> set as. us_Data a \<noteq> []"
  shows "\<exists>s'. FinaliseDeposits_loop G L ts i as s = (Ok (), s') \<and> db_inv G L view up s' \<and>
    finalised L view d (take (length as) (drop i ts)) as s s'"
  using assms(1-3,7,8)
proof (induction as arbitrary: s i)
  case Nil
  then show ?case using finalised_Nil by fastforce
next
  case (Cons a as)
  let ?t = "ts ! i"
  have i: "i < length ts" "Suc i + length as \<le> length ts" using Cons.prems(4) by auto
  then have t: "binary ?t" "length ?t = d" using assms(5) by auto
  have split: "take (length (a # as)) (drop i ts) = ?t # take (length as) (drop (Suc i) ts)"
    using i(1) by (simp add: Cons_nth_drop_Suc [symmetric])
  have tnot: "?t \<notin> set (take (length as) (drop (Suc i) ts))"
    using nth_not_later [OF assms(6) i(1)] by (meson in_set_takeD)
  from finalise_one [OF Cons.prems(1-3) assms(4) t, of a] Cons.prems(5) obtain s1 where
    s1: "andThen (UpdateState G L (CreateAccountHash L (UpdatePath (a\<lparr>us_Status := STATUS_ACTIVE\<rparr>) ?t)))
      (\<lambda>_. DeletePendingAccount G (us_AccountID a)) s = (Ok (), s1)" "db_inv G L view up s1"
    "state_tree L view d s1" "state_rows view d s1" "(view s1)\<lparr>user_states := []\<rparr> = (view s)\<lparr>user_states := []\<rparr>"
    "pending view s1 = filter (not_pending_of {us_AccountID a}) (pending view s)"
    "state_node view s1 ?t = map_option (\<lambda>r. r\<lparr>us_Data := us_Data a, us_Hash := data_hash L (us_Data a)\<rparr>) (state_node view s ?t)"
    "\<forall>x. length x = d \<and> binary x \<and> x \<noteq> ?t \<longrightarrow> state_node view s1 x = state_node view s x" by auto
  obtain s2 where s2: "FinaliseDeposits_loop G L ts (Suc i) as s1 = (Ok (), s2)" "db_inv G L view up s2"
    "finalised L view d (take (length as) (drop (Suc i) ts)) as s1 s2"
    using Cons.IH [OF s1(2-4) i(2)] Cons.prems(5) by auto
  have "FinaliseDeposits_loop G L ts i (a # as) s = FinaliseDeposits_loop G L ts (Suc i) as s1"
    using s1(1) i(1) by (simp add: Let_def andThen_assoc [symmetric] andThen_ok UpdatePath_def)
  moreover have "finalised L view d (take (length (a # as)) (drop i ts)) (a # as) s s2"
  proof -
    note f = s2(3) [unfolded finalised_def]
    have 1: "pending view s2 = filter (not_pending_of (us_AccountID ` set (a # as))) (pending view s)"
      using f s1(6) by (simp add: not_pending_of_def conj_commute Int_def) (auto intro!: filter_cong simp: not_pending_of_def)
    have 2: "state_node view s2 ?t = state_node view s1 ?t" using f t tnot by blast
    have 3: "state_node view s2 ((?t # take (length as) (drop (Suc i) ts)) ! j) =
        map_option (\<lambda>r. r\<lparr>us_Data := us_Data ((a # as) ! j), us_Hash := data_hash L (us_Data ((a # as) ! j))\<rparr>)
          (state_node view s ((?t # take (length as) (drop (Suc i) ts)) ! j))" if "j < Suc (length as)" for j
    proof (cases j)
      case 0
      with 2 s1(7) show ?thesis by simp
    next
      case (Suc k)
      have k: "k < length as" using that Suc by simp
      let ?u = "take (length as) (drop (Suc i) ts) ! k"
      have mem: "?u \<in> set (take (length as) (drop (Suc i) ts))"
        by (rule nth_mem) (use k i(2) in simp)
      then have "?u \<in> set ts" by (blast dest: in_set_takeD in_set_dropD)
      then have u: "?u \<noteq> ?t" "binary ?u" "length ?u = d" using mem tnot assms(5) by metis+
      with s1(8) f k Suc show ?thesis by simp
    qed
    have 4: "state_node view s2 x = state_node view s x"
      if "length x = d" "binary x" "x \<notin> set (?t # take (length as) (drop (Suc i) ts))" for x
      using f s1(8) that by simp
    show ?thesis unfolding finalised_def split using f s1(5) 1 3 4 by simp
  qed
  ultimately show ?case using s2(1,2) by metis
qed

text \<open>Any number of deposits, with any data: what the loop has done when it returns or panics.\<close>

lemma FinaliseDeposits_loop_tree:
  assumes "db_inv G L view up s" "state_tree L view d s" "state_rows view d s" "0 < d"
    and "\<forall>t \<in> set ts. binary t \<and> length t = d" "FinaliseDeposits_loop G L ts i as s = (r, s')"
  shows "db_inv G L view up s' \<and> state_tree L view d s' \<and> state_rows view d s'"
  using assms(1-3,6)
proof (induction as arbitrary: s i)
  case (Cons a as)
  show ?case
  proof (cases "i < length ts")
    case True
    then have t: "binary (ts ! i)" "length (ts ! i) = d" using assms(5) by simp_all
    obtain s1 where s1: "andThen (UpdateState G L (CreateAccountHash L (UpdatePath (a\<lparr>us_Status := STATUS_ACTIVE\<rparr>) (ts ! i))))
      (\<lambda>_. DeletePendingAccount G (us_AccountID a)) s = (Ok (), s1)" "db_inv G L view up s1"
      "state_tree L view d s1" "state_rows view d s1"
      using finalise_one [OF Cons.prems(1-3) assms(4) t, of a] by blast
    have "FinaliseDeposits_loop G L ts (Suc i) as s1 = (r, s')"
      using s1(1) True Cons.prems(4) by (simp add: Let_def andThen_assoc [symmetric] andThen_ok UpdatePath_def)
    then show ?thesis by (rule Cons.IH [OF s1(2-4)])
  qed (use Cons.prems in simp)
qed simp

section \<open>\<open>FinaliseDeposits\<close>\<close>

lemma filter_pairs:
  assumes "\<forall>q \<in> set qs. length q = length p" "distinct qs"
  shows "filter (prefix p) (concat (map (\<lambda>q. [q @ ''0'', q @ ''1'']) qs)) =
    (if p \<in> set qs then [p @ ''0'', p @ ''1''] else [])"
  using assms
proof (induction qs)
  case (Cons q qs)
  have "prefix p (q @ x) \<longleftrightarrow> q = p" for x using Cons.prems(1) by (auto simp: prefix_def)
  with Cons show ?case by auto
qed simp

lemma leaves_below:
  assumes "binary p"
  shows "filter (prefix p) (level_paths (Suc (length p))) = [p @ ''0'', p @ ''1'']"
  using filter_pairs [of "level_paths (length p)" p] assms level_paths_distinct [of "length p"]
  by (simp add: level_paths_set)

lemma terminal_rows:
  assumes "state_rows view d s" "binary p" "p \<noteq> []"
  shows "map us_Path (filter (\<lambda>r. prefix p (us_Path r) \<and> us_Type r = 1) (user_states (view s))) =
    filter (prefix p) (level_paths d)"
proof -
  let ?rows = "user_states (view s)" and ?Q = "\<lambda>r. prefix p (us_Path r) \<and> us_Type r = 1"
  obtain c q where pc: "p = c # q" "c = CHR ''0'' \<or> c = CHR ''1''" using assms(2,3) by (cases p) auto
  have "binary (us_Path r)" if "r \<in> set ?rows" "prefix p (us_Path r)" for r
    using that assms(1) pc by (auto simp: state_rows_def)
  then have "filter ?Q ?rows = filter (\<lambda>r. prefix p (us_Path r)) (filter (\<lambda>r. binary (us_Path r) \<and> us_Type r = 1) ?rows)"
    by (auto intro!: filter_cong)
  then have "map us_Path (filter ?Q ?rows) =
      filter (prefix p) (map us_Path (filter (\<lambda>r. binary (us_Path r) \<and> us_Type r = 1) ?rows))"
    by (simp only: filter_map o_def)
  with assms(1) show ?thesis by (simp only: state_rows_def)
qed

text \<open>Whatever subtree is asked for: an error, or distinct leaves of the tree.\<close>

lemma GetAllTerminalNodes_leaves:
  assumes inv: "db_inv G L view up s" "state_rows view d s" and p: "binary p" "p \<noteq> []"
  shows "(\<exists>e. GetAllTerminalNodes G p s = (Err e, s)) \<or>
    (\<exists>ts. GetAllTerminalNodes G p s = (Ok ts, s) \<and> distinct ts \<and> (\<forall>t \<in> set ts. binary t \<and> length t = d))"
proof -
  let ?Q = "\<lambda>r. prefix p (us_Path r) \<and> us_Type r = 1"
  have run: "GetAllTerminalNodes G p s = (GetAllTerminalNodes_loop (filter ?Q (user_states (view s))) [], s)"
    using scan_run [OF gorm_states_scan [OF db_invD(1) [OF inv(1)]] db_invD(3) [OF inv(1)], of ?Q]
    by (simp add: GetAllTerminalNodes_def andThen_ok)
  have "distinct (filter (prefix p) (level_paths d)) \<and> (\<forall>t \<in> set (filter (prefix p) (level_paths d)). binary t \<and> length t = d)"
    using level_paths_distinct [of d] by (simp add: level_paths_set)
  with run show ?thesis by (simp add: terminal_loop terminal_rows [OF inv(2) p])
qed

lemma GetAllTerminalNodes_run:
  assumes inv: "db_inv G L view up s" "state_rows view d s"
    and p: "binary p" "p \<noteq> []" "d = Suc (length p)"
    and z: "\<forall>t \<in> {p @ ''0'', p @ ''1''}. state_hashes view s t = Some (ByteArray_String ZERO_VALUE_LEAF)"
  shows "GetAllTerminalNodes G p s = (Ok [p @ ''0'', p @ ''1''], s)"
proof -
  let ?rows = "user_states (view s)" and ?Q = "\<lambda>r. prefix p (us_Path r) \<and> us_Type r = 1"
  have paths: "map us_Path (filter ?Q ?rows) = [p @ ''0'', p @ ''1'']"
    using terminal_rows [OF inv(2) p(1,2)] leaves_below [OF p(1)] p(3) by simp
  have "us_Hash r = ByteArray_String ZERO_VALUE_LEAF" if r: "r \<in> set (filter ?Q ?rows)" for r
  proof -
    have "us_Path r \<in> set (map us_Path (filter ?Q ?rows))" using r by simp
    then have "us_Path r \<in> {p @ ''0'', p @ ''1''}" by (simp only: paths) simp
    with z obtain x where x: "state_node view s (us_Path r) = Some x" "us_Hash x = ByteArray_String ZERO_VALUE_LEAF"
      by (fastforce simp: state_hashes_def)
    have "r \<in> set (filter (\<lambda>y. us_Path y = us_Path r) ?rows)" using r by simp
    with x show ?thesis by (simp add: state_node_def row_at_Some)
  qed
  then have "GetAllTerminalNodes_loop (filter ?Q ?rows) [] = Ok [p @ ''0'', p @ ''1'']"
    by (simp add: terminal_loop paths)
  then show ?thesis
    using scan_run [OF gorm_states_scan [OF db_invD(1) [OF inv(1)]] db_invD(3) [OF inv(1)], of ?Q]
    by (simp add: GetAllTerminalNodes_def andThen_ok)
qed

text \<open>The deposits that a merged subtree brought in.\<close>

definition deposits_of :: "('s \<Rightarrow> tables) \<Rightarrow> ByteArray \<Rightarrow> 's \<Rightarrow> UserState list" where
  "deposits_of view root s =
    filter (\<lambda>r. us_CreatedByDepositSubTree r = ByteArray_String root) (pending view s)"

lemma GetPendingAccByDepositRoot_run:
  assumes "db_inv G L view up s"
  shows "GetPendingAccByDepositRoot G root s = (Ok (deposits_of view root s), s)"
  using scan_run [OF gorm_states_scan [OF db_invD(1) [OF assms]] db_invD(3) [OF assms],
    of "\<lambda>r. us_CreatedByDepositSubTree r = ByteArray_String root \<and> us_Status r = STATUS_PENDING"]
  by (simp add: GetPendingAccByDepositRoot_def deposits_of_def pending_def conj_commute)

lemma FinaliseDeposits_start:
  assumes inv: "db_inv G L view up s" "params (view s) = [pm]" "d = unat (pm_MaxDepth pm)" "2 \<le> d"
    and "state_rows view d s" "unat path < 2 ^ (d - 1)" "p = bits (d - 1) (unat path)"
    and z: "\<forall>t \<in> {p @ ''0'', p @ ''1''}. state_hashes view s t = Some (ByteArray_String ZERO_VALUE_LEAF)"
  shows "FinaliseDeposits G L path root s =
      FinaliseDeposits_loop G L [p @ ''0'', p @ ''1''] 0 (deposits_of view root s) s"
    and "binary p" "length p = d - 1"
proof -
  have b: "binary p" "length p = d - 1" using bits_facts [of "unat path" "d - 1"] assms by auto
  then show "binary p" "length p = d - 1" .
  have "1 \<le> pm_MaxDepth pm" using inv(3,4) by (simp add: word_le_nat_alt)
  then have h: "unat (pm_MaxDepth pm - 1) = d - 1" using inv(3) by (simp add: unat_sub)
  then have "0 < pm_MaxDepth pm - 1" using inv(4) by (simp add: word_less_nat_alt)
  with SolidityPathToNodePath_bits [of path "pm_MaxDepth pm - 1"] h assms
  have sol: "SolidityPathToNodePath path (pm_MaxDepth pm - 1) = Ok p" by simp
  have "p \<noteq> []" using b(2) inv(4) by auto
  with GetAllTerminalNodes_run [OF inv(1) assms(5) b(1) _ _ z] b(2) inv(4)
  have "GetAllTerminalNodes G p s = (Ok [p @ ''0'', p @ ''1''], s)" by simp
  with GetParams_run [OF db_invD(1,3) [OF inv(1)] inv(2)] GetPendingAccByDepositRoot_run [OF inv(1)] sol
  show "FinaliseDeposits G L path root s =
      FinaliseDeposits_loop G L [p @ ''0'', p @ ''1''] 0 (deposits_of view root s) s"
    by (simp add: FinaliseDeposits_def andThen_ok)
qed

text \<open>No call of \<open>FinaliseDeposits\<close>, with any root and any path, breaks the tree.\<close>

lemma FinaliseDeposits_tree:
  assumes inv: "db_inv G L view up s" "state_tree L view d s" "state_rows view d s" "0 < d"
    and "FinaliseDeposits G L path root s = (r, s')"
  shows "db_inv G L view up s' \<and> state_tree L view d s' \<and> state_rows view d s'"
proof (cases "t_first (g_params G) (\<lambda>_. True) s")
  case (Inl e)
  then show ?thesis using assms by (simp add: FinaliseDeposits_def GetParams_def andThen_def db_read_Inl)
next
  case (Inr pm)
  obtain p where p: "SolidityPathToNodePath path (pm_MaxDepth pm - 1) = Ok p" "binary p" "p \<noteq> []"
    using SolidityPathToNodePath_binary by blast
  have "FinaliseDeposits G L path root s = andThen (GetAllTerminalNodes G p) (\<lambda>ts.
      FinaliseDeposits_loop G L ts 0 (deposits_of view root s)) s"
    using Inr p(1) GetPendingAccByDepositRoot_run [OF inv(1)]
    by (simp add: FinaliseDeposits_def GetParams_def andThen_ok db_read_Inr)
  with GetAllTerminalNodes_leaves [OF inv(1,3) p(2,3)] assms(5) consider "s' = s" | ts where
    "\<forall>t \<in> set ts. binary t \<and> length t = d" "FinaliseDeposits_loop G L ts 0 (deposits_of view root s) s = (r, s')"
    by (auto simp: andThen_def)
  then show ?thesis by cases (use inv in simp, rule FinaliseDeposits_loop_tree [OF inv])
qed

lemma FinaliseDeposits_loop_append:
  "FinaliseDeposits_loop G L ts i (as @ bs) =
    andThen (FinaliseDeposits_loop G L ts i as) (\<lambda>_. FinaliseDeposits_loop G L ts (i + length as) bs)"
proof (induction as arbitrary: i)
  case (Cons a as)
  then show ?case by (cases "i < length ts") (simp_all add: Let_def andThen_assoc del: lift_run)
qed simp

section \<open>Pending deposits\<close>

lemma state_node_append:
  assumes "user_states (view s') = user_states (view s) @ rs" "\<forall>r \<in> set rs. \<not> binary (us_Path r)" "binary p"
  shows "state_node view s' p = state_node view s p"
proof -
  have "p \<notin> us_Path ` set rs" using assms(2,3) by auto
  then show ?thesis by (simp add: state_node_def assms(1) row_at_append(1))
qed

lemma AddNewPendingAccount_run:
  assumes inv: "db_inv G L view up s" "state_tree L view d s" "state_rows view d s"
    and a: "us_Path a = UNINITIALIZED_PATH" "us_Level a = 2" "us_Status a = STATUS_PENDING"
  shows "\<exists>s' b. AddNewPendingAccount G a s = (Ok (), s') \<and> db_inv G L view up s' \<and> stamp_us a b \<and>
    view s' = user_states_update (\<lambda>rs. rs @ [b]) (view s) \<and>
    state_tree L view d s' \<and> state_rows view d s' \<and> pending view s' = pending view s @ [b]"
proof -
  have "create_ok (g_states G) user_states_update view up stamp_us" "up s"
    using db_invD [OF inv(1)] gorm_states_create by auto
  from create_run [OF this, of a] obtain s' b where s': "AddNewPendingAccount G a s = (Ok (), s')" "up s'"
    "stamp_us a b" "view s' = user_states_update (\<lambda>rs. rs @ [b]) (view s)" by (auto simp: AddNewPendingAccount_def)
  have rows: "user_states (view s') = user_states (view s) @ [b]" by (simp add: s'(4))
  have b: "us_Path b = UNINITIALIZED_PATH" "us_Level b = 2" "us_Status b = STATUS_PENDING" using stamp_us_keeps [OF s'(3)] a by simp_all
  have "state_tree L view d s'"
    by (rule state_tree_cong [OF _ inv(2)], rule state_node_append [where rs = "[b]"]) (use b(1) rows in simp_all)
  moreover have "state_rows view d s'" using inv(3) b by (simp add: state_rows_def state_levels_def rows)
  moreover have "pending view s' = pending view s @ [b]" using b(3) by (simp add: pending_def rows)
  ultimately show ?thesis using s' inv(1) by (auto simp: db_inv_def)
qed

lemma AttachDepositInfo_run:
  assumes inv: "db_inv G L view up s"
  shows "\<exists>s'. AttachDepositInfo G root s = (Ok (), s') \<and> db_inv G L view up s' \<and>
    view s' = user_states_update (map (\<lambda>r. if us_Status r = STATUS_PENDING
      then r\<lparr>us_CreatedByDepositSubTree := ByteArray_String root\<rparr> else r)) (view s)"
proof -
  let ?v = "zero_UserState\<lparr>us_CreatedByDepositSubTree := ByteArray_String root\<rparr>"
  have "updates_ok (g_states G) user_states_update view up (\<lambda>m r. True) merge_us" "up s"
    using db_invD [OF inv] gorm_states_updates by auto
  from updates_run [OF this, of ?v "\<lambda>r. us_Status r = STATUS_PENDING" ?v]
  obtain s' where s': "AttachDepositInfo G root s = (Ok (), s')" "up s'" "view s' = user_states_update
      (map (\<lambda>r. if us_Status r = STATUS_PENDING \<and> True then merge_us ?v r else r)) (view s)"
    by (auto simp: AttachDepositInfo_def Let_def)
  have "merge_us ?v r = r\<lparr>us_CreatedByDepositSubTree := ByteArray_String root\<rparr>" for r
    by (simp add: merge_us_def zero_UserState_def)
  with s' inv show ?thesis by (auto simp: db_inv_def)
qed

lemma FinaliseDepositsAndAddBatch_run:
  assumes "gorm_ok G view up" "libs_ok L" "up s" "params (view s) = [pm]"
    and "d = unat (pm_MaxDepth pm)" "2 \<le> d" "state_tree L view d s" "state_rows view d s"
    and "unat path < 2 ^ (d - 1)" "p = bits (d - 1) (unat path)"
    and "\<forall>t \<in> {p @ ''0'', p @ ''1''}. state_hashes view s t = Some (ByteArray_String ZERO_VALUE_LEAF)"
    and "as = deposits_of view root s" "length as \<le> 2" "\<forall>a \<in> set as. us_Data a \<noteq> []"
  shows "\<exists>s' rt. FinaliseDepositsAndAddBatch G L root path s = (Ok rt, s') \<and> up s' \<and>
    finalised L view d (take (length as) [p @ ''0'', p @ ''1'']) as s s' \<and>
    rt = merkle_root (node_hash L) (\<lambda>x. the (state_hashes view s' x)) d []"
proof -
  have inv: "db_inv G L view up s" using assms by (simp add: db_inv_def)
  note start = FinaliseDeposits_start(1) [OF inv assms(4-6,8-11), of root]
    FinaliseDeposits_start(2,3) [OF inv assms(4-6,8-11)]
  have ts: "\<forall>t \<in> set [p @ ''0'', p @ ''1'']. binary t \<and> length t = d" using start(2,3) assms(6) by auto
  obtain s' where s': "FinaliseDeposits_loop G L [p @ ''0'', p @ ''1''] 0 as s = (Ok (), s')" "db_inv G L view up s'"
    "finalised L view d (take (length as) (drop 0 [p @ ''0'', p @ ''1''])) as s s'"
    using FinaliseDeposits_loop_run [OF inv assms(7,8) _ ts, of 0 as] assms(6,13,14) by auto
  have tree: "state_tree L view d s'" "state_levels view s'"
    using s'(3) by (simp_all add: finalised_def state_rows_def)
  have "state_hashes view s' [] = Some (merkle_root (node_hash L) (\<lambda>x. the (state_hashes view s' x)) d [])"
    by (rule merkle_tree_root) (use tree(1) in \<open>simp_all add: state_tree_def\<close>)
  then obtain r where r: "state_node view s' [] = Some r"
    "us_Hash r = merkle_root (node_hash L) (\<lambda>x. the (state_hashes view s' x)) d []" by (auto simp: state_hashes_def)
  have "FinaliseDepositsAndAddBatch G L root path s = (Ok (us_Hash r), s')"
    using start(1) s'(1) assms(12) GetRoot_run [OF s'(2) tree(2) r(1)]
    by (simp add: FinaliseDepositsAndAddBatch_def andThen_ok)
  with s' r(2) show ?thesis by (auto simp: db_inv_def)
qed

lemma AttachDepositInfo_deposits:
  assumes "gorm_ok G view up" "libs_ok L" "up s" "state_tree L view d s" "state_rows view d s"
  shows "\<exists>s'. AttachDepositInfo G root s = (Ok (), s') \<and> up s' \<and>
    state_tree L view d s' \<and> state_rows view d s' \<and>
    (\<forall>p. binary p \<longrightarrow> state_node view s' p = state_node view s p) \<and>
    GetPendingAccByDepositRoot G root s' = (Ok (map
      (\<lambda>r. r\<lparr>us_CreatedByDepositSubTree := ByteArray_String root\<rparr>) (pending view s)), s')"
proof -
  have inv: "db_inv G L view up s" using assms by (simp add: db_inv_def)
  let ?f = "\<lambda>r. if us_Status r = STATUS_PENDING then r\<lparr>us_CreatedByDepositSubTree := ByteArray_String root\<rparr> else r"
  obtain s' where s': "AttachDepositInfo G root s = (Ok (), s')" "db_inv G L view up s'"
    "view s' = user_states_update (map ?f) (view s)"
    using AttachDepositInfo_run [OF inv] by blast
  have f: "us_Path (?f r) = us_Path r" "us_Type (?f r) = us_Type r" "us_Level (?f r) = us_Level r"
    "us_Status (?f r) = us_Status r" for r by simp_all
  have rows: "user_states (view s') = map ?f (user_states (view s))" by (simp add: s'(3))
  have "filter (\<lambda>r. us_Path r = p) (map ?f (user_states (view s))) = filter (\<lambda>r. us_Path r = p) (user_states (view s))"
    if "binary p" for p
    using assms(5) that by (auto simp: state_rows_def filter_map o_def intro!: map_idI)
  then have nodes: "state_node view s' p = state_node view s p" if "binary p" for p
    using that by (simp add: state_node_def row_at_def rows)
  have "map us_Path (filter (\<lambda>r. binary (us_Path r) \<and> us_Type r = 1) (map ?f rs)) =
      map us_Path (filter (\<lambda>r. binary (us_Path r) \<and> us_Type r = 1) rs)" for rs :: "UserState list"
    by (induction rs) auto
  then have sr: "state_rows view d s'" using assms(5) by (auto simp: state_rows_def state_levels_def rows)
  have "filter (\<lambda>r. us_CreatedByDepositSubTree r = ByteArray_String root) (filter (\<lambda>r. us_Status r = STATUS_PENDING) (map ?f rs))
      = map (\<lambda>r. r\<lparr>us_CreatedByDepositSubTree := ByteArray_String root\<rparr>) (filter (\<lambda>r. us_Status r = STATUS_PENDING) rs)"
    for rs :: "UserState list"
    by (induction rs) auto
  then have "deposits_of view root s' = map (\<lambda>r. r\<lparr>us_CreatedByDepositSubTree := ByteArray_String root\<rparr>) (pending view s)"
    unfolding deposits_of_def pending_def rows .
  with GetPendingAccByDepositRoot_run [OF s'(2), of root]
  have "GetPendingAccByDepositRoot G root s' = (Ok (map
      (\<lambda>r. r\<lparr>us_CreatedByDepositSubTree := ByteArray_String root\<rparr>) (pending view s)), s')" by simp
  with s' nodes sr state_tree_cong [OF nodes assms(4)] show ?thesis by (auto simp: db_inv_def)
qed

section \<open>Properties\<close>

text \<open>The tree of \<open>ex_db\<close> with one, two or three deposits waiting for its right half.\<close>

definition ex_root :: ByteArray where
  "ex_root = replicate 32 7"

definition ex_deposit :: "byte \<Rightarrow> UserState" where
  "ex_deposit b = (NewPendingUserState ref_libs (ucast b) [b])\<lparr>us_CreatedByDepositSubTree := ByteArray_String ex_root\<rparr>"

definition ex_dep :: "byte list \<Rightarrow> tables" where
  "ex_dep bs = ex_db\<lparr>params := [pm_example], user_states := user_states ex_db @ map ex_deposit bs\<rparr>"

lemma ex_deposit_ok [simp]:
  "us_Path (ex_deposit b) = ''-1''" "us_Level (ex_deposit b) = 2" "us_Status (ex_deposit b) = 0"
  "us_Data (ex_deposit b) = [b]" "us_CreatedByDepositSubTree (ex_deposit b) = ByteArray_String ex_root"
  by (simp_all add: ex_deposit_def NewPendingUserState_def UpdatePath_def CreateAccountHash_def Let_def)

lemma ex_db_rows: "state_rows (\<lambda>d. d) 2 ex_db"
  and ex_db_zero: "\<forall>t \<in> {''10'', ''11''}. state_hashes (\<lambda>d. d) ex_db t = Some (ByteArray_String ZERO_VALUE_LEAF)"
  and ex_db_status: "\<forall>r \<in> set (user_states ex_db). us_Status r \<noteq> 0"
proof -
  have e: "user_states empty_tables = []" by (simp add: empty_tables_def)
  have t: "\<forall>g \<in> set ex_leaves. us_Type g = TYPE_TERMINAL \<and> us_Status g \<noteq> STATUS_PENDING"
    by (auto simp: ex_leaves_def EmptyUserState_def NewUserState_def UpdatePath_def CreateAccountHash_def Let_def)
  note run = InitStateTree_run [OF ex_start e ex_leaves_ok(1) _ ex_leaves_ok(2)]
  show rows: "state_rows (\<lambda>d. d) 2 ex_db" using run t ex_db_ok(1) by auto
  have "map_option us_Hash (state_node (\<lambda>d. d) ex_db (level_paths 2 ! i)) = Some (us_Hash (ex_leaves ! i))"
    if "0 < i" "i < 4" for i
  proof -
    have "\<exists>r. state_node (\<lambda>d. d) ex_db (level_paths 2 ! i) = Some r \<and> stamp_us (UpdatePath (ex_leaves ! i) (level_paths 2 ! i)) r"
      using run ex_db_ok(1) that ex_leaves_ok(1) by auto
    then show ?thesis by (auto simp: UpdatePath_def dest: stamp_us_keeps)
  qed
  from this [of 2] this [of 3]
  show "\<forall>t \<in> {''10'', ''11''}. state_hashes (\<lambda>d. d) ex_db t = Some (ByteArray_String ZERO_VALUE_LEAF)"
    by (simp add: state_hashes_def ex_leaves_def UpdatePath_def numeral_2_eq_2 numeral_3_eq_3)
  show "\<forall>r \<in> set (user_states ex_db). us_Status r \<noteq> 0"
    using run t ex_db_ok(1) by auto
qed

lemma ex_dep_ok:
  "state_tree ref_libs (\<lambda>d. d) 2 (ex_dep bs)" "state_rows (\<lambda>d. d) 2 (ex_dep bs)"
  "pending (\<lambda>d. d) (ex_dep bs) = map ex_deposit bs" "params (ex_dep bs) = [pm_example]"
  "deposits_of (\<lambda>d. d) ex_root (ex_dep bs) = map ex_deposit bs"
  "\<forall>t \<in> {''10'', ''11''}. state_hashes (\<lambda>d. d) (ex_dep bs) t = Some (ByteArray_String ZERO_VALUE_LEAF)"
proof -
  have rows: "user_states (ex_dep bs) = user_states ex_db @ map ex_deposit bs" by (simp add: ex_dep_def)
  have nodes: "state_node (\<lambda>d. d) (ex_dep bs) p = state_node (\<lambda>d. d) ex_db p" if "binary p" for p
    by (rule state_node_append [where rs = "map ex_deposit bs"]) (use rows that in auto)
  show "state_tree ref_libs (\<lambda>d. d) 2 (ex_dep bs)" by (rule state_tree_cong [OF nodes ex_db_ok(2)])
  show "state_rows (\<lambda>d. d) 2 (ex_dep bs)"
    using ex_db_rows by (auto simp: state_rows_def state_levels_def rows filter_empty_conv)
  show pend: "pending (\<lambda>d. d) (ex_dep bs) = map ex_deposit bs"
    using ex_db_status by (simp add: pending_def rows filter_empty_conv filter_id_conv)
  show "params (ex_dep bs) = [pm_example]" by (simp add: ex_dep_def)
  show "deposits_of (\<lambda>d. d) ex_root (ex_dep bs) = map ex_deposit bs"
    by (simp add: deposits_of_def pend filter_id_conv)
  show "\<forall>t \<in> {''10'', ''11''}. state_hashes (\<lambda>d. d) (ex_dep bs) t = Some (ByteArray_String ZERO_VALUE_LEAF)"
    using ex_db_zero nodes by (simp add: state_hashes_def)
qed

lemma ex_bits: "bits 1 1 = ''1''"
  using bits_facts [of 1 1] bin_val_snoc [of "[]" "CHR ''1''"] by (intro bin_val_inj) simp_all

text \<open>
  C6. Finalising at most two deposits into the two empty leaves that \<open>path\<close> addresses:
  the deposits' data and hashes go into these leaves in order, every other leaf keeps its
  row, the pending rows of their accounts are deleted and nothing else of the table or the
  database changes, the tree stays a Merkle tree, and the call returns its new root.
  (The leaves keep their own \<open>Status\<close> and \<open>AccountID\<close>: the update writes only \<open>Data\<close> and
  \<open>Hash\<close>.)
\<close>

theorem FinaliseDeposits_correct:
  assumes "gorm_ok G view up" "libs_ok L" "up s" "params (view s) = [pm]"
    and "d = unat (pm_MaxDepth pm)" "2 \<le> d" "state_tree L view d s" "state_rows view d s"
    and "unat path < 2 ^ (d - 1)" "p = bits (d - 1) (unat path)"
    and "\<forall>t \<in> {p @ ''0'', p @ ''1''}. state_hashes view s t = Some (ByteArray_String ZERO_VALUE_LEAF)"
    and "as = deposits_of view root s" "length as \<le> 2" "\<forall>a \<in> set as. us_Data a \<noteq> []"
  shows "\<exists>s' rt. FinaliseDepositsAndAddBatch G L root path s = (Ok rt, s') \<and> up s' \<and>
    finalised L view d (take (length as) [p @ ''0'', p @ ''1'']) as s s' \<and>
    rt = merkle_root (node_hash L) (\<lambda>x. the (state_hashes view s' x)) d []"
  using assms by (rule FinaliseDepositsAndAddBatch_run)

theorem FinaliseDeposits_correct_witness:
  "\<exists>s' rt. FinaliseDepositsAndAddBatch mem_gorm ref_libs ex_root 1 (ex_dep [5, 6]) = (Ok rt, s') \<and>
     finalised ref_libs (\<lambda>d. d) 2 [''10'', ''11''] (map ex_deposit [5, 6]) (ex_dep [5, 6]) s'"
  using FinaliseDeposits_correct [OF mem_gorm_ok ref_libs_ok TrueI ex_dep_ok(4) [of "[5, 6]"] _ _ ex_dep_ok(1,2),
      where path = 1 and p = "''1''" and as = "map ex_deposit [5, 6]" and root = ex_root] ex_dep_ok(5,6) ex_bits
  by (auto simp: pm_example_def)

text \<open>
  C12. The subtree that \<open>FinaliseDeposits\<close> looks for is always two leaves wide, whatever
  \<open>MaxDepositSubTreeHeight\<close> says.  With a third deposit the loop runs past the terminal
  nodes and panics, after the first two have been moved into the tree.
\<close>

theorem FinaliseDeposits_more_than_two:
  assumes "gorm_ok G view up" "libs_ok L" "up s" "params (view s) = [pm]"
    and "d = unat (pm_MaxDepth pm)" "2 \<le> d" "state_tree L view d s" "state_rows view d s"
    and "unat path < 2 ^ (d - 1)" "p = bits (d - 1) (unat path)"
    and "\<forall>t \<in> {p @ ''0'', p @ ''1''}. state_hashes view s t = Some (ByteArray_String ZERO_VALUE_LEAF)"
    and "deposits_of view root s = a # b # c # cs" "us_Data a \<noteq> []" "us_Data b \<noteq> []"
  shows "\<exists>s'. FinaliseDeposits G L path root s = (Panic IndexOutOfRange, s') \<and>
    finalised L view d [p @ ''0'', p @ ''1''] [a, b] s s'"
proof -
  have inv: "db_inv G L view up s" using assms by (simp add: db_inv_def)
  note start = FinaliseDeposits_start(1) [OF inv assms(4-6,8-11), of root]
    FinaliseDeposits_start(2,3) [OF inv assms(4-6,8-11)]
  have ts: "\<forall>t \<in> set [p @ ''0'', p @ ''1'']. binary t \<and> length t = d" using start(2,3) assms(6) by auto
  obtain s' where s': "FinaliseDeposits_loop G L [p @ ''0'', p @ ''1''] 0 [a, b] s = (Ok (), s')"
    "finalised L view d (take (length [a, b]) (drop 0 [p @ ''0'', p @ ''1''])) [a, b] s s'"
    using FinaliseDeposits_loop_run [OF inv assms(7,8) _ ts, of 0 "[a, b]"] assms(6,13,14) by auto
  have "FinaliseDeposits_loop G L [p @ ''0'', p @ ''1''] 0 ([a, b] @ c # cs) s = (Panic IndexOutOfRange, s')"
    unfolding FinaliseDeposits_loop_append using s'(1) by (simp add: andThen_ok del: FinaliseDeposits_loop.simps(2)) simp
  with start(1) s'(2) assms(12) show ?thesis by simp
qed

theorem FinaliseDeposits_more_than_two_witness:
  "\<exists>s'. FinaliseDeposits mem_gorm ref_libs 1 ex_root (ex_dep [5, 6, 7]) = (Panic IndexOutOfRange, s')"
  using FinaliseDeposits_more_than_two [OF mem_gorm_ok ref_libs_ok TrueI ex_dep_ok(4) [of "[5, 6, 7]"] _ _ ex_dep_ok(1,2),
      where path = 1 and p = "''1''" and root = ex_root and a = "ex_deposit 5" and b = "ex_deposit 6"
        and c = "ex_deposit 7" and cs = "[]"]
    ex_dep_ok(5,6) ex_bits
  by (auto simp: pm_example_def)

text \<open>
  \<open>AttachDepositInfo\<close> stamps the deposit root on exactly the pending rows: reading the
  deposits of that root back gives all of them, and the balance tree is as before.
\<close>

theorem AttachDepositInfo_correct:
  assumes "gorm_ok G view up" "libs_ok L" "up s" "state_tree L view d s" "state_rows view d s"
  shows "\<exists>s'. AttachDepositInfo G root s = (Ok (), s') \<and> up s' \<and>
    state_tree L view d s' \<and> state_rows view d s' \<and>
    (\<forall>p. binary p \<longrightarrow> state_node view s' p = state_node view s p) \<and>
    GetPendingAccByDepositRoot G root s' = (Ok (map
      (\<lambda>r. r\<lparr>us_CreatedByDepositSubTree := ByteArray_String root\<rparr>) (pending view s)), s')"
  using assms by (rule AttachDepositInfo_deposits)

theorem AttachDepositInfo_correct_witness:
  "\<exists>s'. AttachDepositInfo mem_gorm (replicate 32 9) (ex_dep [5]) = (Ok (), s') \<and>
     GetPendingAccByDepositRoot mem_gorm (replicate 32 9) s' =
       (Ok [(ex_deposit 5)\<lparr>us_CreatedByDepositSubTree := ByteArray_String (replicate 32 9)\<rparr>], s')"
  using AttachDepositInfo_correct [OF mem_gorm_ok ref_libs_ok TrueI ex_dep_ok(1,2) [of "[5]"], of "replicate 32 9"]
  by (auto simp: ex_dep_ok(3))

end
