(* ===== verification/Event_Processors.thy ===== *)
theory Event_Processors
  imports Contract_Caller Deposit_Tree Unpack
begin

text \<open>
  \<open>listener/processors.go\<close> and \<open>listener/utils.go\<close>: one processor for each event of the
  logger contract, which decodes the log and applies it to the database.  The processors
  run in a goroutine without a \<open>recover\<close>: a panic here ends the process, with the database
  as it is at that point.  Their programs are \<open>Panic\<close> exactly then; errors that the source
  prints or drops end in a normal return.
\<close>

section \<open>The event structs of the bindings\<close>

definition LoggerNewPubkeyAdded :: gstruct where
  "LoggerNewPubkeyAdded = \<lparr>gs_kinds = [''AccountID'' \<mapsto> KBigInt, ''Pubkey'' \<mapsto> KSlice, ''Raw'' \<mapsto> KOther],
     gs_values = Map.empty\<rparr>"

definition LoggerDepositQueued :: gstruct where
  "LoggerDepositQueued = \<lparr>gs_kinds = [''AccountID'' \<mapsto> KBigInt, ''Data'' \<mapsto> KSlice, ''Raw'' \<mapsto> KOther],
     gs_values = Map.empty\<rparr>"

definition LoggerDepositSubTreeReady :: gstruct where
  "LoggerDepositSubTreeReady = \<lparr>gs_kinds = [''Root'' \<mapsto> KArray 32, ''Raw'' \<mapsto> KOther], gs_values = Map.empty\<rparr>"

definition LoggerDepositsFinalised :: gstruct where
  "LoggerDepositsFinalised = \<lparr>gs_kinds = [''DepositSubTreeRoot'' \<mapsto> KArray 32, ''PathToSubTree'' \<mapsto> KBigInt,
     ''Raw'' \<mapsto> KOther], gs_values = Map.empty\<rparr>"

definition LoggerNewBatch :: gstruct where
  "LoggerNewBatch = \<lparr>gs_kinds = [''Committer'' \<mapsto> KAddress, ''UpdatedRoot'' \<mapsto> KArray 32, ''Index'' \<mapsto> KBigInt,
     ''BatchType'' \<mapsto> KUint 8, ''Raw'' \<mapsto> KOther], gs_values = Map.empty\<rparr>"

definition LoggerRegisteredToken :: gstruct where
  "LoggerRegisteredToken = \<lparr>gs_kinds = [''TokenType'' \<mapsto> KBigInt, ''TokenContract'' \<mapsto> KAddress,
     ''Raw'' \<mapsto> KOther], gs_values = Map.empty\<rparr>"

text \<open>
  Reading a field that may not have been set: \<open>Uint64()\<close> of a nil \<open>*big.Int\<close> panics, the
  other types start from their zero value.
\<close>

definition fld_Uint64 :: "gstruct \<Rightarrow> string \<Rightarrow> u64 res" where
  "fld_Uint64 o' n = (case gs_values o' n of Some (VBig x) \<Rightarrow> Ok (big_Uint64 x) | _ \<Rightarrow> Panic NilDereference)"

definition fld_slice :: "gstruct \<Rightarrow> string \<Rightarrow> bytes" where
  "fld_slice o' n = (case gs_values o' n of Some (VBytes b) \<Rightarrow> b | _ \<Rightarrow> [])"

definition fld_array :: "nat \<Rightarrow> gstruct \<Rightarrow> string \<Rightarrow> bytes" where
  "fld_array k o' n = (case gs_values o' n of Some (VBytes b) \<Rightarrow> b | _ \<Rightarrow> replicate k 0)"

definition fld_uint8 :: "gstruct \<Rightarrow> string \<Rightarrow> byte" where
  "fld_uint8 o' n = (case gs_values o' n of Some (VNum x) \<Rightarrow> of_int x | _ \<Rightarrow> 0)"

section \<open>The syncer's resources\<close>

text \<open>
  The fields of \<open>Syncer\<close> that the processors use, with the libraries: hashing, the case
  tables of \<open>strings.ToUpper\<close>, the text of an address, and the node's \<open>FilterLogs\<close>, already
  restricted to the logger's address, from the first to the last block.
\<close>

record 's Syncer =
  sc_abis :: "abi list"
  sc_DBInstance :: "'s gorm"
  sc_loadedBazooka :: "'s chain"
  sc_libs :: libs
  sc_upper :: "rune \<Rightarrow> rune"
  sc_Address_String :: "bytes \<Rightarrow> string"
  sc_FilterLogs :: "int \<Rightarrow> int \<Rightarrow> 's \<Rightarrow> go_error + eth_log list"

section \<open>\<open>listener/utils.go\<close>\<close>

text \<open>
  The loop ranges over a map, in any order; the list is the order of this run.  It returns
  a pointer to the loop variable at once, so the variable still is the matching event.
\<close>

fun EventByID_loop :: "(string \<times> event) list \<Rightarrow> bytes \<Rightarrow> event option" where
  "EventByID_loop [] sigdata = None"
| "EventByID_loop ((name, event) # events) sigdata =
     (if ev_ID event = sigdata then Some event else EventByID_loop events sigdata)"

definition EventByID :: "abi \<Rightarrow> bytes \<Rightarrow> event option" where
  "EventByID abiObject sigdata = EventByID_loop (abi_Events abiObject) sigdata"

section \<open>The processors\<close>

definition unpack_event ::
  "'s Syncer \<Rightarrow> gstruct \<Rightarrow> string \<Rightarrow> abi \<Rightarrow> eth_log \<Rightarrow> ('s, gstruct) prog" where
  "unpack_event S event eventName abiObject vLog =
    orPanic (lift (UnpackLog (sc_upper S) abiObject event eventName vLog))"

definition processNewPubkeyAddition :: "'s Syncer \<Rightarrow> string \<Rightarrow> abi \<Rightarrow> eth_log \<Rightarrow> ('s, unit) prog" where
  "processNewPubkeyAddition S eventName abiObject vLog =
    (let G = sc_DBInstance S; L = sc_libs S in
     andThen (unpack_event S LoggerNewPubkeyAdded eventName abiObject vLog) (\<lambda>event.
     orReturn (GetParams G) (\<lambda>params.
     andThen (lift (fld_Uint64 event ''AccountID'')) (\<lambda>accountID.
     andThen (orPanic (lift (SolidityPathToNodePath accountID (pm_MaxDepth params)))) (\<lambda>pathToNode.
     andThen (orPanic (lift (NewAccount L accountID (hex_EncodeToString (fld_slice event ''Pubkey'')) pathToNode)))
       (\<lambda>newAcc. orPanic (UpdateAccount G L newAcc)))))))"

definition processDepositQueued :: "'s Syncer \<Rightarrow> string \<Rightarrow> abi \<Rightarrow> eth_log \<Rightarrow> ('s, unit) prog" where
  "processDepositQueued S eventName abiObject vLog =
    andThen (unpack_event S LoggerDepositQueued eventName abiObject vLog) (\<lambda>event.
    andThen (lift (fld_Uint64 event ''AccountID'')) (\<lambda>accountID.
      orPanic (AddNewPendingAccount (sc_DBInstance S)
        (NewPendingUserState (sc_libs S) accountID (fld_slice event ''Data'')))))"

text \<open>The error of sending is assigned and not looked at.\<close>

definition SendDepositFinalisationTx :: "'s Syncer \<Rightarrow> ('s, unit) prog" where
  "SendDepositFinalisationTx S =
    (let G = sc_DBInstance S in
     orReturn (GetParams G) (\<lambda>params.
     orReturn (GetDepositNodeAndSiblings G (sc_libs S)) (\<lambda>(nodeToBeReplaced, siblings).
       ignoreErr (FireDepositFinalisation nodeToBeReplaced siblings (pm_MaxDepositSubTreeHeight params)))))"

definition processDepositSubtreeCreated :: "'s Syncer \<Rightarrow> string \<Rightarrow> abi \<Rightarrow> eth_log \<Rightarrow> ('s, unit) prog" where
  "processDepositSubtreeCreated S eventName abiObject vLog =
    andThen (unpack_event S LoggerDepositSubTreeReady eventName abiObject vLog) (\<lambda>event.
    andThen (orPanic (AttachDepositInfo (sc_DBInstance S) (fld_array 32 event ''Root''))) (\<lambda>_.
      SendDepositFinalisationTx S))"

definition processDepositFinalised :: "'s Syncer \<Rightarrow> string \<Rightarrow> abi \<Rightarrow> eth_log \<Rightarrow> ('s, unit) prog" where
  "processDepositFinalised S eventName abiObject vLog =
    andThen (unpack_event S LoggerDepositsFinalised eventName abiObject vLog) (\<lambda>event.
    let depositRoot = fld_array 32 event ''DepositSubTreeRoot'' in
    andThen (lift (fld_Uint64 event ''PathToSubTree'')) (\<lambda>pathToDepositSubTree.
      ignoreErr (FinaliseDepositsAndAddBatch (sc_DBInstance S) (sc_libs S) depositRoot pathToDepositSubTree)))"

text \<open>The whole body is commented out.\<close>

definition ApplyTxsFromBatch :: "bytes list \<Rightarrow> u64 \<Rightarrow> ('s, unit) prog" where
  "ApplyTxsFromBatch txs txType = ret ()"

text \<open>The row that the event's batch becomes; the struct literal does not set the other columns.\<close>

definition newBatch_of :: "'s Syncer \<Rightarrow> Params \<Rightarrow> gstruct \<Rightarrow> u64 \<Rightarrow> bytes list \<Rightarrow> Batch" where
  "newBatch_of S pm event index txs = zero_Batch\<lparr>
     bt_BatchID := index,
     bt_StateRoot := ByteArray_String (fld_array 32 event ''UpdatedRoot''),
     bt_TransactionsIncluded := ConcatTxs txs,
     bt_Committer := sc_Address_String S (fld_array 20 event ''Committer''),
     bt_StakeAmount := pm_StakeAmount pm,
     bt_FinalisesOn := int64 (pm_FinalisationTime pm),
     bt_Status := BATCH_COMMITTED\<rparr>"

definition fetch_batch_txs :: "'s Syncer \<Rightarrow> byte \<Rightarrow> eth_log \<Rightarrow> ('s, bytes list) prog" where
  "fetch_batch_txs S batchType vLog =
    (if unsigned batchType \<noteq> TX_GENESIS \<or> unsigned batchType = TX_DEPOSIT
     then orPanic (FetchBatchInputData (sc_loadedBazooka S) (log_TxHash vLog)) else ret [])"

text \<open>From the lookup of the batch on.\<close>

definition recordBatch :: "'s Syncer \<Rightarrow> Params \<Rightarrow> gstruct \<Rightarrow> u64 \<Rightarrow> bytes list \<Rightarrow> ('s, unit) prog" where
  "recordBatch S pm event index txs =
    (let G = sc_DBInstance S; newBatch = newBatch_of S pm event index txs in (\<lambda>s.
     case GetBatchByIndex G index s of
       (Panic p, s) \<Rightarrow> (Panic p, s)
     | (Err e, s) \<Rightarrow>
         (if e = RecordNotFound then
            andThen (orPanic (ApplyTxsFromBatch txs (unsigned (fld_uint8 event ''BatchType'')))) (\<lambda>_.
              orPanic (AddNewBatch G newBatch)) s
          else (Ok (), s))
     | (Ok batch, s) \<Rightarrow>
         andThen (if bt_Status batch \<noteq> BATCH_COMMITTED then ignoreErr (CommitBatch G newBatch) else ret ()) (\<lambda>_.
           ignoreErr (UpdateSyncStatusWithBatchNumber G index)) s))"

definition processNewBatch :: "'s Syncer \<Rightarrow> string \<Rightarrow> abi \<Rightarrow> eth_log \<Rightarrow> ('s, unit) prog" where
  "processNewBatch S eventName abiObject vLog =
    andThen (unpack_event S LoggerNewBatch eventName abiObject vLog) (\<lambda>event.
    orReturn (GetParams (sc_DBInstance S)) (\<lambda>params.
    andThen (fetch_batch_txs S (fld_uint8 event ''BatchType'') vLog) (\<lambda>txs.
    andThen (lift (fld_Uint64 event ''Index'')) (\<lambda>index.
      recordBatch S params event index txs))))"

definition processRegisteredToken :: "'s Syncer \<Rightarrow> string \<Rightarrow> abi \<Rightarrow> eth_log \<Rightarrow> ('s, unit) prog" where
  "processRegisteredToken S eventName abiObject vLog =
    andThen (unpack_event S LoggerRegisteredToken eventName abiObject vLog) (\<lambda>event.
    andThen (lift (fld_Uint64 event ''TokenType'')) (\<lambda>tokenID.
      orPanic (AddToken (sc_DBInstance S) \<lparr>tk_Address = sc_Address_String S (fld_array 20 event ''TokenContract''),
        tk_TokenID = tokenID\<rparr>)))"

section \<open>Lemmas\<close>

text \<open>A log of an event without indexed fields whose data decodes to the values \<open>vs\<close>.\<close>

definition decodes :: "abi \<Rightarrow> string \<Rightarrow> eth_log \<Rightarrow> (string \<rightharpoonup> gvalue) \<Rightarrow> bool" where
  "decodes A ev log vs \<longleftrightarrow> (\<forall>a \<in> set (event_inputs A ev). \<not> arg_Indexed a) \<and> (\<exists>t. log_Topics log = [t]) \<and>
     log_Data log \<noteq> [] \<and> abi_Unpack A ev (log_Data log) = Inr vs"

lemma unpack_event_run:
  assumes "decodes A ev log vs"
  shows "unpack_event S out ev A log s = (Ok (out\<lparr>gs_values := gs_values out ++ vs\<rparr>), s)"
proof -
  obtain t where "log_Topics log = [t]" using assms by (auto simp: decodes_def)
  with UnpackLog_not_indexed [of A ev log t vs "sc_upper S" out] assms
  show ?thesis by (simp add: unpack_event_def decodes_def orPanic_def)
qed

lemma andThen_unpack:
  assumes "decodes A ev log vs"
  shows "andThen (unpack_event S out ev A log) k s = k (out\<lparr>gs_values := gs_values out ++ vs\<rparr>) s"
  by (rule andThen_ok) (rule unpack_event_run [OF assms])

lemma orPanic_lift_ok [simp]: "orPanic (lift (Ok a)) = lift (Ok a)"
  by (simp add: orPanic_def fun_eq_iff)

lemma distinct_const: "distinct (map f xs) \<Longrightarrow> \<forall>x \<in> set xs. f x = c \<Longrightarrow> xs = [] \<or> (\<exists>x. xs = [x])"
  by (cases xs; cases "tl xs") auto

lemmas event_structs = LoggerNewPubkeyAdded_def LoggerDepositQueued_def LoggerDepositSubTreeReady_def
  LoggerDepositsFinalised_def LoggerNewBatch_def LoggerRegisteredToken_def

lemmas fld_defs = fld_Uint64_def fld_slice_def fld_array_def fld_uint8_def

lemma EventByID_loop_find:
  "EventByID_loop es sig = (case filter (\<lambda>e. ev_ID (snd e) = sig) es of [] \<Rightarrow> None | e # _ \<Rightarrow> Some (snd e))"
  by (induction es sig rule: EventByID_loop.induct) simp_all

text \<open>Looking siblings up never panics on a path of node characters.\<close>

lemma GetSiblings_loop_no_panic:
  "ascii p \<Longrightarrow> length p = k \<Longrightarrow> \<not> is_Panic (fst (GetSiblings_loop G k p acc s))"
proof (induction k arbitrary: p acc)
  case (Suc k)
  then obtain q c where q: "p = q @ [c]" by (metis length_0_conv nat.distinct(1) rev_exhaust)
  then have p: "GetParentPath p = q" "ascii q" "length q = k"
    using trimPathToParentPath_ascii [OF Suc.prems(1)] Suc.prems by (simp_all add: GetParentPath_def)
  have "runes p = map byte_of p" by (rule runes_ascii [OF Suc.prems(1)])
  then obtain oc where "GetOtherChild p = Ok oc"
    using q by (simp add: GetOtherChild_def FlipBitInString_def rune_at_def Let_def)
  then show ?case using Suc.IH [OF p(2,3)]
    by (auto simp: p(1) andThen_def GetStateByPath_def onError_def db_read_def split: sum.splits)
qed simp

lemma reads_only_GetSiblings: "reads_only (GetSiblings G p)"
proof -
  have "reads_only (GetSiblings_loop G k p acc)" for k p acc
    by (induction k arbitrary: p acc) (auto simp: GetStateByPath_def reads_only_def onError_def db_read_def
      andThen_def split: sum.splits res.splits)
  then show ?thesis by (simp add: GetSiblings_def)
qed

lemma SendDepositFinalisationTx_run:
  assumes "db_inv (sc_DBInstance S) (sc_libs S) view up s" "params (view s) = [pm]"
    and "unat (pm_MaxDepositSubTreeHeight pm) < 100" "state_rows view d s"
  shows "SendDepositFinalisationTx S s = (Ok (), s)"
proof -
  let ?G = "sc_DBInstance S" and ?L = "sc_libs S"
  note dm = db_invD [OF assms(1)]
  have gp: "GetParams ?G s = (Ok pm, s)" by (rule GetParams_run [OF dm(1,3) assms(2)])
  let ?h = "empty_hash ?L (unat (pm_MaxDepositSubTreeHeight pm))"
  let ?lv = "pm_MaxDepth pm - pm_MaxDepositSubTreeHeight pm"
  let ?c = "\<lambda>r. us_Level r = ?lv \<and> us_Hash r = ByteArray_String ?h"
  have dh: "default_hash ?L (pm_MaxDepositSubTreeHeight pm) = Ok ?h" by (rule default_hash_ok [OF dm(2) assms(3)])
  have "\<not> is_Panic (fst (GetSiblings ?G (us_Path r) s))" if "r \<in> set (user_states (view s))" for r
  proof -
    have "binary (us_Path r) \<or> us_Path r = UNINITIALIZED_PATH" using assms(4) that by (auto simp: state_rows_def)
    then have "ascii (us_Path r)" by (auto simp: binary_ascii)
    then show ?thesis by (simp add: GetSiblings_def GetSiblings_loop_no_panic)
  qed
  note no_panic = this
  have "(\<exists>n sibs. GetDepositNodeAndSiblings ?G ?L s = (Ok (n, sibs), s))
      \<or> (\<exists>e. GetDepositNodeAndSiblings ?G ?L s = (Err e, s))"
  proof (cases "filter ?c (user_states (view s)) = []")
    case True
    then have "GetDepositSubTreeRoot ?G (ByteArray_String ?h) ?lv s = (Err (ErrRecordNotFound (ByteArray_String ?h)), s)"
      using first_none [OF gorm_states_first [OF dm(1)] dm(3)] by (simp add: GetDepositSubTreeRoot_def only_not_found_def)
    then show ?thesis using gp dh by (simp add: GetDepositNodeAndSiblings_def andThen_ok andThen_err)
  next
    case False
    obtain r where r1: "t_first (g_states ?G) ?c s = Inr r" "r \<in> set (filter ?c (user_states (view s)))"
      by (rule first_some [OF gorm_states_first [OF dm(1)] dm(3) False])
    then have r: "t_first (g_states ?G) ?c s = Inr r" "r \<in> set (user_states (view s))" by simp_all
    then have g: "GetDepositSubTreeRoot ?G (ByteArray_String ?h) ?lv s = (Ok r, s)"
      by (simp add: GetDepositSubTreeRoot_def only_not_found_def)
    obtain x where x: "GetSiblings ?G (us_Path r) s = (x, s)"
      using reads_only_snd [OF reads_only_GetSiblings] by (metis prod.collapse)
    with no_panic [OF r(2)] have "\<not> is_Panic x" by simp
    with gp dh g x show ?thesis
      by (cases x) (simp_all add: GetDepositNodeAndSiblings_def andThen_ok andThen_err)
  qed
  with gp show ?thesis
    by (elim disjE exE) (simp_all add: SendDepositFinalisationTx_def FireDepositFinalisation_def Let_def orReturn_ok
      orReturn_err ignoreErr_def)
qed

lemma processDepositQueued_run:
  assumes "db_inv (sc_DBInstance S) (sc_libs S) view up s" "state_tree (sc_libs S) view d s" "state_rows view d s"
    and "decodes A ev log vs" "vs ''AccountID'' = Some (VBig i)" "vs ''Data'' = Some (VBytes b)" "b \<noteq> []"
  shows "\<exists>s'. processDepositQueued S ev A log s = (Ok (), s') \<and> db_inv (sc_DBInstance S) (sc_libs S) view up s' \<and>
    view s' = user_states_update (\<lambda>rs. rs @ [NewPendingUserState (sc_libs S) (big_Uint64 i) b]) (view s) \<and>
    state_tree (sc_libs S) view d s' \<and> state_rows view d s' \<and>
    pending view s' = pending view s @ [NewPendingUserState (sc_libs S) (big_Uint64 i) b] \<and>
    (\<forall>p. binary p \<longrightarrow> state_node view s' p = state_node view s p)"
proof -
  let ?a = "NewPendingUserState (sc_libs S) (big_Uint64 i) b"
  have a: "us_Path ?a = UNINITIALIZED_PATH" "us_Level ?a = 2" "us_Status ?a = STATUS_PENDING"
    by (simp_all add: NewPendingUserState_def UpdatePath_def CreateAccountHash_def Let_def)
  have "processDepositQueued S ev A log s = orPanic (AddNewPendingAccount (sc_DBInstance S) ?a) s"
    using assms(5,6) by (simp add: processDepositQueued_def andThen_unpack [OF assms(4)]
      event_structs fld_defs)
  moreover obtain s' where s': "AddNewPendingAccount (sc_DBInstance S) ?a s = (Ok (), s')"
    "db_inv (sc_DBInstance S) (sc_libs S) view up s'" "view s' = user_states_update (\<lambda>rs. rs @ [?a]) (view s)"
    "state_tree (sc_libs S) view d s'" "state_rows view d s'" "pending view s' = pending view s @ [?a]"
    using AddNewPendingAccount_run [OF assms(1-3) a] stamp_us_data [of ?a] assms(7)
    by (auto simp: NewPendingUserState_def UpdatePath_def CreateAccountHash_def Let_def)
  moreover have "state_node view s' p = state_node view s p" if "binary p" for p
    by (rule state_node_append [where rs = "[?a]"]) (use s'(3) a(1) that in auto)
  ultimately show ?thesis by (auto simp: orPanic_def)
qed

lemma processDepositSubtreeCreated_run:
  assumes "db_inv (sc_DBInstance S) (sc_libs S) view up s" "state_tree (sc_libs S) view d s" "state_rows view d s"
    and "params (view s) = [pm]" "unat (pm_MaxDepositSubTreeHeight pm) < 100"
    and "decodes A ev log vs" "vs ''Root'' = Some (VBytes root)"
    and "m = (\<lambda>r :: UserState. r\<lparr>us_CreatedByDepositSubTree := ByteArray_String root\<rparr>)"
  shows "\<exists>s'. processDepositSubtreeCreated S ev A log s = (Ok (), s') \<and>
    db_inv (sc_DBInstance S) (sc_libs S) view up s' \<and> (view s')\<lparr>user_states := []\<rparr> = (view s)\<lparr>user_states := []\<rparr> \<and>
    state_tree (sc_libs S) view d s' \<and> state_rows view d s' \<and>
    (\<forall>p. binary p \<longrightarrow> state_node view s' p = state_node view s p) \<and>
    pending view s' = map m (pending view s) \<and> deposits_of view root s' = map m (pending view s)"
proof -
  let ?G = "sc_DBInstance S" and ?L = "sc_libs S"
  note dm = db_invD [OF assms(1)]
  let ?f = "\<lambda>r. if us_Status r = STATUS_PENDING then m r else r"
  obtain s1 where s1: "AttachDepositInfo ?G root s = (Ok (), s1)" "db_inv ?G ?L view up s1"
    "view s1 = user_states_update (map ?f) (view s)"
    using AttachDepositInfo_run [OF assms(1), of root] assms(8) by auto
  from AttachDepositInfo_deposits [OF dm assms(2,3), of root] s1(1)
  have t1: "state_tree ?L view d s1" "state_rows view d s1"
    "\<forall>p. binary p \<longrightarrow> state_node view s1 p = state_node view s p"
    "GetPendingAccByDepositRoot ?G root s1 = (Ok (map m (pending view s)), s1)" by (auto simp: assms(8))
  have "pending view s1 = map m (pending view s)"
    by (simp add: pending_def s1(3) filter_map o_def assms(8) if_distrib [where f = us_Status] cong: if_cong)
  moreover have "deposits_of view root s1 = map m (pending view s)"
    using t1(4) GetPendingAccByDepositRoot_run [OF s1(2), of root] by simp
  moreover have "params (view s1) = [pm]" using s1(3) assms(4) by simp
  from SendDepositFinalisationTx_run [OF s1(2) this assms(5) t1(2)]
  have "processDepositSubtreeCreated S ev A log s = (Ok (), s1)"
    using s1(1) assms(7) by (simp add: processDepositSubtreeCreated_def andThen_unpack [OF assms(6)]
      event_structs fld_defs orPanic_ok andThen_ok)
  ultimately show ?thesis using s1 t1 by (intro exI [of _ s1]) simp
qed

text \<open>The account that a \<open>NewPubkeyAdded\<close> event stands for.\<close>

definition event_account :: "libs \<Rightarrow> nat \<Rightarrow> u64 \<Rightarrow> bytes \<Rightarrow> Account" where
  "event_account L d i key = zero_Account\<lparr>acc_ID := i, acc_PublicKey := hex_EncodeToString key,
     acc_Path := bits d (unat i), acc_Type := TYPE_TERMINAL,
     acc_Hash := key_hash L (hex_EncodeToString key)\<rparr>"

lemma hex_key_ok: "key_ok (hex_EncodeToString key)"
  by (simp add: key_ok_def hex_roundtrip)

lemma processNewPubkeyAddition_run:
  assumes "db_inv (sc_DBInstance S) (sc_libs S) view up s" "params (view s) = [pm]" "d = unat (pm_MaxDepth pm)" "0 < d"
    and "decodes A ev log vs" "vs ''AccountID'' = Some (VBig x)" "vs ''Pubkey'' = Some (VBytes key)"
    and "i = big_Uint64 x" "unat i < 2 ^ d"
  shows "processNewPubkeyAddition S ev A log s =
    orPanic (UpdateAccount (sc_DBInstance S) (sc_libs S) (event_account (sc_libs S) d i key)) s"
proof -
  have "0 < pm_MaxDepth pm" using assms(3,4) by (simp add: word_less_nat_alt)
  then have p: "SolidityPathToNodePath i (pm_MaxDepth pm) = Ok (bits d (unat i))"
    using SolidityPathToNodePath_bits [of i "pm_MaxDepth pm"] assms(3,9) by simp
  have n: "NewAccount (sc_libs S) i (hex_EncodeToString key) (bits d (unat i)) = Ok (event_account (sc_libs S) d i key)"
    using PopulateHash_ok(1) [OF db_invD(2) [OF assms(1)]] hex_key_ok [of key]
    by (simp add: NewAccount_def event_account_def Let_def)
  have g: "GetParams (sc_DBInstance S) s = (Ok pm, s)"
    by (rule GetParams_run [OF db_invD(1) [OF assms(1)] db_invD(3) [OF assms(1)] assms(2)])
  show ?thesis
    using assms(6-8) p n g by (simp add: processNewPubkeyAddition_def andThen_unpack [OF assms(5)]
      orReturn_ok event_structs fld_defs Let_def)
qed

lemma ConcatTxs_concat: "ConcatTxs txs = concat txs"
proof -
  have "ConcatTxs_loop txs acc = acc @ concat txs" for acc by (induction txs arbitrary: acc) simp_all
  then show ?thesis by (simp add: ConcatTxs_def)
qed

section \<open>Properties\<close>

text \<open>
  \<open>EventByID\<close> returns an event with the given ID if and only if the ABI has one; when
  the IDs differ, as hashes of different signatures do, the order in which the map of
  events is walked does not matter.
\<close>

theorem EventByID_correct:
  assumes "distinct (map (ev_ID \<circ> snd) (abi_Events A))" "mset (abi_Events B) = mset (abi_Events A)"
  shows "(case EventByID A sig of
      Some e \<Rightarrow> e \<in> snd ` set (abi_Events A) \<and> ev_ID e = sig
    | None \<Rightarrow> sig \<notin> ev_ID ` snd ` set (abi_Events A)) \<and> EventByID B sig = EventByID A sig"
proof -
  let ?P = "\<lambda>e. ev_ID (snd e) = sig"
  have m: "mset (filter ?P (abi_Events B)) = mset (filter ?P (abi_Events A))" using assms(2) by simp
  have "distinct (map (ev_ID \<circ> snd) (filter ?P (abi_Events A)))" using assms(1) by (simp add: distinct_map_filter)
  from distinct_const [OF this, of sig]
  consider "filter ?P (abi_Events A) = []" | e where "filter ?P (abi_Events A) = [e]" by auto
  then show ?thesis
  proof cases
    case 1
    with m have "filter ?P (abi_Events B) = []" by (metis mset_zero_iff)
    moreover from 1 have "sig \<notin> ev_ID ` snd ` set (abi_Events A)" by (auto simp: filter_empty_conv)
    ultimately show ?thesis using 1 by (simp add: EventByID_def EventByID_loop_find)
  next
    case 2
    with m have "filter ?P (abi_Events B) = [e]" by (metis mset_single_iff)
    moreover have "e \<in> set (abi_Events A) \<and> ev_ID (snd e) = sig"
      using arg_cong [OF 2, of set] by auto
    ultimately show ?thesis using 2 by (auto simp: EventByID_def EventByID_loop_find)
  qed
qed

definition ex_events :: abi where
  "ex_events = \<lparr>abi_Events = map (\<lambda>(n, i). (n, \<lparr>ev_Name = n, ev_ID = [i], ev_Inputs = []\<rparr>))
      [(''NewPubkeyAdded'', 1), (''DepositQueued'', 2), (''DepositSubTreeReady'', 3), (''DepositsFinalised'', 4),
       (''NewBatch'', 5), (''RegisteredToken'', 6)],
     abi_Unpack = (\<lambda>n b. Inr [''AccountID'' \<mapsto> VBig (uint (hd b)), ''Pubkey'' \<mapsto> VBytes (tl b), ''Data'' \<mapsto> VBytes (tl b),
       ''Root'' \<mapsto> VBytes ex_root, ''DepositSubTreeRoot'' \<mapsto> VBytes ex_root, ''PathToSubTree'' \<mapsto> VBig (uint (hd b)),
       ''Committer'' \<mapsto> VBytes (replicate 20 (hd b)), ''UpdatedRoot'' \<mapsto> VBytes ex_root, ''Index'' \<mapsto> VBig (uint (hd b)),
       ''BatchType'' \<mapsto> VNum 0, ''TokenType'' \<mapsto> VBig (uint (hd b)), ''TokenContract'' \<mapsto> VBytes (replicate 20 (hd b))])\<rparr>"

theorem EventByID_correct_witness:
  "EventByID (ex_events\<lparr>abi_Events := rev (abi_Events ex_events)\<rparr>) [3] = EventByID ex_events [3] \<and>
   EventByID ex_events [3] \<noteq> None"
  using EventByID_correct [of ex_events "ex_events\<lparr>abi_Events := rev (abi_Events ex_events)\<rparr>" "[3]"]
  by (simp add: ex_events_def EventByID_def)

text \<open>
  A syncer over the reference libraries, on a chain whose logs are listed with their block;
  \<open>FilterLogs\<close> returns those between two blocks, both included.
\<close>

definition logs_between :: "(int \<times> eth_log) list \<Rightarrow> int \<Rightarrow> int \<Rightarrow> eth_log list" where
  "logs_between ls a b = map snd (filter (\<lambda>(n, _). a \<le> n \<and> n \<le> b) ls)"

definition ex_syncer :: "(int \<times> eth_log) list \<Rightarrow> tables Syncer" where
  "ex_syncer ls = \<lparr>sc_abis = [ex_events], sc_DBInstance = mem_gorm, sc_loadedBazooka = ref_chain,
     sc_libs = ref_libs, sc_upper = id, sc_Address_String = hex_EncodeToString,
     sc_FilterLogs = (\<lambda>a b _. Inr (logs_between ls a b))\<rparr>"

definition ex_log :: "byte \<Rightarrow> bytes \<Rightarrow> eth_log" where
  "ex_log i d = \<lparr>log_Topics = [[i]], log_Data = d, log_TxHash = []\<rparr>"

lemma ex_decodes:
  "n \<in> fst ` set (abi_Events ex_events) \<Longrightarrow> b \<noteq> [] \<Longrightarrow>
   decodes ex_events n (ex_log i b) (case abi_Unpack ex_events n b of Inr vs \<Rightarrow> vs | _ \<Rightarrow> Map.empty)"
  by (auto simp: decodes_def event_inputs_def ex_events_def ex_log_def split: option.splits)

text \<open>The account tree of \<open>ex_db2\<close> with the ID \<open>n\<close> in every row.\<close>

definition ex_keys :: "u64 \<Rightarrow> tables" where
  "ex_keys n = ex_db2\<lparr>params := [pm_example], accounts := map (\<lambda>r. r\<lparr>acc_ID := n\<rparr>) (accounts ex_db2)\<rparr>"

lemma ex_keys_node: "acc_node (\<lambda>d. d) (ex_keys n) p = map_option (\<lambda>r. r\<lparr>acc_ID := n\<rparr>) (acc_node (\<lambda>d. d) ex_db2 p)"
  by (simp add: acc_node_def ex_keys_def row_at_def filter_map o_def split: list.split)

lemma ex_keys_tree: "account_tree ref_libs (\<lambda>d. d) 2 (ex_keys n)"
proof -
  have "acc_hashes (\<lambda>d. d) (ex_keys n) = acc_hashes (\<lambda>d. d) ex_db2"
    by (auto simp: acc_hashes_def ex_keys_node option.map_comp o_def)
  moreover have "\<exists>r. acc_node (\<lambda>d. d) (ex_keys n) p = Some r \<and> hash_ok (acc_Hash r)"
    if p: "binary p" "length p \<le> 2" for p
  proof -
    obtain r where "acc_node (\<lambda>d. d) ex_db2 p = Some r" "hash_ok (acc_Hash r)"
      using ex_db2_ok(2) p unfolding account_tree_def by blast
    then show ?thesis by (simp add: ex_keys_node)
  qed
  ultimately show ?thesis using ex_db2_ok(2) by (simp add: account_tree_def)
qed

lemma ex_keys_leaf: "\<exists>r. acc_node (\<lambda>d. d) (ex_keys n) (bits 2 1) = Some r \<and> acc_ID r = n"
proof -
  have "binary (bits 2 1)" "length (bits 2 1) = 2" using bits_facts [of 1 2] by simp_all
  then obtain r where "acc_node (\<lambda>d. d) ex_db2 (bits 2 1) = Some r"
    using ex_db2_ok(2) unfolding account_tree_def by force
  then show ?thesis by (simp add: ex_keys_node)
qed

text \<open>
  C23. A public key that is registered for account \<open>i\<close> enters the account tree when the row
  of leaf \<open>i\<close> has the ID \<open>i\<close> (or \<open>i\<close> is zero): the leaf then holds the key and its hash, the
  tree stays a Merkle tree and its root is that of the changed leaves.
\<close>

theorem NewPubkeyAdded_stores_key:
  assumes "gorm_ok (sc_DBInstance S) view up" "libs_ok (sc_libs S)" "up s" "account_tree (sc_libs S) view d s"
    and "params (view s) = [pm]" "d = unat (pm_MaxDepth pm)" "0 < d"
    and "decodes A ev log vs" "vs ''AccountID'' = Some (VBig x)" "vs ''Pubkey'' = Some (VBytes key)" "key \<noteq> []"
    and "i = big_Uint64 x" "unat i < 2 ^ d" "acc_node view s (bits d (unat i)) = Some r" "i = 0 \<or> acc_ID r = i"
  shows "\<exists>s' r'. processNewPubkeyAddition S ev A log s = (Ok (), s') \<and> up s' \<and>
    account_tree (sc_libs S) view d s' \<and> acc_frame view s' = acc_frame view s \<and>
    acc_node view s' (bits d (unat i)) = Some r' \<and> acc_PublicKey r' = hex_EncodeToString key \<and>
    acc_Hash r' = key_hash (sc_libs S) (hex_EncodeToString key) \<and>
    (\<forall>p. length p = d \<and> p \<noteq> bits d (unat i) \<longrightarrow> acc_node view s' p = acc_node view s p) \<and>
    acc_hashes view s' [] = Some (merkle_root (node_hash (sc_libs S)) ((\<lambda>p. the (acc_hashes view s p))
      (bits d (unat i) := key_hash (sc_libs S) (hex_EncodeToString key))) d [])"
proof -
  have inv: "db_inv (sc_DBInstance S) (sc_libs S) view up s" using assms by (simp add: db_inv_def)
  let ?a = "event_account (sc_libs S) d i key"
  note run = processNewPubkeyAddition_run [OF inv assms(5-10) assms(12,13)]
  have a: "acc_Path ?a = bits d (unat i)" "acc_PublicKey ?a = hex_EncodeToString key" "pk_acc ?a r"
    "acc_Hash ?a = key_hash (sc_libs S) (hex_EncodeToString key)"
    using assms(15) by (auto simp: event_account_def zero_Account_def pk_acc_def)
  have b: "binary (bits d (unat i))" "length (bits d (unat i)) = d" using bits_facts [OF assms(13,7)] by simp_all
  have "hex_EncodeToString key \<noteq> []" using assms(11) by (cases key) (simp_all add: hex_EncodeToString_def)
  moreover have "key_hash (sc_libs S) (hex_EncodeToString key) \<noteq> []"
    using PopulateHash_ok(2) [OF assms(2), of ?a] hex_key_ok [of key] a(2) by (simp add: hash_ok_nonempty)
  ultimately have m: "acc_PublicKey (merge_acc ?a r) = hex_EncodeToString key"
    "acc_Hash (merge_acc ?a r) = key_hash (sc_libs S) (hex_EncodeToString key)"
    using a(2,4) by (simp_all add: merge_acc_def)
  have e: "?a\<lparr>acc_Hash := key_hash (sc_libs S) (acc_PublicKey ?a)\<rparr> = ?a" using a(2,4) by simp
  from UpdateAccount_run [OF inv assms(4), of ?a r] a b assms(7,14) hex_key_ok [of key]
  obtain s' where s': "UpdateAccount (sc_DBInstance S) (sc_libs S) ?a s = (Ok (), s')"
    "db_inv (sc_DBInstance S) (sc_libs S) view up s'" "account_tree (sc_libs S) view d s'"
    "acc_frame view s' = acc_frame view s" "acc_node view s' (bits d (unat i)) = Some (merge_acc ?a r)"
    "\<forall>p. length p = d \<and> p \<noteq> bits d (unat i) \<longrightarrow> acc_node view s' p = acc_node view s p"
    "acc_hashes view s' [] = Some (merkle_root (node_hash (sc_libs S)) ((\<lambda>p. the (acc_hashes view s p))
      (bits d (unat i) := key_hash (sc_libs S) (hex_EncodeToString key))) d [])"
    unfolding e by auto
  with run m show ?thesis by (intro exI [of _ s'] exI [of _ "merge_acc ?a r"]) (simp add: orPanic_ok db_inv_def)
qed

theorem NewPubkeyAdded_stores_key_witness:
  "\<exists>s' r'. processNewPubkeyAddition (ex_syncer []) ''NewPubkeyAdded'' ex_events (ex_log 1 [1, 7]) (ex_keys 1) = (Ok (), s') \<and>
     account_tree ref_libs (\<lambda>d. d) 2 s' \<and> acc_node (\<lambda>d. d) s' (bits 2 1) = Some r' \<and>
     acc_PublicKey r' = hex_EncodeToString [7]"
proof -
  obtain r where r: "acc_node (\<lambda>d. d) (ex_keys 1) (bits 2 1) = Some r" "acc_ID r = 1" using ex_keys_leaf by blast
  have pm: "params (ex_keys 1) = [pm_example]" "2 = unat (pm_MaxDepth pm_example)"
    by (simp_all add: ex_keys_def pm_example_def)
  have d: "decodes ex_events ''NewPubkeyAdded'' (ex_log 1 [1, 7])
      (case abi_Unpack ex_events ''NewPubkeyAdded'' [1, 7] of Inr vs \<Rightarrow> vs | _ \<Rightarrow> Map.empty)"
    by (rule ex_decodes) (simp_all add: ex_events_def)
  have "1 = big_Uint64 1" "unat (1 :: u64) < 2 ^ 2" by (simp_all add: big_Uint64_def)
  with NewPubkeyAdded_stores_key [of "ex_syncer []", OF _ _ TrueI, where view = "\<lambda>d. d" and s = "ex_keys 1"
      and d = 2 and pm = pm_example and x = 1 and key = "[7]" and i = 1 and r = r, OF _ _ _ pm _ d] r
    ex_keys_tree [of 1] mem_gorm_ok ref_libs_ok
  show ?thesis by (auto simp: ex_syncer_def ex_events_def)
qed

text \<open>
  C24. When the row of leaf \<open>i\<close> has another ID than the account of the event, the key is
  lost without an error: no leaf of the tree changes, but the root is rehashed as if the
  key had been stored.
\<close>

theorem NewPubkeyAdded_loses_key:
  assumes "gorm_ok (sc_DBInstance S) view up" "libs_ok (sc_libs S)" "up s" "account_tree (sc_libs S) view d s"
    and "params (view s) = [pm]" "d = unat (pm_MaxDepth pm)" "0 < d"
    and "decodes A ev log vs" "vs ''AccountID'' = Some (VBig x)" "vs ''Pubkey'' = Some (VBytes key)"
    and "i = big_Uint64 x" "unat i < 2 ^ d" "acc_node view s (bits d (unat i)) = Some r" "i \<noteq> 0" "acc_ID r \<noteq> i"
  shows "\<exists>s'. processNewPubkeyAddition S ev A log s = (Ok (), s') \<and> up s' \<and>
    (\<forall>p. length p = d \<longrightarrow> acc_node view s' p = acc_node view s p) \<and>
    acc_hashes view s' [] = Some (merkle_root (node_hash (sc_libs S)) ((\<lambda>p. the (acc_hashes view s p))
      (bits d (unat i) := key_hash (sc_libs S) (hex_EncodeToString key))) d [])"
proof -
  have inv: "db_inv (sc_DBInstance S) (sc_libs S) view up s" using assms by (simp add: db_inv_def)
  let ?a = "event_account (sc_libs S) d i key"
  note run = processNewPubkeyAddition_run [OF inv assms(5-12)]
  have a: "acc_Path ?a = bits d (unat i)" "acc_PublicKey ?a = hex_EncodeToString key" "\<not> pk_acc ?a r"
    using assms(14,15) by (auto simp: event_account_def zero_Account_def pk_acc_def)
  have b: "binary (bits d (unat i))" "length (bits d (unat i)) = d" using bits_facts [OF assms(12,7)] by simp_all
  from UpdateAccount_foreign [OF inv assms(4), of ?a r] a b assms(7,13) hex_key_ok [of key] run
  show ?thesis by (auto simp: orPanic_ok db_inv_def)
qed

theorem NewPubkeyAdded_loses_key_witness:
  "\<exists>s'. processNewPubkeyAddition (ex_syncer []) ''NewPubkeyAdded'' ex_events (ex_log 1 [1, 7]) (ex_keys 2) = (Ok (), s') \<and>
     (\<forall>p. length p = 2 \<longrightarrow> acc_node (\<lambda>d. d) s' p = acc_node (\<lambda>d. d) (ex_keys 2) p)"
proof -
  obtain r where r: "acc_node (\<lambda>d. d) (ex_keys 2) (bits 2 1) = Some r" "acc_ID r = 2" using ex_keys_leaf by blast
  have pm: "params (ex_keys 2) = [pm_example]" "2 = unat (pm_MaxDepth pm_example)"
    by (simp_all add: ex_keys_def pm_example_def)
  have d: "decodes ex_events ''NewPubkeyAdded'' (ex_log 1 [1, 7])
      (case abi_Unpack ex_events ''NewPubkeyAdded'' [1, 7] of Inr vs \<Rightarrow> vs | _ \<Rightarrow> Map.empty)"
    by (rule ex_decodes) (simp_all add: ex_events_def)
  have "1 = big_Uint64 1" "unat (1 :: u64) < 2 ^ 2" by (simp_all add: big_Uint64_def)
  with NewPubkeyAdded_loses_key [of "ex_syncer []", OF _ _ TrueI, where view = "\<lambda>d. d" and s = "ex_keys 2"
      and d = 2 and pm = pm_example and x = 1 and key = "[7]" and i = 1 and r = r, OF _ _ _ pm _ d] r
    ex_keys_tree [of 2] mem_gorm_ok ref_libs_ok
  show ?thesis by (auto simp: ex_syncer_def ex_events_def)
qed

text \<open>
  A batch that the database does not have is stored once, as committed, with the root,
  the transactions and the parameters of the moment; when the same event arrives again,
  the batches stay as they are.  Only then the sync status records the batch.
\<close>

theorem NewBatch_stored_once:
  assumes "gorm_ok (sc_DBInstance S) view up" "up s" "params (view s) = [pm]" "sync_statuses (view s) = [ss]"
    and "decodes A ev log vs" "vs ''Index'' = Some (VBig x)" "i = big_Uint64 x"
    and "\<forall>b \<in> set (batches (view s)). bt_BatchID b \<noteq> i"
    and "\<And>s. fetch_batch_txs S (fld_uint8 (LoggerNewBatch\<lparr>gs_values := vs\<rparr>) ''BatchType'') log s = (Ok txs, s)"
  shows "\<exists>s1 s2 b. processNewBatch S ev A log s = (Ok (), s1) \<and> up s1 \<and>
    view s1 = (view s)\<lparr>batches := batches (view s) @ [b]\<rparr> \<and>
    b = newBatch_of S pm (LoggerNewBatch\<lparr>gs_values := vs\<rparr>) i txs \<and> bt_BatchID b = i \<and> bt_Status b = BATCH_COMMITTED \<and>
    bt_TransactionsIncluded b = concat txs \<and>
    processNewBatch S ev A log s1 = (Ok (), s2) \<and> up s2 \<and>
    view s2 = (view s1)\<lparr>sync_statuses := [ss\<lparr>ss_LastBatchRecorded := if i = 0 then ss_LastBatchRecorded ss else i\<rparr>]\<rparr>"
proof -
  let ?G = "sc_DBInstance S" and ?ev = "LoggerNewBatch\<lparr>gs_values := vs\<rparr>"
  let ?b = "newBatch_of S pm ?ev i txs"
  have fi: "fld_Uint64 ?ev ''Index'' = Ok i" using assms(6,7) by (simp add: fld_Uint64_def)
  have b: "bt_BatchID ?b = i" "bt_Status ?b = BATCH_COMMITTED" "bt_TransactionsIncluded ?b = concat txs"
    by (simp_all add: newBatch_of_def zero_Batch_def ConcatTxs_concat)
  have run: "processNewBatch S ev A log t = recordBatch S pm ?ev i txs t" if "up t" "params (view t) = [pm]" for t
  proof -
    have "andThen (fetch_batch_txs S (fld_uint8 ?ev ''BatchType'') log) k t = k txs t"
      for k :: "bytes list \<Rightarrow> ('a, unit) prog" by (rule andThen_ok) (rule assms(9))
    then show ?thesis
      using GetParams_run [OF assms(1) that] fi
      by (simp add: processNewBatch_def andThen_unpack [OF assms(5)] orReturn_ok LoggerNewBatch_def)
  qed
  have none: "GetBatchByIndex ?G i s = (Err RecordNotFound, s)"
    using find_one_none [OF gorm_batches_find [OF assms(1)] assms(2), of "\<lambda>b. bt_BatchID b = i"] assms(8)
    by (simp add: GetBatchByIndex_def db_read_Inl filter_empty_conv)
  obtain s1 where s1: "AddNewBatch ?G ?b s = (Ok (), s1)" "up s1" "view s1 = batches_update (\<lambda>rs. rs @ [?b]) (view s)"
    using create_run [OF gorm_batches_create [OF assms(1)] assms(2), of ?b] by (auto simp: AddNewBatch_def)
  have r1: "processNewBatch S ev A log s = (Ok (), s1)"
    using run [OF assms(2,3)] none s1(1) by (simp add: recordBatch_def ApplyTxsFromBatch_def orPanic_def andThen_def Let_def)
  have "filter (\<lambda>b. bt_BatchID b = i) (batches (view s1)) = [?b]" using s1(3) assms(8) b(1) by (simp add: filter_empty_conv)
  then have some: "GetBatchByIndex ?G i s1 = (Ok ?b, s1)"
    using find_one_run [OF gorm_batches_find [OF assms(1)] s1(2), of "\<lambda>b. bt_BatchID b = i"]
    by (simp add: GetBatchByIndex_def db_read_Inr)
  have "sync_statuses (view s1) = [ss]" "params (view s1) = [pm]" using s1(3) assms(3,4) by simp_all
  from sync_update_run [OF assms(1) s1(2) this(1), of "\<lambda>x. zero_SyncStatus\<lparr>ss_LastBatchRecorded := i,
      ss_LastEthBlockRecorded := ss_LastEthBlockRecorded x\<rparr>"]
  obtain s2 where s2: "UpdateSyncStatusWithBatchNumber ?G i s1 = (Ok (), s2)" "up s2"
    "view s2 = (view s1)\<lparr>sync_statuses := [ss\<lparr>ss_LastBatchRecorded := if i = 0 then ss_LastBatchRecorded ss else i\<rparr>]\<rparr>"
    by (auto simp: UpdateSyncStatusWithBatchNumber_def Let_def merge_ss_def zero_SyncStatus_def)
  have "processNewBatch S ev A log s1 = (Ok (), s2)"
    using run [OF s1(2) \<open>params (view s1) = [pm]\<close>] some s2(1) b(2)
    by (simp add: recordBatch_def Let_def ignoreErr_def)
  with r1 s1 s2 b show ?thesis by (intro exI [of _ s1] exI [of _ s2] exI [of _ ?b]) simp
qed

theorem NewBatch_stored_once_witness:
  "\<exists>s1 s2 b. processNewBatch (ex_syncer []) ''NewBatch'' ex_events (ex_log 5 [3])
       (empty_tables\<lparr>params := [pm_example], sync_statuses := [zero_SyncStatus]\<rparr>) = (Ok (), s1) \<and>
     batches s1 = [b] \<and> bt_BatchID b = 3 \<and>
     processNewBatch (ex_syncer []) ''NewBatch'' ex_events (ex_log 5 [3]) s1 = (Ok (), s2) \<and> batches s2 = [b] \<and>
     sync_statuses s2 = [zero_SyncStatus\<lparr>ss_LastBatchRecorded := 3\<rparr>]"
proof -
  let ?vs = "case abi_Unpack ex_events ''NewBatch'' [3] of Inr vs \<Rightarrow> vs | _ \<Rightarrow> Map.empty"
  have d: "decodes ex_events ''NewBatch'' (ex_log 5 [3]) ?vs"
    by (rule ex_decodes) (simp_all add: ex_events_def)
  have vs: "?vs ''Index'' = Some (VBig 3)" "?vs ''BatchType'' = Some (VNum 0)" by (simp_all add: ex_events_def)
  have i: "3 = big_Uint64 3" by (simp add: big_Uint64_def)
  have f: "fetch_batch_txs (ex_syncer []) (fld_uint8 (LoggerNewBatch\<lparr>gs_values := ?vs\<rparr>) ''BatchType'') (ex_log 5 [3]) s = (Ok [], s)"
    for s using vs(2) by (simp add: fld_uint8_def fetch_batch_txs_def)
  show ?thesis
    using NewBatch_stored_once [of "ex_syncer []" "\<lambda>d. d" "\<lambda>_. True"
        "empty_tables\<lparr>params := [pm_example], sync_statuses := [zero_SyncStatus]\<rparr>", OF _ TrueI _ _ d vs(1) i _ f] mem_gorm_ok
    by (fastforce simp: ex_syncer_def empty_tables_def)
qed

text \<open>
  The life of two deposits, event by event: they are queued, their subtree is
  announced with its root, and the subtree is finalised at an empty pair of leaves.  At the
  end the two leaves hold the deposits' states and hashes, no deposit is pending, every
  other leaf and every other table is as before, and the balance tree is a Merkle tree.
\<close>

theorem deposit_life_cycle:
  assumes "gorm_ok (sc_DBInstance S) view up" "libs_ok (sc_libs S)" "up s" "params (view s) = [pm]"
    and "d = unat (pm_MaxDepth pm)" "2 \<le> d" "unat (pm_MaxDepositSubTreeHeight pm) < 100"
    and "state_tree (sc_libs S) view d s" "state_rows view d s" "pending view s = []"
    and "decodes A e1 l1 v1" "v1 ''AccountID'' = Some (VBig i1)" "v1 ''Data'' = Some (VBytes b1)" "b1 \<noteq> []"
    and "decodes A e2 l2 v2" "v2 ''AccountID'' = Some (VBig i2)" "v2 ''Data'' = Some (VBytes b2)" "b2 \<noteq> []"
    and "decodes A e3 l3 v3" "v3 ''Root'' = Some (VBytes root)"
    and "decodes A e4 l4 v4" "v4 ''DepositSubTreeRoot'' = Some (VBytes root)" "v4 ''PathToSubTree'' = Some (VBig x)"
    and "path = big_Uint64 x" "unat path < 2 ^ (d - 1)" "p = bits (d - 1) (unat path)"
    and "\<forall>t \<in> {p @ ''0'', p @ ''1''}. state_hashes view s t = Some (ByteArray_String ZERO_VALUE_LEAF)"
  shows "\<exists>s'. andThen (processDepositQueued S e1 A l1) (\<lambda>_. andThen (processDepositQueued S e2 A l2) (\<lambda>_.
      andThen (processDepositSubtreeCreated S e3 A l3) (\<lambda>_. processDepositFinalised S e4 A l4))) s = (Ok (), s') \<and>
    up s' \<and> state_tree (sc_libs S) view d s' \<and> state_rows view d s' \<and> pending view s' = [] \<and>
    (view s')\<lparr>user_states := []\<rparr> = (view s)\<lparr>user_states := []\<rparr> \<and>
    (\<forall>(t, b) \<in> {(p @ ''0'', b1), (p @ ''1'', b2)}. \<exists>r. state_node view s' t = Some r \<and> us_Data r = b \<and>
      us_Hash r = data_hash (sc_libs S) b) \<and>
    (\<forall>y. length y = d \<and> binary y \<and> y \<notin> {p @ ''0'', p @ ''1''} \<longrightarrow> state_node view s' y = state_node view s y)"
proof -
  let ?G = "sc_DBInstance S" and ?L = "sc_libs S"
  let ?a1 = "NewPendingUserState ?L (big_Uint64 i1) b1" and ?a2 = "NewPendingUserState ?L (big_Uint64 i2) b2"
  let ?m = "\<lambda>r :: UserState. r\<lparr>us_CreatedByDepositSubTree := ByteArray_String root\<rparr>"
  have inv: "db_inv ?G ?L view up s" using assms by (simp add: db_inv_def)
  obtain s1 where s1: "processDepositQueued S e1 A l1 s = (Ok (), s1)" "db_inv ?G ?L view up s1"
    "view s1 = user_states_update (\<lambda>rs. rs @ [?a1]) (view s)"
    "state_tree ?L view d s1" "state_rows view d s1" "pending view s1 = [?a1]"
    "\<forall>p. binary p \<longrightarrow> state_node view s1 p = state_node view s p"
    using processDepositQueued_run [OF inv assms(8,9,11-14)] assms(10) by auto
  obtain s2 where s2: "processDepositQueued S e2 A l2 s1 = (Ok (), s2)" "db_inv ?G ?L view up s2"
    "view s2 = user_states_update (\<lambda>rs. rs @ [?a2]) (view s1)"
    "state_tree ?L view d s2" "state_rows view d s2" "pending view s2 = [?a1, ?a2]"
    "\<forall>p. binary p \<longrightarrow> state_node view s2 p = state_node view s1 p"
    using processDepositQueued_run [OF s1(2,4,5) assms(15-18)] s1(6) by auto
  have pm2: "params (view s2) = [pm]" using s1(3) s2(3) assms(4) by simp
  obtain s3 where s3: "processDepositSubtreeCreated S e3 A l3 s2 = (Ok (), s3)" "db_inv ?G ?L view up s3"
    "(view s3)\<lparr>user_states := []\<rparr> = (view s2)\<lparr>user_states := []\<rparr>"
    "state_tree ?L view d s3" "state_rows view d s3" "\<forall>p. binary p \<longrightarrow> state_node view s3 p = state_node view s2 p"
    "pending view s3 = map ?m [?a1, ?a2]" "deposits_of view root s3 = map ?m [?a1, ?a2]"
    using processDepositSubtreeCreated_run [OF s2(2,4,5) pm2 assms(7,19,20) refl] s2(6) by auto
  have pm3: "params (view s3) = [pm]" using arg_cong [OF s3(3), of params] pm2 by simp
  have nodes: "state_node view s3 q = state_node view s q" if "binary q" for q using s1(7) s2(7) s3(6) that by simp
  have bp: "binary p" "length p = d - 1" using bits_facts [OF assms(25)] assms(6,26) by simp_all
  have z: "\<forall>t \<in> {p @ ''0'', p @ ''1''}. state_hashes view s3 t = Some (ByteArray_String ZERO_VALUE_LEAF)"
    using assms(27) nodes bp by (simp add: state_hashes_def)
  have data: "\<forall>a \<in> set (map ?m [?a1, ?a2]). us_Data a \<noteq> []"
    using assms(14,18) by (simp add: NewPendingUserState_def UpdatePath_def CreateAccountHash_def)
  obtain s4 rt where s4: "FinaliseDepositsAndAddBatch ?G ?L root path s3 = (Ok rt, s4)" "up s4"
    "finalised ?L view d [p @ ''0'', p @ ''1''] (map ?m [?a1, ?a2]) s3 s4"
    using FinaliseDepositsAndAddBatch_run [OF db_invD [OF s3(2)] pm3 assms(5,6) s3(4,5) assms(25,26) z s3(8) [symmetric] _ data]
    by auto
  have "processDepositFinalised S e4 A l4 s3 = (Ok (), s4)"
    using s4(1) assms(22-24) by (simp add: processDepositFinalised_def andThen_unpack [OF assms(21)]
      event_structs fld_defs ignoreErr_def)
  with s1(1) s2(1) s3(1) have run: "andThen (processDepositQueued S e1 A l1) (\<lambda>_. andThen (processDepositQueued S e2 A l2) (\<lambda>_.
      andThen (processDepositSubtreeCreated S e3 A l3) (\<lambda>_. processDepositFinalised S e4 A l4))) s = (Ok (), s4)"
    by (simp add: andThen_ok)
  note fin = s4(3) [unfolded finalised_def]
  have "binary (p @ ''0'')" "binary (p @ ''1'')" "length (p @ ''0'') \<le> d" "length (p @ ''1'') \<le> d"
    using bp assms(6) by simp_all
  then obtain r0 r1 where r: "state_node view s3 (p @ ''0'') = Some r0" "state_node view s3 (p @ ''1'') = Some r1"
    using s3(4) unfolding state_tree_def by blast
  have leaf: "\<exists>r. state_node view s4 (p @ ''0'') = Some r \<and> us_Data r = b1 \<and> us_Hash r = data_hash ?L b1"
    "\<exists>r. state_node view s4 (p @ ''1'') = Some r \<and> us_Data r = b2 \<and> us_Hash r = data_hash ?L b2"
    using fin r by (auto simp: less_Suc_eq NewPendingUserState_def UpdatePath_def CreateAccountHash_def)
  moreover have "pending view s4 = []"
    using fin s3(7) by (simp add: not_pending_of_def NewPendingUserState_def UpdatePath_def CreateAccountHash_def)
  moreover have "(view s4)\<lparr>user_states := []\<rparr> = (view s)\<lparr>user_states := []\<rparr>" using fin s1(3) s2(3) s3(3) by simp
  moreover have "\<forall>y. length y = d \<and> binary y \<and> y \<notin> {p @ ''0'', p @ ''1''} \<longrightarrow> state_node view s4 y = state_node view s y"
    using fin nodes by auto
  ultimately show ?thesis using run s4(2) fin by (intro exI [of _ s4]) simp
qed

theorem deposit_life_cycle_witness:
  "\<exists>s'. andThen (processDepositQueued (ex_syncer []) ''DepositQueued'' ex_events (ex_log 2 [1, 5])) (\<lambda>_.
      andThen (processDepositQueued (ex_syncer []) ''DepositQueued'' ex_events (ex_log 2 [2, 6])) (\<lambda>_.
      andThen (processDepositSubtreeCreated (ex_syncer []) ''DepositSubTreeReady'' ex_events (ex_log 3 [9])) (\<lambda>_.
        processDepositFinalised (ex_syncer []) ''DepositsFinalised'' ex_events (ex_log 4 [1])))) (ex_dep []) = (Ok (), s') \<and>
     state_tree ref_libs (\<lambda>d. d) 2 s' \<and> pending (\<lambda>d. d) s' = [] \<and>
     (\<exists>r. state_node (\<lambda>d. d) s' ''10'' = Some r \<and> us_Data r = [5])"
proof -
  let ?v = "\<lambda>n b. case abi_Unpack ex_events n b of Inr vs \<Rightarrow> vs | _ \<Rightarrow> Map.empty"
  have d: "decodes ex_events n (ex_log i b) (?v n b)"
    if "n \<in> fst ` set (abi_Events ex_events)" "b \<noteq> []" for n i b using ex_decodes [OF that] .
  have v: "?v n b ''AccountID'' = Some (VBig (uint (hd b)))" "?v n b ''Data'' = Some (VBytes (tl b))"
    "?v n b ''Root'' = Some (VBytes ex_root)" "?v n b ''DepositSubTreeRoot'' = Some (VBytes ex_root)"
    "?v n b ''PathToSubTree'' = Some (VBig (uint (hd b)))" for n b by (simp_all add: ex_events_def)
  have n: "''DepositQueued'' \<in> fst ` set (abi_Events ex_events)" "''DepositSubTreeReady'' \<in> fst ` set (abi_Events ex_events)"
    "''DepositsFinalised'' \<in> fst ` set (abi_Events ex_events)" by (simp_all add: ex_events_def)
  note D = d [OF n(1), of "[1, 5]" 2] d [OF n(1), of "[2, 6]" 2] d [OF n(2), of "[9]" 3] d [OF n(3), of "[1]" 4]
  have S: "gorm_ok (sc_DBInstance (ex_syncer [])) (\<lambda>d. d) (\<lambda>_. True)" "libs_ok (sc_libs (ex_syncer []))"
    "sc_libs (ex_syncer []) = ref_libs" by (simp_all add: ex_syncer_def mem_gorm_ok ref_libs_ok)
  have pm: "2 = unat (pm_MaxDepth pm_example)" "unat (pm_MaxDepositSubTreeHeight pm_example) < 100"
    by (simp_all add: pm_example_def)
  have path: "1 = big_Uint64 (uint (hd [1 :: byte]))" "unat (1 :: u64) < 2 ^ (2 - 1)" "''1'' = bits (2 - 1) (unat (1 :: u64))"
    using ex_bits by (simp_all add: big_Uint64_def)
  have pend: "pending (\<lambda>d. d) (ex_dep []) = []" by (simp add: ex_dep_ok(3))
  from deposit_life_cycle [OF S(1,2) TrueI ex_dep_ok(4) pm(1) order_refl pm(2) _ ex_dep_ok(2) pend
      D(1) v(1,2) _ D(2) v(1,2) _ D(3) v(3) D(4) v(4,5) path(1,2,3)] ex_dep_ok(1,6) [of "[]"] S(3)
  show ?thesis by simp blast
qed

end
