(* ===== verification/Syncer.thy ===== *)
theory Syncer
  imports Event_Processors Services Db_Connection
begin

text \<open>
  \<open>listener/syncer.go\<close>: the service that follows the chain.  A loop takes new block headers
  from a channel; for each it asks the node for the logs since the last block recorded and
  starts a goroutine that processes them in order and records the block.  The wait group
  keeps the loop from looking at the next header before that goroutine has ended.
\<close>

section \<open>Processing the logs of a block\<close>

definition processEvent :: "'s Syncer \<Rightarrow> abi \<Rightarrow> eth_log \<Rightarrow> bytes \<Rightarrow> ('s, unit) prog" where
  "processEvent S abiObject vLog topic = (case EventByID abiObject topic of
     None \<Rightarrow> ret ()
   | Some selectedEvent \<Rightarrow>
       (let name = ev_Name selectedEvent in
        if name = ''RegisteredToken'' then processRegisteredToken S name abiObject vLog
        else if name = ''NewBatch'' then processNewBatch S name abiObject vLog
        else if name = ''NewPubkeyAdded'' then processNewPubkeyAddition S name abiObject vLog
        else if name = ''DepositQueued'' then processDepositQueued S name abiObject vLog
        else if name = ''DepositSubTreeReady'' then processDepositSubtreeCreated S name abiObject vLog
        else if name = ''DepositsFinalised'' then processDepositFinalised S name abiObject vLog
        else ret ()))"

fun processEvents_abis :: "'s Syncer \<Rightarrow> abi list \<Rightarrow> eth_log \<Rightarrow> bytes \<Rightarrow> ('s, unit) prog" where
  "processEvents_abis S [] vLog topic = ret ()"
| "processEvents_abis S (abiObject # abis) vLog topic =
     andThen (processEvent S abiObject vLog topic) (\<lambda>_. processEvents_abis S abis vLog topic)"

text \<open>One round of the loop over the logs.\<close>

definition processLog :: "'s Syncer \<Rightarrow> eth_log \<Rightarrow> ('s, unit) prog" where
  "processLog S vLog = (case log_Topics vLog of
     [] \<Rightarrow> lift (Panic IndexOutOfRange)
   | topic # _ \<Rightarrow> processEvents_abis S (sc_abis S) vLog topic)"

fun processEvents_loop :: "'s Syncer \<Rightarrow> eth_log list \<Rightarrow> ('s, unit) prog" where
  "processEvents_loop S [] = ret ()"
| "processEvents_loop S (vLog # logs) = andThen (processLog S vLog) (\<lambda>_. processEvents_loop S logs)"

definition recordBlock :: "'s Syncer \<Rightarrow> Header \<Rightarrow> ('s, unit) prog" where
  "recordBlock S header =
    ignoreErr (UpdateSyncStatusWithBlockNumber (sc_DBInstance S) (big_Uint64 (hd_Number header)))"

definition processEvents :: "'s Syncer \<Rightarrow> eth_log list \<Rightarrow> Header \<Rightarrow> ('s, unit) prog" where
  "processEvents S logs header = andThen (processEvents_loop S logs) (\<lambda>_. recordBlock S header)"

text \<open>
  The result says which logs the goroutine that is started has to process; \<open>None\<close> is an
  early return.  \<open>FromBlock\<close> is the last block recorded, not the one after it.
\<close>

definition processHeader :: "'s Syncer \<Rightarrow> Header \<Rightarrow> ('s, eth_log list option) prog" where
  "processHeader S header = (\<lambda>s. case GetSyncStatus (sc_DBInstance S) s of
     (Panic p, s) \<Rightarrow> (Panic p, s)
   | (Err e, s) \<Rightarrow> (Ok None, s)
   | (Ok syncStatus, s) \<Rightarrow>
       (if big_Uint64 (hd_Number header) \<le> big_Uint64 (LastEthBlockBigInt syncStatus) then (Ok None, s)
        else case sc_FilterLogs S (LastEthBlockBigInt syncStatus) (hd_Number header) s of
          Inl e \<Rightarrow> (Ok None, s)
        | Inr logs \<Rightarrow> (Ok (Some logs), s)))"

section \<open>The header loop and its goroutines\<close>

text \<open>
  The database, the wait group, the goroutines that are processing logs, each with what it
  has left, and whether a panic has ended the process.
\<close>

record 's listening =
  li_db :: 's
  li_wg :: int
  li_running :: "(eth_log list \<times> Header) list"
  li_crashed :: bool

definition new_listening :: "'s \<Rightarrow> 's listening" where
  "new_listening s = \<lparr>li_db = s, li_wg = 0, li_running = [], li_crashed = False\<rparr>"

text \<open>What a step's outcome does to the process: a panic anywhere ends it.\<close>

definition after :: "unit res \<times> 's \<Rightarrow> 's listening \<Rightarrow> 's listening" where
  "after o' l = (case o' of (r, s) \<Rightarrow> l\<lparr>li_db := s, li_crashed := is_Panic r\<rparr>)"

text \<open>
  The steps: the loop takes a header, which it only does when \<open>wg.Wait()\<close> returns; some
  goroutine processes its next log; or it has none left, records the block and is done.
\<close>

inductive listen_step :: "'s Syncer \<Rightarrow> 's listening \<Rightarrow> 's listening \<Rightarrow> bool" for S where
  step_Skip: "\<not> li_crashed l \<Longrightarrow> li_wg l = 0 \<Longrightarrow> processHeader S header (li_db l) = (Ok None, s') \<Longrightarrow>
    listen_step S l (l\<lparr>li_db := s'\<rparr>)"
| step_Header: "\<not> li_crashed l \<Longrightarrow> li_wg l = 0 \<Longrightarrow> processHeader S header (li_db l) = (Ok (Some logs), s') \<Longrightarrow>
    listen_step S l (l\<lparr>li_db := s', li_wg := li_wg l + 1, li_running := li_running l @ [(logs, header)]\<rparr>)"
| step_Log: "\<not> li_crashed l \<Longrightarrow> li_running l = xs @ (vLog # logs, header) # ys \<Longrightarrow>
    listen_step S l (after (processLog S vLog (li_db l)) (l\<lparr>li_running := xs @ (logs, header) # ys\<rparr>))"
| step_Done: "\<not> li_crashed l \<Longrightarrow> li_running l = xs @ ([], header) # ys \<Longrightarrow>
    listen_step S l (after (recordBlock S header (li_db l)) (l\<lparr>li_wg := li_wg l - 1, li_running := xs @ ys\<rparr>))"

inductive_cases listen_stepE: "listen_step S l l'"

inductive listen_reach :: "'s Syncer \<Rightarrow> 's listening \<Rightarrow> 's listening \<Rightarrow> bool" for S where
  reach_refl: "listen_reach S l l"
| reach_trans: "listen_reach S l l' \<Longrightarrow> listen_step S l' l'' \<Longrightarrow> listen_reach S l l''"

section \<open>What the processors leave alone\<close>

text \<open>
  The tables other than \<open>sync_statuses\<close> do not write it, and a statement on it either
  fails and changes nothing or does what it says.
\<close>

definition last_block :: "('s \<Rightarrow> tables) \<Rightarrow> 's \<Rightarrow> u64 option" where
  "last_block view s = (case sync_statuses (view s) of [ss] \<Rightarrow> Some (ss_LastEthBlockRecorded ss) | _ \<Rightarrow> None)"

definition sync_isolated :: "'s gorm \<Rightarrow> ('s \<Rightarrow> tables) \<Rightarrow> bool" where
  "sync_isolated G view \<longleftrightarrow>
     table_keeps (g_states G) (\<lambda>s. sync_statuses (view s)) \<and> table_keeps (g_accounts G) (\<lambda>s. sync_statuses (view s)) \<and>
     table_keeps (g_batches G) (\<lambda>s. sync_statuses (view s)) \<and> table_keeps (g_tokens G) (\<lambda>s. sync_statuses (view s)) \<and>
     (\<forall>c s r. t_first (g_sync G) c s = Inr r \<longrightarrow> r \<in> set (sync_statuses (view s))) \<and>
     (\<forall>m c v s e s'. t_updates (g_sync G) m c v s = (e, s') \<longrightarrow> sync_statuses (view s') =
        (case e of Some _ \<Rightarrow> sync_statuses (view s)
         | None \<Rightarrow> map (\<lambda>r. if c r then merge_ss v r else r) (sync_statuses (view s))))"

lemma keeps_GetParams: "keeps f (GetParams G)"
  by (simp add: GetParams_def keeps_db_read)

lemma keeps_case_res [keeps_intros]:
  assumes "\<And>a. keeps f (ok a)" "\<And>e. keeps f (er e)" "\<And>p. keeps f (pa p)"
  shows "keeps f (case r of Ok a \<Rightarrow> ok a | Err e \<Rightarrow> er e | Panic p \<Rightarrow> pa p)"
  using assms by (cases r) simp_all

lemma keeps_case_sum [keeps_intros]:
  assumes "\<And>a. keeps f (l a)" "\<And>b. keeps f (r b)"
  shows "keeps f (case x of Inl a \<Rightarrow> l a | Inr b \<Rightarrow> r b)"
  using assms by (cases x) simp_all

lemma keeps_case_prod [keeps_intros]:
  "(\<And>a b. keeps f (m a b)) \<Longrightarrow> keeps f (case x of (a, b) \<Rightarrow> m a b)"
  by (cases x) simp

lemma keeps_Pair: "keeps f (Pair r)"
  by (simp add: keeps_def)

lemma keeps_only_not_found: "keeps f (only_not_found h g)"
  by (simp add: keeps_def only_not_found_def split: sum.split)

lemma keeps_unpack_event: "keeps f (unpack_event S out ev A log)"
  unfolding unpack_event_def by (intro keeps_intros)

lemma keeps_updateSingleAccount: "table_keeps (g_accounts G) f \<Longrightarrow> keeps f (updateSingleAccount G n p)"
  by (simp add: updateSingleAccount_def table_keeps_def keeps_db_write)

lemma keeps_GetAccountLeafByPath: "keeps f (GetAccountLeafByPath G p)"
  unfolding GetAccountLeafByPath_def by (intro keeps_intros)

lemma keeps_storeAccountLeaf_step:
  assumes "table_keeps (g_accounts G) f" shows "keeps f (storeAccountLeaf_step G L b n sibling)"
  unfolding storeAccountLeaf_step_def storeAccountNode_def updateParentAccountWithHash_def Let_def
  by (intro keeps_intros keeps_updateSingleAccount assms)

lemma keeps_storeAccountLeaf_loop:
  assumes "table_keeps (g_accounts G) f" shows "keeps f (storeAccountLeaf_loop G L path i n siblings)"
proof (induction siblings arbitrary: i n)
  case Nil
  show ?case
    unfolding storeAccountLeaf_loop.simps storeAccountLeaf_root_def updateAccountRootNodes_def Let_def
    by (intro keeps_intros keeps_updateSingleAccount assms)
next
  case (Cons sibling siblings)
  show ?case
    unfolding storeAccountLeaf_loop.simps
    by (intro keeps_intros keeps_storeAccountLeaf_step keeps_GetAccountLeafByPath assms Cons.IH)
qed

lemma keeps_GetAccountSiblings: "keeps f (GetAccountSiblings G p)"
proof -
  have "keeps f (GetAccountSiblings_loop G i p siblings)" for i p siblings
  proof (induction i arbitrary: p siblings)
    case (Suc i)
    show ?case
      unfolding GetAccountSiblings_loop.simps by (intro keeps_intros keeps_GetAccountLeafByPath Suc.IH)
  qed (simp add: keeps_lift)
  then show ?thesis by (simp add: GetAccountSiblings_def)
qed

lemma keeps_UpdateAccount: "table_keeps (g_accounts G) f \<Longrightarrow> keeps f (UpdateAccount G L a)"
  unfolding UpdateAccount_def storeAccountLeaf_def
  by (intro keeps_intros keeps_GetAccountSiblings keeps_storeAccountLeaf_loop)

lemma keeps_FinaliseDeposits_loop:
  assumes "table_keeps (g_states G) f" shows "keeps f (FinaliseDeposits_loop G L ts i accs)"
proof (induction accs arbitrary: i)
  case (Cons a accs)
  have del: "keeps f (DeletePendingAccount G x)" for x
    unfolding DeletePendingAccount_def using assms by (intro keeps_intros) (simp add: table_keeps_def)
  show ?case
    unfolding FinaliseDeposits_loop.simps Let_def
    by (intro keeps_intros keeps_UpdateState del assms Cons.IH)
qed (simp add: keeps_lift)

lemma keeps_FinaliseDepositsAndAddBatch:
  assumes "table_keeps (g_states G) f" shows "keeps f (FinaliseDepositsAndAddBatch G L root path)"
  unfolding FinaliseDepositsAndAddBatch_def FinaliseDeposits_def GetPendingAccByDepositRoot_def GetAllTerminalNodes_def
    GetRoot_def Let_def
  by (intro keeps_intros keeps_FinaliseDeposits_loop keeps_GetParams assms)

lemma table_keeps_last_block:
  assumes "table_keeps T (\<lambda>s. sync_statuses (view s))" shows "table_keeps T (last_block view)"
  using assms by (simp add: table_keeps_def last_block_def)

lemma sync_isolatedD:
  assumes "sync_isolated G view"
  shows "table_keeps (g_states G) (last_block view)" "table_keeps (g_accounts G) (last_block view)"
    "table_keeps (g_batches G) (last_block view)" "table_keeps (g_tokens G) (last_block view)"
  using assms by (simp_all add: sync_isolated_def table_keeps_last_block)

text \<open>An update of the single row that it read, with whatever the outcome.\<close>

lemma sync_update_rows:
  assumes "sync_isolated G view"
    and "andThen (GetSyncStatus G) (\<lambda>x. db_write (t_updates (g_sync G) m (\<lambda>r. ss_ID r = ss_ID x) (f x))) s = (r, s')"
  shows "sync_statuses (view s') = sync_statuses (view s) \<or> (\<exists>x \<in> set (sync_statuses (view s)).
      sync_statuses (view s') = map (\<lambda>r. if ss_ID r = ss_ID x then merge_ss (f x) r else r) (sync_statuses (view s)))"
    and "\<not> is_Panic r"
proof -
  let ?rows = "\<lambda>s. sync_statuses (view s)"
  show "?rows s' = ?rows s \<or> (\<exists>x \<in> set (?rows s).
      ?rows s' = map (\<lambda>r. if ss_ID r = ss_ID x then merge_ss (f x) r else r) (?rows s))"
  proof (cases "t_first (g_sync G) (\<lambda>_. True) s")
    case (Inl e)
    then show ?thesis using assms(2) by (simp add: GetSyncStatus_def andThen_def db_read_Inl)
  next
    case (Inr x)
    obtain e s1 where u: "t_updates (g_sync G) m (\<lambda>r. ss_ID r = ss_ID x) (f x) s = (e, s1)" by fastforce
    then have "s' = s1" using assms(2) Inr
      by (cases e) (simp_all add: GetSyncStatus_def andThen_def db_read_Inr db_write_def)
    moreover have "x \<in> set (?rows s)" using assms(1) Inr by (auto simp: sync_isolated_def)
    moreover have "?rows s1 = (case e of Some _ \<Rightarrow> ?rows s
         | None \<Rightarrow> map (\<lambda>r. if ss_ID r = ss_ID x then merge_ss (f x) r else r) (?rows s))"
      using assms(1) u by (auto simp: sync_isolated_def)
    ultimately show ?thesis by (cases e) auto
  qed
  show "\<not> is_Panic r"
    using assms(2) by (auto simp: GetSyncStatus_def andThen_def db_read_def db_write_def split: sum.splits prod.splits option.splits)
qed

lemma keeps_UpdateSyncStatusWithBatchNumber:
  assumes "sync_isolated G view" shows "keeps (last_block view) (UpdateSyncStatusWithBatchNumber G i)"
  unfolding keeps_def
proof
  fix s
  obtain r s' where run: "UpdateSyncStatusWithBatchNumber G i s = (r, s')" by fastforce
  from sync_update_rows(1) [OF assms run [unfolded UpdateSyncStatusWithBatchNumber_def Let_def]]
  have "last_block view s' = last_block view s"
    by (auto simp: last_block_def merge_ss_def split: list.splits)
  with run show "last_block view (snd (UpdateSyncStatusWithBatchNumber G i s)) = last_block view s" by simp
qed

lemma keeps_recordBatch:
  assumes "sync_isolated (sc_DBInstance S) view" shows "keeps (last_block view) (recordBatch S pm event i txs)"
proof -
  let ?G = "sc_DBInstance S" and ?b = "newBatch_of S pm event i txs"
  have a: "keeps (last_block view) (AddNewBatch ?G ?b)" "keeps (last_block view) (CommitBatch ?G ?b)"
    using sync_isolatedD(3) [OF assms] by (simp_all add: AddNewBatch_def CommitBatch_def table_keeps_def keeps_db_write)
  have ok: "keeps (last_block view) (andThen (if c then ignoreErr (CommitBatch ?G ?b) else ret ())
      (\<lambda>_. ignoreErr (UpdateSyncStatusWithBatchNumber ?G i)))" for c
    by (intro keeps_intros a keeps_UpdateSyncStatusWithBatchNumber assms)
  have new: "keeps (last_block view) (andThen (orPanic (ApplyTxsFromBatch txs ty)) (\<lambda>_. orPanic (AddNewBatch ?G ?b)))" for ty
    unfolding ApplyTxsFromBatch_def by (intro keeps_intros a)
  show ?thesis
    using ok new
    by (auto simp: keeps_def recordBatch_def GetBatchByIndex_def db_read_def Let_def split: sum.split)
qed

lemma keeps_processLog:
  assumes "sync_isolated (sc_DBInstance S) view" shows "keeps (last_block view) (processLog S vLog)"
proof -
  note k = sync_isolatedD [OF assms]
  let ?k = "keeps (last_block view)"
  have add: "?k (AddNewPendingAccount G u)" "?k (AttachDepositInfo G root)" "?k (AddToken G tk)"
    if "G = sc_DBInstance S" for G u root tk
    using k that by (simp_all add: AddNewPendingAccount_def AttachDepositInfo_def AddToken_def Let_def table_keeps_def keeps_db_write)
  have token: "?k (processRegisteredToken S n a vLog)" for n a
    unfolding processRegisteredToken_def by (intro keeps_intros keeps_unpack_event add refl)
  have key: "?k (processNewPubkeyAddition S n a vLog)" for n a
    unfolding processNewPubkeyAddition_def Let_def
    by (intro keeps_intros keeps_unpack_event keeps_GetParams keeps_UpdateAccount k)
  have dep: "?k (processDepositQueued S n a vLog)" for n a
    unfolding processDepositQueued_def by (intro keeps_intros keeps_unpack_event add refl)
  have send: "?k (SendDepositFinalisationTx S)"
    unfolding SendDepositFinalisationTx_def GetDepositNodeAndSiblings_def GetDepositSubTreeRoot_def
      FireDepositFinalisation_def Let_def GetSiblings_def
    by (intro keeps_intros keeps_GetParams keeps_GetSiblings_loop keeps_only_not_found)
  have sub: "?k (processDepositSubtreeCreated S n a vLog)" for n a
    unfolding processDepositSubtreeCreated_def by (intro keeps_intros keeps_unpack_event add send refl)
  have fin: "?k (processDepositFinalised S n a vLog)" for n a
    unfolding processDepositFinalised_def Let_def
    by (intro keeps_intros keeps_unpack_event keeps_FinaliseDepositsAndAddBatch k)
  have fetch: "?k (fetch_batch_txs S ty vLog)" for ty
    unfolding fetch_batch_txs_def FetchBatchInputData_def Let_def
    by (intro keeps_intros)
  have batch: "?k (processNewBatch S n a vLog)" for n a
    unfolding processNewBatch_def
    by (intro keeps_intros keeps_unpack_event keeps_GetParams fetch keeps_recordBatch assms)
  note proc = token key dep sub fin batch
  have ev: "?k (processEvent S a vLog topic)" for a topic
    unfolding processEvent_def Let_def by (cases "EventByID a topic") (simp_all add: proc keeps_lift(2))
  have "?k (processEvents_abis S as vLog topic)" for "as" topic
    by (induction "as") (simp_all add: keeps_lift keeps_Pair keeps_andThen ev)
  then show ?thesis by (simp add: processLog_def keeps_lift split: list.split)
qed

lemma keeps_processHeader: "keeps f (processHeader S header)"
  by (auto simp: keeps_def processHeader_def GetSyncStatus_def db_read_def split: sum.split)

lemma big_Uint64_uint [simp]: "big_Uint64 (uint w) = w"
  by (simp add: big_Uint64_def)

text \<open>A goroutine is only started for a header beyond the last block.\<close>

lemma processHeader_new:
  assumes "sync_isolated (sc_DBInstance S) view" "last_block view s = Some b"
    and "processHeader S header s = (Ok (Some logs), s')"
  shows "b < big_Uint64 (hd_Number header)"
proof -
  obtain ss where ss: "sync_statuses (view s) = [ss]" "b = ss_LastEthBlockRecorded ss"
    using assms(2) by (auto simp: last_block_def split: list.splits)
  have "t_first (g_sync (sc_DBInstance S)) c s = Inr r \<Longrightarrow> r = ss" for c r
    using assms(1) ss(1) by (force simp: sync_isolated_def)
  then show ?thesis
    using assms(3) ss(2) by (auto simp: processHeader_def GetSyncStatus_def db_read_def LastEthBlockBigInt_def
      split: sum.splits if_splits)
qed

lemma recordBlock_run:
  assumes "sync_isolated (sc_DBInstance S) view" "last_block view s = Some b"
    and "b < big_Uint64 (hd_Number header)" "recordBlock S header s = (r, s')"
  shows "last_block view s' = Some b \<or> last_block view s' = Some (big_Uint64 (hd_Number header))" "\<not> is_Panic r"
proof -
  let ?G = "sc_DBInstance S" and ?h = "big_Uint64 (hd_Number header)"
  obtain ss where ss: "sync_statuses (view s) = [ss]" "b = ss_LastEthBlockRecorded ss"
    using assms(2) by (auto simp: last_block_def split: list.splits)
  obtain x where u: "UpdateSyncStatusWithBlockNumber ?G ?h s = (x, s')"
    using assms(4) by (auto simp: recordBlock_def ignoreErr_def split: prod.splits res.splits)
  note rows = sync_update_rows [OF assms(1) u [unfolded UpdateSyncStatusWithBlockNumber_def Let_def]]
  have "?h \<noteq> 0" using assms(3) by auto
  then show "last_block view s' = Some b \<or> last_block view s' = Some ?h"
    using rows(1) ss by (auto simp: last_block_def merge_ss_def zero_SyncStatus_def)
  show "\<not> is_Panic r" using rows(2) u assms(4) by (auto simp: recordBlock_def ignoreErr_def split: res.splits)
qed

definition listen_inv :: "('s \<Rightarrow> tables) \<Rightarrow> u64 \<Rightarrow> 's listening \<Rightarrow> bool" where
  "listen_inv view b0 l \<longleftrightarrow> li_wg l = int (length (li_running l)) \<and> length (li_running l) \<le> 1 \<and>
     (\<exists>b. last_block view (li_db l) = Some b \<and> b0 \<le> b \<and>
        (\<forall>(logs, header) \<in> set (li_running l). b < big_Uint64 (hd_Number header)))"

lemma listen_inv_step:
  assumes "sync_isolated (sc_DBInstance S) view" "listen_inv view b0 l" "listen_step S l l'"
  shows "listen_inv view b0 l' \<and> (\<exists>b b'. last_block view (li_db l) = Some b \<and> last_block view (li_db l') = Some b' \<and> b \<le> b')"
proof -
  obtain b where b: "last_block view (li_db l) = Some b" "b0 \<le> b" "li_wg l = int (length (li_running l))"
    "length (li_running l) \<le> 1" "\<forall>(logs, header) \<in> set (li_running l). b < big_Uint64 (hd_Number header)"
    using assms(2) by (auto simp: listen_inv_def)
  from assms(3) show ?thesis
  proof (cases rule: listen_step.cases)
    case (step_Skip header s')
    have "last_block view s' = Some b" using keepsD [OF keeps_processHeader step_Skip(4)] b(1) by metis
    with step_Skip b show ?thesis by (auto simp: listen_inv_def)
  next
    case (step_Header header logs s')
    have "last_block view s' = Some b" using keepsD [OF keeps_processHeader step_Header(4)] b(1) by metis
    with step_Header b processHeader_new [OF assms(1) b(1) step_Header(4)] show ?thesis by (auto simp: listen_inv_def)
  next
    case (step_Log xs vLog logs header ys)
    obtain r s' where r: "processLog S vLog (li_db l) = (r, s')" by fastforce
    have "last_block view s' = Some b" using keepsD [OF keeps_processLog [OF assms(1)] r] b(1) by metis
    with step_Log b r show ?thesis by (auto simp: listen_inv_def after_def)
  next
    case (step_Done xs header ys)
    obtain r s' where r: "recordBlock S header (li_db l) = (r, s')" by fastforce
    have h: "b < big_Uint64 (hd_Number header)" using b(5) step_Done(3) by auto
    from recordBlock_run [OF assms(1) b(1) h r] step_Done b r h show ?thesis
      by (auto simp: listen_inv_def after_def)
  qed
qed

lemma listen_inv_reach:
  assumes "sync_isolated (sc_DBInstance S) view" "last_block view s0 = Some b0"
  shows "listen_reach S l0 l \<Longrightarrow> l0 = new_listening s0 \<Longrightarrow> listen_inv view b0 l"
proof (induction rule: listen_reach.induct)
  case (reach_refl l)
  with assms(2) show ?case by (simp add: listen_inv_def new_listening_def)
next
  case (reach_trans l l' l'')
  with listen_inv_step [OF assms(1)] show ?case by blast
qed

text \<open>One header at a time: taken from the channel, its logs processed, its block recorded.\<close>

definition handleHeader :: "'s Syncer \<Rightarrow> Header \<Rightarrow> ('s, unit) prog" where
  "handleHeader S header = andThen (processHeader S header) (\<lambda>started.
     case started of None \<Rightarrow> ret () | Some logs \<Rightarrow> processEvents S logs header)"

lemma handleHeader_deposit:
  assumes "db_inv (sc_DBInstance S) (sc_libs S) view up s" "state_tree (sc_libs S) view d s" "state_rows view d s"
    and "sync_statuses (view s) = [ss]" "sc_abis S = [A]" "log_Topics log = [t]"
    and "EventByID A t = Some e" "ev_Name e = ''DepositQueued''" "decodes A ''DepositQueued'' log vs"
    and "vs ''AccountID'' = Some (VBig i)" "vs ''Data'' = Some (VBytes b)" "b \<noteq> []"
    and "sc_FilterLogs S (uint (ss_LastEthBlockRecorded ss)) (hd_Number header) s = Inr [log]"
    and "ss_LastEthBlockRecorded ss < big_Uint64 (hd_Number header)"
  shows "\<exists>s'. handleHeader S header s = (Ok (), s') \<and> db_inv (sc_DBInstance S) (sc_libs S) view up s' \<and>
    state_tree (sc_libs S) view d s' \<and> state_rows view d s' \<and>
    pending view s' = pending view s @ [NewPendingUserState (sc_libs S) (big_Uint64 i) b] \<and>
    sync_statuses (view s') = [ss\<lparr>ss_LastEthBlockRecorded := big_Uint64 (hd_Number header)\<rparr>]"
proof -
  let ?G = "sc_DBInstance S" and ?L = "sc_libs S" and ?h = "big_Uint64 (hd_Number header)"
  note dm = db_invD [OF assms(1)]
  have gs: "GetSyncStatus ?G s = (Ok ss, s)" by (rule GetSyncStatus_run [OF dm(1,3) assms(4)])
  then have ph: "processHeader S header s = (Ok (Some [log]), s)"
    using assms(13,14) by (simp add: processHeader_def LastEthBlockBigInt_def not_le)
  obtain s1 where s1: "processDepositQueued S ''DepositQueued'' A log s = (Ok (), s1)" "db_inv ?G ?L view up s1"
    "view s1 = user_states_update (\<lambda>rs. rs @ [NewPendingUserState ?L (big_Uint64 i) b]) (view s)"
    "state_tree ?L view d s1" "state_rows view d s1"
    "pending view s1 = pending view s @ [NewPendingUserState ?L (big_Uint64 i) b]"
    using processDepositQueued_run [OF assms(1-3,9-12)] by blast
  have loop: "processEvents_loop S [log] s = (Ok (), s1)"
    using assms(5-8) s1(1) by (simp add: processLog_def processEvent_def andThen_ok)
  have "sync_statuses (view s1) = [ss]" using s1(3) assms(4) by simp
  from sync_update_run [OF db_invD(1,3) [OF s1(2)] this, of "\<lambda>x. zero_SyncStatus\<lparr>
      ss_LastBatchRecorded := ss_LastBatchRecorded x, ss_LastEthBlockRecorded := ?h\<rparr>"]
  obtain s2 where s2: "UpdateSyncStatusWithBlockNumber ?G ?h s1 = (Ok (), s2)" "up s2"
    "view s2 = (view s1)\<lparr>sync_statuses := [merge_ss (zero_SyncStatus\<lparr>ss_LastBatchRecorded := ss_LastBatchRecorded ss,
        ss_LastEthBlockRecorded := ?h\<rparr>) ss]\<rparr>"
    by (auto simp: UpdateSyncStatusWithBlockNumber_def Let_def)
  have "?h \<noteq> 0" using assms(14) by auto
  then have m: "merge_ss (zero_SyncStatus\<lparr>ss_LastBatchRecorded := ss_LastBatchRecorded ss, ss_LastEthBlockRecorded := ?h\<rparr>) ss
      = ss\<lparr>ss_LastEthBlockRecorded := ?h\<rparr>"
    by (simp add: merge_ss_def zero_SyncStatus_def)
  have rows: "user_states (view s2) = user_states (view s1)" by (simp add: s2(3))
  then have nodes: "state_node view s2 p = state_node view s1 p" for p by (simp add: state_node_def)
  have "state_tree ?L view d s2" by (rule state_tree_cong [OF nodes s1(4)])
  moreover have "state_rows view d s2" using s1(5) rows by (simp add: state_rows_def state_levels_def)
  moreover have "pending view s2 = pending view s @ [NewPendingUserState ?L (big_Uint64 i) b]"
    using s1(6) rows by (simp add: pending_def)
  moreover have "handleHeader S header s = (Ok (), s2)"
    using ph loop s2(1) by (simp add: handleHeader_def processEvents_def recordBlock_def andThen_ok ignoreErr_def)
  moreover have "db_inv ?G ?L view up s2" using dm s2(2) by (simp add: db_inv_def)
  ultimately show ?thesis using s2(3) m by (intro exI [of _ s2]) simp
qed

section \<open>Properties\<close>

text \<open>
  C22. However headers arrive and goroutines run, at most one goroutine processes logs at a
  time, which the wait group counts, and the last block recorded never goes back, also
  when a step fails or ends the process.
\<close>

theorem blocks_in_order:
  assumes "sync_isolated (sc_DBInstance S) view" "last_block view s0 = Some b0"
    and "listen_reach S (new_listening s0) l" "listen_step S l l'"
  shows "li_wg l = int (length (li_running l)) \<and> length (li_running l) \<le> 1 \<and>
    (\<exists>b b'. last_block view (li_db l) = Some b \<and> last_block view (li_db l') = Some b' \<and> b0 \<le> b \<and> b \<le> b')"
  using listen_inv_reach [OF assms(1-3) refl] listen_inv_step [OF assms(1) _ assms(4)]
  by (fastforce simp: listen_inv_def)

text \<open>
  C25. The logs of the block recorded last are fetched again with the next header, since the
  range includes it: a deposit in block \<open>n\<close> that is processed with the header of \<open>n\<close> is queued
  a second time with the next header.
\<close>

theorem deposit_queued_twice:
  assumes "gorm_ok (sc_DBInstance S) view up" "libs_ok (sc_libs S)" "up s"
    and "state_tree (sc_libs S) view d s" "state_rows view d s" "sync_statuses (view s) = [ss]"
    and "sc_abis S = [A]" "EventByID A t = Some e" "ev_Name e = ''DepositQueued''" "log_Topics log = [t]"
    and "decodes A ''DepositQueued'' log vs" "vs ''AccountID'' = Some (VBig i)" "vs ''Data'' = Some (VBytes b)" "b \<noteq> []"
    and "\<And>from to s. sc_FilterLogs S from to s = Inr (logs_between [(n, log)] from to)"
    and "uint (ss_LastEthBlockRecorded ss) < n" "n < m" "m < 2 ^ 64"
    and "a = NewPendingUserState (sc_libs S) (big_Uint64 i) b"
  shows "\<exists>s1 s2. handleHeader S \<lparr>hd_Number = n\<rparr> s = (Ok (), s1) \<and> pending view s1 = pending view s @ [a] \<and>
    handleHeader S \<lparr>hd_Number = m\<rparr> s1 = (Ok (), s2) \<and> pending view s2 = pending view s @ [a, a] \<and>
    last_block view s2 = Some (of_int m)"
proof -
  have inv: "db_inv (sc_DBInstance S) (sc_libs S) view up s" using assms(1-3) by (simp add: db_inv_def)
  have "0 \<le> uint (ss_LastEthBlockRecorded ss)" by simp
  then have "0 \<le> n" "0 \<le> m" "n < 2 ^ 64" using assms(16-18) by linarith+
  with assms(18) have w: "big_Uint64 n = of_int n" "big_Uint64 m = of_int m" "uint (of_int n :: u64) = n" "uint (of_int m :: u64) = m"
    by (simp_all add: big_Uint64_def uint_word_of_int)
  then have lt: "ss_LastEthBlockRecorded ss < big_Uint64 n" "(of_int n :: u64) < big_Uint64 m"
    using assms(16,17) by (simp_all add: word_less_def)
  obtain s1 where s1: "handleHeader S \<lparr>hd_Number = n\<rparr> s = (Ok (), s1)" "db_inv (sc_DBInstance S) (sc_libs S) view up s1"
    "state_tree (sc_libs S) view d s1" "state_rows view d s1" "pending view s1 = pending view s @ [a]"
    "sync_statuses (view s1) = [ss\<lparr>ss_LastEthBlockRecorded := of_int n\<rparr>]"
    using handleHeader_deposit [OF inv assms(4-7,10,8,9,11-14), of "\<lparr>hd_Number = n\<rparr>"] assms(15-17,19) lt(1) w(1)
    by (auto simp: logs_between_def)
  obtain s2 where s2: "handleHeader S \<lparr>hd_Number = m\<rparr> s1 = (Ok (), s2)" "pending view s2 = pending view s1 @ [a]"
    "sync_statuses (view s2) = [ss\<lparr>ss_LastEthBlockRecorded := of_int m\<rparr>]"
    using handleHeader_deposit [OF s1(2-4,6) assms(7,10,8,9,11-14), of "\<lparr>hd_Number = m\<rparr>"] assms(15-17,19) lt(2) w
    by (auto simp: logs_between_def)
  show ?thesis using s1(1,5) s2 by (auto simp: last_block_def)
qed

lemma mem_sync_isolated: "sync_isolated mem_gorm (\<lambda>d. d)"
proof -
  have "r \<in> set (sync_statuses s)" if "t_first (g_sync mem_gorm) c s = Inr r" for c s r
    using that head_opt_in [of "filter c (sync_statuses s)"]
    by (cases "filter c (sync_statuses s) = []") (auto simp: mem_gorm_def mem_table_def mem_read_def)
  moreover have "table_keeps (g_states mem_gorm) sync_statuses" "table_keeps (g_accounts mem_gorm) sync_statuses"
    "table_keeps (g_batches mem_gorm) sync_statuses" "table_keeps (g_tokens mem_gorm) sync_statuses"
    by (auto simp: table_keeps_def mem_gorm_def mem_table_def split: list.split)
  ultimately show ?thesis
    by (auto simp: sync_isolated_def) (auto simp: mem_gorm_def mem_table_def)
qed

theorem blocks_in_order_witness:
  "\<exists>l'. listen_step (ex_syncer [(4, ex_log 5 [3])]) (new_listening (empty_tables\<lparr>sync_statuses := [zero_SyncStatus]\<rparr>)) l' \<and>
     li_wg l' = 1 \<and> last_block (\<lambda>d. d) (li_db l') = Some 0"
proof -
  let ?s = "empty_tables\<lparr>sync_statuses := [zero_SyncStatus]\<rparr>" and ?S = "ex_syncer [(4, ex_log 5 [3])]"
  have b: "last_block (\<lambda>d. d) ?s = Some 0" by (simp add: last_block_def zero_SyncStatus_def)
  have ph: "processHeader ?S \<lparr>hd_Number = 4\<rparr> ?s = (Ok (Some [ex_log 5 [3]]), ?s)"
    using GetSyncStatus_run [OF mem_gorm_ok TrueI, of ?s zero_SyncStatus]
    by (simp add: processHeader_def ex_syncer_def LastEthBlockBigInt_def zero_SyncStatus_def logs_between_def big_Uint64_def)
  let ?l = "(new_listening ?s)\<lparr>li_db := ?s, li_wg := li_wg (new_listening ?s) + 1,
         li_running := li_running (new_listening ?s) @ [([ex_log 5 [3]], \<lparr>hd_Number = 4\<rparr>)]\<rparr>"
  have step: "listen_step ?S (new_listening ?s) ?l"
    by (rule step_Header) (simp_all add: new_listening_def ph)
  have iso: "sync_isolated (sc_DBInstance ?S) (\<lambda>d. d)" by (simp add: ex_syncer_def mem_sync_isolated)
  have "\<exists>b'. last_block (\<lambda>d. d) (li_db ?l) = Some b' \<and> 0 \<le> b'"
    using blocks_in_order [OF iso b reach_refl step] by auto
  with step b show ?thesis by (intro exI [of _ ?l]) (simp add: new_listening_def)
qed

lemma ex_dep_sync:
  "state_tree ref_libs (\<lambda>d. d) 2 ((ex_dep [])\<lparr>sync_statuses := ss\<rparr>)"
  "state_rows (\<lambda>d. d) 2 ((ex_dep [])\<lparr>sync_statuses := ss\<rparr>)"
  "pending (\<lambda>d. d) ((ex_dep [])\<lparr>sync_statuses := ss\<rparr>) = []"
proof -
  have "state_node (\<lambda>d. d) ((ex_dep [])\<lparr>sync_statuses := ss\<rparr>) p = state_node (\<lambda>d. d) (ex_dep []) p" for p
    by (simp add: state_node_def)
  then show "state_tree ref_libs (\<lambda>d. d) 2 ((ex_dep [])\<lparr>sync_statuses := ss\<rparr>)"
    by (intro state_tree_cong [OF _ ex_dep_ok(1)])
  show "state_rows (\<lambda>d. d) 2 ((ex_dep [])\<lparr>sync_statuses := ss\<rparr>)" "pending (\<lambda>d. d) ((ex_dep [])\<lparr>sync_statuses := ss\<rparr>) = []"
    using ex_dep_ok(2,3) [of "[]"] by (simp_all add: state_rows_def state_levels_def pending_def)
qed

theorem deposit_queued_twice_witness:
  "\<exists>s1 s2. handleHeader (ex_syncer [(4, ex_log 2 [1, 5])]) \<lparr>hd_Number = 4\<rparr>
       ((ex_dep [])\<lparr>sync_statuses := [zero_SyncStatus]\<rparr>) = (Ok (), s1) \<and> length (pending (\<lambda>d. d) s1) = 1 \<and>
     handleHeader (ex_syncer [(4, ex_log 2 [1, 5])]) \<lparr>hd_Number = 5\<rparr> s1 = (Ok (), s2) \<and> length (pending (\<lambda>d. d) s2) = 2"
proof -
  let ?S = "ex_syncer [(4, ex_log 2 [1, 5])]"
  let ?v = "case abi_Unpack ex_events ''DepositQueued'' [1, 5] of Inr vs \<Rightarrow> vs | _ \<Rightarrow> Map.empty"
  have d: "decodes ex_events ''DepositQueued'' (ex_log 2 [1, 5]) ?v"
    by (rule ex_decodes) (simp_all add: ex_events_def)
  have v: "?v ''AccountID'' = Some (VBig 1)" "?v ''Data'' = Some (VBytes [5])" by (simp_all add: ex_events_def)
  have e: "EventByID ex_events [2] = Some \<lparr>ev_Name = ''DepositQueued'', ev_ID = [2], ev_Inputs = []\<rparr>"
    by (simp add: EventByID_def ex_events_def)
  have S: "gorm_ok (sc_DBInstance ?S) (\<lambda>d. d) (\<lambda>_. True)" "libs_ok (sc_libs ?S)" "sc_libs ?S = ref_libs"
    "sc_abis ?S = [ex_events]" by (simp_all add: ex_syncer_def mem_gorm_ok ref_libs_ok)
  have f: "sc_FilterLogs ?S from to s = Inr (logs_between [(4, ex_log 2 [1, 5])] from to)" for "from" to s
    by (simp add: ex_syncer_def)
  show ?thesis
    using deposit_queued_twice [OF S(1,2) TrueI _ ex_dep_sync(2) _ S(4) e _ _ d v _ f _ _ _ refl,
      of "[zero_SyncStatus]" zero_SyncStatus 5] ex_dep_sync(1,3) [of "[zero_SyncStatus]"] S(3)
    by (auto simp: ex_log_def zero_SyncStatus_def)
qed

section \<open>The loops\<close>

text \<open>One tick of the poller: the header that it sends to the channel, if any.\<close>

definition startPolling_tick :: "'s Syncer \<Rightarrow> ('s, Header option) prog" where
  "startPolling_tick S = (\<lambda>s. case ch_HeaderByNumber (sc_loadedBazooka S) None s of
     Inl _ \<Rightarrow> (Ok None, s) | Inr header \<Rightarrow> (Ok (Some header), s))"

text \<open>A header that is handled without a panic is handled by steps of the loop and its goroutine.\<close>

lemma listen_reach_trans: "listen_reach S a b \<Longrightarrow> listen_reach S b c \<Longrightarrow> listen_reach S a c"
  by (rotate_tac, induction rule: listen_reach.induct) (auto intro: listen_reach.intros)

lemma processEvents_reach:
  assumes "processEvents_loop S logs s = (Ok (), s')"
  shows "listen_reach S \<lparr>li_db = s, li_wg = 1, li_running = [(logs, header)], li_crashed = False\<rparr>
    \<lparr>li_db = s', li_wg = 1, li_running = [([], header)], li_crashed = False\<rparr>"
  using assms
proof (induction logs arbitrary: s)
  case Nil
  then show ?case by (simp add: reach_refl)
next
  case (Cons log logs)
  then obtain s1 where s1: "processLog S log s = (Ok (), s1)" "processEvents_loop S logs s1 = (Ok (), s')"
    by (auto simp: andThen_Ok_iff)
  have "listen_step S \<lparr>li_db = s, li_wg = 1, li_running = [(log # logs, header)], li_crashed = False\<rparr>
      \<lparr>li_db = s1, li_wg = 1, li_running = [(logs, header)], li_crashed = False\<rparr>"
    using step_Log [of "\<lparr>li_db = s, li_wg = 1, li_running = [(log # logs, header)], li_crashed = False\<rparr>" "[]" log logs header "[]" S]
      s1(1) by (simp add: after_def)
  from listen_reach_trans [OF reach_trans [OF reach_refl this] Cons.IH [OF s1(2)]] show ?case .
qed

lemma handleHeader_reach:
  assumes "handleHeader S header s = (Ok (), s')"
  shows "listen_reach S (new_listening s) (new_listening s')"
proof -
  from assms obtain x s1 where ph: "processHeader S header s = (Ok x, s1)"
    and k: "(case x of None \<Rightarrow> ret () | Some logs \<Rightarrow> processEvents S logs header) s1 = (Ok (), s')"
    by (auto simp: handleHeader_def andThen_Ok_iff)
  show ?thesis
  proof (cases x)
    case None
    have "listen_step S (new_listening s) ((new_listening s)\<lparr>li_db := s1\<rparr>)"
      by (rule step_Skip) (use ph None in \<open>simp_all add: new_listening_def\<close>)
    with k None show ?thesis by (auto simp: new_listening_def intro: reach_trans [OF reach_refl])
  next
    case (Some logs)
    let ?l = "\<lambda>s logs. \<lparr>li_db = s, li_wg = 1, li_running = [(logs, header)], li_crashed = False\<rparr>"
    from k Some obtain s2 where s2: "processEvents_loop S logs s1 = (Ok (), s2)" "recordBlock S header s2 = (Ok (), s')"
      by (auto simp: processEvents_def andThen_Ok_iff)
    have "listen_step S (new_listening s) (?l s1 logs)"
      using step_Header [of "new_listening s" S header logs s1] ph Some by (simp add: new_listening_def)
    moreover have "listen_step S (?l s2 []) (new_listening s')"
      using step_Done [of "?l s2 []" "[]" header "[]" S] s2(2) by (simp add: after_def new_listening_def)
    ultimately show ?thesis
      using processEvents_reach [OF s2(1), of header] listen_reach_trans reach_trans reach_refl by metis
  qed
qed

section \<open>The service\<close>

text \<open>
  The cancel functions and loops of the struct are those of \<open>loops\<close>.  \<open>subscribe\<close> is the
  outcome of \<open>SubscribeNewHead\<close>: an error makes the service poll instead.
\<close>

definition Syncer_OnStart :: "('s \<Rightarrow> go_error option) \<Rightarrow> ('s loops, unit) prog" where
  "Syncer_OnStart subscribe =
    andThen Base_OnStart (\<lambda>_.
    andThen (WithCancel ''cancelSubscription'') (\<lambda>ctx.
    andThen (WithCancel ''cancelHeaderProcess'') (\<lambda>headerCtx.
    andThen (go_loop ''startHeaderProcess'' headerCtx) (\<lambda>_ w.
      case subscribe (lw_db w) of
        Some err \<Rightarrow> go_loop ''startPolling'' ctx w
      | None \<Rightarrow> go_loop ''startSubscription'' ctx w))))"

definition Syncer_OnStop :: "'s conn \<Rightarrow> ('s loops, unit) prog" where
  "Syncer_OnStop C =
    andThen Base_OnStop (\<lambda>_.
    andThen (call_cancel ''cancelSubscription'') (\<lambda>_.
    andThen (call_cancel ''cancelHeaderProcess'') (\<lambda>_.
      on_db (c_close C))))"

definition syncer_impl :: "('s \<Rightarrow> go_error option) \<Rightarrow> 's conn \<Rightarrow> 's loops impl" where
  "syncer_impl subscribe C = \<lparr>im_OnStart = Syncer_OnStart subscribe, im_OnStop = Syncer_OnStop C,
     im_OnReset = Base_OnReset\<rparr>"

definition syncer_ready :: "'s loops \<Rightarrow> bool" where
  "syncer_ready w \<longleftrightarrow> lw_cancel w ''cancelSubscription'' \<noteq> None \<and> lw_cancel w ''cancelHeaderProcess'' \<noteq> None"

text \<open>The branch of \<open>startSubscription\<close> for an error of the subscription, on the struct whose loop it is.\<close>

definition startSubscription_error :: "'s loops impl \<Rightarrow> ('s loops svc, unit) prog" where
  "startSubscription_error I =
    andThen (ignoreErr (Stop I)) (\<lambda>_. on_world (call_cancel ''cancelSubscription''))"

text \<open>
  \<open>NewSyncer\<close> returns \<open>*syncerService\<close>, a copy of the struct.  Its flags are its own, but its
  \<open>impl\<close> still is the original, which therefore is the world of the copy.
\<close>

definition copied :: "'w impl \<Rightarrow> 'w svc impl" where
  "copied I = \<lparr>im_OnStart = on_world (im_OnStart I), im_OnStop = on_world (im_OnStop I),
     im_OnReset = on_world (im_OnReset I)\<rparr>"

definition NewSyncer :: "go_error option \<Rightarrow> 's conn \<Rightarrow> 's \<Rightarrow> 's loops svc svc res" where
  "NewSyncer loadErr C s = (case loadErr of Some err \<Rightarrow> Panic (PanicErr err)
     | None \<Rightarrow> (case c_open C s of
         (Some err, _) \<Rightarrow> Panic (PanicErr err)
       | (None, s) \<Rightarrow>
          (let syncerService = NewBaseService ''syncer'' (new_loops s)
           in Ok (NewBaseService ''syncer'' syncerService))))"

lemmas syncer_run_defs = Syncer_OnStart_def Syncer_OnStop_def Base_OnStart_def Base_OnStop_def loops_defs andThen_def new_loops_def

lemma syncer_started:
  assumes "im_OnStart (syncer_impl subscribe C) (new_loops db0) = (Ok (), w)"
  shows "lw_cancel w ''cancelSubscription'' = Some 0" "lw_cancel w ''cancelHeaderProcess'' = Some 1"
    "lw_db w = db0" "length (lw_loops w) = 2" "snd ` set (lw_loops w) = {0, 1}" "lw_cancelled w = []"
  using assms by (auto simp: syncer_impl_def syncer_run_defs split: option.splits)

interpretation sy: one_shot_service "syncer_impl subscribe C" syncer_ready
  for subscribe :: "'s \<Rightarrow> go_error option" and C
proof unfold_locales
  fix w w' :: "'s loops"
  show "im_OnStart (syncer_impl subscribe C) w = (Ok (), w') \<Longrightarrow> syncer_ready w'"
    by (auto simp: syncer_impl_def Syncer_OnStart_def Base_OnStart_def loops_defs andThen_def syncer_ready_def
      split: option.splits)
  show "\<exists>w'. im_OnStart (syncer_impl subscribe C) w = (Ok (), w')"
    by (auto simp: syncer_impl_def Syncer_OnStart_def Base_OnStart_def loops_defs andThen_def split: option.splits)
  show "is_Panic (fst (im_OnReset (syncer_impl subscribe C) w))" by (simp add: syncer_impl_def Base_OnReset_def)
  show "syncer_ready w \<Longrightarrow> \<exists>w'. im_OnStop (syncer_impl subscribe C) w = (Ok (), w')"
    by (auto simp: syncer_impl_def Syncer_OnStop_def Base_OnStop_def loops_defs andThen_def syncer_ready_def)
qed

lemma copied_one_shot:
  assumes "one_shot_service I ready"
  shows "one_shot_service (copied I) (\<lambda>w. ready (sv_world w))"
proof
  note I = assms [unfolded one_shot_service_def one_shot_service_axioms_def managed_service_def]
  fix w w'
  show "im_OnStart (copied I) w = (Ok (), w') \<Longrightarrow> ready (sv_world w')"
    using I by (auto simp: copied_def on_world_def split: prod.splits)
  show "\<exists>w'. im_OnStart (copied I) w = (Ok (), w')"
    using I by (auto simp: copied_def on_world_def split: prod.splits) (metis Pair_inject)
  show "is_Panic (fst (im_OnReset (copied I) w))"
    using I by (simp add: copied_def on_world_def split: prod.splits) (metis fst_conv)
  show "ready (sv_world w) \<Longrightarrow> \<exists>w'. im_OnStop (copied I) w = (Ok (), w')"
    using I by (auto simp: copied_def on_world_def split: prod.splits)
qed

interpretation cp: one_shot_service "copied (syncer_impl subscribe C)" "\<lambda>w. syncer_ready (sv_world w)"
  for subscribe :: "'s \<Rightarrow> go_error option" and C
  by (rule copied_one_shot) (rule sy.one_shot_service_axioms)

lemma syncer_stop_run:
  assumes "NewSyncer None C s0 = Ok t0" "svc_reach (copied (syncer_impl subscribe C)) (sv_world t0) t" "IsRunning t"
  shows "\<exists>t'. Stop (copied (syncer_impl subscribe C)) t = (Ok (), t') \<and> \<not> IsRunning t' \<and> Wait_returns t' \<and>
    (let w = sv_world (sv_world t') in all_cancelled w \<and> length (lw_loops w) = 2 \<and>
      lw_db w = c_close C (snd (c_open C s0)))"
proof -
  let ?I = "syncer_impl subscribe C" and ?db = "snd (c_open C s0)"
  have t0: "sv_world t0 = NewBaseService ''syncer'' (new_loops ?db)"
    using assms(1) by (auto simp: NewSyncer_def NewBaseService_def Let_def split: prod.splits option.splits)
  obtain w1 where w1: "im_OnStart ?I (new_loops ?db) = (Ok (), w1)" using sy.start_total by blast
  note f = syncer_started [OF w1]
  let ?w2 = "w1\<lparr>lw_cancelled := [1, 0], lw_db := c_close C ?db\<rparr>"
  have w2: "im_OnStop ?I w1 = (Ok (), ?w2)" using f by (simp add: syncer_impl_def syncer_run_defs)
  have c: "im_OnStart (copied ?I) (sv_world t0) = (Ok (), (sv_world t0)\<lparr>sv_world := w1\<rparr>)"
    "im_OnStop (copied ?I) ((sv_world t0)\<lparr>sv_world := w1\<rparr>) = (Ok (), (sv_world t0)\<lparr>sv_world := ?w2\<rparr>)"
    using w1 w2 t0 by (simp_all add: copied_def on_world_def NewBaseService_def)
  from cp.stop_world [OF assms(2,3) c] obtain t' where "Stop (copied ?I) t = (Ok (), t')" "\<not> IsRunning t'"
    "Wait_returns t'" "sv_world t' = (sv_world t0)\<lparr>sv_world := ?w2\<rparr>" by blast
  then show ?thesis by (simp add: all_cancelled_def Let_def f)
qed

text \<open>
  C27. Stopping the syncer, which is what \<open>NewSyncer\<close> returns, succeeds in every state in
  which it runs: both of its loops are told to end, the database is closed and everyone who
  waits for the service goes on.
\<close>

theorem syncer_stops:
  assumes "NewSyncer None C s0 = Ok t0" "svc_reach (copied (syncer_impl subscribe C)) (sv_world t0) t" "IsRunning t"
  shows "\<exists>t'. Stop (copied (syncer_impl subscribe C)) t = (Ok (), t') \<and> \<not> IsRunning t' \<and> Wait_returns t' \<and>
    (let w = sv_world (sv_world t') in all_cancelled w \<and> length (lw_loops w) = 2 \<and>
      lw_db w = c_close C (snd (c_open C s0)))"
  by (rule syncer_stop_run [OF assms])

definition ex_closed :: mem_state where
  "ex_closed = \<lparr>ms_rows = empty_tables, ms_txn = None, ms_conns = 0\<rparr>"

definition ex_opened :: mem_state where
  "ex_opened = ex_closed\<lparr>ms_conns := 1\<rparr>"

lemma ex_syncer_new:
  "NewSyncer None mem_conn ex_closed = Ok (NewBaseService ''syncer'' (NewBaseService ''syncer'' (new_loops ex_opened)))"
  by (simp add: NewSyncer_def mem_conn_def ex_opened_def ex_closed_def)

theorem syncer_stops_witness:
  "\<exists>t0 t t'. NewSyncer None mem_conn ex_closed = Ok t0 \<and> Start (copied (syncer_impl (\<lambda>_. None) mem_conn)) t0 = (Ok (), t) \<and>
     Stop (copied (syncer_impl (\<lambda>_. None) mem_conn)) t = (Ok (), t') \<and> all_cancelled (sv_world (sv_world t'))"
proof -
  let ?I = "copied (syncer_impl (\<lambda>_. None) mem_conn)" and ?w = "NewBaseService ''syncer'' (new_loops ex_opened)"
  obtain t where t: "Start ?I (NewBaseService ''syncer'' ?w) = (Ok (), t)" "IsRunning t" "svc_reach ?I ?w t"
    using cp.start_world by blast
  have "sv_world (NewBaseService ''syncer'' ?w) = ?w" by (simp add: NewBaseService_def)
  with t(1) syncer_stops [OF ex_syncer_new _ t(2)] t(3) show ?thesis by (auto simp: ex_syncer_new Let_def)
qed

text \<open>
  C28. When the subscription fails the syncer does not stop.  \<open>Stop\<close> is called on the
  struct that \<open>NewSyncer\<close> made, which was never started, since what was started is the copy
  that it returned: the error is dropped, the header loop waits for headers that do not come
  any more, the database stays open and those who wait for the service are not released.
\<close>

theorem subscription_failure:
  assumes "NewSyncer None C s0 = Ok t0" "Start (copied (syncer_impl subscribe C)) t0 = (Ok (), t)"
  shows "\<exists>t'. on_world (startSubscription_error (syncer_impl subscribe C)) t = (Ok (), t') \<and>
    fst (Stop (syncer_impl subscribe C) (sv_world t)) = Err ErrNotStarted \<and> IsRunning t' \<and> \<not> Wait_returns t' \<and>
    (let w = sv_world (sv_world t') in (''startHeaderProcess'', 1) \<in> set (lw_loops w) \<and> lw_cancelled w = [0] \<and>
      lw_db w = snd (c_open C s0))"
proof -
  let ?I = "syncer_impl subscribe C" and ?db = "snd (c_open C s0)"
  have t0: "t0 = NewBaseService ''syncer'' (NewBaseService ''syncer'' (new_loops ?db))"
    using assms(1) by (auto simp: NewSyncer_def Let_def split: prod.splits option.splits)
  obtain w1 where w1: "im_OnStart ?I (new_loops ?db) = (Ok (), w1)" using sy.start_total by blast
  note f = syncer_started [OF w1]
  have t: "t = t0\<lparr>sv_started := 1, sv_world := (sv_world t0)\<lparr>sv_world := w1\<rparr>\<rparr>"
    using assms(2) w1 t0 by (simp add: Start_fresh NewBaseService_def copied_def on_world_def)
  have "(''startHeaderProcess'', 1) \<in> set (lw_loops w1)"
    using w1 by (auto simp: syncer_impl_def syncer_run_defs split: option.splits)
  with f t t0 show ?thesis
    by (simp add: startSubscription_error_def Stop_def on_world_def NewBaseService_def andThen_def ignoreErr_def
      call_cancel_def IsRunning_def Wait_returns_def Let_def)
qed

theorem subscription_failure_witness:
  "\<exists>t0 t t'. NewSyncer None mem_conn ex_closed = Ok t0 \<and> Start (copied (syncer_impl (\<lambda>_. None) mem_conn)) t0 = (Ok (), t) \<and>
     on_world (startSubscription_error (syncer_impl (\<lambda>_. None) mem_conn)) t = (Ok (), t') \<and> IsRunning t' \<and> \<not> Wait_returns t'"
proof -
  let ?I = "copied (syncer_impl (\<lambda>_. None) mem_conn)" and ?w = "NewBaseService ''syncer'' (new_loops ex_opened)"
  obtain t where t: "Start ?I (NewBaseService ''syncer'' ?w) = (Ok (), t)" using cp.start_world by blast
  with subscription_failure [OF ex_syncer_new t] show ?thesis by (auto simp: ex_syncer_new)
qed

end
