(* ===== verification/Aggregator.thy ===== *)
theory Aggregator
  imports Transactions Contract_Caller Services
begin

text \<open>
  \<open>aggregator/aggregator.go\<close>: the service that takes pending transactions from the mempool
  to make batches of them.  The loop ticks; each tick waits for the goroutine of the one
  before and starts one that pops transactions and hands them to \<open>ProcessTx\<close>.
\<close>

section \<open>Picking and submitting a batch\<close>

text \<open>
  The fields of \<open>Aggregator\<close>: the handle and its connection, and \<open>TxsPerBatch\<close> of the global
  configuration, which \<open>PopTxs\<close> reads.
\<close>

record 's Aggregator =
  ag_DB :: "'s gorm"
  ag_conn :: "'s conn"
  ag_TxsPerBatch :: u64

text \<open>The body is commented out after a bare \<open>return\<close>: both results have their zero values.\<close>

definition Aggregator_ProcessTx :: "Tx list \<Rightarrow> ('s, Commitment list) prog" where
  "Aggregator_ProcessTx txs = ret []"

text \<open>The error of \<open>SubmitBatch\<close> is not assigned; what is tested after it is the old one.\<close>

definition ProcessAndSubmitBatch :: "Tx list \<Rightarrow> ('s, unit) prog" where
  "ProcessAndSubmitBatch txs =
    orReturn (Aggregator_ProcessTx txs) (\<lambda>commitments. ignoreErr (SubmitBatch commitments))"

text \<open>
  An error of \<open>PopTxs\<close> is printed and the transactions that came with it are processed all
  the same; \<open>ProcessTx\<close> does not look at them, so the model passes none.
\<close>

definition pickBatch :: "'s Aggregator \<Rightarrow> ('s, unit) prog" where
  "pickBatch A = (\<lambda>s. case PopTxs (ag_DB A) (ag_conn A) (ag_TxsPerBatch A) s of
     (Panic p, s) \<Rightarrow> (Panic p, s)
   | (Err err, s) \<Rightarrow> ProcessAndSubmitBatch [] s
   | (Ok txs, s) \<Rightarrow> ProcessAndSubmitBatch txs s)"

text \<open>
  \<open>sig\<close> is declared inside the loop body, so here every pointer has a variable of its own.
\<close>

fun aggregateSignatures_loop :: "('k, 'p, 'g) bls \<Rightarrow> Tx list \<Rightarrow> 'g list \<Rightarrow> 'g list res" where
  "aggregateSignatures_loop B [] signatures = Ok signatures"
| "aggregateSignatures_loop B (tx # txs) signatures =
     res_bind (BytesToSignature B (tx_Signature tx)) (\<lambda>sig. aggregateSignatures_loop B txs (signatures @ [sig]))"

definition aggregateSignatures :: "('k, 'p, 'g) bls \<Rightarrow> Tx list \<Rightarrow> 'g res" where
  "aggregateSignatures B txs = res_bind (aggregateSignatures_loop B txs []) (NewAggregateSignature B)"

text \<open>What a \<open>select\<close> of the loop receives, and the loop run on what it receives.\<close>

datatype agg_case = Tick | AggDone

fun startAggregating :: "'s Aggregator \<Rightarrow> agg_case list \<Rightarrow> ('s, unit) prog" where
  "startAggregating A [] = ret ()"
| "startAggregating A (Tick # rest) = andThen (pickBatch A) (\<lambda>_. startAggregating A rest)"
| "startAggregating A (AggDone # rest) = ret ()"

section \<open>The service\<close>

definition Aggregator_OnStart :: "('s loops, unit) prog" where
  "Aggregator_OnStart =
    andThen (ignoreErr Base_OnStart) (\<lambda>_.
    andThen (WithCancel ''cancelAggregating'') (\<lambda>ctx.
      go_loop ''startAggregating'' ctx))"

definition Aggregator_OnStop :: "'s conn \<Rightarrow> ('s loops, unit) prog" where
  "Aggregator_OnStop C =
    andThen Base_OnStop (\<lambda>_.
    andThen (on_db (c_close C)) (\<lambda>_.
      call_cancel ''cancelAggregating''))"

definition aggregator_impl :: "'s conn \<Rightarrow> 's loops impl" where
  "aggregator_impl C = \<lparr>im_OnStart = Aggregator_OnStart, im_OnStop = Aggregator_OnStop C, im_OnReset = Base_OnReset\<rparr>"

text \<open>\<open>loadErr\<close> is the outcome of \<open>NewPreLoadedBazooka\<close>.\<close>

definition NewAggregator :: "go_error option \<Rightarrow> 's conn \<Rightarrow> 's \<Rightarrow> 's loops svc res" where
  "NewAggregator loadErr C s = (case loadErr of Some err \<Rightarrow> Panic (PanicErr err)
     | None \<Rightarrow> (case c_open C s of
         (Some err, _) \<Rightarrow> Panic (PanicErr err)
       | (None, s) \<Rightarrow> Ok (NewBaseService ''aggregator'' (new_loops s))))"

lemmas aggregator_run_defs = Aggregator_OnStart_def Aggregator_OnStop_def Base_OnStart_def Base_OnStop_def
  loops_defs andThen_def ignoreErr_def new_loops_def

interpretation ag: one_shot_service "aggregator_impl C" "\<lambda>w. lw_cancel w ''cancelAggregating'' \<noteq> None"
  for C :: "'s conn"
proof unfold_locales
  fix w w' :: "'s loops"
  show "im_OnStart (aggregator_impl C) w = (Ok (), w') \<Longrightarrow> lw_cancel w' ''cancelAggregating'' \<noteq> None"
    by (auto simp: aggregator_impl_def aggregator_run_defs)
  show "\<exists>w'. im_OnStart (aggregator_impl C) w = (Ok (), w')"
    by (simp add: aggregator_impl_def aggregator_run_defs)
  show "is_Panic (fst (im_OnReset (aggregator_impl C) w))" by (simp add: aggregator_impl_def Base_OnReset_def)
  show "lw_cancel w ''cancelAggregating'' \<noteq> None \<Longrightarrow> \<exists>w'. im_OnStop (aggregator_impl C) w = (Ok (), w')"
    by (auto simp: aggregator_impl_def aggregator_run_defs)
qed

section \<open>What the rounds do to the mempool\<close>

definition is_pending :: "Tx \<Rightarrow> bool" where
  "is_pending t \<longleftrightarrow> tx_Status t = TX_STATUS_PENDING"

text \<open>Every pending transaction taken out of the mempool.\<close>

definition drained :: "Tx list \<Rightarrow> Tx list" where
  "drained = map (\<lambda>t. if is_pending t then t\<lparr>tx_Status := TX_STATUS_PROCESSING\<rparr> else t)"

definition mark :: "Tx set \<Rightarrow> Tx list \<Rightarrow> Tx list" where
  "mark Z = map (\<lambda>t. if t \<in> Z then t\<lparr>tx_Status := TX_STATUS_PROCESSING\<rparr> else t)"

lemma is_pending_update [simp]: "is_pending (t\<lparr>tx_Status := v\<rparr>) \<longleftrightarrow> v = TX_STATUS_PENDING"
  by (simp add: is_pending_def)

lemma drained_mark: "Z \<subseteq> Collect is_pending \<Longrightarrow> drained (mark Z ts) = drained ts"
  by (auto simp: drained_def mark_def)

lemma pending_mark:
  assumes "t \<in> Z" "t \<in> set ts" "is_pending t"
  shows "length (filter is_pending (mark Z ts)) < length (filter is_pending ts)"
proof -
  have le: "length (filter is_pending (mark Z us)) \<le> length (filter is_pending us)" for us
    by (induction us) (auto simp: mark_def)
  obtain xs ys where "ts = xs @ t # ys" using split_list [OF assms(2)] by blast
  then show ?thesis using le [of xs] le [of ys] assms(1,3) by (simp add: mark_def is_pending_def)
qed

lemma drained_none: "filter is_pending ts = [] \<Longrightarrow> drained ts = ts"
  by (induction ts) (auto simp: drained_def split: if_splits)

lemma pickBatch_run:
  assumes "conn_ok (ag_conn A) (ag_DB A) view up txv base intx" "up s" "length (txes (view s)) < 2 ^ 64"
    and "distinct (map db_ID (txes (view s)))" "0 < ag_TxsPerBatch A"
  shows "\<exists>Z s'. pickBatch A s = (Ok (), s') \<and> up s' \<and> Z \<subseteq> set (filter is_pending (txes (view s))) \<and>
    (filter is_pending (txes (view s)) \<noteq> [] \<longrightarrow> Z \<noteq> {}) \<and> view s' = (view s)\<lparr>txes := mark Z (txes (view s))\<rparr>"
proof -
  let ?ts = "txes (view s)" and ?n = "unat (ag_TxsPerBatch A)"
  obtain ys s' where run: "PopTxs (ag_DB A) (ag_conn A) (ag_TxsPerBatch A) s = (Ok (take ?n ys), s')" "up s'"
    and ys: "mset ys = mset (filter (poppable ?ts) ?ts)"
    and v: "view s' = (view s)\<lparr>txes := map (\<lambda>t. if db_ID t \<in> db_ID ` set (take ?n ys)
      then t\<lparr>tx_Status := TX_STATUS_PROCESSING\<rparr> else t) ?ts\<rparr>"
    using PopTxs_run [OF assms(1-3)] by blast
  have ysset: "set ys = set (filter (poppable ?ts) ?ts)" using ys by (metis set_mset_mset)
  let ?Z = "set (take ?n ys)"
  have sub: "?Z \<subseteq> set (filter is_pending ?ts)"
    using ysset set_take_subset [of ?n ys] by (auto simp: poppable_def is_pending_def)
  have "db_ID t \<in> db_ID ` ?Z \<longleftrightarrow> t \<in> ?Z" if "t \<in> set ?ts" for t
    using that sub assms(4) by (auto simp: distinct_map inj_on_def)
  then have "view s' = (view s)\<lparr>txes := mark ?Z ?ts\<rparr>" using v by (simp add: mark_def cong: map_cong)
  moreover have "?Z \<noteq> {}" if ne: "filter is_pending ?ts \<noteq> []"
  proof -
    have "\<exists>t \<in> set ?ts. poppable ?ts t"
      using ne unfolding filter_empty_conv by (auto simp: poppable_def is_pending_def)
    then have "set ys \<noteq> {}" using ysset by auto
    moreover have "0 < ?n" using assms(5) by (simp add: unat_gt_0)
    ultimately show ?thesis by simp
  qed
  moreover have "pickBatch A s = (Ok (), s')"
    using run(1) by (simp add: pickBatch_def ProcessAndSubmitBatch_def Aggregator_ProcessTx_def SubmitBatch_def
      orReturn_def ignoreErr_def)
  ultimately show ?thesis using sub run(2) by blast
qed

lemma startAggregating_drains:
  assumes "conn_ok (ag_conn A) (ag_DB A) view up txv base intx" "0 < ag_TxsPerBatch A"
  shows "up s \<Longrightarrow> length (txes (view s)) < 2 ^ 64 \<Longrightarrow> distinct (map db_ID (txes (view s))) \<Longrightarrow>
    length (filter is_pending (txes (view s))) \<le> k \<Longrightarrow>
    \<exists>s'. startAggregating A (replicate k Tick) s = (Ok (), s') \<and> up s' \<and>
      view s' = (view s)\<lparr>txes := drained (txes (view s))\<rparr>"
proof (induction k arbitrary: s)
  case 0
  then show ?case by (simp add: drained_none)
next
  case (Suc k)
  let ?ts = "txes (view s)"
  obtain Z s1 where Z: "pickBatch A s = (Ok (), s1)" "up s1" "Z \<subseteq> set (filter is_pending ?ts)"
    "filter is_pending ?ts \<noteq> [] \<longrightarrow> Z \<noteq> {}" "view s1 = (view s)\<lparr>txes := mark Z ?ts\<rparr>"
    using pickBatch_run [OF assms(1) Suc.prems(1-3) assms(2)] by blast
  have "length (filter is_pending (mark Z ?ts)) \<le> k"
  proof (cases "Z = {}")
    case True
    with Z(4) show ?thesis by (simp add: mark_def)
  next
    case False
    then obtain t where "t \<in> Z" by blast
    with Z(3) pending_mark [of t Z ?ts] Suc.prems(4) show ?thesis by auto
  qed
  moreover have "distinct (map db_ID (mark Z ?ts))" 
  proof -
    have "map db_ID (mark Z ?ts) = map db_ID ?ts" by (simp add: mark_def)
    then show ?thesis using Suc.prems(3) by simp
  qed
  moreover have "length (mark Z ?ts) < 2 ^ 64" using Suc.prems(2) by (simp add: mark_def)
  moreover have "drained (mark Z ?ts) = drained ?ts" using Z(3) by (intro drained_mark) auto
  ultimately obtain s' where "startAggregating A (replicate k Tick) s1 = (Ok (), s')" "up s'"
    "view s' = (view s)\<lparr>txes := drained ?ts\<rparr>"
    using Suc.IH [of s1] Z(2,5) by auto
  with Z(1) show ?case by (simp add: andThen_ok)
qed

text \<open>Stopping the aggregator closes its database before its loop is told to end.\<close>

lemma aggregator_stop_run:
  assumes "NewAggregator None C s0 = Ok t0" "svc_reach (aggregator_impl C) (sv_world t0) t" "IsRunning t"
  shows "\<exists>t'. Stop (aggregator_impl C) t = (Ok (), t') \<and> \<not> IsRunning t' \<and> Wait_returns t' \<and>
    all_cancelled (sv_world t') \<and> lw_loops (sv_world t') = [(''startAggregating'', 0)] \<and>
    lw_db (sv_world t') = c_close C (snd (c_open C s0))"
proof -
  let ?I = "aggregator_impl C" and ?db = "snd (c_open C s0)"
  have t0: "sv_world t0 = new_loops ?db"
    using assms(1) by (auto simp: NewAggregator_def NewBaseService_def split: prod.splits option.splits)
  let ?w1 = "\<lparr>lw_db = ?db, lw_contexts = 1, lw_cancel = [''cancelAggregating'' \<mapsto> 0],
    lw_loops = [(''startAggregating'', 0)], lw_cancelled = []\<rparr>"
  have w: "im_OnStart ?I (sv_world t0) = (Ok (), ?w1)"
    "im_OnStop ?I ?w1 = (Ok (), ?w1\<lparr>lw_db := c_close C ?db, lw_cancelled := [0]\<rparr>)"
    by (simp_all add: t0 aggregator_impl_def aggregator_run_defs)
  from ag.stop_world [OF assms(2,3) w] show ?thesis by (auto simp: all_cancelled_def)
qed

section \<open>Properties\<close>

text \<open>
  C32. The mempool is drained and nothing comes of it: after as many ticks as there are
  pending transactions every one of them is marked as processing, while no state, account,
  batch or other row has changed, since \<open>ProcessTx\<close> returns no commitments.  A processing
  transaction is never popped again.
\<close>

theorem popped_transactions_are_lost:
  assumes "conn_ok (ag_conn A) (ag_DB A) view up txv base intx" "up s" "length (txes (view s)) < 2 ^ 64"
    and "distinct (map db_ID (txes (view s)))" "0 < ag_TxsPerBatch A"
    and "length (filter is_pending (txes (view s))) \<le> k"
  shows "\<exists>s'. startAggregating A (replicate k Tick) s = (Ok (), s') \<and>
    view s' = (view s)\<lparr>txes := drained (txes (view s))\<rparr> \<and> filter is_pending (txes (view s')) = []"
proof -
  have "filter is_pending (drained ts) = []" for ts by (induction ts) (auto simp: drained_def)
  with startAggregating_drains [OF assms(1,5,2-4,6)] show ?thesis by force
qed

definition ex_aggregator :: "mem_state Aggregator" where
  "ex_aggregator = \<lparr>ag_DB = ms_gorm, ag_conn = mem_conn, ag_TxsPerBatch = 2\<rparr>"

theorem popped_transactions_are_lost_witness:
  "\<exists>s'. startAggregating ex_aggregator [Tick] ex_ms = (Ok (), s') \<and>
     txes (ms_rows s') = [ex_tx\<lparr>tx_Status := TX_STATUS_PROCESSING\<rparr>] \<and>
     batches (ms_rows s') = batches (ms_rows ex_ms)"
proof -
  have "conn_ok (ag_conn ex_aggregator) (ag_DB ex_aggregator) ms_rows (\<lambda>_. True) ms_tx_rows ms_base ms_open"
    by (simp add: ex_aggregator_def mem_conn_ok)
  moreover have "is_pending ex_tx" by (simp add: is_pending_def ex_tx_def)
  moreover have "txes (ms_rows ex_ms) = [ex_tx]" by (simp add: ex_ms_def)
  ultimately show ?thesis
    using popped_transactions_are_lost [of ex_aggregator ms_rows "\<lambda>_. True" ms_tx_rows ms_base ms_open ex_ms 1]
    by (auto simp: ex_aggregator_def drained_def)
qed

end
