(* ===== verification/Genesis.thy ===== *)
theory Genesis
  imports State_Tree
begin

text \<open>
  \<open>config/genesis.go\<close>: the genesis file and what it is checked for.  A JSON text is the
  tree that it stands for; reading and writing follow the struct tags as \<open>encoding/json\<close>
  does.
\<close>

section \<open>The structs\<close>

record GenUserState =
  gu_AccountID :: u64
  gu_Nonce :: u64
  gu_Balance :: u64
  gu_TokenType :: u64
  gu_PublicKey :: string

record GenesisAccounts =
  ga_Accounts :: "GenUserState list"

record Genesis =
  ge_StartEthBlock :: u64
  ge_MaxTreeDepth :: u64
  ge_MaxDepositSubTreeHeight :: u64
  ge_StakeAmount :: u64
  ge_GenesisAccounts :: GenesisAccounts

definition zero_GenUserState :: GenUserState where
  "zero_GenUserState = \<lparr>gu_AccountID = 0, gu_Nonce = 0, gu_Balance = 0, gu_TokenType = 0, gu_PublicKey = ''''\<rparr>"

definition zero_Genesis :: Genesis where
  "zero_Genesis = \<lparr>ge_StartEthBlock = 0, ge_MaxTreeDepth = 0, ge_MaxDepositSubTreeHeight = 0,
     ge_StakeAmount = 0, ge_GenesisAccounts = \<lparr>ga_Accounts = []\<rparr>\<rparr>"

section \<open>Checks and defaults\<close>

definition gu_IsCoordinator :: "GenUserState \<Rightarrow> bool" where
  "gu_IsCoordinator acc =
    (if gu_AccountID acc \<noteq> 0 \<or> gu_Balance acc \<noteq> 0 \<or> gu_TokenType acc \<noteq> 0 \<or> gu_Nonce acc \<noteq> 0
     then False else True)"

text \<open>\<open>int(math.Exp2(float64(depth))) - n\<close>, in 64 bits.\<close>

definition leaves_left :: "libs \<Rightarrow> u64 \<Rightarrow> nat \<Rightarrow> int" where
  "leaves_left L depth n = sint (word_of_int (exp2_int L depth - int n) :: u64)"

definition Validate :: "libs \<Rightarrow> Genesis \<Rightarrow> unit res" where
  "Validate L g =
    (let accs = ga_Accounts (ge_GenesisAccounts g) in
     if leaves_left L (ge_MaxTreeDepth g) (length accs) < 0
     then Err (ErrMsg ''More accounts submitted than can be accomodated'')
     else (case accs of
       [] \<Rightarrow> Err (ErrMsg ''Genesis file must contain atleast coordinator leaf'')
     | acc # _ \<Rightarrow>
        if \<not> gu_IsCoordinator acc
        then Err (ErrMsg ''First account in the genesis file should be the coordinator'')
        else Ok ()))"

definition NewGenUserState :: "u64 \<Rightarrow> u64 \<Rightarrow> u64 \<Rightarrow> u64 \<Rightarrow> string \<Rightarrow> GenUserState" where
  "NewGenUserState accountID balance tokenType nonce publicKey =
    \<lparr>gu_AccountID = accountID, gu_Nonce = nonce, gu_Balance = balance, gu_TokenType = tokenType,
     gu_PublicKey = publicKey\<rparr>"

definition NewGenesisAccounts :: "GenUserState list \<Rightarrow> GenesisAccounts" where
  "NewGenesisAccounts accs = \<lparr>ga_Accounts = accs\<rparr>"

definition EmptyGenesisAccount :: GenUserState where
  "EmptyGenesisAccount = NewGenUserState 0 0 0 0 ''''"

definition DEFAULT_DEPTH :: u64 where "DEFAULT_DEPTH = 2"
definition ZERO_UINT :: u64 where "ZERO_UINT = 0"

definition DefaultGenesisAccounts :: GenesisAccounts where
  "DefaultGenesisAccounts =
    (let acc1 = NewGenUserState 0 ZERO_UINT ZERO_UINT ZERO_UINT ''0'';
         acc2 = NewGenUserState 1 ZERO_UINT ZERO_UINT ZERO_UINT ''0'';
         accs = [] @ [acc1, acc2]
     in NewGenesisAccounts accs)"

definition DefaultGenesis :: Genesis where
  "DefaultGenesis = \<lparr>ge_StartEthBlock = 0, ge_MaxTreeDepth = DEFAULT_DEPTH,
     ge_MaxDepositSubTreeHeight = DEFAULT_DEPTH, ge_StakeAmount = 32,
     ge_GenesisAccounts = DefaultGenesisAccounts\<rparr>"

section \<open>The file\<close>

datatype json = JNull | JBool bool | JNum int | JStr string | JArr "json list" | JObj "(string \<times> json) list"

text \<open>
  \<open>encoding/json\<close> writes a string as UTF-8: every byte that is not part of a valid encoding becomes
  the rune \<open>U+FFFD\<close>.  (The escapes of quotes, control characters, \<open><\<close>, \<open>>\<close> and \<open>&\<close> are undone when the
  text is read, so that the tree has the string itself.)
\<close>

definition json_text :: "string \<Rightarrow> string" where
  "json_text s = string_of_runes (runes s)"

text \<open>\<open>omitempty\<close> leaves out a zero number and an empty string, but never a struct; a nil slice is \<open>null\<close>.\<close>

definition omit_u64 :: "string \<Rightarrow> u64 \<Rightarrow> (string \<times> json) list" where
  "omit_u64 tag x = (if x = 0 then [] else [(tag, JNum (uint x))])"

definition omit_str :: "string \<Rightarrow> string \<Rightarrow> (string \<times> json) list" where
  "omit_str tag x = (if x = '''' then [] else [(tag, JStr (json_text x))])"

definition json_GenUserState :: "GenUserState \<Rightarrow> json" where
  "json_GenUserState a = JObj (omit_u64 ''account_id'' (gu_AccountID a) @ omit_u64 ''nonce'' (gu_Nonce a) @
     omit_u64 ''balance'' (gu_Balance a) @ omit_u64 ''token_type'' (gu_TokenType a) @
     omit_str ''public_key'' (gu_PublicKey a))"

definition json_GenesisAccounts :: "GenesisAccounts \<Rightarrow> json" where
  "json_GenesisAccounts a = JObj [(''gen_accounts'',
     if ga_Accounts a = [] then JNull else JArr (map json_GenUserState (ga_Accounts a)))]"

definition json_Genesis :: "Genesis \<Rightarrow> json" where
  "json_Genesis g = JObj (omit_u64 ''start_eth_block'' (ge_StartEthBlock g) @
     omit_u64 ''max_tree_depth'' (ge_MaxTreeDepth g) @
     omit_u64 ''max_deposit_subtree'' (ge_MaxDepositSubTreeHeight g) @
     omit_u64 ''stake_amount'' (ge_StakeAmount g) @
     [(''genesis_accounts'', json_GenesisAccounts (ge_GenesisAccounts g))])"

text \<open>
  \<open>json.Unmarshal\<close>: keys are compared with the tags without regard to (ASCII) case, unknown
  keys are skipped, \<open>null\<close> changes nothing, and a number has to fit.  An error is returned
  at the end, with what was read; it is all that the callers look at.
\<close>

definition lower :: "char \<Rightarrow> char" where
  "lower c = (if of_char c \<in> {65..90 :: nat} then char_of (of_char c + 32 :: nat) else c)"

definition json_key :: "string \<Rightarrow> string \<Rightarrow> bool" where
  "json_key tag key \<longleftrightarrow> map lower key = map lower tag"

definition type_error :: go_error where "type_error = ErrMsg ''json: cannot unmarshal''"

definition read_u64 :: "json \<Rightarrow> u64 \<Rightarrow> go_error + u64" where
  "read_u64 j old = (case j of JNull \<Rightarrow> Inr old
     | JNum n \<Rightarrow> if 0 \<le> n \<and> n < 2 ^ 64 then Inr (of_int n) else Inl type_error
     | _ \<Rightarrow> Inl type_error)"

definition read_str :: "json \<Rightarrow> string \<Rightarrow> go_error + string" where
  "read_str j old = (case j of JNull \<Rightarrow> Inr old | JStr x \<Rightarrow> Inr x | _ \<Rightarrow> Inl type_error)"

definition sum_map :: "('a \<Rightarrow> 'b) \<Rightarrow> 'e + 'a \<Rightarrow> 'e + 'b" where
  "sum_map f x = (case x of Inl e \<Rightarrow> Inl e | Inr a \<Rightarrow> Inr (f a))"

definition set_GenUserState :: "string \<times> json \<Rightarrow> GenUserState \<Rightarrow> go_error + GenUserState" where
  "set_GenUserState kv a = (case kv of (k, j) \<Rightarrow>
     if json_key ''account_id'' k then sum_map (\<lambda>x. a\<lparr>gu_AccountID := x\<rparr>) (read_u64 j (gu_AccountID a))
     else if json_key ''nonce'' k then sum_map (\<lambda>x. a\<lparr>gu_Nonce := x\<rparr>) (read_u64 j (gu_Nonce a))
     else if json_key ''balance'' k then sum_map (\<lambda>x. a\<lparr>gu_Balance := x\<rparr>) (read_u64 j (gu_Balance a))
     else if json_key ''token_type'' k then sum_map (\<lambda>x. a\<lparr>gu_TokenType := x\<rparr>) (read_u64 j (gu_TokenType a))
     else if json_key ''public_key'' k then sum_map (\<lambda>x. a\<lparr>gu_PublicKey := x\<rparr>) (read_str j (gu_PublicKey a))
     else Inr a)"

text \<open>The keys of an object, in order, into the fields of a struct.\<close>

fun read_fields :: "(string \<times> json \<Rightarrow> 'a \<Rightarrow> go_error + 'a) \<Rightarrow> (string \<times> json) list \<Rightarrow> 'a \<Rightarrow> go_error + 'a" where
  "read_fields put [] a = Inr a"
| "read_fields put (kv # kvs) a = (case put kv a of Inl e \<Rightarrow> Inl e | Inr a \<Rightarrow> read_fields put kvs a)"

definition read_struct :: "(string \<times> json \<Rightarrow> 'a \<Rightarrow> go_error + 'a) \<Rightarrow> json \<Rightarrow> 'a \<Rightarrow> go_error + 'a" where
  "read_struct put j a = (case j of JNull \<Rightarrow> Inr a | JObj kvs \<Rightarrow> read_fields put kvs a | _ \<Rightarrow> Inl type_error)"

fun read_accounts :: "json list \<Rightarrow> go_error + GenUserState list" where
  "read_accounts [] = Inr []"
| "read_accounts (j # js) = (case read_struct set_GenUserState j zero_GenUserState of
     Inl e \<Rightarrow> Inl e | Inr a \<Rightarrow> sum_map (\<lambda>as. a # as) (read_accounts js))"

definition set_GenesisAccounts :: "string \<times> json \<Rightarrow> GenesisAccounts \<Rightarrow> go_error + GenesisAccounts" where
  "set_GenesisAccounts kv a = (case kv of (k, j) \<Rightarrow>
     if json_key ''gen_accounts'' k then (case j of
         JNull \<Rightarrow> Inr (a\<lparr>ga_Accounts := []\<rparr>)
       | JArr js \<Rightarrow> sum_map (\<lambda>xs. a\<lparr>ga_Accounts := xs\<rparr>) (read_accounts js)
       | _ \<Rightarrow> Inl type_error)
     else Inr a)"

definition set_Genesis :: "string \<times> json \<Rightarrow> Genesis \<Rightarrow> go_error + Genesis" where
  "set_Genesis kv g = (case kv of (k, j) \<Rightarrow>
     if json_key ''start_eth_block'' k then sum_map (\<lambda>x. g\<lparr>ge_StartEthBlock := x\<rparr>) (read_u64 j (ge_StartEthBlock g))
     else if json_key ''max_tree_depth'' k then sum_map (\<lambda>x. g\<lparr>ge_MaxTreeDepth := x\<rparr>) (read_u64 j (ge_MaxTreeDepth g))
     else if json_key ''max_deposit_subtree'' k
       then sum_map (\<lambda>x. g\<lparr>ge_MaxDepositSubTreeHeight := x\<rparr>) (read_u64 j (ge_MaxDepositSubTreeHeight g))
     else if json_key ''stake_amount'' k then sum_map (\<lambda>x. g\<lparr>ge_StakeAmount := x\<rparr>) (read_u64 j (ge_StakeAmount g))
     else if json_key ''genesis_accounts'' k
       then sum_map (\<lambda>x. g\<lparr>ge_GenesisAccounts := x\<rparr>) (read_struct set_GenesisAccounts j (ge_GenesisAccounts g))
     else Inr g)"

text \<open>
  The outcome of opening and reading \<open>genesis.json\<close>, and what is written to it.
\<close>

definition ReadGenesisFile :: "go_error + json \<Rightarrow> Genesis res" where
  "ReadGenesisFile genesisFile = (case genesisFile of Inl err \<Rightarrow> Err err
     | Inr j \<Rightarrow> (case read_struct set_Genesis j zero_Genesis of
         Inl err \<Rightarrow> Err err | Inr genesis \<Rightarrow> Ok genesis))"

definition WriteGenesisFile :: "(json \<Rightarrow> go_error option) \<Rightarrow> Genesis \<Rightarrow> go_error option" where
  "WriteGenesisFile write genesis = write (json_Genesis genesis)"

section \<open>Lemmas\<close>

lemma read_fields_append:
  "read_fields put (xs @ ys) a = (case read_fields put xs a of Inl e \<Rightarrow> Inl e | Inr a \<Rightarrow> read_fields put ys a)"
  by (induction xs arbitrary: a) (simp_all split: sum.split)

lemma read_struct_obj: "read_struct put (JObj kvs) a = read_fields put kvs a"
  by (simp add: read_struct_def)

lemma read_u64_num [simp]: "read_u64 (JNum (uint x)) old = Inr x"
proof -
  have "uint x < 2 ^ 64" using uint_lt2p [of x] by simp
  then show ?thesis by (simp add: read_u64_def)
qed

lemma read_str_str [simp]: "read_str (JStr x) old = Inr x"
  by (simp add: read_str_def)

lemma sum_map_simps [simp]: "sum_map f (Inr a) = Inr (f a)" "sum_map f (Inl e) = Inl e"
  by (simp_all add: sum_map_def)

text \<open>The tags do not match each other.\<close>

lemma tags_user:
  "set_GenUserState (''account_id'', j) a = sum_map (\<lambda>x. a\<lparr>gu_AccountID := x\<rparr>) (read_u64 j (gu_AccountID a))"
  "set_GenUserState (''nonce'', j) a = sum_map (\<lambda>x. a\<lparr>gu_Nonce := x\<rparr>) (read_u64 j (gu_Nonce a))"
  "set_GenUserState (''balance'', j) a = sum_map (\<lambda>x. a\<lparr>gu_Balance := x\<rparr>) (read_u64 j (gu_Balance a))"
  "set_GenUserState (''token_type'', j) a = sum_map (\<lambda>x. a\<lparr>gu_TokenType := x\<rparr>) (read_u64 j (gu_TokenType a))"
  "set_GenUserState (''public_key'', j) a = sum_map (\<lambda>x. a\<lparr>gu_PublicKey := x\<rparr>) (read_str j (gu_PublicKey a))"
  by (simp_all add: set_GenUserState_def json_key_def lower_def)

lemma tags_genesis:
  "set_Genesis (''start_eth_block'', j) g = sum_map (\<lambda>x. g\<lparr>ge_StartEthBlock := x\<rparr>) (read_u64 j (ge_StartEthBlock g))"
  "set_Genesis (''max_tree_depth'', j) g = sum_map (\<lambda>x. g\<lparr>ge_MaxTreeDepth := x\<rparr>) (read_u64 j (ge_MaxTreeDepth g))"
  "set_Genesis (''max_deposit_subtree'', j) g =
     sum_map (\<lambda>x. g\<lparr>ge_MaxDepositSubTreeHeight := x\<rparr>) (read_u64 j (ge_MaxDepositSubTreeHeight g))"
  "set_Genesis (''stake_amount'', j) g = sum_map (\<lambda>x. g\<lparr>ge_StakeAmount := x\<rparr>) (read_u64 j (ge_StakeAmount g))"
  "set_Genesis (''genesis_accounts'', j) g =
     sum_map (\<lambda>x. g\<lparr>ge_GenesisAccounts := x\<rparr>) (read_struct set_GenesisAccounts j (ge_GenesisAccounts g))"
  by (simp_all add: set_Genesis_def json_key_def lower_def)

lemma json_text_ascii: "ascii s \<Longrightarrow> json_text s = s"
proof -
  assume a: "ascii s"
  then have "\<forall>r \<in> set (map byte_of s). r < 128" by (simp add: ascii_def)
  moreover have "map (char_of \<circ> byte_of) s = s" by (induction s) simp_all
  ultimately show ?thesis unfolding json_text_def runes_ascii [OF a] by (simp add: string_of_runes_ascii)
qed

text \<open>What is read of an account that was written: its key as the text of the file has it.\<close>

definition text_GenUserState :: "GenUserState \<Rightarrow> GenUserState" where
  "text_GenUserState a = a\<lparr>gu_PublicKey := json_text (gu_PublicKey a)\<rparr>"

lemma read_GenUserState:
  "read_struct set_GenUserState (json_GenUserState a) zero_GenUserState = Inr (text_GenUserState a)"
  by (simp add: json_GenUserState_def read_struct_def read_fields_append omit_u64_def omit_str_def tags_user
    zero_GenUserState_def text_GenUserState_def json_text_def string_of_runes_def)

lemma read_accounts_map: "read_accounts (map json_GenUserState xs) = Inr (map text_GenUserState xs)"
  by (induction xs) (simp_all add: read_GenUserState)

lemma read_GenesisAccounts:
  "read_struct set_GenesisAccounts (json_GenesisAccounts a) \<lparr>ga_Accounts = []\<rparr> =
     Inr \<lparr>ga_Accounts = map text_GenUserState (ga_Accounts a)\<rparr>"
  by (simp add: json_GenesisAccounts_def read_struct_def set_GenesisAccounts_def json_key_def read_accounts_map)

lemma leaves_left_small:
  assumes "unat d < 63" "n \<le> 2 ^ unat d"
  shows "leaves_left L d n = 2 ^ unat d - int n"
proof -
  have "(2 :: int) ^ unat d \<le> 2 ^ 62" using assms(1) by (intro power_increasing) simp_all
  moreover have "int n \<le> 2 ^ unat d" using assms(2) by (metis of_nat_le_iff of_nat_numeral of_nat_power)
  moreover obtain k where k: "k = 2 ^ unat d - int n" by simp
  ultimately have "0 \<le> k" "k < 2 ^ 63" by simp_all
  then have "sint (word_of_int k :: u64) = k"
    unfolding sint_sbintrunc' by (intro signed_take_bit_int_eq_self) simp_all
  then show ?thesis using assms(1) unfolding k by (simp only: leaves_left_def exp2_int_def if_True)
qed

lemma leaves_left_nat:
  "unat d < 63 \<Longrightarrow> n \<le> 2 ^ unat d \<Longrightarrow> leaves_left L d n = int (2 ^ unat d - n)"
  by (simp add: leaves_left_small of_nat_diff)

text \<open>A genesis that was written to the file is read back from it, if its keys are ASCII text.\<close>

lemma read_genesis:
  assumes "\<forall>a \<in> set (ga_Accounts (ge_GenesisAccounts g)). ascii (gu_PublicKey a)"
  shows "ReadGenesisFile (Inr (json_Genesis g)) = Ok g"
proof -
  have "map text_GenUserState (ga_Accounts (ge_GenesisAccounts g)) = ga_Accounts (ge_GenesisAccounts g)"
    using assms by (simp add: map_idI text_GenUserState_def json_text_ascii)
  then show ?thesis
    by (simp add: ReadGenesisFile_def json_Genesis_def read_struct_obj read_fields_append
      omit_u64_def tags_genesis zero_Genesis_def read_GenesisAccounts)
qed

end
