(* ===== verification/Start_Cmd.thy ===== *)
theory Start_Cmd
  imports Genesis Account_Tree Chain_Params Contract_Caller Syncer Aggregator
begin

text \<open>
  \<open>cmd/start.go\<close>: what the start command does before it serves requests.  On the first start,
  when there is no row of the sync status yet, it loads the genesis file into the database;
  then it starts the syncer and the aggregator, which an interrupt stops again.
\<close>

section \<open>Loading the genesis data\<close>

text \<open>\<open>for i, acc := range genesisAccounts\<close>: the data of the first account, the states and the accounts.\<close>

fun load_accounts :: "'s chain \<Rightarrow> libs \<Rightarrow> u64 \<Rightarrow> nat \<Rightarrow> GenUserState list \<Rightarrow> bytes \<Rightarrow> UserState list \<Rightarrow>
    Account list \<Rightarrow> ('s, bytes \<times> UserState list \<times> Account list) prog" where
  "load_accounts N L depth i [] zeroData states accs = ret (zeroData, states, accs)"
| "load_accounts N L depth i (acc # genesisAccounts) zeroData states accs =
     andThen (orPanic (lift (SolidityPathToNodePath (gu_AccountID acc) depth))) (\<lambda>path.
     andThen (orPanic (EncodeState N (gu_AccountID acc) (gu_Balance acc) (gu_Nonce acc) (gu_TokenType acc)))
      (\<lambda>stateBytes.
       let zeroData = (if i = 0 then stateBytes else zeroData);
           newState = NewUserState L (gu_AccountID acc) STATUS_ACTIVE path stateBytes in
     andThen (orPanic (lift (NewAccount L (gu_AccountID acc) (gu_PublicKey acc) path))) (\<lambda>newAcc.
       load_accounts N L depth (Suc i) genesisAccounts zeroData (states @ [newState]) (accs @ [newAcc]))))"

text \<open>\<open>for ; diff > 0; diff--\<close>\<close>

fun load_empty :: "libs \<Rightarrow> nat \<Rightarrow> bytes \<Rightarrow> UserState list \<Rightarrow> Account list \<Rightarrow> UserState list \<times> Account list" where
  "load_empty L 0 zeroData states accs = (states, accs)"
| "load_empty L (Suc diff) zeroData states accs =
     (let newEmptyState = EmptyUserState L;
          newEmptyState = newEmptyState\<lparr>us_Data := zeroData\<rparr>;
          newEmptyState = CreateAccountHash L newEmptyState;
          newAccount = NewEmptyAccount;
          newAccount = newAccount\<lparr>acc_Hash := ByteArray_String ZERO_VALUE_LEAF\<rparr>
      in load_empty L diff zeroData (states @ [newEmptyState]) (accs @ [newAccount]))"

definition loadParams :: "'s gorm \<Rightarrow> Genesis \<Rightarrow> ('s, unit) prog" where
  "loadParams G genesis =
    (let newParams = zero_Params\<lparr>pm_StakeAmount := ge_StakeAmount genesis, pm_MaxDepth := ge_MaxTreeDepth genesis,
           pm_MaxDepositSubTreeHeight := ge_MaxDepositSubTreeHeight genesis\<rparr> in
     andThen (ignoreErr (UpdateStakeAmount G (pm_StakeAmount newParams))) (\<lambda>_.
     andThen (ignoreErr (UpdateMaxDepth G (pm_MaxDepth newParams))) (\<lambda>_.
     andThen (ignoreErr (UpdateDepositSubTreeHeight G (pm_MaxDepositSubTreeHeight newParams))) (\<lambda>_.
       ignoreErr (UpdateFinalisationTimePerBatch G 40320)))))"

definition loadGenesisData :: "'s gorm \<Rightarrow> 's chain \<Rightarrow> libs \<Rightarrow> Genesis \<Rightarrow> ('s, unit) prog" where
  "loadGenesisData G N L genesis =
    andThen (orPanic (lift (Validate L genesis))) (\<lambda>_.
    let genesisAccounts = ga_Accounts (ge_GenesisAccounts genesis);
        depth = ge_MaxTreeDepth genesis;
        diff = leaves_left L depth (length genesisAccounts) in
    andThen (load_accounts N L depth 0 genesisAccounts [] [] []) (\<lambda>(zeroData, states, accs).
    case load_empty L (nat diff) zeroData states accs of (states, accs) \<Rightarrow>
    andThen (orPanic (InitStateTree G L depth states)) (\<lambda>_.
    andThen (orPanic (InitAccountTree G L depth accs)) (\<lambda>_.
    andThen (loadParams G genesis) (\<lambda>_.
      orPanic (InitSyncStatus G (ge_StartEthBlock genesis)))))))"

text \<open>
  The beginning of the start command: \<open>genesisFile\<close> is the outcome of reading the file.
\<close>

definition StartCmd_init :: "'s gorm \<Rightarrow> 's chain \<Rightarrow> libs \<Rightarrow> go_error + json \<Rightarrow> ('s, SyncStatus) prog" where
  "StartCmd_init G N L genesisFile = (\<lambda>s. case GetSyncStatus G s of
     (Err err, s) \<Rightarrow>
       (if err = RecordNotFound then
          andThen (orPanic (lift (ReadGenesisFile genesisFile))) (\<lambda>genesis.
          andThen (loadGenesisData G N L genesis) (\<lambda>_. ret zero_SyncStatus)) s
        else (Panic (PanicErr err), s))
   | (r, s) \<Rightarrow> (r, s))"

section \<open>The services\<close>

text \<open>
  The aggregator, the syncer (the copy that \<open>NewSyncer\<close> returns) and the global connection,
  each service with a connection of its own.
\<close>

record 's daemon =
  dm_aggregator :: "'s loops svc"
  dm_syncer :: "'s loops svc svc"
  dm_DBInstance :: 's

text \<open>\<open>log.Fatalln\<close> ends the process.\<close>

definition Fatalln :: "string \<Rightarrow> ('s, 'a) prog" where
  "Fatalln msg = lift (Panic (PanicMsg msg))"

definition on_syncer :: "('s loops svc svc, 'a) prog \<Rightarrow> ('s daemon, 'a) prog" where
  "on_syncer m = (\<lambda>d. case m (dm_syncer d) of (r, w) \<Rightarrow> (r, d\<lparr>dm_syncer := w\<rparr>))"

definition on_aggregator :: "('s loops svc, 'a) prog \<Rightarrow> ('s daemon, 'a) prog" where
  "on_aggregator m = (\<lambda>d. case m (dm_aggregator d) of (r, w) \<Rightarrow> (r, d\<lparr>dm_aggregator := w\<rparr>))"

definition StartCmd_services :: "('s \<Rightarrow> go_error option) \<Rightarrow> 's conn \<Rightarrow> ('s daemon, unit) prog" where
  "StartCmd_services subscribe C =
    andThen (onError (on_syncer (Start (copied (syncer_impl subscribe C)))) (\<lambda>_. Fatalln ''Unable to start syncer'')) (\<lambda>_.
      onError (on_aggregator (Start (aggregator_impl C))) (\<lambda>_. Fatalln ''Unable to start aggregator''))"

text \<open>The handler of the interrupt signal, up to \<open>os.Exit\<close>.\<close>

definition catchSignal :: "('s \<Rightarrow> go_error option) \<Rightarrow> 's conn \<Rightarrow> ('s daemon, unit) prog" where
  "catchSignal subscribe C =
    andThen (ignoreErr (on_aggregator (Stop (aggregator_impl C)))) (\<lambda>_.
    andThen (ignoreErr (on_syncer (Stop (copied (syncer_impl subscribe C))))) (\<lambda>_.
      (\<lambda>d. (Ok (), d\<lparr>dm_DBInstance := c_close C (dm_DBInstance d)\<rparr>))))"

section \<open>The rows that are loaded\<close>

definition abi_state :: "GenUserState \<Rightarrow> TypesUserState" where
  "abi_state a = \<lparr>ts_PubkeyIndex = int64 (gu_AccountID a), ts_TokenType = int64 (gu_TokenType a),
     ts_Balance = int64 (gu_Balance a), ts_Nonce = int64 (gu_Nonce a)\<rparr>"

definition genesis_path :: "u64 \<Rightarrow> GenUserState \<Rightarrow> string" where
  "genesis_path depth a = (case SolidityPathToNodePath (gu_AccountID a) depth of Ok p \<Rightarrow> p | _ \<Rightarrow> [])"

definition genesis_state :: "libs \<Rightarrow> u64 \<Rightarrow> (GenUserState \<Rightarrow> bytes) \<Rightarrow> GenUserState \<Rightarrow> UserState" where
  "genesis_state L depth enc a =
    NewUserState L (gu_AccountID a) STATUS_ACTIVE (genesis_path depth a) (enc a)"

definition genesis_account :: "libs \<Rightarrow> u64 \<Rightarrow> GenUserState \<Rightarrow> Account" where
  "genesis_account L depth a = zero_Account\<lparr>acc_ID := gu_AccountID a, acc_PublicKey := gu_PublicKey a,
     acc_Path := genesis_path depth a, acc_Type := TYPE_TERMINAL, acc_Hash := key_hash L (gu_PublicKey a)\<rparr>"

definition empty_state :: "libs \<Rightarrow> bytes \<Rightarrow> UserState" where
  "empty_state L zeroData = CreateAccountHash L ((EmptyUserState L)\<lparr>us_Data := zeroData\<rparr>)"

definition empty_account :: Account where
  "empty_account = NewEmptyAccount\<lparr>acc_Hash := ByteArray_String ZERO_VALUE_LEAF\<rparr>"

text \<open>What can be loaded: the contract encodes each state, and each key is hex.\<close>

definition loadable :: "'s chain \<Rightarrow> (GenUserState \<Rightarrow> bytes) \<Rightarrow> 's \<Rightarrow> GenUserState list \<Rightarrow> bool" where
  "loadable N enc s xs \<longleftrightarrow> (\<forall>a \<in> set xs. ch_Encode N (abi_state a) s = Inr (enc a) \<and> key_ok (gu_PublicKey a))"

lemma load_accounts_run:
  assumes "libs_ok L" "loadable N enc s xs"
  shows "load_accounts N L depth i xs z states accs s =
    (Ok (if i = 0 \<and> xs \<noteq> [] then enc (hd xs) else z, states @ map (genesis_state L depth enc) xs,
       accs @ map (genesis_account L depth) xs), s)"
  using assms(2)
proof (induction xs arbitrary: i z states accs)
  case (Cons a xs)
  have "EncodeState N (gu_AccountID a) (gu_Balance a) (gu_Nonce a) (gu_TokenType a) s = (Ok (enc a), s)"
    using Cons.prems by (simp add: EncodeState_def loadable_def abi_state_def db_read_Inr)
  moreover have "SolidityPathToNodePath (gu_AccountID a) depth = Ok (genesis_path depth a)"
    by (simp add: genesis_path_def SolidityPathToNodePath_def Let_def)
  moreover have "NewAccount L (gu_AccountID a) (gu_PublicKey a) (genesis_path depth a) = Ok (genesis_account L depth a)"
    using Cons.prems PopulateHash_ok(1) [OF assms(1)]
    by (simp add: NewAccount_def genesis_account_def loadable_def Let_def)
  moreover have "loadable N enc s xs" using Cons.prems by (simp add: loadable_def)
  ultimately show ?case
    using Cons.IH by (simp add: andThen_ok orPanic_ok Let_def genesis_state_def)
qed simp

lemma load_empty_eq:
  "load_empty L n z states accs = (states @ replicate n (empty_state L z), accs @ replicate n empty_account)"
  by (induction n arbitrary: states accs)
    (simp_all add: empty_state_def empty_account_def Let_def replicate_app_Cons_same)

lemma genesis_rows_ok:
  assumes "libs_ok L" "key_ok (gu_PublicKey a)"
  shows "us_Hash (genesis_state L depth enc a) = data_hash L (enc a)" "hash_ok (us_Hash (genesis_state L depth enc a))"
    "us_Type (genesis_state L depth enc a) = TYPE_TERMINAL" "us_Status (genesis_state L depth enc a) = STATUS_ACTIVE"
    "hash_ok (acc_Hash (genesis_account L depth a))"
  using assms PopulateHash_ok(2) [OF assms(1), of "zero_Account\<lparr>acc_PublicKey := gu_PublicKey a\<rparr>"]
  by (simp_all add: genesis_state_def genesis_account_def NewUserState_def CreateAccountHash_def Keccak256_def
    UpdatePath_def data_hash_def libs_okD hash_okI Let_def)

lemma empty_rows_ok:
  assumes "libs_ok L"
  shows "us_Hash (empty_state L z) = data_hash L z" "hash_ok (us_Hash (empty_state L z))"
    "us_Type (empty_state L z) = TYPE_TERMINAL" "us_Status (empty_state L z) = STATUS_INACTIVE"
    "acc_ID empty_account = 0" "hash_ok (acc_Hash empty_account)"
    "acc_Hash empty_account = ByteArray_String ZERO_VALUE_LEAF"
  using assms by (simp_all add: empty_state_def empty_account_def EmptyUserState_def NewUserState_def NewEmptyAccount_def
    zero_Account_def CreateAccountHash_def Keccak256_def UpdatePath_def data_hash_def libs_okD hash_okI Let_def)

lemma loadParams_run:
  assumes "gorm_ok G view up" "up s" "params (view s) = []"
  shows "\<exists>s' pm. loadParams G g s = (Ok (), s') \<and> up s' \<and> view s' = (view s)\<lparr>params := [pm]\<rparr> \<and>
    pm_StakeAmount pm = ge_StakeAmount g \<and> pm_MaxDepth pm = ge_MaxTreeDepth g \<and>
    pm_MaxDepositSubTreeHeight pm = ge_MaxDepositSubTreeHeight g \<and> pm_FinalisationTime pm = 40320"
proof -
  let ?a = "zero_Params\<lparr>pm_StakeAmount := ge_StakeAmount g\<rparr>"
  obtain s1 p1 where 1: "UpdateStakeAmount G (ge_StakeAmount g) s = (Ok (), s1)" "up s1" "stamp_pm (merge_pm ?a ?a) p1"
    "view s1 = (view s)\<lparr>params := [p1]\<rparr>"
    using assign_run(1) [OF gorm_params_assign [OF assms(1)], of s ?a ?a] assms(2,3)
    by (fastforce simp: UpdateStakeAmount_def)
  obtain s2 u2 where 2: "UpdateMaxDepth G (ge_MaxTreeDepth g) s1 = (Ok (), s2)" "up s2"
    "view s2 = (view s1)\<lparr>params := [p1\<lparr>pm_MaxDepth := if ge_MaxTreeDepth g = 0 then pm_MaxDepth p1
        else ge_MaxTreeDepth g, db_UpdatedAt := u2\<rparr>]\<rparr>" (is "_ = _\<lparr>params := [?p2]\<rparr>")
    using param_updates_run [OF assms(1) 1(2), of p1 "ge_MaxTreeDepth g"] 1(4) by auto
  obtain s3 u3 where 3: "UpdateDepositSubTreeHeight G (ge_MaxDepositSubTreeHeight g) s2 = (Ok (), s3)" "up s3"
    "view s3 = (view s2)\<lparr>params := [?p2\<lparr>pm_MaxDepositSubTreeHeight := if ge_MaxDepositSubTreeHeight g = 0
        then pm_MaxDepositSubTreeHeight ?p2 else ge_MaxDepositSubTreeHeight g, db_UpdatedAt := u3\<rparr>]\<rparr>"
      (is "_ = _\<lparr>params := [?p3]\<rparr>")
    using param_updates_run [OF assms(1) 2(2), of ?p2 "ge_MaxDepositSubTreeHeight g"] 2(3) by auto
  obtain s4 u4 where 4: "UpdateFinalisationTimePerBatch G 40320 s3 = (Ok (), s4)" "up s4"
    "view s4 = (view s3)\<lparr>params := [?p3\<lparr>pm_FinalisationTime := 40320, db_UpdatedAt := u4\<rparr>]\<rparr>"
    using param_updates_run [OF assms(1) 3(2), of ?p3 40320] 3(3) by auto
  have "loadParams G g s = (Ok (), s4)"
    using 1(1) 2(1) 3(1) 4(1) by (simp add: loadParams_def zero_Params_def andThen_ok ignoreErr_ok)
  moreover have "pm_StakeAmount p1 = ge_StakeAmount g" "pm_MaxDepth p1 = 0" "pm_MaxDepositSubTreeHeight p1 = 0"
    using 1(3) by (auto simp: stamp_pm_def merge_pm_def zero_Params_def)
  ultimately show ?thesis using 1(4) 2(3) 3(3) 4(2,3)
    by (intro exI [of _ s4] exI [of _ "?p3\<lparr>pm_FinalisationTime := 40320, db_UpdatedAt := u4\<rparr>"]) simp
qed

lemma level_paths_bits:
  assumes "i < 2 ^ k" "0 < k" shows "level_paths k ! i = bits k i"
proof -
  have "level_paths k ! i \<noteq> []" using level_paths_nth [OF assms(1)] assms(2) by auto
  then show ?thesis using level_paths_nth [OF assms(1)] bits_bin_val [of "level_paths k ! i"] by simp
qed

text \<open>The leaves of both trees after the genesis data was loaded.\<close>

definition genesis_trees :: "libs \<Rightarrow> (GenUserState \<Rightarrow> bytes) \<Rightarrow> ('s \<Rightarrow> tables) \<Rightarrow> GenUserState list \<Rightarrow> nat \<Rightarrow> 's \<Rightarrow> bool" where
  "genesis_trees L enc view accs d s \<longleftrightarrow>
     state_tree L view d s \<and> state_rows view d s \<and> account_tree L view d s \<and>
     (\<forall>i < 2 ^ d. map_option us_Hash (state_node view s (bits d i)) =
       Some (data_hash L (enc (accs ! (if i < length accs then i else 0))))) \<and>
     (\<forall>i < 2 ^ d. acc_hashes view s (bits d i) =
       Some (if i < length accs then key_hash L (gu_PublicKey (accs ! i)) else ByteArray_String ZERO_VALUE_LEAF))"

definition params_of :: "Genesis \<Rightarrow> Params \<Rightarrow> bool" where
  "params_of g pm \<longleftrightarrow> pm_StakeAmount pm = ge_StakeAmount g \<and> pm_MaxDepth pm = ge_MaxTreeDepth g \<and>
     pm_MaxDepositSubTreeHeight pm = ge_MaxDepositSubTreeHeight g \<and> pm_FinalisationTime pm = 40320"

lemma genesis_trees_cong:
  assumes "genesis_trees L enc view accs d s" "user_states (view t) = user_states (view s)" "accounts (view t) = accounts (view s)"
  shows "genesis_trees L enc view accs d t"
proof -
  have n: "state_node view t = state_node view s" "acc_node view t = acc_node view s"
    using assms(2,3) by (simp_all add: state_node_def acc_node_def fun_eq_iff)
  have "state_tree L view d t \<longleftrightarrow> state_tree L view d s" by (rule state_tree_same_node(1) [OF n(1)])
  then show ?thesis using assms n
    by (simp add: genesis_trees_def state_rows_def state_levels_def account_tree_def acc_hashes_def)
qed

text \<open>
  A genesis that \<open>Validate\<close> accepts, of a depth for which \<open>2^depth\<close> is an \<open>int\<close> (a slice has
  fewer than \<open>2^63\<close> elements).  \<open>unnumbered\<close> says more: no account of the file has an
  \<open>account_id\<close>.  It is not checked by the code; the default genesis numbers its accounts 0 and 1.
\<close>

definition valid_genesis :: "libs \<Rightarrow> Genesis \<Rightarrow> bool" where
  "valid_genesis L g \<longleftrightarrow> 0 < unat (ge_MaxTreeDepth g) \<and> unat (ge_MaxTreeDepth g) < 63 \<and>
     length (ga_Accounts (ge_GenesisAccounts g)) < 2 ^ 63 \<and> Validate L g = Ok ()"

definition unnumbered :: "Genesis \<Rightarrow> bool" where
  "unnumbered g \<longleftrightarrow> (\<forall>a \<in> set (ga_Accounts (ge_GenesisAccounts g)). gu_AccountID a = 0)"

lemma leaves_left_bounds:
  assumes "unat d < 63" "n \<le> 2 ^ unat d"
  shows "\<not> leaves_left L d n < 0" "nat (leaves_left L d n) = 2 ^ unat d - n"
  unfolding leaves_left_nat [OF assms] by (simp_all only: nat_int of_nat_less_0_iff not_False_eq_True)

lemma leaves_left_negative:
  assumes "unat d < 63" "2 ^ unat d < n" "n < 2 ^ 63"
  shows "leaves_left L d n < 0"
proof -
  obtain p k where p: "p = (2 :: int) ^ unat d" and k: "k = 2 ^ unat d - int n" by simp
  have "int (2 ^ unat d) < int n" using assms(2) by (simp only: of_nat_less_iff)
  then have "p < int n" unfolding p by simp
  moreover have "int n < 2 ^ 63" using assms(3) by simp
  moreover have "0 < p" unfolding p by simp
  ultimately have "k < 0" "- (2 ^ 63) \<le> k" unfolding k p [symmetric] by linarith+
  then have "sint (word_of_int k :: u64) = k"
    unfolding sint_sbintrunc' by (intro signed_take_bit_int_eq_self) simp_all
  then show ?thesis using assms(1) \<open>k < 0\<close> unfolding k by (simp only: leaves_left_def exp2_int_def if_True)
qed

lemma valid_genesisD:
  assumes "valid_genesis L g" "accs = ga_Accounts (ge_GenesisAccounts g)" "d = ge_MaxTreeDepth g"
  shows "0 < unat d" "unat d < 63" "accs \<noteq> []" "length accs \<le> 2 ^ unat d" "gu_AccountID (hd accs) = 0" "Validate L g = Ok ()"
proof -
  have v: "0 < unat d" "unat d < 63" "length accs < 2 ^ 63" "Validate L g = Ok ()" using assms by (simp_all add: valid_genesis_def)
  then have b: "\<not> leaves_left L d (length accs) < 0" by (simp add: Validate_def assms(2,3) Let_def split: if_splits)
  show "0 < unat d" "unat d < 63" "Validate L g = Ok ()" using v by simp_all
  show "length accs \<le> 2 ^ unat d" using b leaves_left_negative [OF v(2) _ v(3)] by (meson not_le_imp_less)
  obtain a as where "accs = a # as" "gu_IsCoordinator a"
    using v(4) b by (auto simp: Validate_def assms(2,3) Let_def split: if_splits list.splits)
  then show "accs \<noteq> []" "gu_AccountID (hd accs) = 0" by (auto simp: gu_IsCoordinator_def split: if_splits)
qed

lemma in_tl: "x \<in> set (tl xs) \<Longrightarrow> x \<in> set xs"
  by (cases xs) simp_all

text \<open>The leaves that the loops build: the accounts of the file, then empty ones.\<close>

definition loaded_states :: "libs \<Rightarrow> u64 \<Rightarrow> (GenUserState \<Rightarrow> bytes) \<Rightarrow> GenUserState list \<Rightarrow> UserState list" where
  "loaded_states L d enc accs =
     map (genesis_state L d enc) accs @ replicate (2 ^ unat d - length accs) (empty_state L (enc (hd accs)))"

definition loaded_accounts :: "libs \<Rightarrow> u64 \<Rightarrow> GenUserState list \<Rightarrow> Account list" where
  "loaded_accounts L d accs =
     map (genesis_account L d) accs @ replicate (2 ^ unat d - length accs) empty_account"

lemma loaded_states_ok:
  assumes "libs_ok L" "accs \<noteq> []" "length accs \<le> 2 ^ unat d" "\<forall>a \<in> set accs. key_ok (gu_PublicKey a)"
  shows "length (loaded_states L d enc accs) = 2 ^ unat d"
    "hd (loaded_states L d enc accs) = genesis_state L d enc (hd accs)"
    "\<forall>r \<in> set (loaded_states L d enc accs). hash_ok (us_Hash r) \<and> us_Type r = TYPE_TERMINAL \<and> us_Status r \<noteq> STATUS_PENDING"
    "\<forall>i < 2 ^ unat d. us_Hash (loaded_states L d enc accs ! i) = data_hash L (enc (accs ! (if i < length accs then i else 0)))"
proof -
  show "length (loaded_states L d enc accs) = 2 ^ unat d" "hd (loaded_states L d enc accs) = genesis_state L d enc (hd accs)"
    using assms(2,3) by (simp_all add: loaded_states_def hd_append hd_map)
  have "set (loaded_states L d enc accs) \<subseteq> genesis_state L d enc ` set accs \<union> {empty_state L (enc (hd accs))}"
    by (auto simp: loaded_states_def)
  then show "\<forall>r \<in> set (loaded_states L d enc accs). hash_ok (us_Hash r) \<and> us_Type r = TYPE_TERMINAL \<and> us_Status r \<noteq> STATUS_PENDING"
    using assms(4) genesis_rows_ok [OF assms(1)] empty_rows_ok [OF assms(1)] by auto
  show "\<forall>i < 2 ^ unat d. us_Hash (loaded_states L d enc accs ! i) = data_hash L (enc (accs ! (if i < length accs then i else 0)))"
    using assms(2,4) genesis_rows_ok(1) [OF assms(1)] empty_rows_ok [OF assms(1)]
    by (auto simp: loaded_states_def nth_append hd_conv_nth)
qed

lemma loaded_accounts_ok:
  assumes "libs_ok L" "accs \<noteq> []" "length accs \<le> 2 ^ unat d" "\<forall>a \<in> set accs. key_ok (gu_PublicKey a)"
  shows "length (loaded_accounts L d accs) = 2 ^ unat d"
    "hd (loaded_accounts L d accs) = genesis_account L d (hd accs)"
    "tl (loaded_accounts L d accs) =
      map (genesis_account L d) (tl accs) @ replicate (2 ^ unat d - length accs) empty_account"
    "\<forall>r \<in> set (loaded_accounts L d accs). hash_ok (acc_Hash r)"
    "\<forall>i < 2 ^ unat d. acc_Hash (loaded_accounts L d accs ! i) =
      (if i < length accs then key_hash L (gu_PublicKey (accs ! i)) else ByteArray_String ZERO_VALUE_LEAF)"
proof -
  show "length (loaded_accounts L d accs) = 2 ^ unat d" "hd (loaded_accounts L d accs) = genesis_account L d (hd accs)"
    "tl (loaded_accounts L d accs) =
      map (genesis_account L d) (tl accs) @ replicate (2 ^ unat d - length accs) empty_account"
    using assms(2,3) by (simp_all add: loaded_accounts_def hd_append hd_map map_tl)
  have "set (loaded_accounts L d accs) \<subseteq> genesis_account L d ` set accs \<union> {empty_account}"
    by (auto simp: loaded_accounts_def)
  then show "\<forall>r \<in> set (loaded_accounts L d accs). hash_ok (acc_Hash r)"
    using assms(4) genesis_rows_ok [OF assms(1)] empty_rows_ok [OF assms(1)] by auto
  show "\<forall>i < 2 ^ unat d. acc_Hash (loaded_accounts L d accs ! i) =
      (if i < length accs then key_hash L (gu_PublicKey (accs ! i)) else ByteArray_String ZERO_VALUE_LEAF)"
    using empty_rows_ok [OF assms(1)] by (auto simp: loaded_accounts_def nth_append genesis_account_def)
qed

lemma loadGenesisData_trees:
  assumes "libs_ok L" "valid_genesis L g" "accs = ga_Accounts (ge_GenesisAccounts g)" "loadable N enc s accs"
    and "d = ge_MaxTreeDepth g"
  shows "loadGenesisData G N L g s =
    andThen (orPanic (InitStateTree G L d (loaded_states L d enc accs))) (\<lambda>_.
    andThen (orPanic (InitAccountTree G L d (loaded_accounts L d accs))) (\<lambda>_.
    andThen (loadParams G g) (\<lambda>_. orPanic (InitSyncStatus G (ge_StartEthBlock g))))) s"
proof -
  note v = valid_genesisD [OF assms(2,3,5)]
  have "nat (leaves_left L d (length accs)) = 2 ^ unat d - length accs" using v by (simp add: leaves_left_bounds)
  moreover have "load_accounts N L d 0 accs [] [] [] s =
      (Ok (enc (hd accs), map (genesis_state L d enc) accs, map (genesis_account L d) accs), s)"
    using load_accounts_run [OF assms(1,4)] v(3) by simp
  ultimately show ?thesis
    using v(6) assms(3,5)
    by (simp add: loadGenesisData_def Let_def andThen_ok orPanic_ok load_empty_eq loaded_states_def loaded_accounts_def)
qed

lemma load_trees_run:
  assumes inv: "db_inv G L view up s" "user_states (view s) = []" "accounts (view s) = []"
    and g: "valid_genesis L g" "accs = ga_Accounts (ge_GenesisAccounts g)" "d = ge_MaxTreeDepth g" "unnumbered g"
    and keys: "\<forall>a \<in> set accs. key_ok (gu_PublicKey a)"
    and rows: "sts = loaded_states L d enc accs" "acs = loaded_accounts L d accs"
  shows "\<exists>s1 s2. InitStateTree G L d sts s = (Ok (), s1) \<and> InitAccountTree G L d acs s1 = (Ok (), s2) \<and>
    db_inv G L view up s2 \<and> genesis_trees L enc view accs (unat d) s2 \<and>
    (view s2)\<lparr>user_states := [], accounts := []\<rparr> = (view s)\<lparr>user_states := [], accounts := []\<rparr>"
proof -
  note v = valid_genesisD [OF g(1-3)]
  note L = db_invD(2) [OF inv(1)]
  note st = loaded_states_ok [OF L v(3,4) keys, of enc, folded rows(1)]
    and ac = loaded_accounts_ok [OF L v(3,4) keys, folded rows(2)]
  have un: "\<forall>a \<in> set (tl accs). gu_AccountID a = 0" using g(2,4) by (auto simp: unnumbered_def dest: in_tl)
  have tl: "\<forall>r \<in> set (tl sts). hash_ok (us_Hash r)" "\<forall>r \<in> set (tl acs). acc_ID r = 0 \<and> hash_ok (acc_Hash r)"
  proof -
    show "\<forall>r \<in> set (tl sts). hash_ok (us_Hash r)" using st(3) by (blast dest: in_tl)
    have "\<forall>r \<in> set (tl acs). acc_ID r = 0"
      unfolding ac(3) using un empty_rows_ok(5) [OF L] by (auto simp: genesis_account_def)
    then show "\<forall>r \<in> set (tl acs). acc_ID r = 0 \<and> hash_ok (acc_Hash r)" using ac(4) by (blast dest: in_tl)
  qed
  obtain s1 where s1: "InitStateTree G L d sts s = (Ok (), s1)" "db_inv G L view up s1"
    "(view s1)\<lparr>user_states := []\<rparr> = (view s)\<lparr>user_states := []\<rparr>" "state_tree L view (unat d) s1"
    "map_option us_Hash (state_node view s1 (level_paths (unat d) ! 0)) = Some (data_hash L (us_Data (hd sts)))"
    "\<forall>i. 0 < i \<and> i < length sts \<longrightarrow> (\<exists>r. state_node view s1 (level_paths (unat d) ! i) = Some r \<and>
       stamp_us (UpdatePath (sts ! i) (level_paths (unat d) ! i)) r)"
    "state_rows view (unat d) s1"
    using InitStateTree_run [OF inv(1,2) st(1) v(2) tl(1)] st(3) by blast
  have "accounts (view s1) = []" using arg_cong [OF s1(3), of accounts] inv(3) by simp
  moreover have "key_ok (acc_PublicKey (hd acs))" using ac(2) keys v(3) by (simp add: genesis_account_def)
  ultimately obtain s2 where s2: "InitAccountTree G L d acs s1 = (Ok (), s2)" "db_inv G L view up s2"
    "(view s2)\<lparr>accounts := []\<rparr> = (view s1)\<lparr>accounts := []\<rparr>" "account_tree L view (unat d) s2"
    "\<forall>i < length acs. acc_hashes view s2 (level_paths (unat d) ! i) =
       Some (if i = 0 then key_hash L (acc_PublicKey (hd acs)) else acc_Hash (acs ! i))"
    using InitAccountTree_run [OF s1(2) _ ac(1) v(2) _ tl(2)] by blast
  have us: "user_states (view s2) = user_states (view s1)" using arg_cong [OF s2(3), of user_states] by simp
  then have n: "state_node view s2 = state_node view s1" by (simp add: state_node_def fun_eq_iff)
  have leaf: "map_option us_Hash (state_node view s2 (bits (unat d) i)) =
      Some (data_hash L (enc (accs ! (if i < length accs then i else 0))))" if i: "i < 2 ^ unat d" for i
  proof (cases "i = 0")
    case True
    have "us_Data (genesis_state L d enc (hd accs)) = enc (hd accs)"
      by (simp add: genesis_state_def NewUserState_def CreateAccountHash_def UpdatePath_def Let_def)
    with True s1(5) n st(2) v(1,3) level_paths_bits [OF i v(1)] show ?thesis by (simp add: hd_conv_nth)
  next
    case False
    then obtain r where "state_node view s1 (bits (unat d) i) = Some r" "stamp_us (UpdatePath (sts ! i) (bits (unat d) i)) r"
      using s1(6) [rule_format, of i] i st(1) level_paths_bits [OF i v(1)] by auto
    with n st(4) i stamp_us_keeps [OF this(2)] show ?thesis by (simp add: UpdatePath_def)
  qed
  have key: "acc_hashes view s2 (bits (unat d) i) =
      Some (if i < length accs then key_hash L (gu_PublicKey (accs ! i)) else ByteArray_String ZERO_VALUE_LEAF)"
    if "i < 2 ^ unat d" for i
    using s2(5) that ac(1,5) level_paths_bits [OF that v(1)] ac(2) v(3)
    by (auto simp: genesis_account_def hd_conv_nth)
  have "genesis_trees L enc view accs (unat d) s2"
    using s1(4,7) s2(4) leaf key us state_tree_same_node(1) [OF n]
    by (simp add: genesis_trees_def state_rows_def state_levels_def)
  moreover have "(view s2)\<lparr>user_states := [], accounts := []\<rparr> = (view s)\<lparr>user_states := [], accounts := []\<rparr>"
    using s1(3) s2(3) by (cases "view s", cases "view s1", cases "view s2") simp
  ultimately show ?thesis using s1(1) s2(1,2) by blast
qed

lemma loadGenesisData_run:
  assumes inv: "db_inv G L view up s" "view s = empty_tables"
    and g: "valid_genesis L g" "accs = ga_Accounts (ge_GenesisAccounts g)" "loadable N enc s accs" "unnumbered g"
  shows "\<exists>s' pm ss. loadGenesisData G N L g s = (Ok (), s') \<and> up s' \<and>
    genesis_trees L enc view accs (unat (ge_MaxTreeDepth g)) s' \<and> params (view s') = [pm] \<and> params_of g pm \<and>
    sync_statuses (view s') = [ss] \<and> ss_LastEthBlockRecorded ss = ge_StartEthBlock g \<and> ss_LastBatchRecorded ss = 0 \<and>
    txes (view s') = [] \<and> batches (view s') = [] \<and> tokens (view s') = []"
proof -
  let ?d = "ge_MaxTreeDepth g" and ?sts = "loaded_states L (ge_MaxTreeDepth g) enc accs"
    and ?acs = "loaded_accounts L (ge_MaxTreeDepth g) accs"
  have e: "user_states (view s) = []" "accounts (view s) = []" using inv(2) by (simp_all add: empty_tables_def)
  have keys: "\<forall>a \<in> set accs. key_ok (gu_PublicKey a)" using g(3) by (simp add: loadable_def)
  obtain s1 s2 where t: "InitStateTree G L ?d ?sts s = (Ok (), s1)" "InitAccountTree G L ?d ?acs s1 = (Ok (), s2)"
    "db_inv G L view up s2" "genesis_trees L enc view accs (unat ?d) s2"
    "(view s2)\<lparr>user_states := [], accounts := []\<rparr> = (view s)\<lparr>user_states := [], accounts := []\<rparr>"
    using load_trees_run [OF inv(1) e g(1,2) refl g(4) keys refl refl] by blast
  note dm = db_invD [OF t(3)]
  have rest: "params (view s2) = []" "sync_statuses (view s2) = []" "txes (view s2) = []" "batches (view s2) = []"
    "tokens (view s2) = []"
    using arg_cong [OF t(5), of params] arg_cong [OF t(5), of sync_statuses] arg_cong [OF t(5), of txes]
      arg_cong [OF t(5), of batches] arg_cong [OF t(5), of tokens] inv(2) by (simp_all add: empty_tables_def)
  obtain s3 pm where p: "loadParams G g s2 = (Ok (), s3)" "up s3" "view s3 = (view s2)\<lparr>params := [pm]\<rparr>" "params_of g pm"
    using loadParams_run [OF dm(1,3) rest(1), of g] by (auto simp: params_of_def)
  obtain s4 ss where i: "InitSyncStatus G (ge_StartEthBlock g) s3 = (Ok (), s4)" "up s4"
    "stamp_ss (zero_SyncStatus\<lparr>ss_LastEthBlockRecorded := ge_StartEthBlock g\<rparr>) ss"
    "view s4 = sync_statuses_update (\<lambda>rs. rs @ [ss]) (view s3)"
    using create_run [OF gorm_sync_create [OF dm(1)] p(2)] unfolding InitSyncStatus_def by blast
  have "loadGenesisData G N L g s = (Ok (), s4)"
    using loadGenesisData_trees [OF db_invD(2) [OF inv(1)] g(1-3) refl] t(1,2) p(1) i(1)
    by (simp add: andThen_ok orPanic_ok)
  moreover have "genesis_trees L enc view accs (unat ?d) s4"
    by (rule genesis_trees_cong [OF t(4)]) (simp_all add: i(4) p(3))
  moreover have "ss_LastEthBlockRecorded ss = ge_StartEthBlock g" "ss_LastBatchRecorded ss = 0"
    using i(3) by (auto simp: stamp_ss_def zero_SyncStatus_def)
  ultimately show ?thesis using i(2,4) p(3,4) rest
    by (intro exI [of _ s4] exI [of _ pm] exI [of _ ss]) simp
qed

lemma read_loadable:
  assumes "accs = ga_Accounts (ge_GenesisAccounts g)" "loadable N enc s accs"
  shows "ReadGenesisFile (Inr (json_Genesis g)) = Ok g"
  by (rule read_genesis) (use assms in \<open>auto simp: loadable_def key_ok_def dest: hex_text_ascii\<close>)

lemma first_start:
  assumes "gorm_ok G view up" "up s" "sync_statuses (view s) = []"
  shows "GetSyncStatus G s = (Err RecordNotFound, s)"
proof -
  have "t_first (g_sync G) (\<lambda>_. True) s = Inl RecordNotFound"
    by (rule first_none [OF gorm_sync_first [OF assms(1)] assms(2)]) (simp add: assms(3))
  then show ?thesis by (simp add: GetSyncStatus_def db_read_Inl)
qed

lemma StartCmd_first_run:
  assumes "gorm_ok G view up" "libs_ok L" "up s" "view s = empty_tables"
    and "valid_genesis L g" "accs = ga_Accounts (ge_GenesisAccounts g)" "loadable N enc s accs" "unnumbered g"
  shows "\<exists>s' pm ss st. StartCmd_init G N L (Inr (json_Genesis g)) s = (Ok st, s') \<and> up s' \<and>
    genesis_trees L enc view accs (unat (ge_MaxTreeDepth g)) s' \<and> params (view s') = [pm] \<and> params_of g pm \<and>
    sync_statuses (view s') = [ss] \<and> ss_LastEthBlockRecorded ss = ge_StartEthBlock g \<and>
    txes (view s') = [] \<and> batches (view s') = [] \<and> StartCmd_init G N L (Inr (json_Genesis g)) s' = (Ok ss, s')"
proof -
  have inv: "db_inv G L view up s" using assms(1-3) by (simp add: db_inv_def)
  from loadGenesisData_run [OF inv assms(4-8)] obtain s' pm ss where run: "loadGenesisData G N L g s = (Ok (), s')" "up s'"
    "sync_statuses (view s') = [ss]" "ss_LastEthBlockRecorded ss = ge_StartEthBlock g"
    "genesis_trees L enc view accs (unat (ge_MaxTreeDepth g)) s'" "params (view s') = [pm]" "params_of g pm"
    "txes (view s') = []" "batches (view s') = []" by blast
  have "GetSyncStatus G s = (Err RecordNotFound, s)"
    by (rule first_start [OF assms(1,3)]) (simp add: assms(4) empty_tables_def)
  then have "StartCmd_init G N L (Inr (json_Genesis g)) s = (Ok zero_SyncStatus, s')"
    using run(1) read_loadable [OF assms(6,7)] by (simp add: StartCmd_init_def andThen_ok orPanic_ok)
  moreover have "StartCmd_init G N L (Inr (json_Genesis g)) s' = (Ok ss, s')"
    using GetSyncStatus_run [OF assms(1) run(2,3)] by (simp add: StartCmd_init_def)
  ultimately show ?thesis using run by blast
qed

section \<open>Properties\<close>


definition ex_genesis :: Genesis where
  "ex_genesis = \<lparr>ge_StartEthBlock = 7, ge_MaxTreeDepth = 2, ge_MaxDepositSubTreeHeight = 1, ge_StakeAmount = 32,
     ge_GenesisAccounts = \<lparr>ga_Accounts = [NewGenUserState 0 0 0 0 ''a1'', NewGenUserState 0 5 1 0 ''b2c3'']\<rparr>\<rparr>"

lemma ex_genesis_valid: "valid_genesis L ex_genesis" "unnumbered ex_genesis"
  by (simp_all add: valid_genesis_def unnumbered_def ex_genesis_def NewGenUserState_def gu_IsCoordinator_def
    Validate_def leaves_left_bounds)



text \<open>The default genesis with keys that are hex text.\<close>

definition ex_numbered :: Genesis where
  "ex_numbered = DefaultGenesis\<lparr>ge_GenesisAccounts :=
     \<lparr>ga_Accounts = [NewGenUserState 0 0 0 0 ''a1'', NewGenUserState 1 0 0 0 ''b2c3'']\<rparr>\<rparr>"


text \<open>
  C34. The files that come with the program do not start it.  The genesis that \<open>init\<close> writes
  names the key \<open>0\<close>, which is no hex text, and the \<open>genesis.json\<close> of the repository has keys
  that are not the tags of the struct, so that it has no accounts: both times the first
  start panics, with nothing written.
\<close>

definition repo_genesis_json :: json where
  "repo_genesis_json = JObj [(''startEthBlock'', JNum 0), (''maxTreeDepth'', JNum 17),
     (''maxDepositSubTreeHeight'', JNum 1), (''stakeAmount'', JNum 32), (''genesisAccountCount'', JNum 2)]"

theorem shipped_genesis_panics:
  assumes "gorm_ok G view up" "up s" "sync_statuses (view s) = []"
    and "\<And>a. \<exists>b. ch_Encode N a s = Inr b"
  shows "StartCmd_init G N L (Inr (json_Genesis DefaultGenesis)) s = (Panic (PanicErr (ErrHex ErrLength)), s) \<and>
    StartCmd_init G N L (Inr repo_genesis_json) s =
      (Panic (PanicErr (ErrMsg ''Genesis file must contain atleast coordinator leaf'')), s)"
proof -
  note gs = first_start [OF assms(1-3)]
  have as: "\<forall>a \<in> set (ga_Accounts (ge_GenesisAccounts DefaultGenesis)). ascii (gu_PublicKey a)"
    by (simp add: DefaultGenesis_def DefaultGenesisAccounts_def NewGenesisAccounts_def NewGenUserState_def ascii_def)
  have v: "Validate L DefaultGenesis = Ok ()"
    by (simp add: Validate_def DefaultGenesis_def DefaultGenesisAccounts_def NewGenesisAccounts_def NewGenUserState_def
      gu_IsCoordinator_def DEFAULT_DEPTH_def ZERO_UINT_def leaves_left_bounds)
  let ?a = "NewGenUserState 0 0 0 0 ''0''"
  obtain b where "ch_Encode N (abi_state ?a) s = Inr b" using assms(4) by blast
  then have e: "EncodeState N (gu_AccountID ?a) (gu_Balance ?a) (gu_Nonce ?a) (gu_TokenType ?a) s = (Ok b, s)"
    by (simp add: EncodeState_def db_read_Inr abi_state_def)
  have "hex_DecodeString ''0'' = Inl ErrLength" by (simp add: hex_value_def)
  then have k: "NewAccount L (gu_AccountID ?a) (gu_PublicKey ?a) p = Panic (PanicErr (ErrHex ErrLength))" for p
    by (simp add: NewAccount_def PopulateHash_def encodePubkey_def NewGenUserState_def)
  have p: "\<exists>p. SolidityPathToNodePath x y = Ok p" for x y by (simp add: SolidityPathToNodePath_def Let_def)
  have "load_accounts N L d i (?a # as) z sts accs s = (Panic (PanicErr (ErrHex ErrLength)), s)" for d i "as" z sts accs
    using p [of "gu_AccountID ?a" d] e k by (auto simp: andThen_def orPanic_def Let_def)
  moreover have "ga_Accounts (ge_GenesisAccounts DefaultGenesis) = ?a # [NewGenUserState 1 0 0 0 ''0'']"
    by (simp add: DefaultGenesis_def DefaultGenesisAccounts_def NewGenesisAccounts_def ZERO_UINT_def)
  ultimately have "loadGenesisData G N L DefaultGenesis s = (Panic (PanicErr (ErrHex ErrLength)), s)"
    using v by (simp add: loadGenesisData_def Let_def andThen_panic andThen_ok orPanic_ok del: load_accounts.simps)
  moreover have "ReadGenesisFile (Inr repo_genesis_json) = Ok zero_Genesis"
    by (simp add: ReadGenesisFile_def repo_genesis_json_def read_struct_obj set_Genesis_def json_key_def lower_def)
  moreover have "Validate L zero_Genesis = Err (ErrMsg ''Genesis file must contain atleast coordinator leaf'')"
    by (simp add: Validate_def zero_Genesis_def leaves_left_bounds)
  ultimately show ?thesis
    using gs read_genesis [OF as]
    by (simp add: StartCmd_init_def loadGenesisData_def andThen_def orPanic_def)
qed

theorem shipped_genesis_panics_witness:
  "fst (StartCmd_init mem_gorm (ref_chain\<lparr>ch_Encode := \<lambda>a s. Inr []\<rparr>) ref_libs (Inr (json_Genesis DefaultGenesis)) empty_tables) =
     Panic (PanicErr (ErrHex ErrLength)) \<and>
   is_Panic (fst (StartCmd_init mem_gorm (ref_chain\<lparr>ch_Encode := \<lambda>a s. Inr []\<rparr>) ref_libs (Inr repo_genesis_json) empty_tables))"
  using shipped_genesis_panics [OF mem_gorm_ok TrueI, of empty_tables "ref_chain\<lparr>ch_Encode := \<lambda>a s. Inr []\<rparr>" ref_libs]
  by (simp add: empty_tables_def)

text \<open>
  C35. An interrupt after the start stops both services and closes every connection: the
  loops of the aggregator and of the syncer are told to end and those who wait for the
  services go on.
\<close>

theorem interrupt_stops_services:
  assumes "NewAggregator None C s1 = Ok a" "NewSyncer None C s2 = Ok sy"
  shows "\<exists>d d'. StartCmd_services subscribe C \<lparr>dm_aggregator = a, dm_syncer = sy, dm_DBInstance = s3\<rparr> = (Ok (), d) \<and>
    IsRunning (dm_aggregator d) \<and> IsRunning (dm_syncer d) \<and> catchSignal subscribe C d = (Ok (), d') \<and>
    Wait_returns (dm_aggregator d') \<and> Wait_returns (dm_syncer d') \<and> dm_DBInstance d' = c_close C s3 \<and>
    all_cancelled (sv_world (dm_aggregator d')) \<and> lw_db (sv_world (dm_aggregator d')) = c_close C (snd (c_open C s1)) \<and>
    all_cancelled (sv_world (sv_world (dm_syncer d'))) \<and> lw_db (sv_world (sv_world (dm_syncer d'))) = c_close C (snd (c_open C s2))"
proof -
  have a: "a = NewBaseService ''aggregator'' (sv_world a)" 
    using assms(1) by (auto simp: NewAggregator_def NewBaseService_def split: prod.splits option.splits)
  have sy: "sy = NewBaseService ''syncer'' (sv_world sy)"
    using assms(2) by (auto simp: NewSyncer_def NewBaseService_def Let_def split: prod.splits option.splits)
  obtain a1 where a1: "Start (aggregator_impl C) a = (Ok (), a1)" "IsRunning a1" "svc_reach (aggregator_impl C) (sv_world a) a1"
    using ag.start_world [of C "''aggregator''" "sv_world a"] a by metis
  obtain y1 where y1: "Start (copied (syncer_impl subscribe C)) sy = (Ok (), y1)" "IsRunning y1"
    "svc_reach (copied (syncer_impl subscribe C)) (sv_world sy) y1"
    using cp.start_world [of subscribe C "''syncer''" "sv_world sy"] sy by metis
  obtain a2 where a2: "Stop (aggregator_impl C) a1 = (Ok (), a2)" "Wait_returns a2" "all_cancelled (sv_world a2)"
    "lw_db (sv_world a2) = c_close C (snd (c_open C s1))"
    using aggregator_stop_run [OF assms(1) a1(3,2)] by blast
  obtain y2 where y2: "Stop (copied (syncer_impl subscribe C)) y1 = (Ok (), y2)" "Wait_returns y2"
    "all_cancelled (sv_world (sv_world y2))" "lw_db (sv_world (sv_world y2)) = c_close C (snd (c_open C s2))"
    using syncer_stop_run [OF assms(2) y1(3,2)] by (auto simp: Let_def)
  let ?d = "\<lparr>dm_aggregator = a1, dm_syncer = y1, dm_DBInstance = s3\<rparr>"
  have "StartCmd_services subscribe C \<lparr>dm_aggregator = a, dm_syncer = sy, dm_DBInstance = s3\<rparr> = (Ok (), ?d)"
    using a1(1) y1(1) by (simp add: StartCmd_services_def on_syncer_def on_aggregator_def andThen_def onError_def)
  moreover have "catchSignal subscribe C ?d =
      (Ok (), \<lparr>dm_aggregator = a2, dm_syncer = y2, dm_DBInstance = c_close C s3\<rparr>)"
    using a2(1) y2(1) by (simp add: catchSignal_def on_syncer_def on_aggregator_def andThen_def ignoreErr_def)
  ultimately show ?thesis using a1(2) y1(2) a2 y2 by (intro exI conjI) (assumption | simp)+
qed

theorem interrupt_stops_services_witness:
  "\<exists>a sy d d'. NewAggregator None mem_conn ex_closed = Ok a \<and> NewSyncer None mem_conn ex_closed = Ok sy \<and>
     StartCmd_services (\<lambda>_. None) mem_conn \<lparr>dm_aggregator = a, dm_syncer = sy, dm_DBInstance = ex_closed\<rparr> = (Ok (), d) \<and>
     catchSignal (\<lambda>_. None) mem_conn d = (Ok (), d') \<and> Wait_returns (dm_aggregator d') \<and> Wait_returns (dm_syncer d')"
proof -
  have a: "NewAggregator None mem_conn ex_closed = Ok (NewBaseService ''aggregator'' (new_loops ex_opened))"
    by (simp add: NewAggregator_def mem_conn_def ex_opened_def ex_closed_def)
  from interrupt_stops_services [OF a ex_syncer_new, of "\<lambda>_. None" ex_closed] show ?thesis
    using a ex_syncer_new by blast
qed

end
