(* ===== verification/Migrations.thy ===== *)
theory Migrations
  imports Db_Connection "HOL-Library.List_Lexorder" "HOL-Library.Char_ord"
begin

text \<open>
  \<open>migrations/\<close> and \<open>cmd/migration.go\<close>: the schema migrations.  The IDs of the migrations
  that ran are the rows of a table; \<open>Migrate\<close> runs the others in order, and a rollback runs
  the \<open>Down\<close> function of a migration and deletes its row.
\<close>

section \<open>The structs\<close>

text \<open>
  What the code asks of a gorm handle here.  The SQL texts that it formats are the
  statements they stand for.
\<close>

datatype sql_stmt =
    CREATE_TABLE (st_table: string) (st_col: string) int
  | DELETE_WHERE (st_table: string) (st_col: string) string
  | INSERT_INTO (st_table: string) (st_col: string) string

record 's sql_handle =
  sq_HasTable :: "string \<Rightarrow> 's \<Rightarrow> bool"
  sq_CreateTable :: "string \<Rightarrow> 's \<Rightarrow> 's"
  sq_DropTableIfExists :: "string \<Rightarrow> 's \<Rightarrow> 's"
  sq_Exec :: "sql_stmt \<Rightarrow> 's \<Rightarrow> go_error option \<times> 's"
  sq_Count :: "string \<Rightarrow> (string \<times> string) option \<Rightarrow> 's \<Rightarrow> go_error + int"

record 's sql_db =
  sd_db :: "'s sql_handle"
  sd_tx :: "'s sql_handle"
  sd_Begin :: "'s \<Rightarrow> 's"
  sd_Commit :: "'s \<Rightarrow> go_error option \<times> 's"
  sd_Rollback :: "'s \<Rightarrow> 's"

type_synonym 's migrate_func = "'s sql_handle \<Rightarrow> ('s, unit) prog"

record Options =
  op_TableName :: string
  op_IDColumnName :: string
  op_IDColumnSize :: int
  op_UseTransaction :: bool

record 's Migration =
  mg_ID :: string
  mg_Up :: "'s migrate_func"
  mg_Down :: "'s migrate_func option"

record 's Gormigrate =
  gm_db :: "'s sql_db"
  gm_options :: Options
  gm_migrations :: "'s Migration list"
  gm_initSchema :: "'s migrate_func option"

definition DefaultOptions :: Options where
  "DefaultOptions = \<lparr>op_TableName = ''migrations'', op_IDColumnName = ''id'', op_IDColumnSize = 255,
     op_UseTransaction = False\<rparr>"

definition DuplicatedIDError :: "string \<Rightarrow> go_error" where
  "DuplicatedIDError id' = ErrMsg (''gormigrate: Duplicated migration ID: '' @ id')"

definition ErrRollbackImpossible :: go_error where
  "ErrRollbackImpossible = ErrMsg ''gormigrate: It's impossible to rollback this migration''"
definition ErrNoMigrationDefined :: go_error where
  "ErrNoMigrationDefined = ErrMsg ''gormigrate: No migration defined''"
definition ErrMissingID :: go_error where
  "ErrMissingID = ErrMsg ''gormigrate: Missing ID in migration''"
definition ErrNoRunnedMigration :: go_error where
  "ErrNoRunnedMigration = ErrMsg ''gormigrate: Could not find last runned migration''"
definition ErrMigrationIDDoesNotExist :: go_error where
  "ErrMigrationIDDoesNotExist = ErrMsg ''gormigrate: Tried to migrate to an ID that doesn't exist''"

definition NewGormigrate :: "'s sql_db \<Rightarrow> Options \<Rightarrow> 's Migration list \<Rightarrow> 's Gormigrate" where
  "NewGormigrate db options migrations =
    (let options = (if op_TableName options = '''' then options\<lparr>op_TableName := op_TableName DefaultOptions\<rparr> else options);
         options = (if op_IDColumnName options = '''' then options\<lparr>op_IDColumnName := op_IDColumnName DefaultOptions\<rparr> else options);
         options = (if op_IDColumnSize options = 0 then options\<lparr>op_IDColumnSize := op_IDColumnSize DefaultOptions\<rparr> else options)
     in \<lparr>gm_db = db, gm_options = options, gm_migrations = migrations, gm_initSchema = None\<rparr>)"

definition InitSchema :: "'s Gormigrate \<Rightarrow> 's migrate_func \<Rightarrow> 's Gormigrate" where
  "InitSchema g initSchema = g\<lparr>gm_initSchema := Some initSchema\<rparr>"

section \<open>The table of IDs\<close>

text \<open>\<open>g.tx\<close>, which \<open>begin\<close> sets and which is only used after it.\<close>

definition gm_tx :: "'s Gormigrate \<Rightarrow> 's sql_handle" where
  "gm_tx g = (if op_UseTransaction (gm_options g) then sd_tx (gm_db g) else sd_db (gm_db g))"

definition gm_begin :: "'s Gormigrate \<Rightarrow> ('s, unit) prog" where
  "gm_begin g = (\<lambda>s. (Ok (), if op_UseTransaction (gm_options g) then sd_Begin (gm_db g) s else s))"

definition gm_commit :: "'s Gormigrate \<Rightarrow> ('s, unit) prog" where
  "gm_commit g = (if op_UseTransaction (gm_options g) then db_write (sd_Commit (gm_db g)) else ret ())"

definition gm_rollback :: "'s Gormigrate \<Rightarrow> ('s, unit) prog" where
  "gm_rollback g = (\<lambda>s. (Ok (), if op_UseTransaction (gm_options g) then sd_Rollback (gm_db g) s else s))"

text \<open>The error of \<open>Count\<close> is not looked at: the count then is zero.\<close>

definition migrationDidRun :: "'s Gormigrate \<Rightarrow> 's Migration \<Rightarrow> 's \<Rightarrow> bool" where
  "migrationDidRun g m s =
    (case sq_Count (sd_db (gm_db g)) (op_TableName (gm_options g))
        (Some (op_IDColumnName (gm_options g), mg_ID m)) s of
       Inl _ \<Rightarrow> False | Inr cnt \<Rightarrow> cnt > 0)"

definition isFirstRun :: "'s Gormigrate \<Rightarrow> 's \<Rightarrow> bool" where
  "isFirstRun g s =
    (case sq_Count (sd_db (gm_db g)) (op_TableName (gm_options g)) None s of
       Inl _ \<Rightarrow> True | Inr cnt \<Rightarrow> cnt = 0)"

definition insertMigration :: "'s Gormigrate \<Rightarrow> string \<Rightarrow> ('s, unit) prog" where
  "insertMigration g id' =
    db_write (sq_Exec (gm_tx g) (INSERT_INTO (op_TableName (gm_options g)) (op_IDColumnName (gm_options g)) id'))"

definition createMigrationTableIfNotExists :: "'s Gormigrate \<Rightarrow> ('s, unit) prog" where
  "createMigrationTableIfNotExists g = (\<lambda>s.
    if sq_HasTable (sd_db (gm_db g)) (op_TableName (gm_options g)) s then (Ok (), s)
    else db_write (sq_Exec (sd_db (gm_db g)) (CREATE_TABLE (op_TableName (gm_options g))
      (op_IDColumnName (gm_options g)) (op_IDColumnSize (gm_options g)))) s)"

section \<open>Migrating\<close>

fun checkDuplicatedID_loop :: "'s Migration list \<Rightarrow> string set \<Rightarrow> unit res" where
  "checkDuplicatedID_loop [] lookup = Ok ()"
| "checkDuplicatedID_loop (m # ms) lookup =
     (if mg_ID m \<in> lookup then Err (DuplicatedIDError (mg_ID m))
      else checkDuplicatedID_loop ms (insert (mg_ID m) lookup))"

definition checkDuplicatedID :: "'s Gormigrate \<Rightarrow> unit res" where
  "checkDuplicatedID g = checkDuplicatedID_loop (gm_migrations g) {}"

fun checkIDExist_loop :: "'s Migration list \<Rightarrow> string \<Rightarrow> unit res" where
  "checkIDExist_loop [] migrationID = Err ErrMigrationIDDoesNotExist"
| "checkIDExist_loop (m # ms) migrationID = (if mg_ID m = migrationID then Ok () else checkIDExist_loop ms migrationID)"

definition checkIDExist :: "'s Gormigrate \<Rightarrow> string \<Rightarrow> unit res" where
  "checkIDExist g migrationID = checkIDExist_loop (gm_migrations g) migrationID"

definition runMigration :: "'s Gormigrate \<Rightarrow> 's Migration \<Rightarrow> ('s, unit) prog" where
  "runMigration g migration =
    (if mg_ID migration = '''' then fail ErrMissingID
     else (\<lambda>s. if \<not> migrationDidRun g migration s
       then andThen (mg_Up migration (gm_tx g)) (\<lambda>_. insertMigration g (mg_ID migration)) s
       else (Ok (), s)))"

fun insertAll :: "'s Gormigrate \<Rightarrow> 's Migration list \<Rightarrow> ('s, unit) prog" where
  "insertAll g [] = ret ()"
| "insertAll g (m # ms) = andThen (insertMigration g (mg_ID m)) (\<lambda>_. insertAll g ms)"

definition runInitSchema :: "'s Gormigrate \<Rightarrow> 's migrate_func \<Rightarrow> ('s, unit) prog" where
  "runInitSchema g initSchema = andThen (initSchema (gm_tx g)) (\<lambda>_. insertAll g (gm_migrations g))"

text \<open>\<open>if err := m(); err != nil { g.rollback(); return err }\<close>\<close>

definition rollingBack :: "'s Gormigrate \<Rightarrow> ('s, unit) prog \<Rightarrow> ('s, unit) prog" where
  "rollingBack g m = onError m (\<lambda>err. andThen (gm_rollback g) (\<lambda>_. fail err))"

fun migrate_loop :: "'s Gormigrate \<Rightarrow> string \<Rightarrow> 's Migration list \<Rightarrow> ('s, unit) prog" where
  "migrate_loop g migrationID [] = ret ()"
| "migrate_loop g migrationID (migration # ms) =
     andThen (rollingBack g (runMigration g migration)) (\<lambda>_.
       if migrationID \<noteq> '''' \<and> mg_ID migration = migrationID then ret () else migrate_loop g migrationID ms)"

definition migrate :: "'s Gormigrate \<Rightarrow> string \<Rightarrow> ('s, unit) prog" where
  "migrate g migrationID =
    (if gm_migrations g = [] then fail ErrNoMigrationDefined else
     andThen (lift (checkDuplicatedID g)) (\<lambda>_.
     andThen (lift (checkIDExist g migrationID)) (\<lambda>_.
     andThen (createMigrationTableIfNotExists g) (\<lambda>_.
     andThen (gm_begin g) (\<lambda>_ s.
       case (gm_initSchema g, isFirstRun g s) of
         (Some initSchema, True) \<Rightarrow> andThen (rollingBack g (runInitSchema g initSchema)) (\<lambda>_. gm_commit g) s
       | _ \<Rightarrow> andThen (migrate_loop g migrationID (gm_migrations g)) (\<lambda>_. gm_commit g) s)))))"

definition Migrate :: "'s Gormigrate \<Rightarrow> ('s, unit) prog" where
  "Migrate g = (if gm_migrations g = [] then fail ErrNoMigrationDefined
     else migrate g (mg_ID (last (gm_migrations g))))"

definition MigrateTo :: "'s Gormigrate \<Rightarrow> string \<Rightarrow> ('s, unit) prog" where
  "MigrateTo g migrationID = migrate g migrationID"

section \<open>Rolling back\<close>

text \<open>The row is deleted through \<open>g.db\<close>, not through the transaction \<open>g.tx\<close>.\<close>

definition rollbackMigration :: "'s Gormigrate \<Rightarrow> 's Migration \<Rightarrow> ('s, unit) prog" where
  "rollbackMigration g m = (case mg_Down m of
     None \<Rightarrow> fail ErrRollbackImpossible
   | Some down \<Rightarrow> andThen (down (gm_tx g)) (\<lambda>_.
       db_write (sq_Exec (sd_db (gm_db g)) (DELETE_WHERE (op_TableName (gm_options g))
         (op_IDColumnName (gm_options g)) (mg_ID m)))))"

definition RollbackMigration :: "'s Gormigrate \<Rightarrow> 's Migration \<Rightarrow> ('s, unit) prog" where
  "RollbackMigration g m =
    andThen (gm_begin g) (\<lambda>_. andThen (rollingBack g (rollbackMigration g m)) (\<lambda>_. gm_commit g))"

text \<open>Both loops run from the last migration to the first.\<close>

fun lastRunned_loop :: "'s Gormigrate \<Rightarrow> 's Migration list \<Rightarrow> ('s, 's Migration) prog" where
  "lastRunned_loop g [] = fail ErrNoRunnedMigration"
| "lastRunned_loop g (m # ms) = (\<lambda>s. if migrationDidRun g m s then (Ok m, s) else lastRunned_loop g ms s)"

definition getLastRunnedMigration :: "'s Gormigrate \<Rightarrow> ('s, 's Migration) prog" where
  "getLastRunnedMigration g = lastRunned_loop g (rev (gm_migrations g))"

definition RollbackLast :: "'s Gormigrate \<Rightarrow> ('s, unit) prog" where
  "RollbackLast g = (if gm_migrations g = [] then fail ErrNoMigrationDefined
     else andThen (getLastRunnedMigration g) (RollbackMigration g))"

fun RollbackTo_loop :: "'s Gormigrate \<Rightarrow> string \<Rightarrow> 's Migration list \<Rightarrow> ('s, unit) prog" where
  "RollbackTo_loop g migrationID [] = ret ()"
| "RollbackTo_loop g migrationID (migration # ms) =
     (if mg_ID migration = migrationID then ret ()
      else andThen (\<lambda>s. if migrationDidRun g migration s then rollingBack g (rollbackMigration g migration) s
          else (Ok (), s)) (\<lambda>_. RollbackTo_loop g migrationID ms))"

definition RollbackTo :: "'s Gormigrate \<Rightarrow> string \<Rightarrow> ('s, unit) prog" where
  "RollbackTo g migrationID =
    (if gm_migrations g = [] then fail ErrNoMigrationDefined else
     andThen (lift (checkIDExist g migrationID)) (\<lambda>_.
     andThen (gm_begin g) (\<lambda>_.
     andThen (RollbackTo_loop g migrationID (rev (gm_migrations g))) (\<lambda>_. gm_commit g))))"

section \<open>\<open>1585168847_migration.go\<close>\<close>

text \<open>A table is named here by its struct; the errors of these calls are in the handle they return and are not looked at.\<close>

definition createIfMissing :: "'s sql_handle \<Rightarrow> string \<Rightarrow> 's \<Rightarrow> 's" where
  "createIfMissing db t s = (if \<not> sq_HasTable db t s then sq_CreateTable db t s else s)"

definition migration_1585168847 :: "'s Migration" where
  "migration_1585168847 = \<lparr>mg_ID = ''1585168847'',
     mg_Up = (\<lambda>db s.
       let s = createIfMissing db ''Tx'' s;
           s = createIfMissing db ''Batch'' s;
           s = createIfMissing db ''SyncStatus'' s;
           s = createIfMissing db ''Params'' s;
           s = createIfMissing db ''Token'' s;
           s = createIfMissing db ''Account'' s;
           s = createIfMissing db ''UserState'' s
       in (Ok (), s)),
     mg_Down = Some (\<lambda>db s.
       let s = sq_DropTableIfExists db ''Tx'' s;
           s = sq_DropTableIfExists db ''Batch'' s;
           s = sq_DropTableIfExists db ''Params'' s;
           s = sq_DropTableIfExists db ''SyncStatus'' s;
           s = sq_DropTableIfExists db ''Token'' s;
           s = sq_DropTableIfExists db ''Account'' s;
           s = sq_DropTableIfExists db ''UserState'' s
       in (Ok (), s))\<rparr>"

section \<open>\<open>root.go\<close>\<close>

text \<open>\<open>sort.Slice\<close> by ID, which determines the order when the IDs differ.\<close>

definition sortMigrations :: "'s Migration list \<Rightarrow> 's Migration list" where
  "sortMigrations ms = sort_key mg_ID ms"

definition addMigration :: "'s Migration \<Rightarrow> 's Migration list \<Rightarrow> 's Migration list" where
  "addMigration m ms = sortMigrations (ms @ [m])"

text \<open>The list once the \<open>init\<close> function of the one migration file has run.\<close>

definition GetMigrations :: "'s Migration list" where
  "GetMigrations = addMigration migration_1585168847 []"

section \<open>\<open>cmd/migration.go\<close>\<close>

text \<open>\<open>db, err := db.NewDB(); if err != nil { return err }; defer db.Close(); ..\<close>\<close>

definition withNewDB :: "('s \<Rightarrow> go_error option \<times> 's) \<Rightarrow> ('s \<Rightarrow> 's) \<Rightarrow> ('s, unit) prog \<Rightarrow> ('s, unit) prog" where
  "withNewDB open' close m = andThen (db_write open') (\<lambda>_. deferring close m)"

definition upMigrate :: "('s \<Rightarrow> go_error option \<times> 's) \<Rightarrow> ('s \<Rightarrow> 's) \<Rightarrow> 's sql_db \<Rightarrow> 's Migration list \<Rightarrow> ('s, unit) prog" where
  "upMigrate open' close db allMigrations =
    withNewDB open' close (Migrate (NewGormigrate db DefaultOptions allMigrations))"

fun rollbackAll :: "'s Gormigrate \<Rightarrow> 's Migration list \<Rightarrow> ('s, unit) prog" where
  "rollbackAll g [] = ret ()"
| "rollbackAll g (d # ds) = andThen (RollbackMigration g d) (\<lambda>_. rollbackAll g ds)"

text \<open>
  \<open>getBool\<close> and \<open>getString\<close> are the outcomes of \<open>Flags().GetBool\<close> and \<open>GetString\<close>, which
  fail only for a flag that is not defined.  The value of the first is not looked at.
\<close>

definition downMigrate ::
  "('s \<Rightarrow> go_error option \<times> 's) \<Rightarrow> ('s \<Rightarrow> 's) \<Rightarrow> 's sql_db \<Rightarrow> 's Migration list \<Rightarrow>
   go_error + bool \<Rightarrow> go_error + string \<Rightarrow> ('s, unit) prog" where
  "downMigrate open' close db allMigrations getBool getString =
    withNewDB open' close
      (let m = NewGormigrate db DefaultOptions allMigrations in
       case getBool of
         Inr _ \<Rightarrow> rollbackAll m allMigrations
       | Inl _ \<Rightarrow> (case getString of
           Inr toValue \<Rightarrow> RollbackTo m toValue
         | Inl _ \<Rightarrow> RollbackLast m))"

section \<open>What the handle and the migrations are relied on for\<close>

text \<open>
  \<open>ids\<close> shows the rows of the table of IDs, if there is one, and \<open>schema\<close> everything else.
  The statements on that table do what they say, and leave the rest alone.
\<close>

definition sql_ok :: "'s sql_handle \<Rightarrow> Options \<Rightarrow> ('s \<Rightarrow> string list option) \<Rightarrow> ('s \<Rightarrow> 'x) \<Rightarrow> bool" where
  "sql_ok H opts ids schema \<longleftrightarrow>
     (let T = op_TableName opts; C = op_IDColumnName opts in
      (\<forall>s. sq_HasTable H T s \<longleftrightarrow> ids s \<noteq> None) \<and>
      (\<forall>s n. ids s = None \<longrightarrow> (\<exists>s'. sq_Exec H (CREATE_TABLE T C n) s = (None, s') \<and> ids s' = Some [] \<and> schema s' = schema s)) \<and>
      (\<forall>s xs i. ids s = Some xs \<longrightarrow> i \<notin> set xs \<longrightarrow>
         (\<exists>s'. sq_Exec H (INSERT_INTO T C i) s = (None, s') \<and> ids s' = Some (xs @ [i]) \<and> schema s' = schema s)) \<and>
      (\<forall>s xs i. ids s = Some xs \<longrightarrow>
         (\<exists>s'. sq_Exec H (DELETE_WHERE T C i) s = (None, s') \<and> ids s' = Some (filter (\<lambda>x. x \<noteq> i) xs) \<and> schema s' = schema s)) \<and>
      (\<forall>s xs i. ids s = Some xs \<longrightarrow> sq_Count H T (Some (C, i)) s = Inr (int (count_list xs i))))"

text \<open>What a migration does to the schema, when its functions succeed; they leave the IDs alone.\<close>

definition migrates :: "'s sql_handle \<Rightarrow> ('s \<Rightarrow> string list option) \<Rightarrow> ('s \<Rightarrow> 'x) \<Rightarrow>
    (string \<Rightarrow> 'x \<Rightarrow> 'x) \<Rightarrow> (string \<Rightarrow> 'x \<Rightarrow> 'x) \<Rightarrow> 's Migration \<Rightarrow> bool" where
  "migrates H ids schema up down m \<longleftrightarrow> mg_ID m \<noteq> '''' \<and>
     (\<forall>s. \<exists>s'. mg_Up m H s = (Ok (), s') \<and> ids s' = ids s \<and> schema s' = up (mg_ID m) (schema s)) \<and>
     (\<exists>d. mg_Down m = Some d \<and>
        (\<forall>s. \<exists>s'. d H s = (Ok (), s') \<and> ids s' = ids s \<and> schema s' = down (mg_ID m) (schema s)))"

text \<open>The specification: run what has not run, in order; undo what has.\<close>

fun spec_up :: "(string \<Rightarrow> 'x \<Rightarrow> 'x) \<Rightarrow> string list \<Rightarrow> string list \<times> 'x \<Rightarrow> string list \<times> 'x" where
  "spec_up up [] st = st"
| "spec_up up (i # is) (xs, x) = spec_up up is (if i \<in> set xs then (xs, x) else (xs @ [i], up i x))"

fun spec_down :: "(string \<Rightarrow> 'x \<Rightarrow> 'x) \<Rightarrow> string list \<Rightarrow> string list \<times> 'x \<Rightarrow> string list \<times> 'x" where
  "spec_down down [] st = st"
| "spec_down down (i # is) (xs, x) = spec_down down is (filter (\<lambda>y. y \<noteq> i) xs, down i x)"

lemma sql_okD:
  assumes "sql_ok H opts ids schema"
  shows "sq_HasTable H (op_TableName opts) s \<longleftrightarrow> ids s \<noteq> None"
    "ids s = None \<Longrightarrow> \<exists>s'. sq_Exec H (CREATE_TABLE (op_TableName opts) (op_IDColumnName opts) n) s = (None, s') \<and>
       ids s' = Some [] \<and> schema s' = schema s"
    "ids s = Some xs \<Longrightarrow> i \<notin> set xs \<Longrightarrow> \<exists>s'. sq_Exec H (INSERT_INTO (op_TableName opts) (op_IDColumnName opts) i) s = (None, s') \<and>
       ids s' = Some (xs @ [i]) \<and> schema s' = schema s"
    "ids s = Some xs \<Longrightarrow> \<exists>s'. sq_Exec H (DELETE_WHERE (op_TableName opts) (op_IDColumnName opts) i) s = (None, s') \<and>
       ids s' = Some (filter (\<lambda>x. x \<noteq> i) xs) \<and> schema s' = schema s"
    "ids s = Some xs \<Longrightarrow> sq_Count H (op_TableName opts) (Some (op_IDColumnName opts, i)) s = Inr (int (count_list xs i))"
  using assms by (simp_all add: sql_ok_def Let_def)

text \<open>A migrator without transactions, as both commands make it.\<close>

definition plain_migrator :: "'s Gormigrate \<Rightarrow> ('s \<Rightarrow> string list option) \<Rightarrow> ('s \<Rightarrow> 'x) \<Rightarrow>
    (string \<Rightarrow> 'x \<Rightarrow> 'x) \<Rightarrow> (string \<Rightarrow> 'x \<Rightarrow> 'x) \<Rightarrow> bool" where
  "plain_migrator g ids schema up down \<longleftrightarrow> \<not> op_UseTransaction (gm_options g) \<and> gm_initSchema g = None \<and>
     sql_ok (sd_db (gm_db g)) (gm_options g) ids schema \<and>
     (\<forall>m \<in> set (gm_migrations g). migrates (sd_db (gm_db g)) ids schema up down m)"

lemma gm_plain:
  assumes "\<not> op_UseTransaction (gm_options g)"
  shows "gm_tx g = sd_db (gm_db g)" "gm_begin g = ret ()" "gm_commit g = ret ()" "gm_rollback g = ret ()"
  using assms by (simp_all add: gm_tx_def gm_begin_def gm_commit_def gm_rollback_def ret_def fun_eq_iff)

lemma migrationDidRun_iff:
  assumes "plain_migrator g ids schema up down" "ids s = Some xs"
  shows "migrationDidRun g m s \<longleftrightarrow> mg_ID m \<in> set xs"
  using sql_okD(5) [of "sd_db (gm_db g)" "gm_options g" ids schema s xs "mg_ID m"] assms
  by (auto simp: plain_migrator_def migrationDidRun_def count_list_0_iff zero_less_iff_neq_zero)

lemma runMigration_run:
  assumes "plain_migrator g ids schema up down" "m \<in> set (gm_migrations g)" "ids s = Some xs"
  shows "\<exists>s'. rollingBack g (runMigration g m) s = (Ok (), s') \<and>
    (ids s', schema s') = (if mg_ID m \<in> set xs then (Some xs, schema s) else (Some (xs @ [mg_ID m]), up (mg_ID m) (schema s)))"
proof (cases "mg_ID m \<in> set xs")
  case True
  have "mg_ID m \<noteq> ''''" using assms(1,2) by (auto simp: plain_migrator_def migrates_def)
  with True assms show ?thesis
    by (simp add: rollingBack_def onError_def runMigration_def migrationDidRun_iff)
next
  case False
  have m: "migrates (sd_db (gm_db g)) ids schema up down m" and p: "\<not> op_UseTransaction (gm_options g)"
    and ok: "sql_ok (sd_db (gm_db g)) (gm_options g) ids schema"
    using assms(1,2) by (auto simp: plain_migrator_def)
  obtain s1 where s1: "mg_Up m (sd_db (gm_db g)) s = (Ok (), s1)" "ids s1 = Some xs" "schema s1 = up (mg_ID m) (schema s)"
    using m assms(3) unfolding migrates_def by metis
  obtain s2 where s2: "sq_Exec (sd_db (gm_db g)) (INSERT_INTO (op_TableName (gm_options g)) (op_IDColumnName (gm_options g)) (mg_ID m)) s1
      = (None, s2)" "ids s2 = Some (xs @ [mg_ID m])" "schema s2 = schema s1"
    using sql_okD(3) [OF ok s1(2) False] by blast
  have "mg_ID m \<noteq> ''''" using m by (simp add: migrates_def)
  then have "runMigration g m s = (Ok (), s2)"
    using False s1 s2 migrationDidRun_iff [OF assms(1,3)] gm_plain(1) [OF p]
    by (simp add: runMigration_def insertMigration_def andThen_ok db_write_None)
  then show ?thesis using s1(3) s2(2,3) False by (simp add: rollingBack_def onError_def)
qed

lemma migrate_loop_run:
  assumes "plain_migrator g ids schema up down"
  shows "set ms \<subseteq> set (gm_migrations g) \<Longrightarrow> ids s = Some xs \<Longrightarrow>
    (\<forall>m \<in> set (butlast ms). mg_ID m \<noteq> target) \<Longrightarrow>
    \<exists>s'. migrate_loop g target ms s = (Ok (), s') \<and>
      (the (ids s'), schema s') = spec_up up (map mg_ID ms) (xs, schema s) \<and> ids s' \<noteq> None"
proof (induction ms arbitrary: s xs)
  case (Cons m ms)
  obtain s1 where s1: "rollingBack g (runMigration g m) s = (Ok (), s1)"
    "(ids s1, schema s1) = (if mg_ID m \<in> set xs then (Some xs, schema s) else (Some (xs @ [mg_ID m]), up (mg_ID m) (schema s)))"
    using runMigration_run [OF assms _ Cons.prems(2), of m] Cons.prems(1) by auto
  define xs1 where "xs1 = (if mg_ID m \<in> set xs then xs else xs @ [mg_ID m])"
  have i: "ids s1 = Some xs1" "schema s1 = (if mg_ID m \<in> set xs then schema s else up (mg_ID m) (schema s))"
    using s1(2) by (auto simp: xs1_def split: if_splits)
  show ?case
  proof (cases "ms = []")
    case True
    with s1(1) i show ?thesis by (auto simp: andThen_ok xs1_def)
  next
    case False
    then have "mg_ID m \<noteq> target" "\<forall>m \<in> set (butlast ms). mg_ID m \<noteq> target" using Cons.prems(3) by simp_all
    moreover obtain s' where "migrate_loop g target ms s1 = (Ok (), s')"
      "(the (ids s'), schema s') = spec_up up (map mg_ID ms) (xs1, schema s1)" "ids s' \<noteq> None"
      using Cons.IH [OF _ i(1)] calculation(2) Cons.prems(1) by auto
    ultimately show ?thesis using s1(1) i by (auto simp: andThen_ok xs1_def)
  qed
qed auto

lemma checkDuplicatedID_loop_ok:
  "distinct (map mg_ID ms) \<Longrightarrow> mg_ID ` set ms \<inter> lookup = {} \<Longrightarrow> checkDuplicatedID_loop ms lookup = Ok ()"
  by (induction ms arbitrary: lookup) auto

lemma checkIDExist_loop_ok: "i \<in> mg_ID ` set ms \<Longrightarrow> checkIDExist_loop ms i = Ok ()"
  by (induction ms) auto

definition recorded :: "string list option \<Rightarrow> string list" where
  "recorded o' = (case o' of None \<Rightarrow> [] | Some xs \<Rightarrow> xs)"

lemma createMigrationTable_run:
  assumes "plain_migrator g ids schema up down"
  shows "\<exists>s'. createMigrationTableIfNotExists g s = (Ok (), s') \<and> ids s' = Some (recorded (ids s)) \<and> schema s' = schema s"
proof (cases "ids s")
  case None
  have ok: "sql_ok (sd_db (gm_db g)) (gm_options g) ids schema" using assms by (simp add: plain_migrator_def)
  from sql_okD(1) [OF ok, of s] sql_okD(2) [OF ok None, of "op_IDColumnSize (gm_options g)"] None show ?thesis
    by (auto simp: createMigrationTableIfNotExists_def db_write_None recorded_def)
next
  case (Some xs)
  have ok: "sql_ok (sd_db (gm_db g)) (gm_options g) ids schema" using assms by (simp add: plain_migrator_def)
  from sql_okD(1) [OF ok, of s] Some show ?thesis by (simp add: createMigrationTableIfNotExists_def recorded_def)
qed

lemma Migrate_run:
  assumes "plain_migrator g ids schema up down" "gm_migrations g \<noteq> []" "distinct (map mg_ID (gm_migrations g))"
  shows "\<exists>s'. Migrate g s = (Ok (), s') \<and> ids s' \<noteq> None \<and>
    (the (ids s'), schema s') = spec_up up (map mg_ID (gm_migrations g)) (recorded (ids s), schema s)"
proof -
  let ?ms = "gm_migrations g" and ?t = "mg_ID (last (gm_migrations g))"
  have p: "\<not> op_UseTransaction (gm_options g)" "gm_initSchema g = None" using assms(1) by (simp_all add: plain_migrator_def)
  obtain s1 where s1: "createMigrationTableIfNotExists g s = (Ok (), s1)" "ids s1 = Some (recorded (ids s))" "schema s1 = schema s"
    using createMigrationTable_run [OF assms(1)] by blast
  have "\<forall>m \<in> set (butlast ?ms). mg_ID m \<noteq> ?t"
  proof -
    have "map mg_ID ?ms = map mg_ID (butlast ?ms) @ [?t]"
      using assms(2) by (metis append_butlast_last_id list.simps(8,9) map_append)
    then have "?t \<notin> mg_ID ` set (butlast ?ms)" using assms(3) by simp
    then show ?thesis by (metis image_eqI)
  qed
  then obtain s' where s': "migrate_loop g ?t ?ms s1 = (Ok (), s')" "ids s' \<noteq> None"
    "(the (ids s'), schema s') = spec_up up (map mg_ID ?ms) (recorded (ids s), schema s1)"
    using migrate_loop_run [OF assms(1) subset_refl s1(2)] by blast
  have "checkDuplicatedID g = Ok ()" using assms(3) by (simp add: checkDuplicatedID_def checkDuplicatedID_loop_ok)
  moreover have "checkIDExist g ?t = Ok ()" using assms(2) by (simp add: checkIDExist_def checkIDExist_loop_ok)
  ultimately have "Migrate g s = (Ok (), s')"
    using assms(2) s1(1) s'(1) p(2) gm_plain [OF p(1)] by (simp add: Migrate_def migrate_def andThen_ok)
  with s' s1(3) show ?thesis by auto
qed

lemma spec_up_records: "set (fst (spec_up up is st)) = set (fst st) \<union> set is"
  by (induction up "is" st rule: spec_up.induct) auto

lemma spec_up_done: "set is \<subseteq> set xs \<Longrightarrow> spec_up up is (xs, x) = (xs, x)"
  by (induction "is") auto

lemma RollbackMigration_run:
  assumes "plain_migrator g ids schema up down" "m \<in> set (gm_migrations g)" "ids s = Some xs"
  shows "\<exists>s'. RollbackMigration g m s = (Ok (), s') \<and> ids s' = Some (filter (\<lambda>y. y \<noteq> mg_ID m) xs) \<and>
    schema s' = down (mg_ID m) (schema s)"
proof -
  have p: "\<not> op_UseTransaction (gm_options g)" and m: "migrates (sd_db (gm_db g)) ids schema up down m"
    and ok: "sql_ok (sd_db (gm_db g)) (gm_options g) ids schema" using assms by (auto simp: plain_migrator_def)
  obtain d where d: "mg_Down m = Some d"
    "\<forall>s. \<exists>s'. d (sd_db (gm_db g)) s = (Ok (), s') \<and> ids s' = ids s \<and> schema s' = down (mg_ID m) (schema s)"
    using m unfolding migrates_def by blast
  obtain s1 where s1: "d (sd_db (gm_db g)) s = (Ok (), s1)" "ids s1 = Some xs" "schema s1 = down (mg_ID m) (schema s)"
    using d(2) assms(3) by metis
  obtain s2 where s2: "sq_Exec (sd_db (gm_db g)) (DELETE_WHERE (op_TableName (gm_options g)) (op_IDColumnName (gm_options g)) (mg_ID m)) s1
      = (None, s2)" "ids s2 = Some (filter (\<lambda>y. y \<noteq> mg_ID m) xs)" "schema s2 = schema s1"
    using sql_okD(4) [OF ok s1(2)] by blast
  have "rollbackMigration g m s = (Ok (), s2)"
    using d(1) s1(1) s2(1) gm_plain(1) [OF p] by (simp add: rollbackMigration_def andThen_ok db_write_None)
  then show ?thesis using s1(3) s2(2,3) gm_plain [OF p]
    by (simp add: RollbackMigration_def rollingBack_def onError_def andThen_ok)
qed

lemma rollbackAll_run:
  assumes "plain_migrator g ids schema up down"
  shows "set ms \<subseteq> set (gm_migrations g) \<Longrightarrow> ids s = Some xs \<Longrightarrow>
    \<exists>s' ys. rollbackAll g ms s = (Ok (), s') \<and> ids s' = Some ys \<and>
      (ys, schema s') = spec_down down (map mg_ID ms) (xs, schema s)"
proof (induction ms arbitrary: s xs)
  case (Cons m ms)
  obtain s1 where s1: "RollbackMigration g m s = (Ok (), s1)" "ids s1 = Some (filter (\<lambda>y. y \<noteq> mg_ID m) xs)"
    "schema s1 = down (mg_ID m) (schema s)"
    using RollbackMigration_run [OF assms _ Cons.prems(2)] Cons.prems(1) by (metis list.set_intros(1) subsetD)
  from Cons.IH [OF _ s1(2)] Cons.prems(1) s1(1,3) show ?case by (auto simp: andThen_ok)
qed auto

text \<open>A database in memory: the IDs and the names of the tables.\<close>

record mig_mem =
  mm_ids :: "string list option"
  mm_tables :: "string set"

definition mem_sql :: "mig_mem sql_handle" where
  "mem_sql = \<lparr>sq_HasTable = (\<lambda>t s. if t = ''migrations'' then mm_ids s \<noteq> None else t \<in> mm_tables s),
     sq_CreateTable = (\<lambda>t s. s\<lparr>mm_tables := insert t (mm_tables s)\<rparr>),
     sq_DropTableIfExists = (\<lambda>t s. s\<lparr>mm_tables := mm_tables s - {t}\<rparr>),
     sq_Exec = (\<lambda>st s. case st of
        CREATE_TABLE t c n \<Rightarrow> (None, s\<lparr>mm_ids := Some []\<rparr>)
      | DELETE_WHERE t c i \<Rightarrow> (None, s\<lparr>mm_ids := map_option (filter (\<lambda>x. x \<noteq> i)) (mm_ids s)\<rparr>)
      | INSERT_INTO t c i \<Rightarrow> (None, s\<lparr>mm_ids := map_option (\<lambda>xs. xs @ [i]) (mm_ids s)\<rparr>)),
     sq_Count = (\<lambda>t c s. case c of None \<Rightarrow> Inr (int (length (recorded (mm_ids s))))
        | Some (_, i) \<Rightarrow> Inr (int (count_list (recorded (mm_ids s)) i)))\<rparr>"

definition mem_sql_db :: "mig_mem sql_db" where
  "mem_sql_db = \<lparr>sd_db = mem_sql, sd_tx = mem_sql, sd_Begin = (\<lambda>s. s), sd_Commit = (\<lambda>s. (None, s)), sd_Rollback = (\<lambda>s. s)\<rparr>"

definition node_tables :: "string set" where
  "node_tables = {''Tx'', ''Batch'', ''SyncStatus'', ''Params'', ''Token'', ''Account'', ''UserState''}"

lemma GetMigrations_list: "GetMigrations = [migration_1585168847]"
  by (simp add: GetMigrations_def addMigration_def sortMigrations_def)

lemma mem_plain:
  "plain_migrator (NewGormigrate mem_sql_db DefaultOptions GetMigrations) mm_ids mm_tables
     (\<lambda>_ X. X \<union> node_tables) (\<lambda>_ X. X - node_tables)"
proof -
  let ?c = "createIfMissing mem_sql"
  have c: "mm_tables (?c t s) = insert t (mm_tables s) \<and> mm_ids (?c t s) = mm_ids s" if "t \<noteq> ''migrations''" for t s
    using that by (auto simp: createIfMissing_def mem_sql_def insert_absorb)
  have d: "mm_tables (sq_DropTableIfExists mem_sql t s) = mm_tables s - {t} \<and> mm_ids (sq_DropTableIfExists mem_sql t s) = mm_ids s"
    for t s by (simp add: mem_sql_def)
  have "migrates mem_sql mm_ids mm_tables (\<lambda>_ X. X \<union> node_tables) (\<lambda>_ X. X - node_tables) migration_1585168847"
    by (auto simp: migrates_def migration_1585168847_def Let_def c d node_tables_def)
  moreover have "sql_ok mem_sql DefaultOptions mm_ids mm_tables"
    by (auto simp: sql_ok_def mem_sql_def DefaultOptions_def recorded_def)
  ultimately show ?thesis
    by (simp add: plain_migrator_def NewGormigrate_def GetMigrations_list mem_sql_db_def DefaultOptions_def)
qed

section \<open>Properties\<close>

text \<open>
  C36. \<open>Migrate\<close> does what it is specified to: it runs, in their order, exactly the
  migrations whose ID is not in the table of IDs and enters them there, making the table
  when it does not exist; after it every migration is recorded, and running it again changes
  nothing.
\<close>

theorem Migrate_refines:
  assumes "plain_migrator g ids schema up down" "gm_migrations g \<noteq> []" "distinct (map mg_ID (gm_migrations g))"
  shows "\<exists>s' s''. Migrate g s = (Ok (), s') \<and>
    (recorded (ids s'), schema s') = spec_up up (map mg_ID (gm_migrations g)) (recorded (ids s), schema s) \<and>
    mg_ID ` set (gm_migrations g) \<subseteq> set (recorded (ids s')) \<and>
    Migrate g s' = (Ok (), s'') \<and> ids s'' = ids s' \<and> schema s'' = schema s'"
proof -
  let ?is = "map mg_ID (gm_migrations g)"
  obtain s' where s': "Migrate g s = (Ok (), s')" "ids s' \<noteq> None"
    "(the (ids s'), schema s') = spec_up up ?is (recorded (ids s), schema s)" using Migrate_run [OF assms] by blast
  then obtain xs where xs: "ids s' = Some xs" by blast
  have sub: "set ?is \<subseteq> set xs"
    using spec_up_records [of up ?is "(recorded (ids s), schema s)"] s'(3) xs by (metis Un_upper2 fst_conv option.sel)
  obtain s'' where s'': "Migrate g s' = (Ok (), s'')" "ids s'' \<noteq> None"
    "(the (ids s''), schema s'') = spec_up up ?is (xs, schema s')"
    using Migrate_run [OF assms, of s'] xs by (auto simp: recorded_def)
  then have "(the (ids s''), schema s'') = (xs, schema s')" using spec_up_done [OF sub, of up] by simp
  then have "ids s'' = ids s'" "schema s'' = schema s'" using s''(2) xs by auto
  with s' s''(1) xs sub show ?thesis by (auto simp: recorded_def)
qed

theorem Migrate_refines_witness:
  "\<exists>s'. Migrate (NewGormigrate mem_sql_db DefaultOptions GetMigrations) \<lparr>mm_ids = None, mm_tables = {}\<rparr> = (Ok (), s') \<and>
     recorded (mm_ids s') = [''1585168847''] \<and> mm_tables s' = node_tables"
proof -
  let ?g = "NewGormigrate mem_sql_db DefaultOptions GetMigrations"
  have g: "gm_migrations ?g = [migration_1585168847]" by (simp add: NewGormigrate_def GetMigrations_list Let_def)
  have "gm_migrations ?g \<noteq> []" "distinct (map mg_ID (gm_migrations ?g))" by (simp_all add: g)
  from Migrate_refines [OF mem_plain this, of "\<lparr>mm_ids = None, mm_tables = {}\<rparr>"] show ?thesis
    by (auto simp: g migration_1585168847_def recorded_def)
qed

text \<open>
  C37. The command \<open>down\<close> rolls back every migration that there is, from the first to the
  last and whether or not it ran, whatever its flags say: the flag \<open>all\<close> is defined, and
  that is all that is tested, so that neither \<open>to\<close> nor the rollback of the last migration
  is ever reached.
\<close>

theorem down_ignores_flags:
  assumes "plain_migrator (NewGormigrate db DefaultOptions ms) ids schema up down"
    and "open' s = (None, s1)" "ids s1 = Some xs"
  shows "\<exists>s2. downMigrate open' close db ms (Inr all') getString s = (Ok (), close s2) \<and>
    (recorded (ids s2), schema s2) = spec_down down (map mg_ID ms) (xs, schema s1)"
proof -
  have "gm_migrations (NewGormigrate db DefaultOptions ms) = ms" by (simp add: NewGormigrate_def Let_def)
  then obtain s2 ys where "rollbackAll (NewGormigrate db DefaultOptions ms) ms s1 = (Ok (), s2)" "ids s2 = Some ys"
    "(ys, schema s2) = spec_down down (map mg_ID ms) (xs, schema s1)"
    using rollbackAll_run [OF assms(1) _ assms(3), of ms] by auto
  with assms(2) show ?thesis
    by (intro exI [of _ s2]) (simp add: downMigrate_def withNewDB_def andThen_ok db_write_None deferring_def Let_def recorded_def)
qed

theorem down_ignores_flags_witness:
  "\<exists>s2. downMigrate (\<lambda>s. (None, s)) (\<lambda>s. s) mem_sql_db GetMigrations (Inr False) (Inr ''1585168847'')
       \<lparr>mm_ids = Some [''1585168847''], mm_tables = node_tables\<rparr> = (Ok (), s2) \<and> mm_tables s2 = {} \<and> recorded (mm_ids s2) = []"
  using down_ignores_flags [OF mem_plain, of "\<lambda>s. (None, s)" "\<lparr>mm_ids = Some [''1585168847''], mm_tables = node_tables\<rparr>"
      _ "[''1585168847'']" "\<lambda>s. s" False "Inr ''1585168847''"]
  by (auto simp: GetMigrations_list migration_1585168847_def)

end
