(* ===== verification/Rest_Api.thy ===== *)
theory Rest_Api
  imports Transactions
begin

text \<open>
  \<open>rest/\<close>: the HTTP interface.  A handler writes to a response and to the database.  The
  JSON texts are the library's: \<open>rest_libs\<close> holds what \<open>encoding/json\<close> and \<open>strconv\<close> give.
\<close>

section \<open>Responses\<close>

record TxReceiver =
  tr_From :: u64
  tr_To :: u64
  tr_Message :: bytes
  tr_Signature :: bytes

record TransferTx =
  tt_From :: u64
  tt_To :: u64
  tt_Amount :: u64
  tt_Nonce :: u64
  tt_TokenType :: u64
  tt_TxType :: u64

record ErrorResponse =
  er_Code :: int
  er_Error :: string

definition zero_TxReceiver :: TxReceiver where
  "zero_TxReceiver = \<lparr>tr_From = 0, tr_To = 0, tr_Message = [], tr_Signature = []\<rparr>"

text \<open>
  \<open>rl_Unmarshal\<close> says what is in the struct after the call and whether it failed.
  The ID and the times that \<open>Create\<close> fills in are tagged \<open>json:"-"\<close>, so they are not in
  what is marshalled.
\<close>

record rest_libs =
  rl_Unmarshal :: "bytes \<Rightarrow> TxReceiver \<Rightarrow> go_error option \<times> TxReceiver"
  rl_MarshalTx :: "Tx \<Rightarrow> go_error + bytes"
  rl_MarshalState :: "UserState \<Rightarrow> go_error + bytes"
  rl_MarshalError :: "ErrorResponse \<Rightarrow> go_error + bytes"
  rl_ParseUint :: "string \<Rightarrow> num_error + u64"
  rl_Error :: "go_error \<Rightarrow> string"

text \<open>
  \<open>http.ResponseWriter\<close>: the first status that is written counts, and \<open>Write\<close> without one
  writes 200.
\<close>

record 's web =
  wb_db :: 's
  wb_header :: "string \<rightharpoonup> string"
  wb_status :: "nat option"
  wb_body :: bytes

definition StatusOK :: nat where "StatusOK = 200"
definition StatusBadRequest :: nat where "StatusBadRequest = 400"

definition Header_Set :: "string \<Rightarrow> string \<Rightarrow> ('s web, unit) prog" where
  "Header_Set k v = (\<lambda>w. (Ok (), w\<lparr>wb_header := (wb_header w)(k \<mapsto> v)\<rparr>))"

definition WriteHeader :: "nat \<Rightarrow> ('s web, unit) prog" where
  "WriteHeader status = (\<lambda>w. (Ok (), case wb_status w of None \<Rightarrow> w\<lparr>wb_status := Some status\<rparr> | Some _ \<Rightarrow> w))"

definition Write :: "bytes \<Rightarrow> ('s web, unit) prog" where
  "Write b = andThen (WriteHeader StatusOK) (\<lambda>_ w. (Ok (), w\<lparr>wb_body := wb_body w @ b\<rparr>))"

definition on_web_db :: "('s, 'a) prog \<Rightarrow> ('s web, 'a) prog" where
  "on_web_db m = (\<lambda>w. case m (wb_db w) of (r, s) \<Rightarrow> (r, w\<lparr>wb_db := s\<rparr>))"

section \<open>\<open>rest/utils.go\<close>\<close>

definition MustMarshallJSON :: "go_error + bytes \<Rightarrow> bytes res" where
  "MustMarshallJSON m = (case m of Inl err \<Rightarrow> Panic (PanicErr err) | Inr bz \<Rightarrow> Ok bz)"

definition NewErrorResponse :: "int \<Rightarrow> string \<Rightarrow> ErrorResponse" where
  "NewErrorResponse code err = \<lparr>er_Code = code, er_Error = err\<rparr>"

definition WriteErrorResponse :: "rest_libs \<Rightarrow> nat \<Rightarrow> string \<Rightarrow> ('s web, unit) prog" where
  "WriteErrorResponse R status err =
    andThen (Header_Set ''Content-Type'' ''application/json'') (\<lambda>_.
    andThen (WriteHeader status) (\<lambda>_.
    andThen (lift (MustMarshallJSON (rl_MarshalError R (NewErrorResponse 0 err)))) Write))"

text \<open>The request's body is the outcome of \<open>ioutil.ReadAll\<close>; the result also has the struct that was read.\<close>

definition ReadRESTReq :: "rest_libs \<Rightarrow> go_error + bytes \<Rightarrow> TxReceiver \<Rightarrow> ('s web, bool \<times> TxReceiver) prog" where
  "ReadRESTReq R rbody req = (case rbody of
     Inl err \<Rightarrow> andThen (WriteErrorResponse R StatusBadRequest (rl_Error R err)) (\<lambda>_. ret (False, req))
   | Inr body \<Rightarrow> (case rl_Unmarshal R body req of
       (Some err, req) \<Rightarrow> andThen (WriteErrorResponse R StatusBadRequest
           (''failed to decode JSON payload: '' @ rl_Error R err)) (\<lambda>_. ret (False, req))
     | (None, req) \<Rightarrow> ret (True, req)))"

section \<open>\<open>rest/api.go\<close>\<close>

text \<open>No handler returns after an error: the rest runs, and what it writes is appended.\<close>

definition TxReceiverHandler ::
  "rest_libs \<Rightarrow> libs \<Rightarrow> (Tx \<Rightarrow> bytes) \<Rightarrow> 's gorm \<Rightarrow> go_error + bytes \<Rightarrow> ('s web, unit) prog" where
  "TxReceiverHandler R L rlp G rbody =
    andThen (ReadRESTReq R rbody zero_TxReceiver) (\<lambda>(read, tx).
    andThen (if \<not> read then WriteErrorResponse R StatusBadRequest ''Cannot read request'' else ret ()) (\<lambda>_.
    let userTx = NewPendingTx L rlp (tr_From tx) (tr_To tx) TX_TRANSFER_TYPE (tr_Signature tx) (tr_Message tx) in
    andThen (onError (on_web_db (InsertTx G userTx)) (\<lambda>err. WriteErrorResponse R StatusBadRequest ''Cannot read request'')) (\<lambda>_.
    case rl_MarshalTx R userTx of
      Inl err \<Rightarrow>
        andThen (WriteErrorResponse R StatusBadRequest ''Unable to marshall account'') (\<lambda>_.
        andThen (Header_Set ''Content-Type'' ''application/json'') (\<lambda>_. Write []))
    | Inr output \<Rightarrow> andThen (Header_Set ''Content-Type'' ''application/json'') (\<lambda>_. Write output))))"

text \<open>What both handlers below do with the zero value of \<open>UserState\<close>.\<close>

definition write_state :: "rest_libs \<Rightarrow> UserState \<Rightarrow> ('s web, unit) prog" where
  "write_state R account = (case rl_MarshalState R account of
     Inl err \<Rightarrow>
       andThen (WriteErrorResponse R StatusBadRequest ''Unable to marshall account'') (\<lambda>_.
       andThen (Header_Set ''Content-Type'' ''application/json'') (\<lambda>_. Write []))
   | Inr output \<Rightarrow> andThen (Header_Set ''Content-Type'' ''application/json'') (\<lambda>_. Write output))"

definition GetAccountHandler :: "rest_libs \<Rightarrow> string \<Rightarrow> ('s web, unit) prog" where
  "GetAccountHandler R IDstr =
    andThen (case rl_ParseUint R IDstr of
        Inl err \<Rightarrow> WriteErrorResponse R StatusBadRequest ''Invalid ID'' | Inr ID \<Rightarrow> ret ()) (\<lambda>_.
      write_state R zero_UserState)"

definition GetTxTemplateForTxType :: "rest_libs \<Rightarrow> ('s web, unit) prog" where
  "GetTxTemplateForTxType R = write_state R zero_UserState"

section \<open>\<open>rest/router.go\<close>\<close>

datatype handler = HandleTx | HandleAccount

text \<open>Path, method and handler of each route; the template handler has none.\<close>

definition LoadRouters :: "(string \<times> string \<times> handler) list" where
  "LoadRouters = [(''/tx'', ''POST'', HandleTx), (''/account'', ''GET'', HandleAccount)]"

section \<open>Lemmas\<close>

text \<open>Whether a request could be read, and the struct that the handler goes on with.\<close>

definition request :: "rest_libs \<Rightarrow> go_error + bytes \<Rightarrow> bool \<times> TxReceiver" where
  "request R rbody = (case rbody of Inl _ \<Rightarrow> (False, zero_TxReceiver)
     | Inr body \<Rightarrow> (case rl_Unmarshal R body zero_TxReceiver of (e, tx) \<Rightarrow> (e = None, tx)))"

definition json_total :: "rest_libs \<Rightarrow> bool" where
  "json_total R \<longleftrightarrow> (\<forall>x. \<exists>b. rl_MarshalError R x = Inr b) \<and> (\<forall>x. \<exists>b. rl_MarshalTx R x = Inr b) \<and>
     (\<forall>x. \<exists>b. rl_MarshalState R x = Inr b)"

definition first_status :: "nat \<Rightarrow> 's web \<Rightarrow> nat option" where
  "first_status k w = (case wb_status w of None \<Rightarrow> Some k | Some k' \<Rightarrow> Some k')"

lemma WriteErrorResponse_run:
  assumes "json_total R"
  shows "\<exists>w'. WriteErrorResponse R k err w = (Ok (), w') \<and> wb_db w' = wb_db w \<and> wb_status w' = first_status k w"
proof -
  obtain b where "rl_MarshalError R (NewErrorResponse 0 err) = Inr b" using assms unfolding json_total_def by blast
  then show ?thesis
    by (simp add: WriteErrorResponse_def Header_Set_def WriteHeader_def Write_def MustMarshallJSON_def andThen_def
      first_status_def split: option.split)
qed

lemma ReadRESTReq_run:
  assumes "json_total R"
  shows "\<exists>w'. ReadRESTReq R rbody zero_TxReceiver w = (Ok (request R rbody), w') \<and> wb_db w' = wb_db w \<and>
    (if fst (request R rbody) then w' = w else wb_status w' = first_status 400 w)"
proof -
  have err: "\<exists>w'. andThen (WriteErrorResponse R StatusBadRequest msg) (\<lambda>_. ret x) w = (Ok x, w') \<and> wb_db w' = wb_db w \<and>
      wb_status w' = first_status 400 w" for msg x
    using WriteErrorResponse_run [OF assms, of 400 msg w] by (auto simp: andThen_def StatusBadRequest_def)
  show ?thesis
  proof (cases rbody)
    case (Inl e)
    then show ?thesis using err by (simp add: ReadRESTReq_def request_def)
  next
    case (Inr body)
    obtain e tx where u: "rl_Unmarshal R body zero_TxReceiver = (e, tx)" by fastforce
    show ?thesis
    proof (cases e)
      case None
      then show ?thesis using Inr u by (simp add: ReadRESTReq_def request_def)
    next
      case (Some er)
      then show ?thesis using Inr u err by (simp add: ReadRESTReq_def request_def)
    qed
  qed
qed

lemma write_json_run:
  "andThen (Header_Set k v) (\<lambda>_. Write out) w =
    (Ok (), w\<lparr>wb_header := (wb_header w)(k \<mapsto> v), wb_status := first_status 200 w, wb_body := wb_body w @ out\<rparr>)"
  by (cases "wb_status w") (simp_all add: Header_Set_def Write_def WriteHeader_def StatusOK_def andThen_def first_status_def)

section \<open>Properties\<close>

text \<open>
  C38. Every request to \<open>/tx\<close> puts one pending transaction into the mempool.  One that can be
  read is answered with 200 and the JSON of its transaction; one that cannot is answered
  with 400, but the handler does not return: it still inserts the transaction made of what
  was read, from account 0 to account 0 when that is nothing.
\<close>

theorem every_request_inserts:
  assumes "gorm_ok G view up" "up (wb_db w)" "json_total R" "wb_status w = None"
    and "request R rbody = (readable, tx)"
    and "t = NewPendingTx L rlp (tr_From tx) (tr_To tx) TX_TRANSFER_TYPE (tr_Signature tx) (tr_Message tx)"
  shows "\<exists>w' t'. TxReceiverHandler R L rlp G rbody w = (Ok (), w') \<and> stamp_tx t t' \<and>
    tx_Status t' = TX_STATUS_PENDING \<and> view (wb_db w') = txes_update (\<lambda>rs. rs @ [t']) (view (wb_db w)) \<and>
    (if readable then wb_status w' = Some StatusOK \<and> (\<exists>out. rl_MarshalTx R t = Inr out \<and> wb_body w' = wb_body w @ out)
     else wb_status w' = Some StatusBadRequest)"
proof -
  obtain w1 where w1: "ReadRESTReq R rbody zero_TxReceiver w = (Ok (readable, tx), w1)" "wb_db w1 = wb_db w"
    "if readable then w1 = w else wb_status w1 = Some 400"
    using ReadRESTReq_run [OF assms(3), of rbody w] assms(4,5) by (auto simp: first_status_def)
  let ?e = "if \<not> readable then WriteErrorResponse R StatusBadRequest ''Cannot read request'' else ret ()"
  obtain w2 where w2: "?e w1 = (Ok (), w2)" "wb_db w2 = wb_db w" "if readable then w2 = w else wb_status w2 = Some 400"
    using WriteErrorResponse_run [OF assms(3), of StatusBadRequest "''Cannot read request''" w1] w1(2,3)
    by (cases readable) (auto simp: first_status_def)
  obtain s' t' where s': "InsertTx G t (wb_db w) = (Ok (), s')" "stamp_tx t t'"
    "view s' = txes_update (\<lambda>rs. rs @ [t']) (view (wb_db w))"
    using create_run [OF gorm_txes_create [OF assms(1)] assms(2), of t] by (auto simp: InsertTx_def)
  obtain out where out: "rl_MarshalTx R t = Inr out" using assms(3) unfolding json_total_def by blast
  let ?w3 = "w2\<lparr>wb_db := s'\<rparr>"
  have ins: "onError (on_web_db (InsertTx G t)) h w2 = (Ok (), ?w3)" for h
    using s'(1) w2(2) by (simp add: onError_def on_web_db_def)
  have "TxReceiverHandler R L rlp G rbody w = (Ok (), ?w3\<lparr>wb_header := (wb_header ?w3)(''Content-Type'' \<mapsto> ''application/json''),
      wb_status := first_status 200 ?w3, wb_body := wb_body ?w3 @ out\<rparr>)"
    using w1(1) w2(1) ins [unfolded assms(6)] out [unfolded assms(6)]
      write_json_run [of "''Content-Type''" "''application/json''" out ?w3]
    by (simp add: TxReceiverHandler_def andThen_ok Let_def)
  moreover have "tx_Status t' = TX_STATUS_PENDING"
    using s'(2) by (auto simp: stamp_tx_def assms(6) NewPendingTx_def AssignHash_def Let_def)
  ultimately show ?thesis using s'(2,3) w2(3) out assms(4)
    by (cases readable) (auto simp: first_status_def StatusOK_def StatusBadRequest_def)
qed

definition ex_rest :: rest_libs where
  "ex_rest = \<lparr>rl_Unmarshal = (\<lambda>b r. if b = [] then (Some (ErrMsg ''EOF''), r) else (None, r\<lparr>tr_Message := b\<rparr>)),
     rl_MarshalTx = (\<lambda>t. Inr (tx_Data t)), rl_MarshalState = (\<lambda>u. Inr (us_Data u)), rl_MarshalError = (\<lambda>e. Inr [1]),
     rl_ParseUint = (\<lambda>s. Inl ErrSyntax), rl_Error = (\<lambda>e. ''error'')\<rparr>"

theorem every_request_inserts_witness:
  "\<exists>w' t'. TxReceiverHandler ex_rest ref_libs tx_Data mem_gorm (Inr [])
       \<lparr>wb_db = empty_tables, wb_header = Map.empty, wb_status = None, wb_body = []\<rparr> = (Ok (), w') \<and>
     wb_status w' = Some 400 \<and> txes (wb_db w') = [t'] \<and> tx_Status t' = TX_STATUS_PENDING"
proof -
  let ?w = "\<lparr>wb_db = empty_tables, wb_header = Map.empty, wb_status = None, wb_body = []\<rparr>"
  have r: "request ex_rest (Inr []) = (False, zero_TxReceiver)" by (simp add: request_def ex_rest_def)
  have j: "json_total ex_rest" by (simp add: json_total_def ex_rest_def)
  from every_request_inserts [OF mem_gorm_ok TrueI j _ r refl, of ?w ref_libs tx_Data] show ?thesis
    by (auto simp: StatusBadRequest_def empty_tables_def)
qed

end
