(* ===== verification/Config.thy ===== *)
theory Config
  imports Genesis Db_Connection
begin

text \<open>
  \<open>config/config.go\<close>, \<open>cmd/init.go\<close> and the configuration part of \<open>cmd/start.go\<close> and
  \<open>core/db.go\<close>: the configuration with the operator's keys.  The curve, the TOML text and
  \<open>viper\<close> are libraries.
\<close>

section \<open>The configuration\<close>

record Configuration =
  cf_DB :: string
  cf_DBURL :: string
  cf_Trace :: bool
  cf_DBLogMode :: bool
  cf_EthRPC :: string
  cf_PollingInterval :: int
  cf_TxsPerBatch :: u64
  cf_ServerPort :: string
  cf_ConfirmationBlocks :: u64
  cf_RollupAddress :: string
  cf_LoggerAddress :: string
  cf_FrontendAddress :: string
  cf_OperatorKey :: string
  cf_OperatorAddress :: string
  cf_LastRecordedBlock :: string

definition DATABASENAME :: string where "DATABASENAME = ''hubble''"
definition DefaultDB :: string where "DefaultDB = ''mysql''"
definition DefaultDbUrlPrefix :: string where "DefaultDbUrlPrefix = ''mysql://root:root@(localhost:3306)''"
definition DefaultEthRPC :: string where "DefaultEthRPC = ''http://localhost:8545''"
definition DefaultPollingInterval :: int where "DefaultPollingInterval = 5 * 10 ^ 9"
definition DefaultSeverPort :: string where "DefaultSeverPort = ''8080''"
definition DefaultConfirmationBlocks :: u64 where "DefaultConfirmationBlocks = 5"

text \<open>
  Private keys \<open>'k\<close> of the curve: a new one from the random source, the bytes of a key and
  back (\<open>ToECDSAUnsafe\<close> does not fail), the public key if it has the type that is asked for,
  the address of a public key \<open>'p\<close>, and its text.
\<close>

record ('k, 'p) ecdsa =
  ec_GenerateKey :: "go_error + 'k"
  ec_FromECDSA :: "'k \<Rightarrow> bytes"
  ec_ToECDSAUnsafe :: "bytes \<Rightarrow> 'k"
  ec_Public :: "'k \<Rightarrow> 'p option"
  ec_PubkeyToAddress :: "'p \<Rightarrow> bytes"
  ec_AddressString :: "bytes \<Rightarrow> string"

definition GetDBURL :: string where
  "GetDBURL = (let values = [DefaultDbUrlPrefix, ''/'', DATABASENAME] in concat values)"

definition GetDefaultConfig :: "('k, 'p) ecdsa \<Rightarrow> Configuration" where
  "GetDefaultConfig E =
    (let zero_address = ec_AddressString E (replicate 20 0) in
     \<lparr>cf_DB = DefaultDB, cf_DBURL = GetDBURL, cf_Trace = False, cf_DBLogMode = True, cf_EthRPC = DefaultEthRPC,
      cf_PollingInterval = DefaultPollingInterval, cf_TxsPerBatch = 2, cf_ServerPort = DefaultSeverPort,
      cf_ConfirmationBlocks = DefaultConfirmationBlocks, cf_RollupAddress = zero_address,
      cf_LoggerAddress = zero_address, cf_FrontendAddress = zero_address, cf_OperatorKey = '''',
      cf_OperatorAddress = '''', cf_LastRecordedBlock = ''0''\<rparr>)"

text \<open>
  \<open>regexp.MustCompile(`[a-z0-9]+://`).Split(url, 2)\<close>: the text before the leftmost match
  and, if there is one, the text after it.
\<close>

definition url_class :: "char \<Rightarrow> bool" where
  "url_class c \<longleftrightarrow> of_char c \<in> {97..122 :: nat} \<union> {48..57}"

definition scheme_at :: "string \<Rightarrow> string option" where
  "scheme_at u = (let k = takeWhile url_class u; r = dropWhile url_class u in
     if k \<noteq> [] \<and> take 3 r = ''://'' then Some (drop 3 r) else None)"

fun split_scheme :: "string \<Rightarrow> string list" where
  "split_scheme [] = [[]]"
| "split_scheme (c # cs) = (case scheme_at (c # cs) of
     Some rest \<Rightarrow> [[], rest]
   | None \<Rightarrow> (case split_scheme cs of a # b \<Rightarrow> (c # a) # b | [] \<Rightarrow> [[c]]))"

definition FormattedDBURL :: "Configuration \<Rightarrow> string" where
  "FormattedDBURL c = (let tokens = split_scheme (cf_DBURL c) in concat tokens)"

section \<open>Reading and writing\<close>

text \<open>\<open>viper\<close>: reading the file of a name in a directory, and decoding what was read.\<close>

record 'v viper =
  vp_ReadInConfig :: "string \<Rightarrow> string \<Rightarrow> go_error + 'v"
  vp_Unmarshal :: "'v \<Rightarrow> go_error + Configuration"
  vp_UnmarshalExact :: "'v \<Rightarrow> go_error + Configuration"

definition ParseConfig :: "'v viper \<Rightarrow> string \<Rightarrow> Configuration res" where
  "ParseConfig V path = (case vp_ReadInConfig V ''config'' (if path = '''' then ''.'' else path) of
     Inl err \<Rightarrow> Err err
   | Inr v \<Rightarrow> (case vp_Unmarshal V v of Inl err \<Rightarrow> Err err | Inr conf \<Rightarrow> Ok conf))"

text \<open>The global variables of the package.\<close>

record ('k, 'p) config_globals =
  gl_GlobalCfg :: Configuration
  gl_OperatorKey :: "'k option"
  gl_OperatorPubKey :: "'p option"
  gl_OperatorAddress :: bytes

definition ParseAndInitGlobalConfig :: "'v viper \<Rightarrow> string \<Rightarrow> (('k, 'p) config_globals, unit) prog" where
  "ParseAndInitGlobalConfig V path =
    andThen (lift (ParseConfig V path)) (\<lambda>conf gl. (Ok (), gl\<lparr>gl_GlobalCfg := conf\<rparr>))"

definition SetOperatorKeys :: "('k, 'p) ecdsa \<Rightarrow> string \<Rightarrow> (('k, 'p) config_globals, unit) prog" where
  "SetOperatorKeys E privKeyStr = (\<lambda>gl. case hex_DecodeString privKeyStr of
     Inl err \<Rightarrow> (Err (ErrHex err), gl)
   | Inr privKeyBytes \<Rightarrow>
      (let key = ec_ToECDSAUnsafe E privKeyBytes; gl = gl\<lparr>gl_OperatorKey := Some key\<rparr> in
       case ec_Public E key of
         None \<Rightarrow> (Err (ErrMsg ''cannot assert type: publicKey is not of type *ecdsa.PublicKey''), gl)
       | Some pubKey \<Rightarrow> (Ok (), gl\<lparr>gl_OperatorPubKey := Some pubKey, gl_OperatorAddress := ec_PubkeyToAddress E pubKey\<rparr>)))"

definition GenOperatorKey :: "('k, 'p) ecdsa \<Rightarrow> bytes res" where
  "GenOperatorKey E = (case ec_GenerateKey E of Inl err \<Rightarrow> Err err | Inr privKey \<Rightarrow> Ok (ec_FromECDSA E privKey))"

definition PrivKeyStringToAddress :: "('k, 'p) ecdsa \<Rightarrow> string \<Rightarrow> bytes res" where
  "PrivKeyStringToAddress E privKey = (case hex_DecodeString privKey of
     Inl err \<Rightarrow> Err (ErrHex err)
   | Inr privKeyBytes \<Rightarrow>
      (let key = ec_ToECDSAUnsafe E privKeyBytes in
       case ec_Public E key of
         None \<Rightarrow> Err (ErrMsg ''cannot assert type: publicKey is not of type *ecdsa.PublicKey'')
       | Some pubKey \<Rightarrow> Ok (ec_PubkeyToAddress E pubKey)))"

section \<open>The commands\<close>

text \<open>
  \<open>init\<close>: writing the files is \<open>write_config\<close>, which panics itself when it fails, and
  \<open>write_genesis\<close>.
\<close>

definition InitCmd :: "('k, 'p) ecdsa \<Rightarrow> (Configuration \<Rightarrow> ('s, unit) prog) \<Rightarrow> (json \<Rightarrow> 's \<Rightarrow> go_error option \<times> 's) \<Rightarrow>
    ('s, unit) prog" where
  "InitCmd E write_config write_genesis =
    (let defaultConfig = GetDefaultConfig E in
     andThen (orPanic (lift (GenOperatorKey E))) (\<lambda>operatorKey.
     let defaultConfig = defaultConfig\<lparr>cf_OperatorKey := hex_EncodeToString operatorKey\<rparr> in
     andThen (orPanic (lift (PrivKeyStringToAddress E (hex_EncodeToString operatorKey)))) (\<lambda>address.
     let defaultConfig = defaultConfig\<lparr>cf_OperatorAddress := ec_AddressString E address\<rparr> in
     andThen (write_config defaultConfig) (\<lambda>_.
     let gen = DefaultGenesis in
       orPanic (db_write (write_genesis (json_Genesis gen)))))))"

text \<open>\<open>dir\<close> is the working directory.\<close>

definition readAndInitGlobalConfig :: "('k, 'p) ecdsa \<Rightarrow> 'v viper \<Rightarrow> string \<Rightarrow> (('k, 'p) config_globals, unit) prog" where
  "readAndInitGlobalConfig E V dir = (case vp_ReadInConfig V ''config'' dir of
     Inl err \<Rightarrow> lift (Panic (PanicErr err))
   | Inr v \<Rightarrow> (case vp_UnmarshalExact V v of
       Inl err \<Rightarrow> lift (Panic (PanicErr err))
     | Inr cfg \<Rightarrow> (\<lambda>gl. orPanic (SetOperatorKeys E (cf_OperatorKey cfg)) (gl\<lparr>gl_GlobalCfg := cfg\<rparr>))))"

text \<open>\<open>core.NewDB\<close>: \<open>open'\<close> is \<open>gorm.Open\<close> with the type and the address of the database.\<close>

definition NewDB :: "'v viper \<Rightarrow> (string \<Rightarrow> string \<Rightarrow> go_error + 'db) \<Rightarrow> (('k, 'p) config_globals, 'db) prog" where
  "NewDB V open' =
    andThen (ParseAndInitGlobalConfig V '''') (\<lambda>_ gl.
      case open' (cf_DB (gl_GlobalCfg gl)) (FormattedDBURL (gl_GlobalCfg gl)) of
        Inl err \<Rightarrow> (Err err, gl) | Inr db \<Rightarrow> (Ok db, gl))"

section \<open>Lemmas\<close>

lemma scheme_at_scheme:
  assumes "list_all url_class sch" "sch \<noteq> []"
  shows "scheme_at (sch @ ''://'' @ rest) = Some rest"
proof -
  have "\<not> url_class (CHR '':'')" by (simp add: url_class_def)
  with assms show ?thesis
    by (simp add: scheme_at_def list_all_iff takeWhile_append2 dropWhile_append2)
qed

lemma scheme_at_sub:
  assumes "scheme_at u = Some r" shows "\<exists>a. u = a @ ''://'' @ r"
proof -
  have "take 3 (dropWhile url_class u) = ''://''" "drop 3 (dropWhile url_class u) = r"
    using assms by (auto simp: scheme_at_def Let_def split: if_splits)
  then have "dropWhile url_class u = ''://'' @ r" by (metis append_take_drop_id)
  then show ?thesis by (metis takeWhile_dropWhile_id)
qed

lemma split_scheme_none:
  "(\<And>a b. u \<noteq> a @ ''://'' @ b) \<Longrightarrow> split_scheme u = [u]"
proof (induction u)
  case (Cons c cs)
  have "scheme_at (c # cs) = None" using scheme_at_sub [of "c # cs"] Cons.prems by (cases "scheme_at (c # cs)") auto
  moreover have "split_scheme cs = [cs]"
  proof (rule Cons.IH)
    fix a b show "cs \<noteq> a @ ''://'' @ b" using Cons.prems [of "c # a" b] by auto
  qed
  ultimately show ?case by simp
qed simp

text \<open>What the library documents of the curve: a key is read back from its bytes, and public keys have their type.\<close>

definition ecdsa_ok :: "('k, 'p) ecdsa \<Rightarrow> bool" where
  "ecdsa_ok E \<longleftrightarrow> (\<forall>k. ec_ToECDSAUnsafe E (ec_FromECDSA E k) = k) \<and> (\<forall>k. \<exists>p. ec_Public E k = Some p)"

section \<open>Properties\<close>

text \<open>
  The address of the database is the configured URL without its scheme: only the first
  one is taken off, and a URL without one is left as it is.
\<close>

theorem FormattedDBURL_strips_scheme:
  "(list_all url_class sch \<and> sch \<noteq> [] \<and> cf_DBURL c = sch @ ''://'' @ rest \<longrightarrow> FormattedDBURL c = rest) \<and>
   ((\<forall>a b. cf_DBURL c \<noteq> a @ ''://'' @ b) \<longrightarrow> FormattedDBURL c = cf_DBURL c)"
proof (intro conjI impI; (elim conjE)?)
  assume a: "list_all url_class sch" "sch \<noteq> []" "cf_DBURL c = sch @ ''://'' @ rest"
  then obtain d ds where u: "cf_DBURL c = d # ds" by (cases sch) auto
  then have "scheme_at (d # ds) = Some rest" using scheme_at_scheme [OF a(1,2), of rest] a(3) by metis
  then show "FormattedDBURL c = rest" by (simp add: FormattedDBURL_def u)
next
  assume "\<forall>a b. cf_DBURL c \<noteq> a @ ''://'' @ b"
  then show "FormattedDBURL c = cf_DBURL c" using split_scheme_none [of "cf_DBURL c"] by (simp add: FormattedDBURL_def)
qed

definition ex_ecdsa :: "(byte, byte) ecdsa" where
  "ex_ecdsa = \<lparr>ec_GenerateKey = Inr 7, ec_FromECDSA = (\<lambda>k. [k]), ec_ToECDSAUnsafe = hd, ec_Public = Some,
     ec_PubkeyToAddress = (\<lambda>p. replicate 20 p), ec_AddressString = hex_EncodeToString\<rparr>"

theorem FormattedDBURL_strips_scheme_witness:
  "FormattedDBURL (GetDefaultConfig ex_ecdsa) = ''root:root@(localhost:3306)/hubble''"
  using FormattedDBURL_strips_scheme [of "''mysql''" "GetDefaultConfig ex_ecdsa" "''root:root@(localhost:3306)/hubble''"]
  by (simp add: GetDefaultConfig_def GetDBURL_def DefaultDbUrlPrefix_def DATABASENAME_def url_class_def Let_def)

text \<open>What \<open>init\<close> does with a fresh key: the configuration it writes, then the genesis.\<close>

definition init_config :: "('k, 'p) ecdsa \<Rightarrow> 'k \<Rightarrow> 'p \<Rightarrow> Configuration" where
  "init_config E k p = (GetDefaultConfig E)\<lparr>cf_OperatorKey := hex_EncodeToString (ec_FromECDSA E k),
     cf_OperatorAddress := ec_AddressString E (ec_PubkeyToAddress E p)\<rparr>"

lemma InitCmd_run:
  assumes "ecdsa_ok E" "ec_GenerateKey E = Inr k" "ec_Public E k = Some p"
  shows "InitCmd E write_config write_genesis s =
    andThen (write_config (init_config E k p)) (\<lambda>_. orPanic (db_write (write_genesis (json_Genesis DefaultGenesis)))) s"
proof -
  have k: "ec_ToECDSAUnsafe E (ec_FromECDSA E k) = k" using assms(1) by (simp add: ecdsa_ok_def)
  then have "PrivKeyStringToAddress E (hex_EncodeToString (ec_FromECDSA E k)) = Ok (ec_PubkeyToAddress E p)"
    by (simp add: PrivKeyStringToAddress_def hex_roundtrip assms(3))
  then show ?thesis
    by (simp add: InitCmd_def GenOperatorKey_def assms(2) andThen_ok orPanic_ok init_config_def Let_def)
qed

lemma SetOperatorKeys_init:
  assumes "ecdsa_ok E" "ec_Public E k = Some p"
  shows "\<exists>gl'. SetOperatorKeys E (cf_OperatorKey (init_config E k p)) gl = (Ok (), gl') \<and> gl_GlobalCfg gl' = gl_GlobalCfg gl \<and>
    gl_OperatorKey gl' = Some k \<and> gl_OperatorPubKey gl' = Some p \<and> gl_OperatorAddress gl' = ec_PubkeyToAddress E p"
  using assms by (simp add: SetOperatorKeys_def hex_roundtrip init_config_def ecdsa_ok_def Let_def)

text \<open>
  What \<open>init\<close> writes is a configuration that the start command can use: from the key in
  it the operator's address is the address in it, and it is the default one otherwise.
\<close>

theorem init_config_usable:
  assumes "ecdsa_ok E" "ec_GenerateKey E = Inr k" "write_config = (\<lambda>c s. (Ok (), f c s))"
    and "InitCmd E write_config write_genesis s = (Ok (), s')"
  shows "\<exists>c a. fst (write_genesis (json_Genesis DefaultGenesis) (f c s)) = None \<and> s' = snd (write_genesis (json_Genesis DefaultGenesis) (f c s)) \<and>
    c = (GetDefaultConfig E)\<lparr>cf_OperatorKey := hex_EncodeToString (ec_FromECDSA E k), cf_OperatorAddress := ec_AddressString E a\<rparr> \<and>
    (\<forall>gl. \<exists>gl'. SetOperatorKeys E (cf_OperatorKey c) gl = (Ok (), gl') \<and> gl_OperatorKey gl' = Some k \<and> gl_OperatorAddress gl' = a)"
proof -
  obtain p where p: "ec_Public E k = Some p" using assms(1) unfolding ecdsa_ok_def by blast
  have "InitCmd E write_config write_genesis s =
      orPanic (db_write (write_genesis (json_Genesis DefaultGenesis))) (f (init_config E k p) s)"
    unfolding InitCmd_run [OF assms(1,2) p] by (simp add: assms(3) andThen_ok)
  then have w: "fst (write_genesis (json_Genesis DefaultGenesis) (f (init_config E k p) s)) = None"
      "s' = snd (write_genesis (json_Genesis DefaultGenesis) (f (init_config E k p) s))"
    using assms(4) by (auto simp: orPanic_def db_write_def split: prod.splits option.splits)
  have "init_config E k p = (GetDefaultConfig E)\<lparr>cf_OperatorKey := hex_EncodeToString (ec_FromECDSA E k),
      cf_OperatorAddress := ec_AddressString E (ec_PubkeyToAddress E p)\<rparr>" by (simp add: init_config_def)
  with w SetOperatorKeys_init [OF assms(1) p] show ?thesis
    by (intro exI [of _ "init_config E k p"] exI [of _ "ec_PubkeyToAddress E p"]) blast
qed

theorem init_config_usable_witness:
  "\<exists>s'. InitCmd ex_ecdsa (\<lambda>c s. (Ok (), s @ [c])) (\<lambda>j s. (None, s)) [] = (Ok (), s') \<and>
     map cf_OperatorAddress s' = [hex_EncodeToString (replicate 20 7)]"
proof -
  have e: "ecdsa_ok ex_ecdsa" "ec_GenerateKey ex_ecdsa = Inr 7" by (simp_all add: ecdsa_ok_def ex_ecdsa_def)
  have run: "\<exists>s'. InitCmd ex_ecdsa (\<lambda>c s. (Ok (), s @ [c])) (\<lambda>j s. (None, s)) [] = (Ok (), s')"
    by (simp add: InitCmd_def GenOperatorKey_def PrivKeyStringToAddress_def ex_ecdsa_def hex_roundtrip andThen_def orPanic_def
      db_write_def Let_def)
  then obtain s' where s': "InitCmd ex_ecdsa (\<lambda>c s. (Ok (), s @ [c])) (\<lambda>j s. (None, s)) [] = (Ok (), s')" by blast
  obtain c a where c: "s' = [c]"
    "c = (GetDefaultConfig ex_ecdsa)\<lparr>cf_OperatorKey := hex_EncodeToString (ec_FromECDSA ex_ecdsa 7), cf_OperatorAddress := ec_AddressString ex_ecdsa a\<rparr>"
    "\<forall>gl. \<exists>gl'. SetOperatorKeys ex_ecdsa (cf_OperatorKey c) gl = (Ok (), gl') \<and> gl_OperatorAddress gl' = a"
    using init_config_usable [OF e refl s'] unfolding snd_conv append_Nil by blast
  let ?gl = "\<lparr>gl_GlobalCfg = c, gl_OperatorKey = None, gl_OperatorPubKey = None, gl_OperatorAddress = []\<rparr>"
  from c(3) obtain gl' where "SetOperatorKeys ex_ecdsa (cf_OperatorKey c) ?gl = (Ok (), gl')" "gl_OperatorAddress gl' = a" by blast
  then have "a = replicate 20 7" using c(2) by (auto simp: SetOperatorKeys_def ex_ecdsa_def hex_roundtrip Let_def)
  with s' c(1,2) show ?thesis by (simp add: ex_ecdsa_def)
qed

end
