(* ===== verification/Config_File.thy ===== *)
theory Config_File
  imports Config
begin

text \<open>
  \<open>config/toml.go\<close> and \<open>WriteConfigFile\<close> of \<open>config/config.go\<close>: the template of \<open>config.toml\<close>,
  rendered with a configuration, and the way back by the \<open>mapstructure\<close> tags of the struct.
  Reading TOML and the weakly typed decoding of texts are the libraries \<open>viper\<close> and
  \<open>mapstructure\<close>.
\<close>

section \<open>Printing values\<close>

text \<open>\<open>%v\<close> of a \<open>uint64\<close>, a \<open>bool\<close> and a \<open>time.Duration\<close>.\<close>

fun dec_digits :: "nat \<Rightarrow> string" where
  "dec_digits n = (if n < 10 then [char_of (48 + n)] else dec_digits (n div 10) @ [char_of (48 + n mod 10)])"

declare dec_digits.simps [simp del]

definition bool_text :: "bool \<Rightarrow> string" where
  "bool_text b = (if b then ''true'' else ''false'')"

text \<open>The decimals of \<open>v / 10 ^ prec\<close> behind the point, without trailing zeros and then without the point.\<close>

definition frac_text :: "nat \<Rightarrow> nat \<Rightarrow> string" where
  "frac_text v prec =
    (let ds = map (\<lambda>i. char_of (48 + v div 10 ^ (prec - 1 - i) mod 10)) [0..<prec];
         ds = rev (dropWhile (\<lambda>c. c = CHR ''0'') (rev ds))
     in if ds = [] then [] else CHR ''.'' # ds)"

definition Duration_String :: "int \<Rightarrow> string" where
  "Duration_String d =
    (let u = nat \<bar>d\<bar>; secs = u div 10 ^ 9;
         body = (if u = 0 then ''0s''
           else if u < 10 ^ 3 then dec_digits u @ ''ns''
           else if u < 10 ^ 6 then dec_digits (u div 10 ^ 3) @ frac_text (u mod 10 ^ 3) 3 @ [CHR 0xC2, CHR 0xB5, CHR ''s'']
           else if u < 10 ^ 9 then dec_digits (u div 10 ^ 6) @ frac_text (u mod 10 ^ 6) 6 @ ''ms''
           else (if 3600 \<le> secs then dec_digits (secs div 3600) @ ''h'' else '''') @
             (if 60 \<le> secs then dec_digits (secs div 60 mod 60) @ ''m'' else '''') @
             dec_digits (secs mod 60) @ frac_text (u mod 10 ^ 9) 9 @ ''s'')
     in if d < 0 then CHR ''-'' # body else body)"

section \<open>The template\<close>

text \<open>A line of the file: a comment or an empty line, or a key with a quoted value.\<close>

datatype toml_item = Remark string | Entry string string

definition newline :: string where
  "newline = [CHR 0x0A]"

fun item_text :: "toml_item \<Rightarrow> string" where
  "item_text (Remark t) = t @ newline"
| "item_text (Entry k v) = k @ '' = '' @ [CHR 0x22] @ v @ [CHR 0x22] @ newline"

definition items_text :: "toml_item list \<Rightarrow> string" where
  "items_text items = concat (map item_text items)"

definition defaultConfigTemplate :: "Configuration \<Rightarrow> toml_item list" where
  "defaultConfigTemplate c = [
     Remark ''# This is a TOML config file.'',
     Remark '''',
     Remark ''##### RPC configrations #####'',
     Remark ''# RPC endpoint for ethereum chain'',
     Entry ''eth_RPC_URL'' (cf_EthRPC c),
     Remark '''',
     Remark ''##### DB configrations #####'',
     Entry ''db_type'' (cf_DB c),
     Entry ''db_url'' (cf_DBURL c),
     Entry ''trace'' (bool_text (cf_Trace c)),
     Entry ''db_log_mode'' (bool_text (cf_DBLogMode c)),
     Remark '''',
     Remark ''##### Server configrations #####'',
     Entry ''server_port'' (cf_ServerPort c),
     Entry ''polling_interval'' (Duration_String (cf_PollingInterval c)),
     Entry ''txs_per_batch'' (dec_digits (unat (cf_TxsPerBatch c))),
     Remark '''',
     Remark ''#### Keystore #####'',
     Entry ''operator_key'' (cf_OperatorKey c),
     Entry ''operator_address'' (cf_OperatorAddress c),
     Remark '''',
     Remark ''#### Syncer settings #####'',
     Entry ''last_recorded_block'' (cf_LastRecordedBlock c),
     Entry ''confirmation_blocks'' (dec_digits (unat (cf_ConfirmationBlocks c))),
     Remark '''',
     Remark ''##### Contract Addresses #####'',
     Entry ''rollup_address'' (cf_RollupAddress c),
     Entry ''logger_address'' (cf_LoggerAddress c),
     Entry ''frontend_address'' (cf_FrontendAddress c)]"

text \<open>\<open>must_write\<close> is \<open>cmn.MustWriteFile\<close>.  The template is well formed, so that \<open>Execute\<close> does not fail.\<close>

definition WriteConfigFile :: "(string \<Rightarrow> string \<Rightarrow> ('s, unit) prog) \<Rightarrow> string \<Rightarrow> Configuration \<Rightarrow> ('s, unit) prog" where
  "WriteConfigFile must_write configFilePath config =
    (let buffer = items_text (defaultConfigTemplate config) in must_write configFilePath buffer)"

section \<open>Decoding by the tags\<close>

text \<open>How the decoder reads a bool, a \<open>uint64\<close> and a duration from a text.\<close>

record weak =
  wk_bool :: "string \<Rightarrow> go_error + bool"
  wk_uint :: "string \<Rightarrow> go_error + u64"
  wk_duration :: "string \<Rightarrow> go_error + int"

text \<open>
  \<open>viper\<close> keeps its keys in lower case and \<open>mapstructure\<close> compares them with the tags without
  case.  A key that is missing leaves the zero value; one that no tag has is an error of
  \<open>UnmarshalExact\<close>.
\<close>

definition fold_key :: "string \<Rightarrow> string" where
  "fold_key k = map lower k"

definition tag_string :: "(string \<rightharpoonup> string) \<Rightarrow> string \<Rightarrow> string" where
  "tag_string m k = (case m (fold_key k) of None \<Rightarrow> '''' | Some v \<Rightarrow> v)"

definition tag_with :: "(string \<Rightarrow> go_error + 'a) \<Rightarrow> 'a \<Rightarrow> (string \<rightharpoonup> string) \<Rightarrow> string \<Rightarrow> 'a res" where
  "tag_with rd z m k = (case m (fold_key k) of None \<Rightarrow> Ok z | Some v \<Rightarrow> (case rd v of Inl e \<Rightarrow> Err e | Inr a \<Rightarrow> Ok a))"

definition config_tags :: "string list" where
  "config_tags = [''db_type'', ''db_url'', ''trace'', ''db_log_mode'', ''eth_RPC_URL'', ''polling_interval'', ''txs_per_batch'',
     ''server_port'', ''confirmation_blocks'', ''rollup_address'', ''logger_address'', ''frontend_address'', ''operator_key'',
     ''operator_address'', ''last_recorded_block'']"

definition set_Configuration :: "weak \<Rightarrow> bool \<Rightarrow> (string \<rightharpoonup> string) \<Rightarrow> Configuration res" where
  "set_Configuration W exact m =
    res_bind (tag_with (wk_bool W) False m ''trace'') (\<lambda>trace.
    res_bind (tag_with (wk_bool W) False m ''db_log_mode'') (\<lambda>logMode.
    res_bind (tag_with (wk_duration W) 0 m ''polling_interval'') (\<lambda>interval.
    res_bind (tag_with (wk_uint W) 0 m ''txs_per_batch'') (\<lambda>txs.
    res_bind (tag_with (wk_uint W) 0 m ''confirmation_blocks'') (\<lambda>blocks.
      if exact \<and> \<not> dom m \<subseteq> fold_key ` set config_tags then Err (ErrMsg ''has invalid keys'')
      else Ok \<lparr>cf_DB = tag_string m ''db_type'', cf_DBURL = tag_string m ''db_url'', cf_Trace = trace, cf_DBLogMode = logMode,
        cf_EthRPC = tag_string m ''eth_RPC_URL'', cf_PollingInterval = interval, cf_TxsPerBatch = txs,
        cf_ServerPort = tag_string m ''server_port'', cf_ConfirmationBlocks = blocks,
        cf_RollupAddress = tag_string m ''rollup_address'', cf_LoggerAddress = tag_string m ''logger_address'',
        cf_FrontendAddress = tag_string m ''frontend_address'', cf_OperatorKey = tag_string m ''operator_key'',
        cf_OperatorAddress = tag_string m ''operator_address'', cf_LastRecordedBlock = tag_string m ''last_recorded_block''\<rparr>)))))"

definition decode_config :: "weak \<Rightarrow> bool \<Rightarrow> (string \<rightharpoonup> string) \<Rightarrow> go_error + Configuration" where
  "decode_config W exact m = (case set_Configuration W exact m of Ok c \<Rightarrow> Inr c | Err e \<Rightarrow> Inl e | Panic _ \<Rightarrow> Inl (ErrMsg []))"

section \<open>What is documented of the libraries\<close>

text \<open>
  TOML, as far as the template uses it: comment lines and empty lines are skipped, and a line
  with a bare key and a basic string without escapes sets the key, which \<open>viper\<close> puts in
  lower case, to that string.
\<close>

definition bare_key :: "string \<Rightarrow> bool" where
  "bare_key k \<longleftrightarrow> k \<noteq> [] \<and> (\<forall>c \<in> set k. of_char c \<in> {48..57 :: nat} \<union> {65..90} \<union> {97..122} \<union> {45, 95})"

definition plain_value :: "string \<Rightarrow> bool" where
  "plain_value v \<longleftrightarrow> (\<forall>c \<in> set v. of_char c \<in> {32..126 :: nat} - {34, 92})"

fun item_ok :: "toml_item \<Rightarrow> bool" where
  "item_ok (Remark t) \<longleftrightarrow> (t = [] \<or> hd t = CHR ''#'') \<and> (\<forall>c \<in> set t. of_char c \<in> {32..126 :: nat})"
| "item_ok (Entry k v) \<longleftrightarrow> bare_key k \<and> plain_value v"

fun entries :: "toml_item list \<Rightarrow> (string \<times> string) list" where
  "entries [] = []"
| "entries (Remark t # items) = entries items"
| "entries (Entry k v # items) = (k, v) # entries items"

definition folded :: "toml_item list \<Rightarrow> (string \<times> string) list" where
  "folded items = map (\<lambda>(k, v). (fold_key k, v)) (entries items)"

definition toml_ok :: "(string \<Rightarrow> go_error + (string \<rightharpoonup> string)) \<Rightarrow> bool" where
  "toml_ok parse \<longleftrightarrow> (\<forall>items. list_all item_ok items \<and> distinct (map fst (folded items)) \<longrightarrow>
     parse (items_text items) = Inr (map_of (folded items)))"

text \<open>The weak decoding reads what \<open>%v\<close> prints, here of every bool and number and of the duration \<open>d\<close>.\<close>

definition weak_ok :: "weak \<Rightarrow> int \<Rightarrow> bool" where
  "weak_ok W d \<longleftrightarrow> (\<forall>b. wk_bool W (bool_text b) = Inr b) \<and> (\<forall>n. wk_uint W (dec_digits (unat n)) = Inr n) \<and>
     wk_duration W (Duration_String d) = Inr d"

section \<open>Lemmas\<close>

lemma fold_key_tags:
  "fold_key ''eth_RPC_URL'' = ''eth_rpc_url''"
  "k \<in> set config_tags \<Longrightarrow> k \<noteq> ''eth_RPC_URL'' \<Longrightarrow> fold_key k = k"
  by (auto simp: config_tags_def fold_key_def lower_def char_of_def bit_0)

lemmas fold_tag = fold_key_tags(1) fold_key_tags(2) [unfolded config_tags_def]

lemma entries_template:
  "folded (defaultConfigTemplate c) = [(''eth_rpc_url'', cf_EthRPC c), (''db_type'', cf_DB c), (''db_url'', cf_DBURL c),
     (''trace'', bool_text (cf_Trace c)), (''db_log_mode'', bool_text (cf_DBLogMode c)), (''server_port'', cf_ServerPort c),
     (''polling_interval'', Duration_String (cf_PollingInterval c)), (''txs_per_batch'', dec_digits (unat (cf_TxsPerBatch c))),
     (''operator_key'', cf_OperatorKey c), (''operator_address'', cf_OperatorAddress c),
     (''last_recorded_block'', cf_LastRecordedBlock c), (''confirmation_blocks'', dec_digits (unat (cf_ConfirmationBlocks c))),
     (''rollup_address'', cf_RollupAddress c), (''logger_address'', cf_LoggerAddress c),
     (''frontend_address'', cf_FrontendAddress c)]"
  by (simp add: folded_def defaultConfigTemplate_def fold_tag)

lemma set_Configuration_template:
  assumes "weak_ok W (cf_PollingInterval c)"
  shows "set_Configuration W exact (map_of (folded (defaultConfigTemplate c))) = Ok c"
proof -
  have "dom (map_of (folded (defaultConfigTemplate c))) \<subseteq> fold_key ` set config_tags"
    by (simp add: entries_template dom_map_of_conv_image_fst config_tags_def fold_tag)
  with assms show ?thesis
    by (simp add: set_Configuration_def weak_ok_def tag_with_def tag_string_def entries_template fold_tag)
qed

lemma dec_digits_plain: "plain_value (dec_digits n)"
proof (induction n rule: dec_digits.induct)
  case (1 n)
  have d: "plain_value [char_of (48 + k)]" if "k < 10" for k :: nat
    using that by (auto simp: plain_value_def of_char_of)
  show ?case
  proof (cases "n < 10")
    case True
    with d [of n] show ?thesis by (subst dec_digits.simps) simp
  next
    case False
    with 1 d [of "n mod 10"] show ?thesis by (subst dec_digits.simps) (auto simp: plain_value_def)
  qed
qed

lemma hex_plain: "plain_value (hex_EncodeToString b)"
proof -
  have "\<forall>n \<in> set [0..<16]. plain_value [hex_digit n]"
    by (simp add: upt_rec hex_digit_def plain_value_def)
  then have d: "plain_value [hex_digit n]" if "n < 16" for n using that by simp
  have "unat x < 2 ^ LENGTH(8)" for x :: byte by (rule unsigned_less)
  then have "unat x div 16 < 16" for x :: byte by (simp add: less_mult_imp_div_less)
  then have "plain_value [hex_digit (unat x div 16), hex_digit (unat x mod 16)]" for x :: byte
    using d [of "unat x div 16"] d [of "unat x mod 16"] by (simp add: plain_value_def)
  then show ?thesis by (induction b) (simp_all add: hex_EncodeToString_def plain_value_def ball_Un)
qed

lemma Duration_String_default: "Duration_String DefaultPollingInterval = ''5s''"
proof -
  have "char_of (53 :: nat) = CHR ''5''" by (simp add: char_of_def bit_0)
  then show ?thesis
    by (simp add: Duration_String_def DefaultPollingInterval_def Let_def frac_text_def dec_digits.simps upt_rec)
qed

lemma bool_plain: "plain_value (bool_text b)"
  by (simp add: bool_text_def plain_value_def)

lemma items_ok_init:
  assumes "\<And>a. plain_value (ec_AddressString E a)"
  shows "list_all item_ok (defaultConfigTemplate (init_config E k p))"
    and "distinct (map fst (folded (defaultConfigTemplate c)))"
proof -
  have s: "plain_value ''5s''" "plain_value DefaultEthRPC" "plain_value DefaultDB" "plain_value GetDBURL" "plain_value DefaultSeverPort"
    "plain_value ''0''"
    by (simp_all add: plain_value_def DefaultEthRPC_def DefaultDB_def GetDBURL_def DefaultDbUrlPrefix_def DATABASENAME_def
      DefaultSeverPort_def)
  show "list_all item_ok (defaultConfigTemplate (init_config E k p))"
    by (simp add: defaultConfigTemplate_def init_config_def GetDefaultConfig_def Let_def Duration_String_default
      hex_plain bool_plain dec_digits_plain assms s) (simp add: bare_key_def)
  show "distinct (map fst (folded (defaultConfigTemplate c)))"
    by (simp add: entries_template)
qed

section \<open>A reference reader\<close>

text \<open>A reader of such lines that meets \<open>toml_ok\<close>, and a weak decoder, for the witness.\<close>

function ref_lines :: "string \<Rightarrow> string list" where
  "ref_lines [] = []"
| "ref_lines (c # cs) = takeWhile (\<lambda>x. x \<noteq> CHR 0x0A) (c # cs) #
     ref_lines (drop 1 (dropWhile (\<lambda>x. x \<noteq> CHR 0x0A) (c # cs)))"
  by pat_completeness auto
termination
  by (relation "measure length") (auto simp: less_Suc_eq_le intro: le_trans [OF diff_le_self length_dropWhile_le])

definition ref_entry :: "string \<Rightarrow> (string \<times> string) list" where
  "ref_entry l = (if l = [] \<or> hd l = CHR ''#'' then []
     else [(takeWhile (\<lambda>c. c \<noteq> CHR '' '') l, takeWhile (\<lambda>c. c \<noteq> CHR 0x22) (drop 4 (dropWhile (\<lambda>c. c \<noteq> CHR '' '') l)))])"

definition ref_toml :: "string \<Rightarrow> go_error + (string \<rightharpoonup> string)" where
  "ref_toml t = Inr (map_of (map (\<lambda>(k, v). (fold_key k, v)) (concat (map ref_entry (ref_lines t)))))"

lemma ref_lines_line:
  assumes "CHR 0x0A \<notin> set l" shows "ref_lines (l @ newline @ r) = l # ref_lines r"
proof -
  have t: "takeWhile (\<lambda>x. x \<noteq> CHR 0x0A) (l @ newline @ r) = l" "dropWhile (\<lambda>x. x \<noteq> CHR 0x0A) (l @ newline @ r) = newline @ r"
    using assms by (auto simp: newline_def takeWhile_append2 dropWhile_append2 takeWhile_append dropWhile_append)
  obtain c cs where c: "l @ newline @ r = c # cs" by (cases l) (auto simp: newline_def)
  show ?thesis unfolding c ref_lines.simps by (simp only: t [unfolded c]) (simp add: newline_def)
qed

lemma ref_entry_item:
  assumes "item_ok i"
  shows "\<exists>l. item_text i = l @ newline \<and> CHR 0x0A \<notin> set l \<and> ref_entry l = entries [i]"
proof (cases i)
  case (Remark t)
  with assms show ?thesis by (intro exI [of _ t]) (auto simp: ref_entry_def dest!: bspec)
next
  case (Entry k v)
  let ?l = "k @ '' = '' @ [CHR 0x22] @ v @ [CHR 0x22]"
  have k: "bare_key k" "plain_value v" using assms Entry by simp_all
  have n: "x \<notin> set k" if "x \<in> {CHR 0x0A, CHR '' '', CHR ''#''}" for x using k(1) that by (auto simp: bare_key_def)
  have "x \<notin> set v" if "x \<in> {CHR 0x0A, CHR 0x22}" for x using k(2) that by (auto simp: plain_value_def)
  moreover have ne: "k \<noteq> []" using k(1) by (simp add: bare_key_def)
  have "CHR ''#'' \<notin> set k" by (rule n) simp
  with hd_in_set [OF ne] have "hd k \<noteq> CHR ''#''" by metis
  ultimately have "CHR 0x0A \<notin> set k" "CHR 0x0A \<notin> set v" "CHR 0x22 \<notin> set v" "CHR '' '' \<notin> set k" "k \<noteq> []" "hd k \<noteq> CHR ''#''"
    using n ne by simp_all
  then have "ref_entry ?l = [(k, v)]" "CHR 0x0A \<notin> set ?l"
    by (simp_all add: ref_entry_def takeWhile_append dropWhile_append)
  with Entry show ?thesis by (intro exI [of _ ?l]) simp
qed

lemma ref_toml_ok: "toml_ok ref_toml"
proof -
  have e: "entries (i # items) = entries [i] @ entries items" for i items by (cases i) simp_all
  have "concat (map ref_entry (ref_lines (items_text items))) = entries items" if "list_all item_ok items" for items
    using that
  proof (induction items)
    case (Cons i items)
    then obtain l where l: "item_text i = l @ newline" "CHR 0x0A \<notin> set l" "ref_entry l = entries [i]"
      using ref_entry_item [of i] by auto
    have "ref_lines (items_text (i # items)) = l # ref_lines (items_text items)"
      using ref_lines_line [OF l(2)] l(1) by (simp add: items_text_def)
    with Cons l(3) show ?case by (simp add: e [of i items])
  qed (simp add: items_text_def)
  then show ?thesis by (simp add: toml_ok_def ref_toml_def folded_def)
qed

definition dec_value :: "string \<Rightarrow> nat" where
  "dec_value s = foldl (\<lambda>a c. 10 * a + (of_char c - 48)) 0 s"

lemma dec_value_digits: "dec_value (dec_digits n) = n"
proof (induction n rule: dec_digits.induct)
  case (1 n)
  show ?case
  proof (cases "n < 10")
    case True
    then show ?thesis by (subst dec_digits.simps) (simp add: dec_value_def of_char_of)
  next
    case False
    have "n mod 10 < 10" by simp
    with 1 False show ?thesis by (subst dec_digits.simps) (simp add: dec_value_def of_char_of)
  qed
qed

definition ref_weak :: weak where
  "ref_weak = \<lparr>wk_bool = (\<lambda>t. Inr (t = ''true'')), wk_uint = (\<lambda>t. Inr (of_nat (dec_value t))),
     wk_duration = (\<lambda>t. if t = ''5s'' then Inr (5 * 10 ^ 9) else Inl (ErrMsg ''duration''))\<rparr>"

lemma ref_weak_ok: "weak_ok ref_weak DefaultPollingInterval"
  unfolding weak_ok_def Duration_String_default
  by (simp add: ref_weak_def bool_text_def dec_value_digits DefaultPollingInterval_def)

section \<open>What init leaves\<close>

text \<open>
  The file that \<open>init\<close> writes is read back as the configuration that it was written from, by
  the strict decoding and by the other one.  The genesis file has another name.
\<close>

lemma init_then_read:
  fixes s :: "string \<rightharpoonup> string"
  assumes "ecdsa_ok E" "ec_GenerateKey E = Inr k" "\<And>a. plain_value (ec_AddressString E a)"
    and "toml_ok parse" "weak_ok W DefaultPollingInterval"
    and "must_write = (\<lambda>p b fs. (Ok (), fs(p \<mapsto> b)))"
    and "\<And>j fs. snd (write_genesis j fs) ''./config.toml'' = fs ''./config.toml''"
    and "InitCmd E (WriteConfigFile must_write ''./config.toml'') write_genesis s = (Ok (), s')"
    and "ec_Public E k = Some p"
  shows "\<exists>m. parse (the (s' ''./config.toml'')) = Inr m \<and> (\<forall>exact. decode_config W exact m = Inr (init_config E k p))"
proof -
  define c where "c = init_config E k p"
  let ?t = "items_text (defaultConfigTemplate c)"
  have "InitCmd E (WriteConfigFile must_write ''./config.toml'') write_genesis s =
      orPanic (db_write (write_genesis (json_Genesis DefaultGenesis))) (s(''./config.toml'' \<mapsto> ?t))"
    unfolding InitCmd_run [OF assms(1,2,9)] c_def by (simp add: assms(6) WriteConfigFile_def andThen_ok)
  then have "s' = snd (write_genesis (json_Genesis DefaultGenesis) (s(''./config.toml'' \<mapsto> ?t)))"
    using assms(8) by (auto simp: orPanic_def db_write_def split: prod.splits option.splits)
  then have "the (s' ''./config.toml'') = ?t" using assms(7) by simp
  moreover have "parse ?t = Inr (map_of (folded (defaultConfigTemplate c)))"
    using assms(4) items_ok_init(1) [of E k p, OF assms(3)] items_ok_init(2) [of E c, OF assms(3)] by (simp add: toml_ok_def c_def)
  moreover have "cf_PollingInterval c = DefaultPollingInterval" by (simp add: c_def init_config_def GetDefaultConfig_def Let_def)
  then have "decode_config W exact (map_of (folded (defaultConfigTemplate c))) = Inr c" for exact
    using set_Configuration_template [of W c exact] assms(5) by (simp add: decode_config_def)
  ultimately show ?thesis by (auto simp: c_def)
qed

end
