(* ===== verification/Start_Globals.thy ===== *)
theory Start_Globals
  imports Config_File
begin

text \<open>
  \<open>initConfigAndGlobals\<close> of \<open>cmd/start.go\<close> with \<open>NewPreLoadedBazooka\<close> of \<open>core/bazooka.go\<close> and
  the constructors of the contract bindings that it calls: what is set up before the daemon
  looks at its tables.  Dialling the RPC endpoint, parsing ABI texts and addresses are
  \<open>go-ethereum\<close>, parameters here.
\<close>

section \<open>The connection to the contracts\<close>

record ('c, 'a) eth_lib =
  eth_Dial :: "string \<Rightarrow> go_error + 'c"
  eth_HexToAddress :: "string \<Rightarrow> bytes"
  eth_JSON :: "string \<Rightarrow> go_error + 'a"

text \<open>The constants of the generated files.\<close>

record abi_texts =
  at_RollupABI :: string
  at_LoggerABI :: string
  at_RollupclientABI :: string

text \<open>\<open>bind.NewBoundContract\<close> keeps what it is given; the backend is caller, transactor and filterer.\<close>

record ('c, 'a) BoundContract =
  bc_address :: bytes
  bc_abi :: 'a
  bc_backend :: 'c

definition bind_text :: "('c, 'a) eth_lib \<Rightarrow> string \<Rightarrow> bytes \<Rightarrow> 'c \<Rightarrow> ('c, 'a) BoundContract res" where
  "bind_text N abi_text address backend = (case eth_JSON N abi_text of
     Inl err \<Rightarrow> Err err
   | Inr parsed \<Rightarrow> Ok \<lparr>bc_address = address, bc_abi = parsed, bc_backend = backend\<rparr>)"

definition NewRollup :: "('c, 'a) eth_lib \<Rightarrow> abi_texts \<Rightarrow> bytes \<Rightarrow> 'c \<Rightarrow> ('c, 'a) BoundContract res" where
  "NewRollup N T address backend = bind_text N (at_RollupABI T) address backend"

definition NewLogger :: "('c, 'a) eth_lib \<Rightarrow> abi_texts \<Rightarrow> bytes \<Rightarrow> 'c \<Rightarrow> ('c, 'a) BoundContract res" where
  "NewLogger N T address backend = bind_text N (at_LoggerABI T) address backend"

definition NewRollupclient :: "('c, 'a) eth_lib \<Rightarrow> abi_texts \<Rightarrow> bytes \<Rightarrow> 'c \<Rightarrow> ('c, 'a) BoundContract res" where
  "NewRollupclient N T address backend = bind_text N (at_RollupclientABI T) address backend"

definition ROLLUP_CONTRACT_KEY :: string where "ROLLUP_CONTRACT_KEY = ''rollup''"
definition LOGGER_KEY :: string where "LOGGER_KEY = ''logger''"
definition ROLLUP_CLIENT :: string where "ROLLUP_CLIENT = ''rollup_client''"

record ('c, 'a) Bazooka =
  bz_EthClient :: 'c
  bz_ContractABI :: "string \<rightharpoonup> 'a"
  bz_RollupContract :: "('c, 'a) BoundContract"
  bz_EventLogger :: "('c, 'a) BoundContract"
  bz_Frontend :: "('c, 'a) BoundContract"

text \<open>
  The keys of the operator are set again.  With an error the caller panics, so that the value
  returned beside it is left out.
\<close>

definition NewPreLoadedBazooka ::
  "('k, 'p) ecdsa \<Rightarrow> ('c, 'a) eth_lib \<Rightarrow> abi_texts \<Rightarrow> (('k, 'p) config_globals, ('c, 'a) Bazooka) prog" where
  "NewPreLoadedBazooka E N T = (\<lambda>gl.
    let cfg = gl_GlobalCfg gl; json = (\<lambda>t. case eth_JSON N t of Inl err \<Rightarrow> Err err | Inr a \<Rightarrow> Ok a) in
    andThen (SetOperatorKeys E (cf_OperatorKey cfg)) (\<lambda>_.
    andThen (lift (case eth_Dial N (cf_EthRPC cfg) of Inl err \<Rightarrow> Err err | Inr client \<Rightarrow> Ok client)) (\<lambda>client.
    let rollupContractAddress = eth_HexToAddress N (cf_RollupAddress cfg) in
    andThen (lift (NewRollup N T rollupContractAddress client)) (\<lambda>rollup.
    andThen (lift (json (at_RollupABI T))) (\<lambda>rollupABI.
    let loggerAddress = eth_HexToAddress N (cf_LoggerAddress cfg) in
    andThen (lift (NewLogger N T loggerAddress client)) (\<lambda>logger.
    andThen (lift (json (at_LoggerABI T))) (\<lambda>loggerABI.
    let clientAddr = eth_HexToAddress N (cf_FrontendAddress cfg) in
    andThen (lift (NewRollupclient N T clientAddr client)) (\<lambda>frontend.
    andThen (lift (json (at_RollupclientABI T))) (\<lambda>clientABI.
      ret \<lparr>bz_EthClient = client,
        bz_ContractABI = [ROLLUP_CONTRACT_KEY \<mapsto> rollupABI, LOGGER_KEY \<mapsto> loggerABI, ROLLUP_CLIENT \<mapsto> clientABI],
        bz_RollupContract = rollup, bz_EventLogger = logger, bz_Frontend = frontend\<rparr>)))))))) gl)"

section \<open>The globals of the start command\<close>

record ('k, 'p, 'd, 'c, 'a) start_globals =
  sg_config :: "('k, 'p) config_globals"
  sg_DBInstance :: "'d option"
  sg_LoadedBazooka :: "('c, 'a) Bazooka option"

definition on_config :: "(('k, 'p) config_globals, 'r) prog \<Rightarrow> (('k, 'p, 'd, 'c, 'a) start_globals, 'r) prog" where
  "on_config m = (\<lambda>g. case m (sg_config g) of (r, c) \<Rightarrow> (r, g\<lparr>sg_config := c\<rparr>))"

definition initGlobalDBInstance ::
  "'v viper \<Rightarrow> (string \<Rightarrow> string \<Rightarrow> go_error + 'd) \<Rightarrow> (('k, 'p, 'd, 'c, 'a) start_globals, unit) prog" where
  "initGlobalDBInstance V open' =
    andThen (orPanic (on_config (NewDB V open'))) (\<lambda>tempDB g. (Ok (), g\<lparr>sg_DBInstance := Some tempDB\<rparr>))"

definition initGlobalBazooka ::
  "('k, 'p) ecdsa \<Rightarrow> ('c, 'a) eth_lib \<Rightarrow> abi_texts \<Rightarrow> (('k, 'p, 'd, 'c, 'a) start_globals, unit) prog" where
  "initGlobalBazooka E N T =
    andThen (orPanic (on_config (NewPreLoadedBazooka E N T))) (\<lambda>b g. (Ok (), g\<lparr>sg_LoadedBazooka := Some b\<rparr>))"

text \<open>The configuration is read twice, first from the working directory \<open>dir\<close> and then from \<open>.\<close> by \<open>NewDB\<close>.\<close>

definition initConfigAndGlobals ::
  "('k, 'p) ecdsa \<Rightarrow> 'v viper \<Rightarrow> string \<Rightarrow> (string \<Rightarrow> string \<Rightarrow> go_error + 'd) \<Rightarrow> ('c, 'a) eth_lib \<Rightarrow> abi_texts \<Rightarrow>
   (('k, 'p, 'd, 'c, 'a) start_globals, unit) prog" where
  "initConfigAndGlobals E V dir open' N T =
    andThen (on_config (readAndInitGlobalConfig E V dir)) (\<lambda>_.
    andThen (initGlobalDBInstance V open') (\<lambda>_.
      initGlobalBazooka E N T))"

section \<open>Lemmas\<close>

lemma bind_text_ok:
  "eth_JSON N t = Inr a \<Longrightarrow> bind_text N t adr c = Ok \<lparr>bc_address = adr, bc_abi = a, bc_backend = c\<rparr>"
  by (simp add: bind_text_def)

lemma NewPreLoadedBazooka_run:
  assumes "gl_GlobalCfg gl = cfg" "SetOperatorKeys E (cf_OperatorKey cfg) gl = (Ok (), gl')"
    and "eth_Dial N (cf_EthRPC cfg) = Inr client" "eth_JSON N (at_RollupABI T) = Inr a"
    and "eth_JSON N (at_LoggerABI T) = Inr b" "eth_JSON N (at_RollupclientABI T) = Inr c"
  shows "NewPreLoadedBazooka E N T gl = (Ok \<lparr>bz_EthClient = client,
     bz_ContractABI = [ROLLUP_CONTRACT_KEY \<mapsto> a, LOGGER_KEY \<mapsto> b, ROLLUP_CLIENT \<mapsto> c],
     bz_RollupContract = \<lparr>bc_address = eth_HexToAddress N (cf_RollupAddress cfg), bc_abi = a, bc_backend = client\<rparr>,
     bz_EventLogger = \<lparr>bc_address = eth_HexToAddress N (cf_LoggerAddress cfg), bc_abi = b, bc_backend = client\<rparr>,
     bz_Frontend = \<lparr>bc_address = eth_HexToAddress N (cf_FrontendAddress cfg), bc_abi = c, bc_backend = client\<rparr>\<rparr>, gl')"
  using assms by (simp add: NewPreLoadedBazooka_def NewRollup_def NewLogger_def NewRollupclient_def bind_text_ok andThen_def
    lift_def ret_def Let_def)

lemma NewDB_run:
  assumes "vp_ReadInConfig V ''config'' ''.'' = Inr m" "vp_Unmarshal V m = Inr cfg" "open' (cf_DB cfg) (FormattedDBURL cfg) = Inr d"
  shows "NewDB V open' gl = (Ok d, gl\<lparr>gl_GlobalCfg := cfg\<rparr>)"
  using assms by (simp add: NewDB_def ParseAndInitGlobalConfig_def ParseConfig_def andThen_def lift_def)

lemma init_config_defaults:
  assumes "c = init_config E k p"
  shows "cf_DB c = ''mysql''" "FormattedDBURL c = ''root:root@(localhost:3306)/hubble''" "cf_EthRPC c = ''http://localhost:8545''"
    "cf_RollupAddress c = ec_AddressString E (replicate 20 0)" "cf_LoggerAddress c = ec_AddressString E (replicate 20 0)"
    "cf_FrontendAddress c = ec_AddressString E (replicate 20 0)"
proof -
  let ?r = "''root:root@(localhost:3306)/hubble''"
  have u: "cf_DBURL c = ''mysql'' @ ''://'' @ ?r"
    by (simp add: assms init_config_def GetDefaultConfig_def GetDBURL_def DefaultDbUrlPrefix_def DATABASENAME_def Let_def)
  have "scheme_at (''mysql'' @ ''://'' @ ?r) = Some ?r"
    by (rule scheme_at_scheme) (simp_all add: url_class_def)
  then show "FormattedDBURL c = ?r" unfolding FormattedDBURL_def u by simp
qed (simp_all add: assms init_config_def GetDefaultConfig_def DefaultDB_def DefaultEthRPC_def Let_def)

section \<open>Properties\<close>

text \<open>
  C18. What \<open>init\<close> writes, the start command can use: with the curve, TOML and the weak
  decoding as documented, \<open>initConfigAndGlobals\<close> on the \<open>config.toml\<close> that \<open>init\<close> left sets the
  generated key as the operator's, its address, whose text is the configured one, and the
  default for every other field; it opens the database \<open>hubble\<close> of the default server, and
  binds each contract to the zero address over the client of the default endpoint, with
  the ABI that the map has under its name.
\<close>

theorem start_after_init:
  fixes s :: "string \<rightharpoonup> string"
  assumes "ecdsa_ok E" "ec_GenerateKey E = Inr k" "\<And>a. plain_value (ec_AddressString E a)"
    and "toml_ok parse" "weak_ok W DefaultPollingInterval"
    and "must_write = (\<lambda>p b fs. (Ok (), fs(p \<mapsto> b)))"
    and "\<And>j fs. snd (write_genesis j fs) ''./config.toml'' = fs ''./config.toml''"
    and "InitCmd E (WriteConfigFile must_write ''./config.toml'') write_genesis s = (Ok (), s')"
    and "V = \<lparr>vp_ReadInConfig = (\<lambda>name dir. parse (the (s' (''./'' @ name @ ''.toml'')))),
      vp_Unmarshal = decode_config W False, vp_UnmarshalExact = decode_config W True\<rparr>"
    and "open' ''mysql'' ''root:root@(localhost:3306)/hubble'' = Inr d" "eth_Dial N ''http://localhost:8545'' = Inr client"
    and "eth_JSON N (at_RollupABI T) = Inr a" "eth_JSON N (at_LoggerABI T) = Inr b" "eth_JSON N (at_RollupclientABI T) = Inr c"
  shows "\<exists>p g' z. initConfigAndGlobals E V dir open' N T g = (Ok (), g') \<and> ec_Public E k = Some p \<and>
    gl_OperatorKey (sg_config g') = Some k \<and> gl_OperatorAddress (sg_config g') = ec_PubkeyToAddress E p \<and>
    cf_OperatorAddress (gl_GlobalCfg (sg_config g')) = ec_AddressString E (ec_PubkeyToAddress E p) \<and>
    (gl_GlobalCfg (sg_config g'))\<lparr>cf_OperatorKey := [], cf_OperatorAddress := []\<rparr> = GetDefaultConfig E \<and>
    sg_DBInstance g' = Some d \<and> z = eth_HexToAddress N (ec_AddressString E (replicate 20 0)) \<and>
    sg_LoadedBazooka g' = Some \<lparr>bz_EthClient = client, bz_ContractABI = [''rollup'' \<mapsto> a, ''logger'' \<mapsto> b, ''rollup_client'' \<mapsto> c],
      bz_RollupContract = \<lparr>bc_address = z, bc_abi = a, bc_backend = client\<rparr>,
      bz_EventLogger = \<lparr>bc_address = z, bc_abi = b, bc_backend = client\<rparr>,
      bz_Frontend = \<lparr>bc_address = z, bc_abi = c, bc_backend = client\<rparr>\<rparr>"
proof -
  obtain p where p: "ec_Public E k = Some p" using assms(1) unfolding ecdsa_ok_def by blast
  define cfg where "cfg = init_config E k p"
  obtain m where m: "parse (the (s' ''./config.toml'')) = Inr m" "\<And>exact. decode_config W exact m = Inr cfg"
    using init_then_read [OF assms(1-8) p] unfolding cfg_def by blast
  have keys: "\<exists>gl'. SetOperatorKeys E (cf_OperatorKey cfg) (gl\<lparr>gl_GlobalCfg := cfg\<rparr>) = (Ok (), gl') \<and> gl_GlobalCfg gl' = cfg \<and>
      gl_OperatorKey gl' = Some k \<and> gl_OperatorAddress gl' = ec_PubkeyToAddress E p" for gl
    using SetOperatorKeys_init [OF assms(1) p, of "gl\<lparr>gl_GlobalCfg := cfg\<rparr>"] unfolding cfg_def by auto
  obtain g1 where g1: "SetOperatorKeys E (cf_OperatorKey cfg) ((sg_config g)\<lparr>gl_GlobalCfg := cfg\<rparr>) = (Ok (), g1)" "gl_GlobalCfg g1 = cfg"
    using keys [of "sg_config g"] by blast
  obtain g2 where g2: "SetOperatorKeys E (cf_OperatorKey cfg) (g1\<lparr>gl_GlobalCfg := cfg\<rparr>) = (Ok (), g2)" "gl_GlobalCfg g2 = cfg"
      "gl_OperatorKey g2 = Some k" "gl_OperatorAddress g2 = ec_PubkeyToAddress E p"
    using keys [of g1] by blast
  note defaults = init_config_defaults [OF cfg_def]
  have read: "readAndInitGlobalConfig E V dir (sg_config g) = (Ok (), g1)"
    using g1(1) by (simp add: readAndInitGlobalConfig_def assms(9) m orPanic_ok)
  have db: "NewDB V open' g1 = (Ok d, g1\<lparr>gl_GlobalCfg := cfg\<rparr>)"
    by (rule NewDB_run [where m = m and cfg = cfg]) (simp_all add: assms(9,10) m defaults)
  have "gl_GlobalCfg (g1\<lparr>gl_GlobalCfg := cfg\<rparr>) = cfg" by simp
  note bz = NewPreLoadedBazooka_run [OF this g2(1), unfolded defaults, OF assms(11-14)]
  have "initConfigAndGlobals E V dir open' N T g = (Ok (), g\<lparr>sg_config := g2, sg_DBInstance := Some d,
      sg_LoadedBazooka := Some (case NewPreLoadedBazooka E N T (g1\<lparr>gl_GlobalCfg := cfg\<rparr>) of (Ok b, _) \<Rightarrow> b)\<rparr>)"
    by (simp add: initConfigAndGlobals_def initGlobalDBInstance_def initGlobalBazooka_def on_config_def read db bz andThen_def orPanic_def)
  with p g2 show ?thesis
    by (simp add: bz ROLLUP_CONTRACT_KEY_def LOGGER_KEY_def ROLLUP_CLIENT_def)
      (simp add: cfg_def init_config_def GetDefaultConfig_def Let_def)
qed

text \<open>An endpoint that answers, and ABI texts that are parsed as themselves.\<close>

definition ex_eth :: "(string, string) eth_lib" where
  "ex_eth = \<lparr>eth_Dial = Inr, eth_HexToAddress = (\<lambda>t. case hex_DecodeString t of Inr b \<Rightarrow> b | Inl _ \<Rightarrow> []), eth_JSON = Inr\<rparr>"

definition ex_texts :: abi_texts where
  "ex_texts = \<lparr>at_RollupABI = ''r'', at_LoggerABI = ''l'', at_RollupclientABI = ''f''\<rparr>"

definition ex_start :: "(byte, byte, string, string, string) start_globals" where
  "ex_start = \<lparr>sg_config = \<lparr>gl_GlobalCfg = GetDefaultConfig ex_ecdsa, gl_OperatorKey = None, gl_OperatorPubKey = None,
     gl_OperatorAddress = []\<rparr>, sg_DBInstance = None, sg_LoadedBazooka = None\<rparr>"

definition ex_viper :: "(string \<rightharpoonup> string) \<Rightarrow> (string \<rightharpoonup> string) viper" where
  "ex_viper fs = \<lparr>vp_ReadInConfig = (\<lambda>name dir. ref_toml (the (fs (''./'' @ name @ ''.toml'')))),
     vp_Unmarshal = decode_config ref_weak False, vp_UnmarshalExact = decode_config ref_weak True\<rparr>"

theorem start_after_init_witness:
  "\<exists>s' g' b. InitCmd ex_ecdsa (WriteConfigFile (\<lambda>p b fs. (Ok (), fs(p \<mapsto> b))) ''./config.toml'')
      (\<lambda>j fs. (None, fs(''genesis.json'' \<mapsto> []))) Map.empty = (Ok (), s') \<and>
     initConfigAndGlobals ex_ecdsa (ex_viper s') ''.'' (\<lambda>t u. Inr u) ex_eth ex_texts ex_start = (Ok (), g') \<and>
     gl_OperatorKey (sg_config g') = Some 7 \<and> sg_DBInstance g' = Some ''root:root@(localhost:3306)/hubble'' \<and>
     sg_LoadedBazooka g' = Some b \<and> bc_address (bz_EventLogger b) = replicate 20 0"
proof -
  have e: "ecdsa_ok ex_ecdsa" "ec_GenerateKey ex_ecdsa = Inr 7" "\<And>a. plain_value (ec_AddressString ex_ecdsa a)"
    by (simp_all add: ecdsa_ok_def ex_ecdsa_def hex_plain)
  let ?w = "\<lambda>p b fs. (Ok (), fs(p \<mapsto> b)) :: unit res \<times> (string \<rightharpoonup> string)"
  let ?g = "\<lambda>(j :: json) fs. (None :: go_error option, fs(''genesis.json'' \<mapsto> []) :: string \<rightharpoonup> string)"
  have "ec_Public ex_ecdsa 7 = Some 7" by (simp add: ex_ecdsa_def)
  note run = InitCmd_run [OF e(1,2) this, of "WriteConfigFile ?w ''./config.toml''" ?g Map.empty]
  have "\<exists>s'. InitCmd ex_ecdsa (WriteConfigFile ?w ''./config.toml'') ?g Map.empty = (Ok (), s')"
    unfolding run by (simp add: WriteConfigFile_def andThen_ok orPanic_def db_write_def)
  then obtain s' where s': "InitCmd ex_ecdsa (WriteConfigFile ?w ''./config.toml'') ?g Map.empty = (Ok (), s')" by blast
  have g: "snd (?g j fs) ''./config.toml'' = fs ''./config.toml''" for j fs by simp
  have j: "eth_JSON ex_eth t = Inr t" "eth_Dial ex_eth t = Inr t" for t by (simp_all add: ex_eth_def)
  have z: "eth_HexToAddress ex_eth (ec_AddressString ex_ecdsa (replicate 20 0)) = replicate 20 0"
    by (simp add: ex_eth_def ex_ecdsa_def hex_roundtrip)
  show ?thesis
    using start_after_init [where dir = "''.''" and open' = "\<lambda>t u. Inr u" and T = ex_texts and g = ex_start,
        OF e ref_toml_ok ref_weak_ok refl g s' ex_viper_def refl j(2) j(1) j(1) j(1)]
      s' unfolding z by auto
qed

end
