(* ===== verification/Commands.thy ===== *)
theory Commands
  imports Config_File Wallets Unpack Migrations
begin

text \<open>
  The commands of \<open>cmd/main.go\<close> that do more than call one function, and \<open>migration create\<close> of
  \<open>cmd/migration.go\<close>.
\<close>

section \<open>Texts and paths\<close>

text \<open>\<open>strings.Split\<close> and \<open>strings.Join\<close> with a separator of one byte.\<close>

fun split_char :: "char \<Rightarrow> string \<Rightarrow> string list" where
  "split_char sep [] = [[]]"
| "split_char sep (c # cs) = (if c = sep then [] # split_char sep cs
     else (case split_char sep cs of a # b \<Rightarrow> (c # a) # b | [] \<Rightarrow> [[c]]))"

fun join_char :: "char \<Rightarrow> string list \<Rightarrow> string" where
  "join_char sep [] = []"
| "join_char sep [a] = a"
| "join_char sep (a # b # rest) = a @ sep # join_char sep (b # rest)"

text \<open>\<open>path.Clean\<close>: the elements kept so far are the second argument, the last one first.\<close>

fun clean_elems :: "bool \<Rightarrow> string list \<Rightarrow> string list \<Rightarrow> string list" where
  "clean_elems rooted done [] = rev done"
| "clean_elems rooted done (e # es) =
    (if e = '''' \<or> e = ''.'' then clean_elems rooted done es
     else if e = ''..'' then
       (case done of
          d # ds \<Rightarrow> if d = ''..'' then clean_elems rooted (e # done) es else clean_elems rooted ds es
        | [] \<Rightarrow> if rooted then clean_elems rooted [] es else clean_elems rooted [e] es)
     else clean_elems rooted (e # done) es)"

definition path_Clean :: "string \<Rightarrow> string" where
  "path_Clean p =
    (if p = '''' then ''.''
     else (let rooted = (hd p = CHR ''/''); out = join_char (CHR ''/'') (clean_elems rooted [] (split_char (CHR ''/'') p))
       in if rooted then CHR ''/'' # out else if out = '''' then ''.'' else out))"

definition path_Join :: "string list \<Rightarrow> string" where
  "path_Join elems = (let es = dropWhile (\<lambda>e. e = '''') elems in
     if es = [] then '''' else path_Clean (join_char (CHR ''/'') es))"

text \<open>\<open>strings.Trim(s, " ")\<close>, \<open>strings.Replace(s, " ", "_", -1)\<close> and \<open>strconv.FormatInt(n, 10)\<close>.\<close>

definition trim_spaces :: "string \<Rightarrow> string" where
  "trim_spaces s = rev (dropWhile (\<lambda>c. c = CHR '' '') (rev (dropWhile (\<lambda>c. c = CHR '' '') s)))"

definition replace_spaces :: "string \<Rightarrow> string" where
  "replace_spaces s = map (\<lambda>c. if c = CHR '' '' then CHR ''_'' else c) s"

definition FormatInt10 :: "int \<Rightarrow> string" where
  "FormatInt10 n = (if n < 0 then CHR ''-'' # dec_digits (nat (- n)) else dec_digits (nat n))"

section \<open>\<open>migration create\<close>\<close>

definition tab :: string where "tab = [CHR 0x09]"

text \<open>The ID is a number, so that the escaping of \<open>html/template\<close> leaves it as it is.\<close>

definition defaultMigrationFileTemplate :: "string \<Rightarrow> string" where
  "defaultMigrationFileTemplate ID = concat (map (\<lambda>l. newline @ l) [
     ''package migrations'',
     '''',
     ''import ('',
     tab @ [CHR 0x22] @ ''github.com/jinzhu/gorm'' @ [CHR 0x22],
     '')'',
     '''',
     ''func init() {'',
     tab @ ''m := &Migration{'',
     tab @ tab @ ''ID: '' @ [CHR 0x22] @ ID @ [CHR 0x22] @ '','',
     tab @ tab @ ''Up: func(*gorm.DB) error {'',
     tab @ tab @ tab @ ''// TODO add up migration here'',
     tab @ tab @ tab @ ''return nil'',
     tab @ tab @ ''},'',
     tab @ tab @ ''Down: func(*gorm.DB) error {'',
     tab @ tab @ tab @ ''// TODO add down migration here'',
     tab @ tab @ tab @ ''return nil'',
     tab @ tab @ ''},'',
     tab @ ''}'',
     '''',
     tab @ ''// add migration to list'',
     tab @ ''addMigration(m)'',
     ''}'']) @ newline"

definition writeMigrationFile :: "(string \<Rightarrow> string \<Rightarrow> 's \<Rightarrow> go_error option \<times> 's) \<Rightarrow> string \<Rightarrow> string \<Rightarrow> ('s, unit) prog" where
  "writeMigrationFile write_file filePath ID = db_write (write_file filePath (defaultMigrationFileTemplate ID))"

text \<open>
  The arguments are the clock in seconds, the value of the flag \<open>filename\<close> and the absolute
  working directory; \<open>low\<close> is the Unicode table of lower case.
\<close>

definition createMigrate ::
  "(rune \<Rightarrow> rune) \<Rightarrow> (string \<Rightarrow> string \<Rightarrow> 's \<Rightarrow> go_error option \<times> 's) \<Rightarrow> int \<Rightarrow> string \<Rightarrow> string \<Rightarrow> ('s, unit) prog" where
  "createMigrate low write_file now filename currentDir =
    (let prefix = now;
         suffix = trim_spaces filename;
         suffix = replace_spaces suffix;
         suffix = ToLower low suffix;
         fileName = FormatInt10 prefix @ ''_'' @ suffix @ ''.go'';
         fp = path_Join [currentDir, ''migrations'', fileName]
     in writeMigrationFile write_file fp (FormatInt10 prefix))"

text \<open>The migration that the file adds to the list when its \<open>init\<close> function runs.\<close>

definition created_migration :: "string \<Rightarrow> 's Migration" where
  "created_migration ID = \<lparr>mg_ID = ID, mg_Up = (\<lambda>db. ret ()), mg_Down = Some (\<lambda>db. ret ())\<rparr>"

section \<open>\<open>create-users\<close>\<close>

record User =
  usr_PublicKey :: string
  usr_PrivKey :: string

definition json_User :: "User \<Rightarrow> json" where
  "json_User u = JObj [(''pubkey'', JStr (json_text (usr_PublicKey u))),
     (''privkey'', JStr (json_text (usr_PrivKey u)))]"

definition json_UserList :: "User list \<Rightarrow> json" where
  "json_UserList us = JObj [(''users'', if us = [] then JNull else JArr (map json_User us))]"

text \<open>\<open>random\<close> is what the library reads of the random source.\<close>

fun CreateUsers_loop :: "('k, 'p, 'g) bls \<Rightarrow> ('s \<Rightarrow> bytes \<times> 's) \<Rightarrow> nat \<Rightarrow> User list \<Rightarrow> ('s, User list) prog" where
  "CreateUsers_loop B random 0 users = ret users"
| "CreateUsers_loop B random (Suc n) users =
    andThen (\<lambda>s. case random s of (r, s) \<Rightarrow> (NewWallet B r, s)) (\<lambda>newWallet.
    andThen (lift (Wallet_Bytes B newWallet)) (\<lambda>(secretBytes, publicKeyBytes).
    let publicKey = hex_EncodeToString publicKeyBytes;
        secretKey = hex_EncodeToString secretBytes;
        newUser = \<lparr>usr_PublicKey = publicKey, usr_PrivKey = secretKey\<rparr>
    in CreateUsers_loop B random n (users @ [newUser])))"

definition CreateUsers :: "('k, 'p, 'g) bls \<Rightarrow> ('s \<Rightarrow> bytes \<times> 's) \<Rightarrow> (json \<Rightarrow> 's \<Rightarrow> go_error option \<times> 's) \<Rightarrow> ('s, unit) prog" where
  "CreateUsers B random write_file =
    andThen (CreateUsers_loop B random 2 []) (\<lambda>users. db_write (write_file (json_UserList users)))"

section \<open>\<open>create-database\<close>, \<open>reset\<close>, \<open>add-gen-accounts\<close>\<close>

record 's sql_server =
  ss_Open :: "string \<Rightarrow> string \<Rightarrow> 's \<Rightarrow> go_error option \<times> 's"
  ss_Exec :: "string \<Rightarrow> 's \<Rightarrow> go_error option \<times> 's"
  ss_Close :: "'s \<Rightarrow> 's"

definition on_fst :: "('c, 'a) prog \<Rightarrow> ('c \<times> 's, 'a) prog" where
  "on_fst m = (\<lambda>(c, s). case m c of (r, c) \<Rightarrow> (r, (c, s)))"

definition on_snd :: "('s, 'a) prog \<Rightarrow> ('c \<times> 's, 'a) prog" where
  "on_snd m = (\<lambda>(c, s). case m s of (r, s) \<Rightarrow> (r, (c, s)))"

definition CreateDatabase :: "'v viper \<Rightarrow> 's sql_server \<Rightarrow> (('k, 'p) config_globals \<times> 's, unit) prog" where
  "CreateDatabase V Q =
    andThen (on_fst (ParseAndInitGlobalConfig V '''')) (\<lambda>_ (gl, s).
      (case split_char (CHR ''/'') (FormattedDBURL (gl_GlobalCfg gl)) of
         [] \<Rightarrow> lift (Panic IndexOutOfRange)
       | first # _ \<Rightarrow>
          (let connectionString = [first, ''/''] in
           on_snd (andThen (db_write (ss_Open Q ''mysql'' (concat connectionString))) (\<lambda>_.
             deferring (ss_Close Q) (db_write (ss_Exec Q ''CREATE DATABASE IF NOT EXISTS hubble'')))))) (gl, s))"

definition ResetCmd :: "'v viper \<Rightarrow> (('k, 'p) config_globals, unit) prog" where
  "ResetCmd V = orPanic (ParseAndInitGlobalConfig V '''')"

definition AddGenesisAcccountsCmd :: "'v viper \<Rightarrow> string \<Rightarrow> (('k, 'p) config_globals, unit) prog" where
  "AddGenesisAcccountsCmd V dir = (case vp_ReadInConfig V ''config'' dir of
     Inl err \<Rightarrow> lift (Panic (PanicErr err))
   | Inr v \<Rightarrow> (case vp_UnmarshalExact V v of
       Inl err \<Rightarrow> lift (Panic (PanicErr err))
     | Inr cfg \<Rightarrow> (\<lambda>gl. (Ok (), gl\<lparr>gl_GlobalCfg := cfg\<rparr>))))"

text \<open>
  \<open>transfer\<close>: all that is not commented out of the command opens the database and closes it
  again; \<open>open'\<close> is \<open>gorm.Open\<close>, and \<open>close\<close> closes the connection it gave.  \<open>dummy-transfer\<close> has an
  empty body.
\<close>

definition SendTransferTx :: "'v viper \<Rightarrow> (string \<Rightarrow> string \<Rightarrow> go_error + 'db) \<Rightarrow> ('db \<Rightarrow> 's \<Rightarrow> 's) \<Rightarrow> (('k, 'p) config_globals \<times> 's, unit) prog" where
  "SendTransferTx V open' close =
    andThen (on_fst (NewDB V open')) (\<lambda>db. on_snd (deferring (close db) (ret ())))"

definition GetAccount_cmd :: "('s, unit) prog" where
  "GetAccount_cmd = ret ()"

section \<open>Lemmas on texts\<close>

lemma dec_digits_length:
  "10 ^ k \<le> n \<Longrightarrow> n < 10 ^ Suc k \<Longrightarrow> length (dec_digits n) = Suc k"
proof (induction k arbitrary: n)
  case 0
  then show ?case by (subst dec_digits.simps) simp
next
  case (Suc k)
  have "10 \<le> n" using Suc.prems(1) by (rule order_trans [rotated]) simp
  moreover have "10 ^ k \<le> n div 10" "n div 10 < 10 ^ Suc k" using Suc.prems by simp_all
  ultimately show ?case using Suc.IH [of "n div 10"] by (subst dec_digits.simps) simp
qed

lemma less_append:
  fixes xs ys :: string
  assumes "xs < ys" "length xs = length ys" shows "xs @ us < ys @ vs"
  using assms lexord_sufI [of xs ys "{(u, v). u < v}" us vs] by (simp add: list_less_def)

lemma snoc_less: "(c :: char) < d \<Longrightarrow> xs @ [c] < xs @ [d]"
  by (simp add: list_less_def lexord_append_leftI)

lemma digit_less: "a < b \<Longrightarrow> b < 10 \<Longrightarrow> (char_of (48 + a) :: char) < char_of (48 + b :: nat)"
  by (simp add: less_char_def of_char_of)

text \<open>The order of texts is the order of numbers with as many digits.\<close>

lemma dec_digits_less:
  "n < m \<Longrightarrow> length (dec_digits n) = length (dec_digits m) \<Longrightarrow> dec_digits n < dec_digits m"
proof (induction n arbitrary: m rule: dec_digits.induct)
  case (1 n)
  show ?case
  proof (cases "n < 10")
    case True
    then have n: "dec_digits n = [char_of (48 + n)]" by (subst dec_digits.simps) simp
    have "m < 10"
    proof (rule ccontr)
      assume "\<not> m < 10"
      then have "dec_digits m = dec_digits (m div 10) @ [char_of (48 + m mod 10)]" by (subst dec_digits.simps) simp
      then have "dec_digits (m div 10) = []" using 1(3) n by simp
      then show False by (subst (asm) dec_digits.simps) (simp split: if_splits)
    qed
    then have "dec_digits m = [char_of (48 + m)]" by (subst dec_digits.simps) simp
    with n snoc_less [OF digit_less [OF 1(2) \<open>m < 10\<close>], of "[]"] show ?thesis by simp
  next
    case False
    then have m: "\<not> m < 10" using 1(2) by simp
    have e: "dec_digits n = dec_digits (n div 10) @ [char_of (48 + n mod 10)]" "dec_digits m = dec_digits (m div 10) @ [char_of (48 + m mod 10)]"
      using False m by (subst dec_digits.simps, simp)+
    show ?thesis
    proof (cases "n div 10 < m div 10")
      case True
      have "length (dec_digits (n div 10)) = length (dec_digits (m div 10))" using 1(3) e by simp
      with 1(1) [OF False True] show ?thesis unfolding e by (intro less_append)
    next
      case False
      then have q: "n div 10 = m div 10" using 1(2) div_le_mono [of n m 10] by simp
      then have "n mod 10 < m mod 10" using 1(2) by (metis add_less_cancel_left div_mult_mod_eq)
      then show ?thesis unfolding e q by (intro snoc_less digit_less) simp_all
    qed
  qed
qed

lemma FormatInt10_less:
  assumes "10 ^ k \<le> a" "a < b" "b < 10 ^ Suc k"
  shows "FormatInt10 a < FormatInt10 b"
proof -
  have p: "(0 :: int) < 10 ^ k" by simp
  then have "10 ^ k \<le> nat a" "nat a < 10 ^ Suc k" "10 ^ k \<le> nat b" "nat b < 10 ^ Suc k"
    using assms by (simp_all add: nat_less_iff le_nat_iff nat_le_iff)
  then have "length (dec_digits (nat a)) = length (dec_digits (nat b))" by (simp add: dec_digits_length)
  moreover have "nat a < nat b" "0 < a" "0 < b" using assms p by auto
  ultimately show ?thesis using dec_digits_less [of "nat a" "nat b"] by (simp add: FormatInt10_def)
qed

lemma split_char_plain: "sep \<notin> set a \<Longrightarrow> split_char sep a = [a]"
  by (induction a) auto

lemma split_char_cons: "sep \<notin> set a \<Longrightarrow> split_char sep (a @ sep # b) = a # split_char sep b"
  by (induction a) (auto split: list.splits)

lemma split_join:
  "es \<noteq> [] \<Longrightarrow> \<forall>e \<in> set es. sep \<notin> set e \<Longrightarrow> split_char sep (join_char sep es) = es"
  by (induction sep es rule: join_char.induct) (simp_all add: split_char_plain split_char_cons)

text \<open>An element of a clean path.\<close>

definition path_elem :: "string \<Rightarrow> bool" where
  "path_elem e \<longleftrightarrow> e \<noteq> '''' \<and> e \<noteq> ''.'' \<and> e \<noteq> ''..'' \<and> CHR ''/'' \<notin> set e"

lemma clean_elems_plain: "list_all path_elem es \<Longrightarrow> clean_elems rooted acc es = rev acc @ es"
  by (induction es arbitrary: acc) (simp_all add: path_elem_def)

lemma join_snoc: "es \<noteq> [] \<Longrightarrow> join_char sep (es @ [a]) = join_char sep es @ sep # a"
  by (induction sep es rule: join_char.induct) simp_all

lemma path_Join_plain:
  assumes "es \<noteq> []" "list_all path_elem es" "path_elem a" "path_elem b"
  shows "path_Join [CHR ''/'' # join_char (CHR ''/'') es, a, b] = CHR ''/'' # join_char (CHR ''/'') es @ CHR ''/'' # a @ CHR ''/'' # b"
proof -
  let ?es = "es @ [a, b]"
  have j: "join_char (CHR ''/'') ?es = join_char (CHR ''/'') es @ CHR ''/'' # a @ CHR ''/'' # b"
    using join_snoc [of "es @ [a]" _ b] join_snoc [OF assms(1), of _ a] by simp
  have "list_all path_elem ?es" using assms by simp
  moreover have "split_char (CHR ''/'') (CHR ''/'' # join_char (CHR ''/'') ?es) = [] # ?es"
    using split_join [of ?es "CHR ''/''"] assms by (auto simp: path_elem_def list_all_iff)
  ultimately have "path_Clean (CHR ''/'' # join_char (CHR ''/'') ?es) = CHR ''/'' # join_char (CHR ''/'') ?es"
    by (simp add: path_Clean_def clean_elems_plain)
  then show ?thesis by (simp add: path_Join_def j)
qed

lemma ToLower_ascii: "ascii s \<Longrightarrow> ToLower low s = map lower s"
proof -
  assume a: "ascii s"
  have "lower_rune low (byte_of c) < 128 \<and> char_of (lower_rune low (byte_of c)) = lower c" if "byte_of c < 128" for c
    using that by (auto simp: lower_rune_def lower_def of_char_of)
  with a show ?thesis
    by (auto simp: ToLower_def runes_ascii string_of_runes_ascii ascii_def)
qed

lemma dec_digits_digit: "c \<in> set (dec_digits n) \<Longrightarrow> byte_of c \<in> {48..57}"
proof (induction n rule: dec_digits.induct)
  case (1 n)
  then show ?case by (subst (asm) (2) dec_digits.simps) (auto simp: of_char_of split: if_splits)
qed

lemma suffix_elem:
  assumes "ascii filename" "CHR ''/'' \<notin> set filename" "0 \<le> n"
  shows "path_elem (FormatInt10 n @ ''_'' @ map lower (replace_spaces (trim_spaces filename)) @ ''.go'')"
proof -
  have "CHR ''/'' \<notin> set (dec_digits (nat n))" using dec_digits_digit [of "CHR ''/''" "nat n"] by auto
  then have digits: "CHR ''/'' \<notin> set (FormatInt10 n)" using assms(3) by (simp add: FormatInt10_def)
  have t: "c \<in> set filename" if "c \<in> set (trim_spaces filename)" for c
    using that by (auto simp: trim_spaces_def dest!: set_dropWhileD)
  have "lower c \<noteq> CHR ''/''" if c: "c \<noteq> CHR ''/''" for c
  proof
    assume "lower c = CHR ''/''"
    then have l: "byte_of (lower c) = 47" by simp
    show False
    proof (cases "byte_of c \<in> {65..90}")
      case True
      with l show False by (simp add: lower_def of_char_of)
    next
      case False
      with \<open>lower c = CHR ''/''\<close> c show False by (auto simp: lower_def split: if_splits)
    qed
  qed
  moreover have "d \<noteq> CHR ''/''" if d: "d \<in> set (replace_spaces (trim_spaces filename))" for d
  proof -
    obtain c where c: "c \<in> set (trim_spaces filename)" "d = (if c = CHR '' '' then CHR ''_'' else c)"
      using d unfolding replace_spaces_def set_map by blast
    have "c \<noteq> CHR ''/''" using t [OF c(1)] assms(2) by blast
    then show ?thesis unfolding c(2) by simp
  qed
  ultimately have "lower d \<noteq> CHR ''/''" if "d \<in> set (replace_spaces (trim_spaces filename))" for d
    using that by meson
  then have "CHR ''/'' \<notin> set (map lower (replace_spaces (trim_spaces filename)))"
    unfolding set_map by (metis imageE)
  with digits have "CHR ''/'' \<notin> set (FormatInt10 n @ ''_'' @ map lower (replace_spaces (trim_spaces filename)) @ ''.go'')" by simp
  moreover have "x \<noteq> [] \<and> x \<noteq> ''.'' \<and> x \<noteq> ''..''" if "3 < length x" for x :: string
  proof -
    have "length ([] :: string) \<le> 3" "length ''.'' \<le> 3" "length ''..'' \<le> 3" by simp_all
    with that show ?thesis by (metis not_le)
  qed
  moreover have "3 < length (FormatInt10 n @ ''_'' @ b @ ''.go'')" for b by simp
  ultimately show ?thesis unfolding path_elem_def by blast
qed

lemma ascii_suffix: "ascii filename \<Longrightarrow> ascii (replace_spaces (trim_spaces filename))"
  by (auto simp: ascii_def replace_spaces_def trim_spaces_def dest!: set_dropWhileD)

lemma addMigration_last:
  assumes "sorted (map mg_ID ms)" "\<forall>m' \<in> set ms. mg_ID m' < mg_ID m"
  shows "addMigration m ms = ms @ [m]"
proof -
  have "sorted (map mg_ID (ms @ [m]))" using assms by (auto simp: sorted_append less_imp_le)
  then show ?thesis by (simp add: addMigration_def sortMigrations_def sort_key_id_if_sorted)
qed

section \<open>Properties\<close>

text \<open>
  A migration made with \<open>migration create\<close> runs after all those made before it: as long as
  the clock has ten digits, the file is written to the directory of the migrations under a name that
  begins with its ID, and the migration that it adds goes to the end of the sorted list.
\<close>

theorem created_migration_runs_last:
  assumes "es \<noteq> []" "list_all path_elem es" "ascii filename" "CHR ''/'' \<notin> set filename"
    and "10 ^ 9 \<le> now" "now < 10 ^ 10" "sorted (map mg_ID ms)"
    and "\<forall>m \<in> set ms. \<exists>t. 10 ^ 9 \<le> t \<and> t < now \<and> mg_ID m = FormatInt10 t"
  shows "createMigrate low write_file now filename (CHR ''/'' # join_char (CHR ''/'') es) s =
      db_write (write_file (CHR ''/'' # join_char (CHR ''/'') es @ ''/migrations/'' @ FormatInt10 now @ ''_'' @
        map lower (replace_spaces (trim_spaces filename)) @ ''.go'') (defaultMigrationFileTemplate (FormatInt10 now))) s \<and>
    addMigration (created_migration (FormatInt10 now)) ms = ms @ [created_migration (FormatInt10 now)]"
    (is "?file \<and> ?list")
proof
  have n: "0 \<le> now" using assms(5) by simp
  have "path_elem ''migrations''" by (simp add: path_elem_def)
  from path_Join_plain [OF assms(1,2) this suffix_elem [OF assms(3,4) n]] ToLower_ascii [OF ascii_suffix [OF assms(3)], of low]
  show ?file by (simp add: createMigrate_def writeMigrationFile_def Let_def)
  have "\<forall>m \<in> set ms. mg_ID m < mg_ID (created_migration (FormatInt10 now))"
    using assms(6,8) FormatInt10_less [of 9 _ now] by (auto simp: created_migration_def)
  then show ?list by (rule addMigration_last [OF assms(7)])
qed

lemma FormatInt10_first: "FormatInt10 1585168847 = ''1585168847''"
proof -
  have "char_of (48 :: nat) = CHR ''0''" "char_of (49 :: nat) = CHR ''1''" "char_of (52 :: nat) = CHR ''4''" "char_of (53 :: nat) = CHR ''5''"
    "char_of (54 :: nat) = CHR ''6''" "char_of (55 :: nat) = CHR ''7''" "char_of (56 :: nat) = CHR ''8''"
    by (simp_all add: char_of_def bit_0)
  then show ?thesis by (simp add: FormatInt10_def dec_digits.simps)
qed

theorem created_migration_runs_last_witness:
  "createMigrate id (\<lambda>p t fs. (None, fs(p \<mapsto> t))) 1700000000 '' Add Fee'' ''/root/hubble'' Map.empty =
     (Ok (), [''/root/hubble/migrations/'' @ FormatInt10 1700000000 @ ''_add_fee.go'' \<mapsto>
       defaultMigrationFileTemplate (FormatInt10 1700000000)]) \<and>
   map mg_ID (addMigration (created_migration (FormatInt10 1700000000)) (GetMigrations :: mig_mem Migration list)) = [''1585168847'', FormatInt10 1700000000]"
proof -
  have e: "list_all path_elem [''root'', ''hubble'']" by (simp add: path_elem_def)
  have f: "ascii '' Add Fee''" "CHR ''/'' \<notin> set '' Add Fee''" by (simp_all add: ascii_def)
  have i: "mg_ID (migration_1585168847 :: mig_mem Migration) = FormatInt10 1585168847" by (simp add: FormatInt10_first migration_1585168847_def)
  then have m: "sorted (map mg_ID (GetMigrations :: mig_mem Migration list))" "\<forall>m \<in> set (GetMigrations :: mig_mem Migration list). \<exists>t. 10 ^ 9 \<le> t \<and> t < 1700000000 \<and> mg_ID m = FormatInt10 t"
    by (auto simp: GetMigrations_list intro: exI [of _ 1585168847])
  have l: "map lower (replace_spaces (trim_spaces '' Add Fee'')) = ''add_fee''"
    by (simp add: trim_spaces_def replace_spaces_def lower_def char_of_def bit_0)
  let ?w = "\<lambda>p t fs. (None :: go_error option, fs(p \<mapsto> t) :: string \<rightharpoonup> string)"
  from created_migration_runs_last [where low = id and write_file = ?w and s = Map.empty, OF _ e f _ _ m]
  show ?thesis by (simp add: l i FormatInt10_first db_write_def GetMigrations_list created_migration_def)
qed

text \<open>The keys of a user are those of a wallet that was made.\<close>

definition restores :: "('k, 'p, 'g) bls \<Rightarrow> User \<Rightarrow> bool" where
  "restores B u \<longleftrightarrow> (\<exists>pub secret w r. hex_DecodeString (usr_PublicKey u) = Inr pub \<and> hex_DecodeString (usr_PrivKey u) = Inr secret \<and>
     NewWallet B r = Ok w \<and> SecretToWallet B secret pub = Ok w)"

lemma CreateUsers_loop_run:
  assumes "bls_keys_ok B"
  shows "CreateUsers_loop B random n users s = (Ok us, s') \<Longrightarrow>
    \<exists>new. us = users @ new \<and> length new = n \<and> (\<forall>u \<in> set new. restores B u)"
proof (induction n arbitrary: users s)
  case (Suc n)
  obtain r s1 where r: "random s = (r, s1)" by (cases "random s")
  obtain w where w: "NewWallet B r = Ok w" using Suc.prems r by (cases "NewWallet B r") (simp_all add: andThen_def)
  obtain secret pub where b: "Wallet_Bytes B w = Ok (secret, pub)" using Wallet_Bytes_ok [OF assms, of w] by blast
  let ?u = "\<lparr>usr_PublicKey = hex_EncodeToString pub, usr_PrivKey = hex_EncodeToString secret\<rparr>"
  have "CreateUsers_loop B random n (users @ [?u]) s1 = (Ok us, s')"
    using Suc.prems r w b by (simp add: andThen_def lift_def Let_def)
  from Suc.IH [OF this] obtain new where new: "us = (users @ [?u]) @ new" "length new = n" "\<forall>u \<in> set new. restores B u" by blast
  have "restores B ?u"
    using w SecretToWallet_Bytes [OF assms b] by (auto simp: restores_def hex_roundtrip)
  with new show ?case by (intro exI [of _ "?u # new"]) simp
qed (simp add: ret_def)

text \<open>
  \<open>create-users\<close> writes two users, and the keys of each, read back from their hex texts,
  restore the wallet that was made for it.
\<close>

theorem users_file_restores_wallets:
  assumes "bls_keys_ok B" "CreateUsers B random write_file s = (Ok (), s')"
  shows "\<exists>users s1. write_file (json_UserList users) s1 = (None, s') \<and> length users = 2 \<and> (\<forall>u \<in> set users. restores B u)"
proof -
  obtain users s1 where l: "CreateUsers_loop B random 2 [] s = (Ok users, s1)" "db_write (write_file (json_UserList users)) s1 = (Ok (), s')"
    using assms(2) unfolding CreateUsers_def andThen_def by (auto split: prod.splits res.splits)
  from CreateUsers_loop_run [OF assms(1) l(1)] have "length users = 2" "\<forall>u \<in> set users. restores B u" by simp_all
  moreover have "write_file (json_UserList users) s1 = (None, s')"
    using l(2) by (auto simp: db_write_def split: prod.splits option.splits)
  ultimately show ?thesis by blast
qed

theorem users_file_restores_wallets_witness:
  "\<exists>users s'. CreateUsers ref_bls (\<lambda>s. ([7], s)) (\<lambda>j s. (None, s @ [j])) [] = (Ok (), s') \<and> s' = [json_UserList users] \<and>
     (\<forall>u \<in> set users. restores ref_bls u)"
proof -
  let ?w = "\<lambda>j s. (None :: go_error option, s @ [j] :: json list)"
  have n: "NewWallet ref_bls [7] = Ok \<lparr>w_Account = 7\<rparr>" by (simp add: NewWallet_def ref_bls_def)
  let ?b = "b_KeyToBytes ref_bls 7"
  let ?u = "\<lparr>usr_PublicKey = hex_EncodeToString (take 128 ?b), usr_PrivKey = hex_EncodeToString (drop 128 ?b)\<rparr>"
  have s': "CreateUsers ref_bls (\<lambda>s. ([7], s)) ?w [] = (Ok (), [json_UserList [?u, ?u]])"
    by (simp add: CreateUsers_def numeral_2_eq_2 Wallet_Bytes_ok [OF ref_bls_keys] n andThen_def lift_def ret_def db_write_def Let_def)
  obtain users s1 where u: "?w (json_UserList users) s1 = (None, [json_UserList [?u, ?u]])" "\<forall>u \<in> set users. restores ref_bls u"
    using users_file_restores_wallets [OF ref_bls_keys s'] by blast
  then have "[json_UserList [?u, ?u]] = [json_UserList users]" by simp
  with s' u(2) show ?thesis by metis
qed

text \<open>
  \<open>create-database\<close>, with a configuration that can be read and a URL with a scheme and a host:
  it connects to the host without a database, creates \<open>hubble\<close> whatever database the URL
  names, returns the error of either step, and closes a connection that it has opened.
\<close>

theorem CreateDatabase_correct:
  assumes "ParseConfig V [] = Ok cfg" "cf_DBURL cfg = sch @ ''://'' @ host @ ''/'' @ db"
    and "list_all url_class sch" "sch \<noteq> []" "CHR ''/'' \<notin> set host"
  shows "CreateDatabase V Q (gl, s) =
    (case ss_Open Q ''mysql'' (host @ ''/'') s of
       (Some err, s1) \<Rightarrow> (Err err, (gl\<lparr>gl_GlobalCfg := cfg\<rparr>, s1))
     | (None, s1) \<Rightarrow> (case ss_Exec Q ''CREATE DATABASE IF NOT EXISTS hubble'' s1 of
         (Some err, s2) \<Rightarrow> (Err err, (gl\<lparr>gl_GlobalCfg := cfg\<rparr>, ss_Close Q s2))
       | (None, s2) \<Rightarrow> (Ok (), (gl\<lparr>gl_GlobalCfg := cfg\<rparr>, ss_Close Q s2))))"
proof -
  have "scheme_at (cf_DBURL cfg) = Some (host @ ''/'' @ db)"
    unfolding assms(2) by (rule scheme_at_scheme [OF assms(3,4)])
  moreover obtain d ds where "cf_DBURL cfg = d # ds" using assms(2,4) by (cases sch) auto
  ultimately have "FormattedDBURL cfg = host @ ''/'' @ db" by (simp add: FormattedDBURL_def)
  then have "split_char (CHR ''/'') (FormattedDBURL cfg) = host # split_char (CHR ''/'') db"
    using split_char_cons [OF assms(5), of db] by simp
  then show ?thesis
    by (cases "ss_Open Q ''mysql'' (host @ ''/'') s"; cases "fst (ss_Open Q ''mysql'' (host @ ''/'') s)";
        cases "ss_Exec Q ''CREATE DATABASE IF NOT EXISTS hubble'' (snd (ss_Open Q ''mysql'' (host @ ''/'') s))";
        cases "fst (ss_Exec Q ''CREATE DATABASE IF NOT EXISTS hubble'' (snd (ss_Open Q ''mysql'' (host @ ''/'') s)))")
      (simp_all add: CreateDatabase_def on_fst_def on_snd_def ParseAndInitGlobalConfig_def assms(1) andThen_def lift_def deferring_def db_write_def)
qed

text \<open>The transfer command makes no transfer: it reads the configuration and closes what it opened.\<close>

lemma SendTransferTx_run:
  assumes "ParseConfig V [] = Ok cfg"
  shows "SendTransferTx V open' close (gl, s) = (case open' (cf_DB cfg) (FormattedDBURL cfg) of
       Inl err \<Rightarrow> (Err err, (gl\<lparr>gl_GlobalCfg := cfg\<rparr>, s))
     | Inr db \<Rightarrow> (Ok (), (gl\<lparr>gl_GlobalCfg := cfg\<rparr>, close db s)))"
  by (simp add: SendTransferTx_def on_fst_def on_snd_def NewDB_def ParseAndInitGlobalConfig_def assms andThen_def
      lift_def deferring_def ret_def split: sum.split)

definition ex_server :: "string list sql_server" where
  "ex_server = \<lparr>ss_Open = (\<lambda>t u s. (None, s @ [u])), ss_Exec = (\<lambda>q s. (None, s @ [q])), ss_Close = (\<lambda>s. s @ [''close''])\<rparr>"

theorem CreateDatabase_correct_witness:
  "snd (snd (CreateDatabase \<lparr>vp_ReadInConfig = (\<lambda>n d. Inr ()), vp_Unmarshal = (\<lambda>_. Inr (GetDefaultConfig ex_ecdsa)),
     vp_UnmarshalExact = (\<lambda>_. Inr (GetDefaultConfig ex_ecdsa))\<rparr> ex_server
     (\<lparr>gl_GlobalCfg = GetDefaultConfig ex_ecdsa, gl_OperatorKey = None :: byte option, gl_OperatorPubKey = None :: byte option,
       gl_OperatorAddress = []\<rparr>, []))) =
   [''root:root@(localhost:3306)/'', ''CREATE DATABASE IF NOT EXISTS hubble'', ''close'']"
proof -
  let ?V = "\<lparr>vp_ReadInConfig = (\<lambda>n d. Inr ()), vp_Unmarshal = (\<lambda>_. Inr (GetDefaultConfig ex_ecdsa)),
     vp_UnmarshalExact = (\<lambda>_. Inr (GetDefaultConfig ex_ecdsa))\<rparr>"
  have p: "ParseConfig ?V [] = Ok (GetDefaultConfig ex_ecdsa)" by (simp add: ParseConfig_def)
  have u: "cf_DBURL (GetDefaultConfig ex_ecdsa) = ''mysql'' @ ''://'' @ ''root:root@(localhost:3306)'' @ ''/'' @ ''hubble''"
    by (simp add: GetDefaultConfig_def GetDBURL_def DefaultDbUrlPrefix_def DATABASENAME_def Let_def)
  have c: "list_all url_class ''mysql''" "''mysql'' \<noteq> []" "CHR ''/'' \<notin> set ''root:root@(localhost:3306)''"
    by (simp_all add: url_class_def)
  show ?thesis unfolding CreateDatabase_correct [OF p u c] by (simp add: ex_server_def)
qed

end
