(* ===== verification/Key_File.thy ===== *)
theory Key_File
  imports Config
begin

text \<open>
  \<open>config/filePV.go\<close>: the key file of a validator, written as JSON by the tags of the struct.
  The curve is the library of \<open>Config\<close>, the JSON is a tree as in \<open>Genesis\<close>.
\<close>

section \<open>The structs\<close>

text \<open>
  What else is used of the library: the JSON of the fields of a key, the first of them the curve
  behind the interface \<open>elliptic.Curve\<close>, key values with given numbers and no curve, the
  bytes of a public key and the text of an address.
\<close>

record ('k, 'p) key_lib =
  kl_Curve :: "'p \<Rightarrow> json"
  kl_X :: "'p \<Rightarrow> json"
  kl_Y :: "'p \<Rightarrow> json"
  kl_D :: "'k \<Rightarrow> json"
  kl_embedded :: "'k \<Rightarrow> 'p"
  kl_PublicKey :: "int option \<Rightarrow> int option \<Rightarrow> 'p"
  kl_PrivateKey :: "int option \<Rightarrow> int option \<Rightarrow> int option \<Rightarrow> 'k"
  kl_FromECDSAPub :: "'p \<Rightarrow> bytes"
  kl_AddressText :: "bytes \<Rightarrow> string"
  kl_ReadAddress :: "string \<Rightarrow> go_error + bytes"

record ('k, 'p) FilePVKey =
  pk_Address :: bytes
  pk_PubKey :: 'p
  pk_PrivKey :: 'k
  pk_filePath :: string

record ('k, 'p) FilePV =
  pv_Key :: "('k, 'p) FilePVKey"

definition zero_FilePVKey :: "('k, 'p) key_lib \<Rightarrow> ('k, 'p) FilePVKey" where
  "zero_FilePVKey K = \<lparr>pk_Address = replicate 20 0, pk_PubKey = kl_PublicKey K None None,
     pk_PrivKey = kl_PrivateKey K None None None, pk_filePath = []\<rparr>"

text \<open>The files: whether a path exists, reading and writing one.\<close>

record 's key_files =
  kf_FileExists :: "string \<Rightarrow> 's \<Rightarrow> bool"
  kf_ReadFile :: "string \<Rightarrow> 's \<Rightarrow> go_error + json"
  kf_WriteFileAtomic :: "string \<Rightarrow> json \<Rightarrow> 's \<Rightarrow> go_error option \<times> 's"

text \<open>\<open>cmn.Exit\<close> and \<open>log.Fatal\<close> end the process.\<close>

definition process_exit :: "string \<Rightarrow> ('s, 'a) prog" where
  "process_exit msg = lift (Panic (PanicMsg msg))"

section \<open>JSON\<close>

definition json_PublicKey :: "('k, 'p) key_lib \<Rightarrow> 'p \<Rightarrow> json" where
  "json_PublicKey K p = JObj [(''Curve'', kl_Curve K p), (''X'', kl_X K p), (''Y'', kl_Y K p)]"

definition json_PrivateKey :: "('k, 'p) key_lib \<Rightarrow> 'k \<Rightarrow> json" where
  "json_PrivateKey K k = (let p = kl_embedded K k in
     JObj [(''Curve'', kl_Curve K p), (''X'', kl_X K p), (''Y'', kl_Y K p), (''D'', kl_D K k)])"

definition json_FilePVKey :: "('k, 'p) key_lib \<Rightarrow> ('k, 'p) FilePVKey \<Rightarrow> json" where
  "json_FilePVKey K key = JObj [(''address'', JStr (kl_AddressText K (pk_Address key))),
     (''pub_key'', json_PublicKey K (pk_PubKey key)), (''priv_key'', json_PrivateKey K (pk_PrivKey key))]"

text \<open>
  Reading the numbers of a key.  A value other than \<open>null\<close> cannot be stored in an interface
  that has methods, which \<open>elliptic.Curve\<close> is.  A struct is read into zero fields: each key occurs once.
\<close>

record key_numbers =
  kn_X :: "int option"
  kn_Y :: "int option"
  kn_D :: "int option"

definition no_numbers :: key_numbers where
  "no_numbers = \<lparr>kn_X = None, kn_Y = None, kn_D = None\<rparr>"

definition read_int :: "json \<Rightarrow> int option \<Rightarrow> go_error + int option" where
  "read_int j old = (case j of JNull \<Rightarrow> Inr old | JNum n \<Rightarrow> Inr (Some n) | _ \<Rightarrow> Inl type_error)"

definition set_key_number :: "bool \<Rightarrow> string \<times> json \<Rightarrow> key_numbers \<Rightarrow> go_error + key_numbers" where
  "set_key_number private kv n = (case kv of (k, j) \<Rightarrow>
     if json_key ''Curve'' k then (if j = JNull then Inr n else Inl type_error)
     else if json_key ''X'' k then sum_map (\<lambda>x. n\<lparr>kn_X := x\<rparr>) (read_int j (kn_X n))
     else if json_key ''Y'' k then sum_map (\<lambda>y. n\<lparr>kn_Y := y\<rparr>) (read_int j (kn_Y n))
     else if private \<and> json_key ''D'' k then sum_map (\<lambda>d. n\<lparr>kn_D := d\<rparr>) (read_int j (kn_D n))
     else Inr n)"

definition read_address :: "('k, 'p) key_lib \<Rightarrow> json \<Rightarrow> bytes \<Rightarrow> go_error + bytes" where
  "read_address K j old = (case j of JNull \<Rightarrow> Inr old | JStr t \<Rightarrow> kl_ReadAddress K t | _ \<Rightarrow> Inl type_error)"

definition set_FilePVKey :: "('k, 'p) key_lib \<Rightarrow> string \<times> json \<Rightarrow> ('k, 'p) FilePVKey \<Rightarrow> go_error + ('k, 'p) FilePVKey" where
  "set_FilePVKey K kv key = (case kv of (k, j) \<Rightarrow>
     if json_key ''address'' k then sum_map (\<lambda>a. key\<lparr>pk_Address := a\<rparr>) (read_address K j (pk_Address key))
     else if json_key ''pub_key'' k then
       sum_map (\<lambda>n. key\<lparr>pk_PubKey := kl_PublicKey K (kn_X n) (kn_Y n)\<rparr>) (read_struct (set_key_number False) j no_numbers)
     else if json_key ''priv_key'' k then
       sum_map (\<lambda>n. key\<lparr>pk_PrivKey := kl_PrivateKey K (kn_X n) (kn_Y n) (kn_D n)\<rparr>) (read_struct (set_key_number True) j no_numbers)
     else Inr key)"

section \<open>Operations\<close>

definition PrivToPubkey :: "('k, 'p) ecdsa \<Rightarrow> 'k \<Rightarrow> ('s, 'p) prog" where
  "PrivToPubkey E privKey = (case ec_Public E privKey of
     None \<Rightarrow> process_exit ''cannot assert type: publicKey is not of type *ecdsa.PublicKey''
   | Some publicKeyECDSA \<Rightarrow> ret publicKeyECDSA)"

definition PubKeyToAddress :: "('k, 'p) ecdsa \<Rightarrow> 'p \<Rightarrow> bytes" where
  "PubKeyToAddress E pubKey = ec_PubkeyToAddress E pubKey"

definition PrivKeyToAddress :: "('k, 'p) ecdsa \<Rightarrow> 'k \<Rightarrow> ('s, bytes) prog" where
  "PrivKeyToAddress E privKey = andThen (PrivToPubkey E privKey) (\<lambda>pubKey. ret (PubKeyToAddress E pubKey))"

text \<open>\<open>hexutil.Encode(..)[4:]\<close>: without \<open>0x\<close> and the byte that marks an uncompressed key.\<close>

definition PubKeyToString :: "('k, 'p) key_lib \<Rightarrow> 'p \<Rightarrow> string res" where
  "PubKeyToString K pubKey = (let publicKeyBytes = kl_FromECDSAPub K pubKey; t = ''0x'' @ hex_EncodeToString publicKeyBytes in
     if length t < 4 then Panic SliceOutOfRange else Ok (drop 4 t))"

definition FilePVKey_Save :: "('k, 'p) key_lib \<Rightarrow> 's key_files \<Rightarrow> ('k, 'p) FilePVKey \<Rightarrow> ('s, unit) prog" where
  "FilePVKey_Save K F pvKey = (let outFile = pk_filePath pvKey in
     if outFile = [] then lift (Panic (PanicMsg ''cannot save PrivValidator key: filePath not set''))
     else orPanic (db_write (kf_WriteFileAtomic F outFile (json_FilePVKey K pvKey))))"

definition FilePV_Save :: "('k, 'p) key_lib \<Rightarrow> 's key_files \<Rightarrow> ('k, 'p) FilePV \<Rightarrow> ('s, unit) prog" where
  "FilePV_Save K F pv = FilePVKey_Save K F (pv_Key pv)"

definition GenFilePV :: "('k, 'p) ecdsa \<Rightarrow> ('k, 'p) key_lib \<Rightarrow> string \<Rightarrow> ('s, ('k, 'p) FilePV) prog" where
  "GenFilePV E K keyFilePath = (case ec_GenerateKey E of
     Inl err \<Rightarrow> ret \<lparr>pv_Key = zero_FilePVKey K\<rparr>
   | Inr privKey \<Rightarrow>
      andThen (PrivKeyToAddress E privKey) (\<lambda>address.
      andThen (PrivToPubkey E privKey) (\<lambda>pubKey.
        ret \<lparr>pv_Key = \<lparr>pk_Address = address, pk_PubKey = pubKey, pk_PrivKey = privKey, pk_filePath = keyFilePath\<rparr>\<rparr>)))"

definition loadFilePV :: "('k, 'p) ecdsa \<Rightarrow> ('k, 'p) key_lib \<Rightarrow> 's key_files \<Rightarrow> string \<Rightarrow> ('s, ('k, 'p) FilePV) prog" where
  "loadFilePV E K F keyFilePath = (\<lambda>s. case kf_ReadFile F keyFilePath s of
     Inl err \<Rightarrow> process_exit ''cannot read the key file'' s
   | Inr keyJSONBytes \<Rightarrow> (case read_struct (set_FilePVKey K) keyJSONBytes (zero_FilePVKey K) of
       Inl err \<Rightarrow> process_exit ''Error reading PrivValidator key'' s
     | Inr pvKey \<Rightarrow>
        andThen (PrivToPubkey E (pk_PrivKey pvKey)) (\<lambda>pubKey.
        andThen (PrivKeyToAddress E (pk_PrivKey pvKey)) (\<lambda>address.
          ret \<lparr>pv_Key = pvKey\<lparr>pk_PubKey := pubKey, pk_Address := address, pk_filePath := keyFilePath\<rparr>\<rparr>)) s))"

definition LoadFilePV :: "('k, 'p) ecdsa \<Rightarrow> ('k, 'p) key_lib \<Rightarrow> 's key_files \<Rightarrow> string \<Rightarrow> ('s, ('k, 'p) FilePV) prog" where
  "LoadFilePV E K F keyFilePath = loadFilePV E K F keyFilePath"

definition LoadFilePVEmptyState :: "('k, 'p) ecdsa \<Rightarrow> ('k, 'p) key_lib \<Rightarrow> 's key_files \<Rightarrow> string \<Rightarrow> ('s, ('k, 'p) FilePV) prog" where
  "LoadFilePVEmptyState E K F keyFilePath = loadFilePV E K F keyFilePath"

definition LoadOrGenFilePV :: "('k, 'p) ecdsa \<Rightarrow> ('k, 'p) key_lib \<Rightarrow> 's key_files \<Rightarrow> string \<Rightarrow> ('s, ('k, 'p) FilePV) prog" where
  "LoadOrGenFilePV E K F keyFilePath = (\<lambda>s.
     if kf_FileExists F keyFilePath s then LoadFilePV E K F keyFilePath s
     else andThen (GenFilePV E K keyFilePath) (\<lambda>pv. andThen (FilePV_Save K F pv) (\<lambda>_. ret pv)) s)"

definition GetAddress :: "('k, 'p) FilePV \<Rightarrow> bytes" where
  "GetAddress pv = pk_Address (pv_Key pv)"

definition GetPubKey :: "('k, 'p) FilePV \<Rightarrow> 'p" where
  "GetPubKey pv = pk_PubKey (pv_Key pv)"

section \<open>Properties\<close>

text \<open>The files: what was written can be read.\<close>

definition key_files_ok :: "'s key_files \<Rightarrow> bool" where
  "key_files_ok F \<longleftrightarrow> (\<forall>path j s s'. kf_WriteFileAtomic F path j s = (None, s') \<longrightarrow>
     kf_FileExists F path s' \<and> kf_ReadFile F path s' = Inr j)"

lemma read_curve: "c \<noteq> JNull \<Longrightarrow> read_struct (set_key_number priv) (JObj ((''Curve'', c) # kvs)) n = Inl type_error"
  by (simp add: read_struct_def set_key_number_def json_key_def)

lemma key_tags:
  "json_key ''address'' ''address''" "\<not> json_key ''address'' ''pub_key''" "json_key ''pub_key'' ''pub_key''"
  by (simp_all add: json_key_def lower_def)

lemma read_curve_key:
  assumes "kl_Curve K (pk_PubKey key) \<noteq> JNull"
  shows "\<exists>e. read_struct (set_FilePVKey K) (json_FilePVKey K key) z = Inl e"
proof (cases "read_address K (JStr (kl_AddressText K (pk_Address key))) (pk_Address z)")
  case (Inl e)
  then show ?thesis by (simp add: json_FilePVKey_def read_struct_def set_FilePVKey_def key_tags sum_map_def)
next
  case (Inr a)
  then show ?thesis
    using read_curve [OF assms, of False]
    by (simp add: json_FilePVKey_def read_struct_obj set_FilePVKey_def key_tags sum_map_def json_PublicKey_def)
qed

lemma GenFilePV_run:
  assumes "ec_GenerateKey E = Inr k" "ec_Public E k = Some p"
  shows "GenFilePV E K path s =
    (Ok \<lparr>pv_Key = \<lparr>pk_Address = ec_PubkeyToAddress E p, pk_PubKey = p, pk_PrivKey = k, pk_filePath = path\<rparr>\<rparr>, s)"
  by (simp add: GenFilePV_def PrivKeyToAddress_def PrivToPubkey_def PubKeyToAddress_def assms andThen_def ret_def)

text \<open>
  \<open>LoadOrGenFilePV\<close> without a file returns the key that is generated, with its public key and
  address, and saves it; called again, it ends the process, because the curve in the file
  cannot be read back into the key.
\<close>

theorem key_file_not_reloadable:
  assumes "key_files_ok F" "\<not> kf_FileExists F path s" "ec_GenerateKey E = Inr k" "ec_Public E k = Some p"
    and "kl_Curve K p \<noteq> JNull" "LoadOrGenFilePV E K F path s = (Ok pv, s')"
  shows "pk_PrivKey (pv_Key pv) = k \<and> GetPubKey pv = p \<and> GetAddress pv = ec_PubkeyToAddress E p \<and>
    kf_ReadFile F path s' = Inr (json_FilePVKey K (pv_Key pv)) \<and>
    (\<exists>msg. LoadOrGenFilePV E K F path s' = (Panic (PanicMsg msg), s'))"
proof -
  define key where "key = \<lparr>pk_Address = ec_PubkeyToAddress E p, pk_PubKey = p, pk_PrivKey = k, pk_filePath = path\<rparr>"
  note gen = GenFilePV_run [OF assms(3,4), of K path s, folded key_def]
  have "pv = \<lparr>pv_Key = key\<rparr>" and save: "FilePVKey_Save K F key s = (Ok (), s')"
    using assms(2,6) by (auto simp: LoadOrGenFilePV_def gen FilePV_Save_def andThen_def ret_def split: prod.splits res.splits)
  then have pv: "pv_Key pv = key" by simp
  have "kf_WriteFileAtomic F path (json_FilePVKey K key) s = (None, s')"
    using save by (auto simp: FilePVKey_Save_def key_def orPanic_def db_write_def lift_def Let_def split: if_splits prod.splits option.splits)
  then have stored: "kf_FileExists F path s'" "kf_ReadFile F path s' = Inr (json_FilePVKey K key)"
    using assms(1) unfolding key_files_ok_def by blast+
  have "kl_Curve K (pk_PubKey key) \<noteq> JNull" using assms(5) by (simp add: key_def)
  from read_curve_key [OF this, of "zero_FilePVKey K"]
  obtain e where "read_struct (set_FilePVKey K) (json_FilePVKey K key) (zero_FilePVKey K) = Inl e" by blast
  with stored have "LoadOrGenFilePV E K F path s' = (Panic (PanicMsg ''Error reading PrivValidator key''), s')"
    by (simp add: LoadOrGenFilePV_def LoadFilePV_def loadFilePV_def process_exit_def lift_def)
  with stored(2) show ?thesis by (simp add: GetPubKey_def GetAddress_def pv) (simp add: key_def)
qed

definition ex_keys :: "(byte, byte) key_lib" where
  "ex_keys = \<lparr>kl_Curve = (\<lambda>p. JObj [(''BitSize'', JNum 256)]), kl_X = (\<lambda>p. JNum (uint p)), kl_Y = (\<lambda>p. JNum 0), kl_D = (\<lambda>k. JNum (uint k)),
     kl_embedded = id, kl_PublicKey = (\<lambda>x y. 0), kl_PrivateKey = (\<lambda>x y d. 0), kl_FromECDSAPub = (\<lambda>p. [4, p]),
     kl_AddressText = hex_EncodeToString, kl_ReadAddress = (\<lambda>t. case hex_DecodeString t of Inl e \<Rightarrow> Inl (ErrHex e) | Inr b \<Rightarrow> Inr b)\<rparr>"

definition ex_files :: "(string \<rightharpoonup> json) key_files" where
  "ex_files = \<lparr>kf_FileExists = (\<lambda>p fs. fs p \<noteq> None), kf_ReadFile = (\<lambda>p fs. case fs p of None \<Rightarrow> Inl (ErrMsg ''missing'') | Some j \<Rightarrow> Inr j),
     kf_WriteFileAtomic = (\<lambda>p j fs. (None, fs(p \<mapsto> j)))\<rparr>"

theorem key_file_not_reloadable_witness:
  "\<exists>pv s' msg. LoadOrGenFilePV ex_ecdsa ex_keys ex_files ''key.json'' Map.empty = (Ok pv, s') \<and> GetPubKey pv = 7 \<and>
     LoadOrGenFilePV ex_ecdsa ex_keys ex_files ''key.json'' s' = (Panic (PanicMsg msg), s')"
proof -
  have f: "key_files_ok ex_files" "\<not> kf_FileExists ex_files ''key.json'' Map.empty" by (auto simp: key_files_ok_def ex_files_def)
  have k: "ec_GenerateKey ex_ecdsa = Inr 7" "ec_Public ex_ecdsa 7 = Some 7" "kl_Curve ex_keys 7 \<noteq> JNull"
    by (simp_all add: ex_ecdsa_def ex_keys_def)
  obtain pv s' where r: "LoadOrGenFilePV ex_ecdsa ex_keys ex_files ''key.json'' Map.empty = (Ok pv, s')"
    using GenFilePV_run [OF k(1,2), of ex_keys "''key.json''" "Map.empty :: string \<rightharpoonup> json"]
    by (simp add: LoadOrGenFilePV_def FilePV_Save_def FilePVKey_Save_def andThen_def ret_def orPanic_def db_write_def ex_files_def Let_def)
  from key_file_not_reloadable [OF f k r] r show ?thesis by blast
qed

text \<open>When the library cannot generate a key, \<open>LoadOrGenFilePV\<close> panics and writes nothing.\<close>

theorem gen_failure_panics:
  assumes "\<not> kf_FileExists F path s" "ec_GenerateKey E = Inl err"
  shows "LoadOrGenFilePV E K F path s = (Panic (PanicMsg ''cannot save PrivValidator key: filePath not set''), s)"
  using assms by (simp add: LoadOrGenFilePV_def GenFilePV_def FilePV_Save_def FilePVKey_Save_def zero_FilePVKey_def andThen_def ret_def lift_def Let_def)

theorem gen_failure_panics_witness:
  "LoadOrGenFilePV (ex_ecdsa\<lparr>ec_GenerateKey := Inl (ErrMsg ''entropy'')\<rparr>) ex_keys ex_files ''key.json'' Map.empty =
     (Panic (PanicMsg ''cannot save PrivValidator key: filePath not set''), Map.empty)"
  by (rule gen_failure_panics [where err = "ErrMsg ''entropy''"]) (simp_all add: ex_files_def)

end
