(* ===== verification/Coordinator.thy ===== *)
theory Coordinator
  imports Start_Cmd Rest_Api
begin

text \<open>
  The running coordinator: the syncer with its goroutines, the aggregator's ticks and the REST
  requests, in any order, on one database.  Each handler is one step; the goroutines of the
  syncer interleave log by log as in \<open>listen_step\<close>.  Whatever the events of the contracts hold,
  no step breaks the balance tree.
\<close>

section \<open>The steps\<close>

inductive coordinator_step ::
  "'s Syncer \<Rightarrow> 's Aggregator \<Rightarrow> rest_libs \<Rightarrow> (Tx \<Rightarrow> bytes) \<Rightarrow> 's listening \<Rightarrow> 's listening \<Rightarrow> bool" for S A R rlp where
  step_listen: "listen_step S l l' \<Longrightarrow> coordinator_step S A R rlp l l'"
| step_request: "TxReceiverHandler R (sc_libs S) rlp (sc_DBInstance S) rbody w = (r, w') \<Longrightarrow> wb_db w = li_db l \<Longrightarrow>
    coordinator_step S A R rlp l (l\<lparr>li_db := wb_db w'\<rparr>)"
| step_tick: "pickBatch A (li_db l) = (r, s') \<Longrightarrow> coordinator_step S A R rlp l (l\<lparr>li_db := s'\<rparr>)"

inductive_cases coordinator_stepE: "coordinator_step S A R rlp l l'"

inductive coordinator_reach ::
  "'s Syncer \<Rightarrow> 's Aggregator \<Rightarrow> rest_libs \<Rightarrow> (Tx \<Rightarrow> bytes) \<Rightarrow> 's listening \<Rightarrow> 's listening \<Rightarrow> bool" for S A R rlp where
  co_refl: "coordinator_reach S A R rlp l l"
| co_trans: "coordinator_reach S A R rlp l l' \<Longrightarrow> coordinator_step S A R rlp l' l'' \<Longrightarrow> coordinator_reach S A R rlp l l''"

section \<open>The invariant\<close>

definition balance_inv :: "'s gorm \<Rightarrow> libs \<Rightarrow> ('s \<Rightarrow> tables) \<Rightarrow> ('s \<Rightarrow> bool) \<Rightarrow> nat \<Rightarrow> 's \<Rightarrow> bool" where
  "balance_inv G L view up d s \<longleftrightarrow> db_inv G L view up s \<and> 0 < d \<and> state_tree L view d s \<and> state_rows view d s"

text \<open>What it depends on, and that the calls on the other tables leave this alone.\<close>

definition balance_part :: "('s \<Rightarrow> tables) \<Rightarrow> ('s \<Rightarrow> bool) \<Rightarrow> 's \<Rightarrow> UserState list \<times> bool" where
  "balance_part view up s = (user_states (view s), up s)"

definition states_isolated :: "'s gorm \<Rightarrow> ('s \<Rightarrow> tables) \<Rightarrow> ('s \<Rightarrow> bool) \<Rightarrow> bool" where
  "states_isolated G view up \<longleftrightarrow>
     table_keeps (g_accounts G) (balance_part view up) \<and> table_keeps (g_txes G) (balance_part view up) \<and>
     table_keeps (g_batches G) (balance_part view up) \<and> table_keeps (g_sync G) (balance_part view up) \<and>
     table_keeps (g_tokens G) (balance_part view up)"

lemma balance_inv_part:
  assumes "balance_part view up s' = balance_part view up s" "balance_inv G L view up d s"
  shows "balance_inv G L view up d s'"
proof -
  have e: "user_states (view s') = user_states (view s)" "up s' = up s" using assms(1) by (simp_all add: balance_part_def)
  have n: "state_node view s' = state_node view s" using e(1) by (simp add: state_node_def fun_eq_iff)
  show ?thesis
    using assms(2) e state_tree_same_node(1) [OF n]
    by (simp add: balance_inv_def db_inv_def state_rows_def state_levels_def)
qed

lemma preserves_frame: "keeps (balance_part view up) m \<Longrightarrow> preserves (balance_inv G L view up d) m"
  by (erule preserves_keeps) (erule balance_inv_part)

lemmas preserves_reads =
  keeps_unpack_event [THEN preserves_frame] keeps_lift [THEN preserves_frame]

section \<open>The events\<close>

lemma preserves_deposit_queued: "preserves (balance_inv (sc_DBInstance S) (sc_libs S) view up d) (processDepositQueued S ev A log)"
proof -
  let ?I = "balance_inv (sc_DBInstance S) (sc_libs S) view up d"
  have add: "preserves ?I (AddNewPendingAccount (sc_DBInstance S) (NewPendingUserState (sc_libs S) i b))" for i b
    unfolding preserves_def
  proof (intro allI impI)
    fix s assume "?I s"
    then show "?I (snd (AddNewPendingAccount (sc_DBInstance S) (NewPendingUserState (sc_libs S) i b) s))"
      using AddNewPendingAccount_run [of "sc_DBInstance S" "sc_libs S" view up s d "NewPendingUserState (sc_libs S) i b"]
      by (auto simp: balance_inv_def NewPendingUserState_def UpdatePath_def CreateAccountHash_def Let_def)
  qed
  show ?thesis
    unfolding processDepositQueued_def by (intro preserves_intros preserves_reads add)
qed

lemma keeps_SendDepositFinalisationTx: "keeps f (SendDepositFinalisationTx S)"
  unfolding SendDepositFinalisationTx_def GetDepositNodeAndSiblings_def GetDepositSubTreeRoot_def
    FireDepositFinalisation_def Let_def GetSiblings_def
  by (intro keeps_intros keeps_GetParams keeps_GetSiblings_loop keeps_only_not_found)

lemma preserves_subtree_created:
  "preserves (balance_inv (sc_DBInstance S) (sc_libs S) view up d) (processDepositSubtreeCreated S ev A log)"
proof -
  let ?I = "balance_inv (sc_DBInstance S) (sc_libs S) view up d"
  have att: "preserves ?I (AttachDepositInfo (sc_DBInstance S) root)" for root
    unfolding preserves_def
  proof (intro allI impI)
    fix s assume "?I s"
    then show "?I (snd (AttachDepositInfo (sc_DBInstance S) root s))"
      using AttachDepositInfo_deposits [of "sc_DBInstance S" view up "sc_libs S" s d root]
      by (auto simp: balance_inv_def db_inv_def)
  qed
  show ?thesis
    unfolding processDepositSubtreeCreated_def
    by (intro preserves_intros preserves_reads att keeps_SendDepositFinalisationTx [THEN preserves_frame])
qed

lemma preserves_finalised:
  "preserves (balance_inv (sc_DBInstance S) (sc_libs S) view up d) (processDepositFinalised S ev A log)"
proof -
  let ?I = "balance_inv (sc_DBInstance S) (sc_libs S) view up d"
  have fin: "preserves ?I (FinaliseDeposits (sc_DBInstance S) (sc_libs S) path root)" for path root
    unfolding preserves_def
  proof (intro allI impI)
    fix s assume "?I s"
    moreover obtain r s' where "FinaliseDeposits (sc_DBInstance S) (sc_libs S) path root s = (r, s')" by fastforce
    ultimately show "?I (snd (FinaliseDeposits (sc_DBInstance S) (sc_libs S) path root s))"
      using FinaliseDeposits_tree [of "sc_DBInstance S" "sc_libs S" view up s d path root r s']
      by (simp add: balance_inv_def)
  qed
  have root: "preserves ?I (GetRoot (sc_DBInstance S))" unfolding GetRoot_def by (intro preserves_frame keeps_intros)
  show ?thesis
    unfolding processDepositFinalised_def FinaliseDepositsAndAddBatch_def Let_def
    by (intro preserves_intros preserves_reads fin root)
qed

lemma preserves_processLog:
  assumes "states_isolated (sc_DBInstance S) view up"
  shows "preserves (balance_inv (sc_DBInstance S) (sc_libs S) view up d) (processLog S vLog)"
proof -
  let ?I = "balance_inv (sc_DBInstance S) (sc_libs S) view up d" and ?k = "keeps (balance_part view up)"
    and ?G = "sc_DBInstance S"
  note k = assms [unfolded states_isolated_def]
  have token: "?k (processRegisteredToken S n a vLog)" for n a
    unfolding processRegisteredToken_def AddToken_def
    by (intro keeps_intros keeps_unpack_event) (use k in \<open>simp add: table_keeps_def\<close>)
  have key: "?k (processNewPubkeyAddition S n a vLog)" for n a
    unfolding processNewPubkeyAddition_def Let_def
    by (intro keeps_intros keeps_unpack_event keeps_GetParams keeps_UpdateAccount) (use k in simp)
  have rec: "?k (recordBatch S pm event i txs)" for pm event i txs
  proof -
    have w: "?k (AddNewBatch ?G b)" "?k (CommitBatch ?G b)" for b
      using k by (simp_all add: AddNewBatch_def CommitBatch_def table_keeps_def keeps_db_write)
    have u: "?k (UpdateSyncStatusWithBatchNumber ?G i)"
      unfolding UpdateSyncStatusWithBatchNumber_def GetSyncStatus_def Let_def
      by (intro keeps_intros) (use k in \<open>simp add: table_keeps_def\<close>)
    have ok: "?k (andThen (if c then ignoreErr (CommitBatch ?G b) else ret ())
        (\<lambda>_. ignoreErr (UpdateSyncStatusWithBatchNumber ?G i)))" for c b
      by (intro keeps_intros w u)
    have new: "?k (andThen (orPanic (ApplyTxsFromBatch txs ty)) (\<lambda>_. orPanic (AddNewBatch ?G b)))" for ty b
      unfolding ApplyTxsFromBatch_def by (intro keeps_intros w)
    show ?thesis
      using ok new by (auto simp: keeps_def recordBatch_def GetBatchByIndex_def db_read_def Let_def split: sum.split)
  qed
  have fetch: "?k (fetch_batch_txs S ty vLog)" for ty
    unfolding fetch_batch_txs_def FetchBatchInputData_def Let_def by (intro keeps_intros)
  have batch: "?k (processNewBatch S n a vLog)" for n a
    unfolding processNewBatch_def by (intro keeps_intros keeps_unpack_event keeps_GetParams fetch rec)
  have ret: "preserves ?I (ret ())" "preserves ?I (Pair z)" for z :: "unit res" by (simp_all add: preserves_def)
  note proc = preserves_deposit_queued preserves_subtree_created preserves_finalised
    token [THEN preserves_frame] key [THEN preserves_frame] batch [THEN preserves_frame] ret
  have ev: "preserves ?I (processEvent S a vLog topic)" for a topic
    unfolding processEvent_def Let_def by (cases "EventByID a topic") (simp_all add: proc)
  have "preserves ?I (processEvents_abis S as vLog topic)" for "as" topic
    by (induction "as") (simp_all add: ret preserves_andThen ev)
  then show ?thesis
    unfolding processLog_def by (cases "log_Topics vLog") (simp_all add: preserves_def)
qed

lemma preserves_recordBlock:
  assumes "states_isolated (sc_DBInstance S) view up"
  shows "preserves (balance_inv G L view up d) (recordBlock S header)"
  unfolding recordBlock_def UpdateSyncStatusWithBlockNumber_def GetSyncStatus_def Let_def
  by (intro preserves_frame keeps_intros) (use assms in \<open>simp add: states_isolated_def table_keeps_def\<close>)

section \<open>Requests and ticks\<close>

lemma keeps_web:
  "keeps (\<lambda>w. f (wb_db w)) (Header_Set k v)" "keeps (\<lambda>w. f (wb_db w)) (WriteHeader c)" "keeps (\<lambda>w. f (wb_db w)) (Write b)"
  by (simp_all add: keeps_def Header_Set_def WriteHeader_def Write_def andThen_def split: option.split)

lemma keeps_WriteErrorResponse: "keeps (\<lambda>w. f (wb_db w)) (WriteErrorResponse R k err)"
  unfolding WriteErrorResponse_def by (intro keeps_intros keeps_web)

lemma keeps_ReadRESTReq: "keeps (\<lambda>w. f (wb_db w)) (ReadRESTReq R rbody req)"
  unfolding ReadRESTReq_def
  by (auto split: sum.split prod.split option.split intro!: keeps_andThen keeps_lift keeps_WriteErrorResponse)

lemma keeps_TxReceiverHandler:
  assumes "table_keeps (g_txes G) f" shows "keeps (\<lambda>w. f (wb_db w)) (TxReceiverHandler R L rlp G rbody)"
proof -
  have "keeps f (InsertTx G t)" for t using assms by (simp add: InsertTx_def table_keeps_def keeps_db_write)
  then have ins: "keeps (\<lambda>w. f (wb_db w)) (on_web_db (InsertTx G t))" for t
    by (simp add: keeps_def on_web_db_def split: prod.split) (metis snd_conv)
  show ?thesis
    unfolding TxReceiverHandler_def Let_def
    by (intro keeps_intros keeps_WriteErrorResponse keeps_web keeps_ReadRESTReq ins)
qed

lemma pickBatch_tree:
  assumes "conn_ok (ag_conn A) (ag_DB A) view up txv base intx" "pickBatch A s = (r, s')" "balance_inv G L view up d s"
  shows "balance_inv G L view up d s'"
proof (rule balance_inv_part [OF _ assms(3)])
  have u: "up s" using assms(3) by (simp add: balance_inv_def db_inv_def)
  obtain x s1 where p: "PopTxs (ag_DB A) (ag_conn A) (ag_TxsPerBatch A) s = (x, s1)" by fastforce
  note f = PopTxs_frame [OF assms(1) u p]
  then have "s' = s1" using p assms(2)
    by (auto simp: pickBatch_def ProcessAndSubmitBatch_def Aggregator_ProcessTx_def SubmitBatch_def orReturn_def ignoreErr_def)
  moreover have "user_states (view s1) = user_states (view s)"
    using arg_cong [of _ _ user_states, OF f [THEN conjunct2, THEN conjunct1]] by simp
  ultimately show "balance_part view up s' = balance_part view up s" using f u by (simp add: balance_part_def)
qed

section \<open>Every run\<close>

lemma after_db [simp]: "li_db (after o' l) = snd o'"
  by (simp add: after_def split: prod.split)

lemma listen_step_tree:
  assumes "states_isolated (sc_DBInstance S) view up" "listen_step S l l'"
    and "balance_inv (sc_DBInstance S) (sc_libs S) view up d (li_db l)"
  shows "balance_inv (sc_DBInstance S) (sc_libs S) view up d (li_db l')"
proof -
  let ?I = "balance_inv (sc_DBInstance S) (sc_libs S) view up d"
  have h: "?I s'" if "processHeader S header (li_db l) = (r, s')" for header r s'
    using preservesD [OF preserves_frame [OF keeps_processHeader] assms(3) that] .
  have p: "?I (snd (processLog S vLog (li_db l)))" "?I (snd (recordBlock S header (li_db l)))" for vLog header
    using preserves_processLog [OF assms(1), of d vLog] preserves_recordBlock [OF assms(1)] assms(3)
    unfolding preserves_def by blast+
  from assms(2) show ?thesis by cases (use h p in auto)
qed

lemma coordinator_step_tree:
  assumes "states_isolated (sc_DBInstance S) view up" "conn_ok (ag_conn A) (ag_DB A) view up txv base intx"
    and "coordinator_step S A R rlp l l'" "balance_inv (sc_DBInstance S) (sc_libs S) view up d (li_db l)"
  shows "balance_inv (sc_DBInstance S) (sc_libs S) view up d (li_db l')"
  using assms(3)
proof cases
  case step_listen
  with assms show ?thesis by (blast intro: listen_step_tree)
next
  case (step_request rbody w r w')
  have "table_keeps (g_txes (sc_DBInstance S)) (balance_part view up)" using assms(1) by (simp add: states_isolated_def)
  from keepsD [OF keeps_TxReceiverHandler [OF this] step_request(2)] step_request assms(4)
  show ?thesis by (auto intro: balance_inv_part)
next
  case (step_tick r s')
  with pickBatch_tree [OF assms(2) step_tick(2) assms(4)] show ?thesis by simp
qed

lemma coordinator_reach_tree:
  assumes "states_isolated (sc_DBInstance S) view up" "conn_ok (ag_conn A) (ag_DB A) view up txv base intx"
    and "coordinator_reach S A R rlp l l'" "balance_inv (sc_DBInstance S) (sc_libs S) view up d (li_db l)"
  shows "balance_inv (sc_DBInstance S) (sc_libs S) view up d (li_db l')"
  using assms(3,4) by induction (blast intro: coordinator_step_tree [OF assms(1,2)])+

text \<open>What the invariant is for: the root row has the hash of the leaves.\<close>

lemma balance_inv_root:
  assumes "balance_inv G L view up d s"
  shows "\<exists>root. GetRoot G s = (Ok root, s) \<and>
    us_Hash root = merkle_root (node_hash L) (\<lambda>x. the (state_hashes view s x)) d []"
proof -
  have tree: "db_inv G L view up s" "state_tree L view d s" "state_levels view s"
    using assms by (simp_all add: balance_inv_def state_rows_def)
  have "state_hashes view s [] = Some (merkle_root (node_hash L) (\<lambda>x. the (state_hashes view s x)) d [])"
    by (rule merkle_tree_root) (use tree(2) in \<open>simp_all add: state_tree_def\<close>)
  then obtain r where r: "state_node view s [] = Some r"
    "us_Hash r = merkle_root (node_hash L) (\<lambda>x. the (state_hashes view s x)) d []" by (auto simp: state_hashes_def)
  from GetRoot_run [OF tree(1,3) r(1)] r(2) show ?thesis by blast
qed

lemma balance_inv_proofs:
  assumes "balance_inv G L view up d s" "binary p" "length p = d"
  shows "\<exists>leaf sibs root. GetStateByPath G p s = (Ok leaf, s) \<and> GetSiblings G p s = (Ok sibs, s) \<and>
    GetRoot G s = (Ok root, s) \<and> us_Hash root = proof_root (node_hash L) (rev p) (us_Hash leaf) (map us_Hash sibs)"
proof -
  have tree: "db_inv G L view up s" "state_tree L view d s" "state_levels view s"
    using assms(1) by (simp_all add: balance_inv_def state_rows_def)
  obtain n where n: "state_node view s p = Some n" using tree(2) assms(2,3) by (auto simp: state_tree_def)
  from GetSiblings_proof [OF tree(1,2) assms(2) _ n] assms(3) obtain sibs root where
    sr: "GetSiblings G p s = (Ok sibs, s)" "state_node view s [] = Some root"
    "us_Hash root = proof_root (node_hash L) (rev p) (us_Hash n) (map us_Hash sibs)" by auto
  with GetStateByPath_run [OF tree(1) n] GetRoot_run [OF tree(1,3) sr(2)] show ?thesis by blast
qed

section \<open>Properties\<close>

text \<open>
  C1. No run of the coordinator breaks the balance tree: whatever logs the contracts emit, in
  whatever order goroutines, requests and ticks follow each other, and whether handlers
  return or panic, a balance tree with its rows stays one, and \<open>GetRoot\<close> returns the Merkle root
  of the leaves.  (The same does not hold for the account tree, see \<open>NewPubkeyAdded_loses_key\<close>.)
\<close>

theorem coordinator_keeps_tree:
  assumes "states_isolated (sc_DBInstance S) view up" "conn_ok (ag_conn A) (ag_DB A) view up txv base intx"
    and "balance_inv (sc_DBInstance S) (sc_libs S) view up d (li_db l)" "coordinator_reach S A R rlp l l'"
  shows "balance_inv (sc_DBInstance S) (sc_libs S) view up d (li_db l') \<and>
    (\<exists>root. GetRoot (sc_DBInstance S) (li_db l') = (Ok root, li_db l') \<and>
      us_Hash root = merkle_root (node_hash (sc_libs S)) (\<lambda>x. the (state_hashes view (li_db l') x)) d [])"
  using coordinator_reach_tree [OF assms(1,2,4,3)] balance_inv_root [OF coordinator_reach_tree [OF assms(1,2,4,3)]]
  by (rule conjI)

text \<open>The database with transactions, its syncer and aggregator, and a deposit that arrives as an event.\<close>

definition ex_ms_syncer :: "mem_state Syncer" where
  "ex_ms_syncer = \<lparr>sc_abis = [ex_events], sc_DBInstance = ms_gorm, sc_loadedBazooka = ref_chain,
     sc_libs = ref_libs, sc_upper = id, sc_Address_String = hex_EncodeToString,
     sc_FilterLogs = (\<lambda>a b s. Inr [ex_log 2 [1, 5]])\<rparr>"

definition ex_ms_dep :: mem_state where
  "ex_ms_dep = \<lparr>ms_rows = (ex_dep [])\<lparr>sync_statuses := [zero_SyncStatus]\<rparr>, ms_txn = None, ms_conns = 1\<rparr>"

lemma ms_isolated: "states_isolated ms_gorm ms_rows (\<lambda>_. True)"
  by (auto simp: states_isolated_def balance_part_def table_keeps_def ms_gorm_def lift_gorm_def lift_table_def on_part_def
    mem_gorm_def mem_table_def split: list.split prod.split)

lemma ex_ms_dep_inv: "balance_inv ms_gorm ref_libs ms_rows (\<lambda>_. True) 2 ex_ms_dep"
proof -
  have r: "user_states (ms_rows ex_ms_dep) = user_states (ex_dep [])" by (simp add: ex_ms_dep_def)
  have n: "state_node ms_rows ex_ms_dep = state_node (\<lambda>d. d) (ex_dep [])"
    using r by (simp add: state_node_def fun_eq_iff)
  have "state_tree ref_libs ms_rows 2 ex_ms_dep"
    using ex_dep_ok(1) [of "[]"] n by (simp add: state_tree_def state_hashes_def merkle_tree_def node_ok_def)
  moreover have "state_rows ms_rows 2 ex_ms_dep"
    using ex_dep_ok(2) [of "[]"] r by (simp add: state_rows_def state_levels_def)
  ultimately show ?thesis
    using conn_okD(2) [OF mem_conn_ok] ref_libs_ok by (simp add: balance_inv_def db_inv_def)
qed

theorem coordinator_keeps_tree_witness:
  "\<exists>l root. coordinator_reach ex_ms_syncer ex_aggregator ex_rest (\<lambda>_. []) (new_listening ex_ms_dep) l \<and>
     li_running l = [([], \<lparr>hd_Number = 5\<rparr>)] \<and> GetRoot ms_gorm (li_db l) = (Ok root, li_db l) \<and>
     us_Hash root = merkle_root (node_hash ref_libs) (\<lambda>x. the (state_hashes ms_rows (li_db l) x)) 2 []"
proof -
  let ?S = ex_ms_syncer and ?h = "\<lparr>hd_Number = 5\<rparr>" and ?log = "ex_log 2 [1, 5]"
  let ?l0 = "new_listening ex_ms_dep" and ?r = "coordinator_reach ex_ms_syncer ex_aggregator ex_rest (\<lambda>_. [])"
  have S: "sc_DBInstance ?S = ms_gorm" "sc_libs ?S = ref_libs" by (simp_all add: ex_ms_syncer_def)
  have "GetSyncStatus ms_gorm ex_ms_dep = (Ok zero_SyncStatus, ex_ms_dep)"
    by (rule GetSyncStatus_run [OF conn_okD(2) [OF mem_conn_ok] TrueI]) (simp add: ex_ms_dep_def)
  then have "processHeader ?S ?h ex_ms_dep = (Ok (Some [?log]), ex_ms_dep)"
    by (simp add: processHeader_def ex_ms_syncer_def LastEthBlockBigInt_def zero_SyncStatus_def big_Uint64_def)
  then have "listen_step ?S ?l0 (?l0\<lparr>li_wg := 1, li_running := [([?log], ?h)]\<rparr>)" (is "listen_step _ _ ?l1")
    using step_Header [of ?l0 ?S ?h "[?log]" ex_ms_dep] by (simp add: new_listening_def)
  then have "?r ?l0 ?l1" by (intro co_trans [OF co_refl] step_listen)
  moreover have "listen_step ?S ?l1 (after (processLog ?S ?log ex_ms_dep) (?l1\<lparr>li_running := [([], ?h)]\<rparr>))" (is "listen_step _ _ ?l2")
    using step_Log [of ?l1 "[]" ?log "[]" ?h "[]" ?S] by (simp add: new_listening_def)
  then have "coordinator_step ?S ex_aggregator ex_rest (\<lambda>_. []) ?l1 ?l2" by (rule step_listen)
  ultimately have r: "?r ?l0 ?l2" by (rule co_trans)
  have "li_running ?l2 = [([], ?h)]" by (simp add: after_def split: prod.split)
  moreover have "states_isolated (sc_DBInstance ?S) ms_rows (\<lambda>_. True)"
    "conn_ok (ag_conn ex_aggregator) (ag_DB ex_aggregator) ms_rows (\<lambda>_. True) ms_tx_rows ms_base ms_open"
    "balance_inv (sc_DBInstance ?S) (sc_libs ?S) ms_rows (\<lambda>_. True) 2 (li_db ?l0)"
    using ms_isolated mem_conn_ok ex_ms_dep_inv by (simp_all add: S ex_aggregator_def new_listening_def)
  note coordinator_keeps_tree [OF this r]
  ultimately show ?thesis using r unfolding S by blast
qed

text \<open>
  C2. From the first start on an empty database with a genesis file that \<open>Validate\<close>
  accepts and in which no account has an \<open>account_id\<close>, whatever the coordinator then does, its
  balance tree has the depth of the genesis file, \<open>GetRoot\<close> returns the Merkle root of the
  leaves, and for every leaf \<open>GetSiblings\<close> returns an inclusion proof for that root.
\<close>

theorem coordinator_from_genesis:
  assumes "states_isolated (sc_DBInstance S) view up" "conn_ok (ag_conn A) (ag_DB A) view up txv base intx"
    and "gorm_ok (sc_DBInstance S) view up" "libs_ok (sc_libs S)" "up s" "view s = empty_tables"
    and "valid_genesis (sc_libs S) g" "loadable N enc s (ga_Accounts (ge_GenesisAccounts g))" "d = unat (ge_MaxTreeDepth g)"
    and "StartCmd_init (sc_DBInstance S) N (sc_libs S) (Inr (json_Genesis g)) s = (Ok st, s1)"
    and "coordinator_reach S A R rlp (new_listening s1) l" "binary p" "length p = d"
    and "unnumbered g"
  shows "state_tree (sc_libs S) view d (li_db l) \<and>
    (\<exists>leaf sibs root. GetStateByPath (sc_DBInstance S) p (li_db l) = (Ok leaf, li_db l) \<and>
      GetSiblings (sc_DBInstance S) p (li_db l) = (Ok sibs, li_db l) \<and>
      GetRoot (sc_DBInstance S) (li_db l) = (Ok root, li_db l) \<and>
      us_Hash root = proof_root (node_hash (sc_libs S)) (rev p) (us_Hash leaf) (map us_Hash sibs) \<and>
      us_Hash root = merkle_root (node_hash (sc_libs S)) (\<lambda>x. the (state_hashes view (li_db l) x)) d [])"
proof -
  from StartCmd_first_run [OF assms(3-7) refl assms(8,14)] assms(10)
  have "up s1" "genesis_trees (sc_libs S) enc view (ga_Accounts (ge_GenesisAccounts g)) d s1" by (auto simp: assms(9))
  moreover have "0 < d" using assms(7,9) by (simp add: valid_genesis_def)
  ultimately have "balance_inv (sc_DBInstance S) (sc_libs S) view up d s1"
    using assms(3,4) by (simp add: balance_inv_def db_inv_def genesis_trees_def)
  then have inv: "balance_inv (sc_DBInstance S) (sc_libs S) view up d (li_db l)"
    using coordinator_reach_tree [OF assms(1,2,11)] by (simp add: new_listening_def)
  then have "state_tree (sc_libs S) view d (li_db l)" by (simp add: balance_inv_def)
  with balance_inv_root [OF inv] balance_inv_proofs [OF inv assms(12,13)] show ?thesis by auto
qed

theorem coordinator_from_genesis_witness:
  "\<exists>st s1 leaf sibs root. StartCmd_init ms_gorm ref_chain ref_libs (Inr (json_Genesis ex_genesis))
       \<lparr>ms_rows = empty_tables, ms_txn = None, ms_conns = 1\<rparr> = (Ok st, s1) \<and>
     GetStateByPath ms_gorm ''10'' s1 = (Ok leaf, s1) \<and> GetSiblings ms_gorm ''10'' s1 = (Ok sibs, s1) \<and>
     GetRoot ms_gorm s1 = (Ok root, s1) \<and>
     us_Hash root = proof_root (node_hash ref_libs) ''01'' (us_Hash leaf) (map us_Hash sibs)"
proof -
  let ?S = ex_ms_syncer and ?s = "\<lparr>ms_rows = empty_tables, ms_txn = None, ms_conns = 1\<rparr>"
  let ?enc = "\<lambda>a. case ch_Encode ref_chain (abi_state a) ?s of Inr b \<Rightarrow> b | Inl _ \<Rightarrow> []"
  have S: "sc_DBInstance ?S = ms_gorm" "sc_libs ?S = ref_libs" by (simp_all add: ex_ms_syncer_def)
  have C: "conn_ok (ag_conn ex_aggregator) (ag_DB ex_aggregator) ms_rows (\<lambda>_. True) ms_tx_rows ms_base ms_open"
    by (simp add: ex_aggregator_def mem_conn_ok)
  have g: "valid_genesis (sc_libs ?S) ex_genesis" "2 = unat (ge_MaxTreeDepth ex_genesis)" "unnumbered ex_genesis"
    using ex_genesis_valid by (simp_all add: ex_genesis_def)
  have ld: "loadable ref_chain ?enc ?s (ga_Accounts (ge_GenesisAccounts ex_genesis))"
    using hex_a1 by (simp add: loadable_def ex_genesis_def NewGenUserState_def ref_chain_def abi_state_def int64_def)
  have ok: "gorm_ok (sc_DBInstance ?S) ms_rows (\<lambda>_. True)" "libs_ok (sc_libs ?S)" "ms_rows ?s = empty_tables"
    "states_isolated (sc_DBInstance ?S) ms_rows (\<lambda>_. True)"
    using conn_okD(2) [OF mem_conn_ok] ref_libs_ok ms_isolated by (simp_all add: S)
  from StartCmd_first_run [OF ok(1,2) TrueI ok(3) g(1) refl ld g(3)] obtain st s1 where
    st: "StartCmd_init ms_gorm ref_chain ref_libs (Inr (json_Genesis ex_genesis)) ?s = (Ok st, s1)" unfolding S by blast
  have "StartCmd_init (sc_DBInstance ?S) ref_chain (sc_libs ?S) (Inr (json_Genesis ex_genesis)) ?s = (Ok st, s1)"
    using st by (simp add: S)
  from coordinator_from_genesis [OF ok(4) C ok(1,2) TrueI ok(3) g(1) ld g(2) this co_refl _ _ g(3), of "''10''"] st
  show ?thesis by (auto simp: S new_listening_def)
qed

end
