(* ===== verification/Abi_Values.thy ===== *)
theory Abi_Values
  imports Contract_Caller
begin

text \<open>
  What the files that \<open>abigen\<close> generates for the contracts (\<open>contracts/\<close>) have in common: the
  types and values of the ABI, the description of a contract, and the shape of the generated
  methods.  Packing, the call to the node and unpacking are \<open>go-ethereum\<close>, the record
  \<open>bind_lib\<close>; what it documents of them is \<open>bind_ok\<close>.
\<close>

section \<open>Types and values of the ABI\<close>

text \<open>A tuple has the names of its components beside their types.\<close>

datatype sol_type = TUint nat | TAddress | TBytes32 | TBytes | TSlice sol_type | TArray nat sol_type
  | TTuple "string list" "sol_type list"

text \<open>
  A Go value as reflection sees it: \<open>*big.Int\<close>, \<open>uint8\<close>, \<open>common.Address\<close>, \<open>[32]byte\<close>, \<open>[]byte\<close>, a
  slice, an array with its length, and a struct with the names of its fields.
\<close>

datatype sol_value = SBig int | SU8 byte | SAddress bytes | SBytes32 bytes | SBytes bytes
  | SSlice "sol_value list" | SArray nat "sol_value list" | STuple "string list" "sol_value list"

text \<open>
  The field of a struct for a name of the ABI, \<open>abi.ToCamelCase\<close>: the words between underscores,
  each with a capital first letter.
\<close>

fun split_us :: "string \<Rightarrow> string list" where
  "split_us [] = [[]]"
| "split_us (c # cs) = (if c = CHR ''_'' then [] # split_us cs
     else (case split_us cs of [] \<Rightarrow> [[c]] | w # ws \<Rightarrow> (c # w) # ws))"

definition camel :: "string \<Rightarrow> string" where
  "camel s = concat (map capword (split_us s))"

text \<open>
  Whether the Go type of a value is the one for a type of the ABI: numbers of more than 64
  bits are \<open>*big.Int\<close>, and the fields of a struct have the names of the components.
\<close>

fun of_kind :: "sol_value \<Rightarrow> sol_type \<Rightarrow> bool" and of_kinds :: "sol_value list \<Rightarrow> sol_type list \<Rightarrow> bool" where
  "of_kind (SBig x) t \<longleftrightarrow> (case t of TUint n \<Rightarrow> 64 < n | _ \<Rightarrow> False)"
| "of_kind (SU8 b) t \<longleftrightarrow> t = TUint 8"
| "of_kind (SAddress b) t \<longleftrightarrow> t = TAddress"
| "of_kind (SBytes32 b) t \<longleftrightarrow> t = TBytes32"
| "of_kind (SBytes b) t \<longleftrightarrow> t = TBytes"
| "of_kind (SSlice vs) t \<longleftrightarrow> (case t of TSlice u \<Rightarrow> list_all (\<lambda>v. of_kind v u) vs | _ \<Rightarrow> False)"
| "of_kind (SArray n vs) t \<longleftrightarrow> (case t of TArray m u \<Rightarrow> n = m \<and> list_all (\<lambda>v. of_kind v u) vs | _ \<Rightarrow> False)"
| "of_kind (STuple ns vs) t \<longleftrightarrow> (case t of TTuple ms us \<Rightarrow> ns = map camel ms \<and> of_kinds vs us | _ \<Rightarrow> False)"
| "of_kinds [] ts \<longleftrightarrow> ts = []"
| "of_kinds (v # vs) ts \<longleftrightarrow> (case ts of [] \<Rightarrow> False | t # ts \<Rightarrow> of_kind v t \<and> of_kinds vs ts)"

text \<open>What packing makes of a value: a \<open>*big.Int\<close> becomes its 256 low bits.\<close>

fun packed :: "sol_value \<Rightarrow> sol_value" where
  "packed (SBig x) = SBig (wrap256 x)"
| "packed (SSlice vs) = SSlice (map packed vs)"
| "packed (SArray n vs) = SArray n (map packed vs)"
| "packed (STuple ns vs) = STuple ns (map packed vs)"
| "packed v = v"

section \<open>Contracts\<close>

text \<open>An input of an event has a flag, whether it is indexed.\<close>

record method_abi =
  me_Name :: string
  me_Inputs :: "(string \<times> sol_type) list"
  me_Outputs :: "(string \<times> sol_type) list"

record event_abi =
  ea_Name :: string
  ea_Inputs :: "(string \<times> sol_type \<times> bool) list"

record contract_abi =
  ca_Methods :: "method_abi list"
  ca_Events :: "event_abi list"

definition find_method :: "contract_abi \<Rightarrow> string \<Rightarrow> method_abi option" where
  "find_method A name = find (\<lambda>m. me_Name m = name) (ca_Methods A)"

text \<open>\<open>A.Methods[name].Inputs\<close>: a missing method is the zero one, which has no inputs.\<close>

definition method_inputs :: "contract_abi \<Rightarrow> string \<Rightarrow> (string \<times> sol_type) list" where
  "method_inputs A name = (case find_method A name of None \<Rightarrow> [] | Some m \<Rightarrow> me_Inputs m)"

section \<open>The generated methods\<close>

record call_opts =
  co_From :: bytes

text \<open>The calls of \<open>bind.BoundContract\<close>; \<open>'b\<close> is the bound contract and \<open>'t\<close> the transaction sent.\<close>

record ('b, 's, 't) bind_lib =
  bl_Call :: "'b \<Rightarrow> call_opts \<Rightarrow> string \<Rightarrow> sol_value list \<Rightarrow> 's \<Rightarrow> go_error + sol_value list"
  bl_Transact :: "'b \<Rightarrow> transact_opts \<Rightarrow> string \<Rightarrow> sol_value list \<Rightarrow> ('s, 't) prog"
  bl_Transfer :: "'b \<Rightarrow> transact_opts \<Rightarrow> ('s, 't) prog"

text \<open>
  A generated data retrieval differs from the others in the name of the method, the list of
  parameters it passes, and the variable the result is unpacked into: the fields of a struct
  if there is more than one result, or a value of a Go type (\<open>vm_Unpack\<close> is \<open>None\<close> when the
  outputs do not fit it).
\<close>

record ('a, 'r) view_method =
  vm_Name :: string
  vm_Pack :: "'a \<Rightarrow> sol_value list"
  vm_Fields :: "string list"
  vm_Unpack :: "sol_value list \<Rightarrow> 'r option"

text \<open>The method of the caller, \<open>contract.Call(opts, out, name, params...)\<close>.\<close>

definition caller_method :: "('b, 's, 't) bind_lib \<Rightarrow> ('a, 'r) view_method \<Rightarrow> 'b \<Rightarrow> call_opts \<Rightarrow> 'a \<Rightarrow> 's \<Rightarrow> go_error + 'r" where
  "caller_method L M contract opts args s = (case bl_Call L contract opts (vm_Name M) (vm_Pack M args) s of
     Inl err \<Rightarrow> Inl err
   | Inr out \<Rightarrow> (case vm_Unpack M out of None \<Rightarrow> Inl (ErrAbi ''cannot unmarshal'') | Some r \<Rightarrow> Inr r))"

text \<open>The methods of the two kinds of sessions pass the options of the session.\<close>

record 'b session =
  se_Contract :: 'b
  se_CallOpts :: call_opts
  se_TransactOpts :: transact_opts

definition session_method :: "('b, 's, 't) bind_lib \<Rightarrow> ('a, 'r) view_method \<Rightarrow> 'b session \<Rightarrow> 'a \<Rightarrow> 's \<Rightarrow> go_error + 'r" where
  "session_method L M S args = caller_method L M (se_Contract S) (se_CallOpts S) args"

text \<open>A generated transaction has a name and parameters; the result is the transaction sent.\<close>

record 'a tx_method =
  tm_Name :: string
  tm_Pack :: "'a \<Rightarrow> sol_value list"

definition transactor_method :: "('b, 's, 't) bind_lib \<Rightarrow> 'a tx_method \<Rightarrow> 'b \<Rightarrow> transact_opts \<Rightarrow> 'a \<Rightarrow> ('s, 't) prog" where
  "transactor_method L M contract opts args = bl_Transact L contract opts (tm_Name M) (tm_Pack M args)"

definition session_tx_method :: "('b, 's, 't) bind_lib \<Rightarrow> 'a tx_method \<Rightarrow> 'b session \<Rightarrow> 'a \<Rightarrow> ('s, 't) prog" where
  "session_tx_method L M S args = transactor_method L M (se_Contract S) (se_TransactOpts S) args"

text \<open>The methods of the raw bindings pass on what they are given.\<close>

definition raw_Call :: "('b, 's, 't) bind_lib \<Rightarrow> 'b \<Rightarrow> call_opts \<Rightarrow> string \<Rightarrow> sol_value list \<Rightarrow> 's \<Rightarrow> go_error + sol_value list" where
  "raw_Call L contract opts method params' = bl_Call L contract opts method params'"

definition raw_Transfer :: "('b, 's, 't) bind_lib \<Rightarrow> 'b \<Rightarrow> transact_opts \<Rightarrow> ('s, 't) prog" where
  "raw_Transfer L contract opts = bl_Transfer L contract opts"

definition raw_Transact :: "('b, 's, 't) bind_lib \<Rightarrow> 'b \<Rightarrow> transact_opts \<Rightarrow> string \<Rightarrow> sol_value list \<Rightarrow> ('s, 't) prog" where
  "raw_Transact L contract opts method params' = bl_Transact L contract opts method params'"

section \<open>Go values of parameters and results\<close>

definition bigs :: "nat \<Rightarrow> int list \<Rightarrow> sol_value" where
  "bigs n xs = SArray n (map SBig xs)"

definition big_slice :: "int list \<Rightarrow> sol_value" where
  "big_slice xs = SSlice (map SBig xs)"

definition bigs_slice :: "nat \<Rightarrow> int list list \<Rightarrow> sol_value" where
  "bigs_slice n xss = SSlice (map (bigs n) xss)"

definition bytes32_slice :: "ByteArray list \<Rightarrow> sol_value" where
  "bytes32_slice bs = SSlice (map SBytes32 bs)"

definition bytes_slice :: "bytes list \<Rightarrow> sol_value" where
  "bytes_slice bs = SSlice (map SBytes bs)"

fun res_none :: "sol_value list \<Rightarrow> unit option" where
  "res_none vs = Some ()"

fun res_big :: "sol_value list \<Rightarrow> int option" where
  "res_big [SBig x] = Some x"
| "res_big _ = None"

fun res_u8 :: "sol_value list \<Rightarrow> byte option" where
  "res_u8 [SU8 x] = Some x"
| "res_u8 _ = None"

fun res_bytes :: "sol_value list \<Rightarrow> bytes option" where
  "res_bytes [SBytes x] = Some x"
| "res_bytes _ = None"

fun res_bytes32 :: "sol_value list \<Rightarrow> ByteArray option" where
  "res_bytes32 [SBytes32 x] = Some x"
| "res_bytes32 _ = None"

fun res_address :: "sol_value list \<Rightarrow> bytes option" where
  "res_address [SAddress x] = Some x"
| "res_address _ = None"

named_theorems binding_defs \<open>the methods, structs and descriptions of the contracts\<close>

section \<open>Agreement of a method with the description of its contract\<close>

text \<open>
  The contract has the method; whatever is passed, the parameters are of the kinds of its
  inputs; and the variable for the result takes any outputs of the kinds of its outputs.
\<close>

definition agrees :: "contract_abi \<Rightarrow> ('a, 'r) view_method \<Rightarrow> bool" where
  "agrees A M \<longleftrightarrow> (\<exists>m. find_method A (vm_Name M) = Some m \<and>
     (\<forall>args. of_kinds (vm_Pack M args) (map snd (me_Inputs m))) \<and>
     (vm_Fields M \<noteq> [] \<longrightarrow> vm_Fields M = map (camel \<circ> fst) (me_Outputs m)) \<and>
     (\<forall>vs. of_kinds vs (map snd (me_Outputs m)) \<longrightarrow> vm_Unpack M vs \<noteq> None))"

definition tx_agrees :: "contract_abi \<Rightarrow> 'a tx_method \<Rightarrow> bool" where
  "tx_agrees A M \<longleftrightarrow> (\<exists>m. find_method A (tm_Name M) = Some m \<and>
     (\<forall>args. of_kinds (tm_Pack M args) (map snd (me_Inputs m))) \<and> me_Outputs m = [])"

text \<open>
  What is documented of a call: one whose parameters are of the right kinds is packed and
  answered by the contract at the address (\<open>evm\<close>) or fails with its error; the outputs of the
  contract are of the kinds the ABI gives.
\<close>

definition bind_ok :: "('b \<Rightarrow> contract_abi) \<Rightarrow> ('b \<Rightarrow> string \<Rightarrow> sol_value list \<Rightarrow> 's \<Rightarrow> go_error + sol_value list) \<Rightarrow>
    ('b, 's, 't) bind_lib \<Rightarrow> bool" where
  "bind_ok abi_of evm L \<longleftrightarrow> (\<forall>b opts m vs s. find_method (abi_of b) (me_Name m) = Some m \<and> of_kinds vs (map snd (me_Inputs m)) \<longrightarrow>
     bl_Call L b opts (me_Name m) vs s = evm b (me_Name m) (map packed vs) s \<and>
     (\<forall>ws. evm b (me_Name m) (map packed vs) s = Inr ws \<longrightarrow> of_kinds ws (map snd (me_Outputs m))))"

section \<open>Lemmas\<close>

lemma of_kind_inv [simp]:
  "of_kind v TAddress \<longleftrightarrow> (\<exists>b. v = SAddress b)"
  "of_kind v TBytes32 \<longleftrightarrow> (\<exists>b. v = SBytes32 b)"
  "of_kind v TBytes \<longleftrightarrow> (\<exists>b. v = SBytes b)"
  "of_kind v (TUint 256) \<longleftrightarrow> (\<exists>x. v = SBig x)"
  "of_kind v (TUint 8) \<longleftrightarrow> (\<exists>x. v = SU8 x)"
  "of_kind v (TSlice u) \<longleftrightarrow> (\<exists>vs. v = SSlice vs \<and> list_all (\<lambda>v. of_kind v u) vs)"
  "of_kind v (TArray n u) \<longleftrightarrow> (\<exists>vs. v = SArray n vs \<and> list_all (\<lambda>v. of_kind v u) vs)"
  "of_kind v (TTuple ms us) \<longleftrightarrow> (\<exists>vs. v = STuple (map camel ms) vs \<and> of_kinds vs us)"
  by (cases v; auto)+

lemma of_kinds_inv [simp]:
  "of_kinds vs [] \<longleftrightarrow> vs = []"
  "of_kinds vs (t # ts) \<longleftrightarrow> (\<exists>w ws. vs = w # ws \<and> of_kind w t \<and> of_kinds ws ts)"
  by (cases vs; auto)+

lemma slice_kinds [simp]:
  "bigs n xs = SArray m vs \<longleftrightarrow> n = m \<and> vs = map SBig xs"
  "big_slice xs = SSlice vs \<longleftrightarrow> vs = map SBig xs"
  "bigs_slice n xss = SSlice vs \<longleftrightarrow> vs = map (bigs n) xss"
  "bytes32_slice bs = SSlice vs \<longleftrightarrow> vs = map SBytes32 bs"
  "bytes_slice bs' = SSlice vs \<longleftrightarrow> vs = map SBytes bs'"
  by (auto simp: bigs_def big_slice_def bigs_slice_def bytes32_slice_def bytes_slice_def)

lemma upc_letter [simp]:
  "upc CHR ''a'' = CHR ''A''" "upc CHR ''b'' = CHR ''B''" "upc CHR ''c'' = CHR ''C''"
  "upc CHR ''d'' = CHR ''D''" "upc CHR ''e'' = CHR ''E''" "upc CHR ''f'' = CHR ''F''"
  "upc CHR ''g'' = CHR ''G''" "upc CHR ''h'' = CHR ''H''" "upc CHR ''i'' = CHR ''I''"
  "upc CHR ''j'' = CHR ''J''" "upc CHR ''k'' = CHR ''K''" "upc CHR ''l'' = CHR ''L''"
  "upc CHR ''m'' = CHR ''M''" "upc CHR ''n'' = CHR ''N''" "upc CHR ''o'' = CHR ''O''"
  "upc CHR ''p'' = CHR ''P''" "upc CHR ''q'' = CHR ''Q''" "upc CHR ''r'' = CHR ''R''"
  "upc CHR ''s'' = CHR ''S''" "upc CHR ''t'' = CHR ''T''" "upc CHR ''u'' = CHR ''U''"
  "upc CHR ''v'' = CHR ''V''" "upc CHR ''w'' = CHR ''W''" "upc CHR ''x'' = CHR ''X''"
  "upc CHR ''y'' = CHR ''Y''" "upc CHR ''z'' = CHR ''Z''"
  "upc CHR ''A'' = CHR ''A''"
  by (simp_all add: upc_def char_of_def bit_0)

lemma capword_simps [simp]: "capword [] = []" "capword (c # cs) = upc c # cs"
  by (simp_all add: capword_def)

lemma list_all_True [simp]: "list_all (\<lambda>x. True) xs"
  by (simp add: list_all_iff)

lemma agreesI:
  assumes "find_method A (vm_Name M) = Some m" "\<And>args. of_kinds (vm_Pack M args) (map snd (me_Inputs m))"
    and "vm_Fields M \<noteq> [] \<Longrightarrow> vm_Fields M = map (camel \<circ> fst) (me_Outputs m)"
    and "\<And>vs. of_kinds vs (map snd (me_Outputs m)) \<Longrightarrow> vm_Unpack M vs \<noteq> None"
  shows "agrees A M"
  using assms by (auto simp: agrees_def)

lemma tx_agreesI:
  assumes "find_method A (tm_Name M) = Some m" "\<And>args. of_kinds (tm_Pack M args) (map snd (me_Inputs m))" "me_Outputs m = []"
  shows "tx_agrees A M"
  using assms by (auto simp: tx_agrees_def)

lemma find_method_name: "find_method A n = Some m \<Longrightarrow> me_Name m = n"
  unfolding find_method_def by (auto simp: find_Some_iff)

text \<open>
  A method that agrees with its contract never fails for a reason of its own: the call gives
  the answer of the contract, unpacked.
\<close>

lemma caller_method_run:
  assumes "bind_ok abi_of evm L" "agrees (abi_of b) M"
  shows "caller_method L M b opts args s = (case evm b (vm_Name M) (map packed (vm_Pack M args)) s of
     Inl err \<Rightarrow> Inl err | Inr vs \<Rightarrow> Inr (the (vm_Unpack M vs)))"
proof -
  obtain m where m: "find_method (abi_of b) (vm_Name M) = Some m" "of_kinds (vm_Pack M args) (map snd (me_Inputs m))"
    and out: "\<forall>vs. of_kinds vs (map snd (me_Outputs m)) \<longrightarrow> vm_Unpack M vs \<noteq> None"
    using assms(2) unfolding agrees_def by blast
  have n: "me_Name m = vm_Name M" using find_method_name [OF m(1)] .
  have c: "bl_Call L b opts (vm_Name M) (vm_Pack M args) s = evm b (vm_Name M) (map packed (vm_Pack M args)) s"
    and k: "\<forall>ws. evm b (vm_Name M) (map packed (vm_Pack M args)) s = Inr ws \<longrightarrow> of_kinds ws (map snd (me_Outputs m))"
    using assms(1)[unfolded bind_ok_def, rule_format, of b m "vm_Pack M args" opts s] m n by auto
  show ?thesis
  proof (cases "evm b (vm_Name M) (map packed (vm_Pack M args)) s")
    case (Inr ws)
    with k out obtain r where "vm_Unpack M ws = Some r" by blast
    with Inr c show ?thesis by (simp add: caller_method_def)
  qed (simp add: caller_method_def c)
qed

end
