(* ===== verification/Rollupclient_Binding.thy ===== *)
theory Rollupclient_Binding
  imports Abi_Values
begin

text \<open>
  The binding of the frontend contract, \<open>contracts/rollupclient/rollupclient.go\<close>: its structs, the
  constant that describes the contract, and the methods by which \<open>core/bazooka.go\<close> encodes,
  compresses and applies transactions.  Every method agrees with the description, so that what
  \<open>Bazooka\<close> gets is the answer of the contract.
\<close>

section \<open>Structs\<close>

record OffchainCreate2Transfer =
  c2_TxType :: int
  c2_FromIndex :: int
  c2_ToIndex :: int
  c2_ToAccID :: int
  c2_Amount :: int
  c2_Fee :: int
  c2_Nonce :: int

record OffchainMassMigration =
  om_TxType :: int
  om_FromIndex :: int
  om_Amount :: int
  om_Fee :: int
  om_SpokeID :: int
  om_Nonce :: int

record TypesSignatureProof =
  sp_States :: "TypesUserState list"
  sp_StateWitnesses :: "ByteArray list list"
  sp_Pubkeys :: "int list list"
  sp_PubkeyWitnesses :: "ByteArray list list"

record TypesSignatureProofWithReceiver =
  sr_States :: "TypesUserState list"
  sr_StateWitnesses :: "ByteArray list list"
  sr_PubkeysSender :: "int list list"
  sr_PubkeyWitnessesSender :: "ByteArray list list"
  sr_PubkeysReceiver :: "int list list"
  sr_PubkeyWitnessesReceiver :: "ByteArray list list"

definition of_OffchainCreate2Transfer :: "OffchainCreate2Transfer \<Rightarrow> sol_value" where
  "of_OffchainCreate2Transfer x = STuple [''TxType'', ''FromIndex'', ''ToIndex'', ''ToAccID'', ''Amount'',
       ''Fee'', ''Nonce'']
     [SBig (c2_TxType x), SBig (c2_FromIndex x), SBig (c2_ToIndex x), SBig (c2_ToAccID x), SBig (c2_Amount x),
       SBig (c2_Fee x), SBig (c2_Nonce x)]"

definition of_OffchainMassMigration :: "OffchainMassMigration \<Rightarrow> sol_value" where
  "of_OffchainMassMigration x = STuple [''TxType'', ''FromIndex'', ''Amount'', ''Fee'', ''SpokeID'', ''Nonce'']
     [SBig (om_TxType x), SBig (om_FromIndex x), SBig (om_Amount x), SBig (om_Fee x), SBig (om_SpokeID x),
       SBig (om_Nonce x)]"

definition of_OffchainTransfer :: "Transfer \<Rightarrow> sol_value" where
  "of_OffchainTransfer x = STuple [''TxType'', ''FromIndex'', ''ToIndex'', ''Amount'', ''Fee'', ''Nonce'']
     [SBig (tr_TxType x), SBig (tr_FromIndex x), SBig (tr_ToIndex x), SBig (tr_Amount x), SBig (tr_Fee x),
       SBig (tr_Nonce x)]"

definition of_TypesUserState :: "TypesUserState \<Rightarrow> sol_value" where
  "of_TypesUserState x = STuple [''PubkeyIndex'', ''TokenType'', ''Balance'', ''Nonce'']
     [SBig (ts_PubkeyIndex x), SBig (ts_TokenType x), SBig (ts_Balance x), SBig (ts_Nonce x)]"

definition of_TypesSignatureProof :: "TypesSignatureProof \<Rightarrow> sol_value" where
  "of_TypesSignatureProof x = STuple [''States'', ''StateWitnesses'', ''Pubkeys'', ''PubkeyWitnesses'']
     [SSlice (map of_TypesUserState (sp_States x)), SSlice (map bytes32_slice (sp_StateWitnesses x)),
       bigs_slice 4 (sp_Pubkeys x), SSlice (map bytes32_slice (sp_PubkeyWitnesses x))]"

definition of_TypesSignatureProofWithReceiver :: "TypesSignatureProofWithReceiver \<Rightarrow> sol_value" where
  "of_TypesSignatureProofWithReceiver x = STuple [''States'', ''StateWitnesses'', ''PubkeysSender'',
       ''PubkeyWitnessesSender'', ''PubkeysReceiver'', ''PubkeyWitnessesReceiver'']
     [SSlice (map of_TypesUserState (sr_States x)), SSlice (map bytes32_slice (sr_StateWitnesses x)),
       bigs_slice 4 (sr_PubkeysSender x), SSlice (map bytes32_slice (sr_PubkeyWitnessesSender x)),
       bigs_slice 4 (sr_PubkeysReceiver x), SSlice (map bytes32_slice (sr_PubkeyWitnessesReceiver x))]"

definition of_TypesStateMerkleProof :: "TypesStateMerkleProof \<Rightarrow> sol_value" where
  "of_TypesStateMerkleProof x = STuple [''State'', ''Witness'']
     [of_TypesUserState (tp_State x), bytes32_slice (tp_Witness x)]"

definition res_OffchainCreate2Transfer :: "sol_value list \<Rightarrow> OffchainCreate2Transfer option" where
  "res_OffchainCreate2Transfer vs = (case vs of [STuple ns [SBig a, SBig b, SBig c, SBig d, SBig e, SBig f,
       SBig g]] \<Rightarrow>
       Some \<lparr>c2_TxType = a, c2_FromIndex = b, c2_ToIndex = c, c2_ToAccID = d, c2_Amount = e, c2_Fee = f,
       c2_Nonce = g\<rparr>
     | _ \<Rightarrow> None)"

definition res_OffchainMassMigration :: "sol_value list \<Rightarrow> OffchainMassMigration option" where
  "res_OffchainMassMigration vs = (case vs of [STuple ns [SBig a, SBig b, SBig c, SBig d, SBig e,
       SBig f]] \<Rightarrow>
       Some \<lparr>om_TxType = a, om_FromIndex = b, om_Amount = c, om_Fee = d, om_SpokeID = e, om_Nonce = f\<rparr>
     | _ \<Rightarrow> None)"

definition res_OffchainTransfer :: "sol_value list \<Rightarrow> Transfer option" where
  "res_OffchainTransfer vs = (case vs of [STuple ns [SBig a, SBig b, SBig c, SBig d, SBig e, SBig f]] \<Rightarrow>
       Some \<lparr>tr_TxType = a, tr_FromIndex = b, tr_ToIndex = c, tr_Amount = d, tr_Fee = e, tr_Nonce = f\<rparr>
     | _ \<Rightarrow> None)"

definition res_TypesUserState :: "sol_value list \<Rightarrow> TypesUserState option" where
  "res_TypesUserState vs = (case vs of [STuple ns [SBig a, SBig b, SBig c, SBig d]] \<Rightarrow>
       Some \<lparr>ts_PubkeyIndex = a, ts_TokenType = b, ts_Balance = c, ts_Nonce = d\<rparr>
     | _ \<Rightarrow> None)"

section \<open>The description of the contract\<close>

definition T_TypesUserState :: sol_type where
  "T_TypesUserState = TTuple [''pubkeyIndex'', ''tokenType'', ''balance'', ''nonce'']
     [TUint 256, TUint 256, TUint 256, TUint 256]"

definition T_TypesSignatureProofWithReceiver :: sol_type where
  "T_TypesSignatureProofWithReceiver = TTuple [''states'', ''stateWitnesses'', ''pubkeysSender'',
       ''pubkeyWitnessesSender'', ''pubkeysReceiver'', ''pubkeyWitnessesReceiver'']
     [TSlice T_TypesUserState, TSlice (TSlice TBytes32), TSlice (TArray 4 (TUint 256)), TSlice (TSlice TBytes32),
       TSlice (TArray 4 (TUint 256)), TSlice (TSlice TBytes32)]"

definition T_TypesSignatureProof :: sol_type where
  "T_TypesSignatureProof = TTuple [''states'', ''stateWitnesses'', ''pubkeys'', ''pubkeyWitnesses'']
     [TSlice T_TypesUserState, TSlice (TSlice TBytes32), TSlice (TArray 4 (TUint 256)), TSlice (TSlice TBytes32)]"

definition T_OffchainCreate2Transfer :: sol_type where
  "T_OffchainCreate2Transfer = TTuple [''txType'', ''fromIndex'', ''toIndex'', ''toAccID'', ''amount'', ''fee'',
       ''nonce'']
     [TUint 256, TUint 256, TUint 256, TUint 256, TUint 256, TUint 256, TUint 256]"

definition T_OffchainMassMigration :: sol_type where
  "T_OffchainMassMigration = TTuple [''txType'', ''fromIndex'', ''amount'', ''fee'', ''spokeID'', ''nonce'']
     [TUint 256, TUint 256, TUint 256, TUint 256, TUint 256, TUint 256]"

definition T_OffchainTransfer :: sol_type where
  "T_OffchainTransfer = TTuple [''txType'', ''fromIndex'', ''toIndex'', ''amount'', ''fee'', ''nonce'']
     [TUint 256, TUint 256, TUint 256, TUint 256, TUint 256, TUint 256]"

definition T_TypesStateMerkleProof :: sol_type where
  "T_TypesStateMerkleProof = TTuple [''state'', ''witness'']
     [T_TypesUserState, TSlice TBytes32]"

definition RollupclientABI :: contract_abi where
  "RollupclientABI = \<lparr>ca_Methods = [
     \<lparr>me_Name = ''checkSignatureCreate2Transfer'', me_Inputs = [(''signature'', TArray 2 (TUint 256)),
       (''proof'', T_TypesSignatureProofWithReceiver), (''stateRoot'', TBytes32), (''accountRoot'', TBytes32),
       (''domain'', TBytes32), (''txs'', TBytes)], me_Outputs = [('''', TUint 8)]\<rparr>,
     \<lparr>me_Name = ''checkSignatureMassMigration'', me_Inputs = [(''signature'', TArray 2 (TUint 256)),
       (''proof'', T_TypesSignatureProof), (''stateRoot'', TBytes32), (''accountRoot'', TBytes32), (''domain'',
       TBytes32), (''spokeID'', TUint 256), (''txs'', TBytes)], me_Outputs = [('''', TUint 8)]\<rparr>,
     \<lparr>me_Name = ''checkSignatureTransfer'', me_Inputs = [(''signature'', TArray 2 (TUint 256)),
       (''proof'', T_TypesSignatureProof), (''stateRoot'', TBytes32), (''accountRoot'', TBytes32), (''domain'',
       TBytes32), (''txs'', TBytes)], me_Outputs = [('''', TUint 8)]\<rparr>,
     \<lparr>me_Name = ''compressCreate2Transfer'', me_Inputs = [(''encodedTxs'', TSlice TBytes)],
       me_Outputs = [('''', TBytes)]\<rparr>,
     \<lparr>me_Name = ''compressMassMigration'', me_Inputs = [(''encodedTxs'', TSlice TBytes)],
       me_Outputs = [('''', TBytes)]\<rparr>,
     \<lparr>me_Name = ''compressTransfer'', me_Inputs = [(''encodedTxs'', TSlice TBytes)], me_Outputs = [('''',
       TBytes)]\<rparr>,
     \<lparr>me_Name = ''decodeCreate2Transfer'', me_Inputs = [(''encodedTx'', TBytes)], me_Outputs = [(''_tx'',
       T_OffchainCreate2Transfer)]\<rparr>,
     \<lparr>me_Name = ''decodeMassMigration'', me_Inputs = [(''encodedTx'', TBytes)], me_Outputs = [(''_tx'',
       T_OffchainMassMigration)]\<rparr>,
     \<lparr>me_Name = ''decodeState'', me_Inputs = [(''stateBytes'', TBytes)], me_Outputs = [(''state'',
       T_TypesUserState)]\<rparr>,
     \<lparr>me_Name = ''decodeTransfer'', me_Inputs = [(''encodedTx'', TBytes)], me_Outputs = [(''_tx'',
       T_OffchainTransfer)]\<rparr>,
     \<lparr>me_Name = ''encode'', me_Inputs = [(''state'', T_TypesUserState)], me_Outputs = [('''',
       TBytes)]\<rparr>,
     \<lparr>me_Name = ''encodeCreate2Transfer'', me_Inputs = [(''_tx'', T_OffchainCreate2Transfer)],
       me_Outputs = [('''', TBytes)]\<rparr>,
     \<lparr>me_Name = ''encodeMassMigration'', me_Inputs = [(''_tx'', T_OffchainMassMigration)],
       me_Outputs = [('''', TBytes)]\<rparr>,
     \<lparr>me_Name = ''encodeTransfer'', me_Inputs = [(''_tx'', T_OffchainTransfer)], me_Outputs = [('''',
       TBytes)]\<rparr>,
     \<lparr>me_Name = ''processCreate2Transfer'', me_Inputs = [(''stateRoot'', TBytes32), (''encodedTx'',
       TBytes), (''tokenType'', TUint 256), (''from'', T_TypesStateMerkleProof), (''to'',
       T_TypesStateMerkleProof)], me_Outputs = [(''newRoot'', TBytes32), (''result'', TUint 8)]\<rparr>,
     \<lparr>me_Name = ''processMassMigration'', me_Inputs = [(''stateRoot'', TBytes32), (''encodedTx'', TBytes),
       (''tokenType'', TUint 256), (''from'', T_TypesStateMerkleProof)], me_Outputs = [(''newRoot'', TBytes32),
       (''freshState'', TBytes), (''result'', TUint 8)]\<rparr>,
     \<lparr>me_Name = ''processTransfer'', me_Inputs = [(''stateRoot'', TBytes32), (''encodedTx'', TBytes),
       (''tokenType'', TUint 256), (''from'', T_TypesStateMerkleProof), (''to'', T_TypesStateMerkleProof)],
       me_Outputs = [(''newRoot'', TBytes32), (''result'', TUint 8)]\<rparr>,
     \<lparr>me_Name = ''valiateCreate2Transfer'', me_Inputs = [(''encodedTx'', TBytes), (''signature'',
       TArray 2 (TUint 256)), (''fromPubkey'', TArray 4 (TUint 256)), (''toPubkey'', TArray 4 (TUint 256)),
       (''domain'', TBytes32)], me_Outputs = []\<rparr>,
     \<lparr>me_Name = ''valiateMassMigration'', me_Inputs = [(''encodedTx'', TBytes), (''signature'',
       TArray 2 (TUint 256)), (''pubkey'', TArray 4 (TUint 256)), (''domain'', TBytes32)], me_Outputs = []\<rparr>,
     \<lparr>me_Name = ''valiateTransfer'', me_Inputs = [(''encodedTx'', TBytes), (''signature'',
       TArray 2 (TUint 256)), (''pubkey'', TArray 4 (TUint 256)), (''domain'', TBytes32)], me_Outputs = []\<rparr>,
     \<lparr>me_Name = ''validateAndApplyCreate2Transfer'', me_Inputs = [(''senderEncoded'', TBytes),
       (''encodedTx'', TBytes)], me_Outputs = [(''newSender'', TBytes), (''newReceiver'', TBytes), (''result'',
       TUint 8)]\<rparr>,
     \<lparr>me_Name = ''validateAndApplyMassMigration'', me_Inputs = [(''senderEncoded'', TBytes),
       (''encodedTx'', TBytes)], me_Outputs = [(''newSender'', TBytes), (''withdrawState'', TBytes), (''result'',
       TUint 8)]\<rparr>,
     \<lparr>me_Name = ''validateAndApplyTransfer'', me_Inputs = [(''senderEncoded'', TBytes),
       (''receiverEncoded'', TBytes), (''encodedTx'', TBytes)], me_Outputs = [(''newSender'', TBytes),
       (''newReceiver'', TBytes), (''result'', TUint 8)]\<rparr>],
   ca_Events = []\<rparr>"

section \<open>The methods\<close>

text \<open>
  A definition is the method of \<open>RollupclientCaller\<close> under its name, by \<open>caller_method\<close>, and those of
  the two sessions, by \<open>session_method\<close>.
\<close>

definition Rollupclient_CheckSignatureCreate2Transfer :: "(int list \<times>
    TypesSignatureProofWithReceiver \<times> ByteArray \<times> ByteArray \<times> ByteArray \<times> bytes,
       byte) view_method" where
  "Rollupclient_CheckSignatureCreate2Transfer = \<lparr>vm_Name = ''checkSignatureCreate2Transfer'',
     vm_Pack = (\<lambda>(signature, proof, stateRoot, accountRoot, domain, txs). [bigs 2 signature,
       of_TypesSignatureProofWithReceiver proof, SBytes32 stateRoot, SBytes32 accountRoot, SBytes32 domain,
       SBytes txs]),
     vm_Fields = [], vm_Unpack = res_u8\<rparr>"

definition Rollupclient_CheckSignatureMassMigration :: "(int list \<times> TypesSignatureProof \<times>
    ByteArray \<times> ByteArray \<times> ByteArray \<times> int \<times> bytes, byte) view_method" where
  "Rollupclient_CheckSignatureMassMigration = \<lparr>vm_Name = ''checkSignatureMassMigration'',
     vm_Pack = (\<lambda>(signature, proof, stateRoot, accountRoot, domain, spokeID, txs). [bigs 2 signature,
       of_TypesSignatureProof proof, SBytes32 stateRoot, SBytes32 accountRoot, SBytes32 domain, SBig spokeID,
       SBytes txs]),
     vm_Fields = [], vm_Unpack = res_u8\<rparr>"

definition Rollupclient_CheckSignatureTransfer :: "(int list \<times> TypesSignatureProof \<times>
    ByteArray \<times> ByteArray \<times> ByteArray \<times> bytes, byte) view_method" where
  "Rollupclient_CheckSignatureTransfer = \<lparr>vm_Name = ''checkSignatureTransfer'',
     vm_Pack = (\<lambda>(signature, proof, stateRoot, accountRoot, domain, txs). [bigs 2 signature,
       of_TypesSignatureProof proof, SBytes32 stateRoot, SBytes32 accountRoot, SBytes32 domain, SBytes txs]),
     vm_Fields = [], vm_Unpack = res_u8\<rparr>"

definition Rollupclient_CompressCreate2Transfer :: "(bytes list, bytes) view_method" where
  "Rollupclient_CompressCreate2Transfer = \<lparr>vm_Name = ''compressCreate2Transfer'',
     vm_Pack = (\<lambda>encodedTxs. [bytes_slice encodedTxs]),
     vm_Fields = [], vm_Unpack = res_bytes\<rparr>"

definition Rollupclient_CompressMassMigration :: "(bytes list, bytes) view_method" where
  "Rollupclient_CompressMassMigration = \<lparr>vm_Name = ''compressMassMigration'',
     vm_Pack = (\<lambda>encodedTxs. [bytes_slice encodedTxs]),
     vm_Fields = [], vm_Unpack = res_bytes\<rparr>"

definition Rollupclient_CompressTransfer :: "(bytes list, bytes) view_method" where
  "Rollupclient_CompressTransfer = \<lparr>vm_Name = ''compressTransfer'',
     vm_Pack = (\<lambda>encodedTxs. [bytes_slice encodedTxs]),
     vm_Fields = [], vm_Unpack = res_bytes\<rparr>"

definition Rollupclient_DecodeCreate2Transfer :: "(bytes, OffchainCreate2Transfer) view_method" where
  "Rollupclient_DecodeCreate2Transfer = \<lparr>vm_Name = ''decodeCreate2Transfer'',
     vm_Pack = (\<lambda>encodedTx. [SBytes encodedTx]),
     vm_Fields = [], vm_Unpack = res_OffchainCreate2Transfer\<rparr>"

definition Rollupclient_DecodeMassMigration :: "(bytes, OffchainMassMigration) view_method" where
  "Rollupclient_DecodeMassMigration = \<lparr>vm_Name = ''decodeMassMigration'',
     vm_Pack = (\<lambda>encodedTx. [SBytes encodedTx]),
     vm_Fields = [], vm_Unpack = res_OffchainMassMigration\<rparr>"

definition Rollupclient_DecodeState :: "(bytes, TypesUserState) view_method" where
  "Rollupclient_DecodeState = \<lparr>vm_Name = ''decodeState'',
     vm_Pack = (\<lambda>stateBytes. [SBytes stateBytes]),
     vm_Fields = [], vm_Unpack = res_TypesUserState\<rparr>"

definition Rollupclient_DecodeTransfer :: "(bytes, Transfer) view_method" where
  "Rollupclient_DecodeTransfer = \<lparr>vm_Name = ''decodeTransfer'',
     vm_Pack = (\<lambda>encodedTx. [SBytes encodedTx]),
     vm_Fields = [], vm_Unpack = res_OffchainTransfer\<rparr>"

definition Rollupclient_Encode :: "(TypesUserState, bytes) view_method" where
  "Rollupclient_Encode = \<lparr>vm_Name = ''encode'',
     vm_Pack = (\<lambda>state. [of_TypesUserState state]),
     vm_Fields = [], vm_Unpack = res_bytes\<rparr>"

definition Rollupclient_EncodeCreate2Transfer :: "(OffchainCreate2Transfer, bytes) view_method" where
  "Rollupclient_EncodeCreate2Transfer = \<lparr>vm_Name = ''encodeCreate2Transfer'',
     vm_Pack = (\<lambda>tx. [of_OffchainCreate2Transfer tx]),
     vm_Fields = [], vm_Unpack = res_bytes\<rparr>"

definition Rollupclient_EncodeMassMigration :: "(OffchainMassMigration, bytes) view_method" where
  "Rollupclient_EncodeMassMigration = \<lparr>vm_Name = ''encodeMassMigration'',
     vm_Pack = (\<lambda>tx. [of_OffchainMassMigration tx]),
     vm_Fields = [], vm_Unpack = res_bytes\<rparr>"

definition Rollupclient_EncodeTransfer :: "(Transfer, bytes) view_method" where
  "Rollupclient_EncodeTransfer = \<lparr>vm_Name = ''encodeTransfer'',
     vm_Pack = (\<lambda>tx. [of_OffchainTransfer tx]),
     vm_Fields = [], vm_Unpack = res_bytes\<rparr>"

definition Rollupclient_ProcessCreate2Transfer :: "(ByteArray \<times> bytes \<times> int \<times>
    TypesStateMerkleProof \<times> TypesStateMerkleProof, ByteArray \<times> byte) view_method" where
  "Rollupclient_ProcessCreate2Transfer = \<lparr>vm_Name = ''processCreate2Transfer'',
     vm_Pack = (\<lambda>(stateRoot, encodedTx, tokenType, from_proof, to_proof). [SBytes32 stateRoot,
       SBytes encodedTx, SBig tokenType, of_TypesStateMerkleProof from_proof, of_TypesStateMerkleProof to_proof]),
     vm_Fields = [''NewRoot'', ''Result''], vm_Unpack = (\<lambda>vs. case vs of [SBytes32 newRoot,
       SU8 result] \<Rightarrow> Some (newRoot, result) | _ \<Rightarrow> None)\<rparr>"

definition Rollupclient_ProcessMassMigration :: "(ByteArray \<times> bytes \<times> int \<times>
    TypesStateMerkleProof, ByteArray \<times> bytes \<times> byte) view_method" where
  "Rollupclient_ProcessMassMigration = \<lparr>vm_Name = ''processMassMigration'',
     vm_Pack = (\<lambda>(stateRoot, encodedTx, tokenType, from_proof). [SBytes32 stateRoot, SBytes encodedTx,
       SBig tokenType, of_TypesStateMerkleProof from_proof]),
     vm_Fields = [''NewRoot'', ''FreshState'', ''Result''],
       vm_Unpack = (\<lambda>vs. case vs of [SBytes32 newRoot, SBytes freshState,
       SU8 result] \<Rightarrow> Some (newRoot, freshState, result) | _ \<Rightarrow> None)\<rparr>"

definition Rollupclient_ProcessTransfer :: "(ByteArray \<times> bytes \<times> int \<times>
    TypesStateMerkleProof \<times> TypesStateMerkleProof, ByteArray \<times> byte) view_method" where
  "Rollupclient_ProcessTransfer = \<lparr>vm_Name = ''processTransfer'',
     vm_Pack = (\<lambda>(stateRoot, encodedTx, tokenType, from_proof, to_proof). [SBytes32 stateRoot,
       SBytes encodedTx, SBig tokenType, of_TypesStateMerkleProof from_proof, of_TypesStateMerkleProof to_proof]),
     vm_Fields = [''NewRoot'', ''Result''], vm_Unpack = (\<lambda>vs. case vs of [SBytes32 newRoot,
       SU8 result] \<Rightarrow> Some (newRoot, result) | _ \<Rightarrow> None)\<rparr>"

definition Rollupclient_ValiateCreate2Transfer :: "(bytes \<times> int list \<times> int list \<times>
    int list \<times> ByteArray, unit) view_method" where
  "Rollupclient_ValiateCreate2Transfer = \<lparr>vm_Name = ''valiateCreate2Transfer'',
     vm_Pack = (\<lambda>(encodedTx, signature, fromPubkey, toPubkey, domain). [SBytes encodedTx,
       bigs 2 signature, bigs 4 fromPubkey, bigs 4 toPubkey, SBytes32 domain]),
     vm_Fields = [], vm_Unpack = res_none\<rparr>"

definition Rollupclient_ValiateMassMigration :: "(bytes \<times> int list \<times> int list \<times> ByteArray,
       unit) view_method" where
  "Rollupclient_ValiateMassMigration = \<lparr>vm_Name = ''valiateMassMigration'',
     vm_Pack = (\<lambda>(encodedTx, signature, pubkey, domain). [SBytes encodedTx, bigs 2 signature,
       bigs 4 pubkey, SBytes32 domain]),
     vm_Fields = [], vm_Unpack = res_none\<rparr>"

definition Rollupclient_ValiateTransfer :: "(bytes \<times> int list \<times> int list \<times> ByteArray,
       unit) view_method" where
  "Rollupclient_ValiateTransfer = \<lparr>vm_Name = ''valiateTransfer'',
     vm_Pack = (\<lambda>(encodedTx, signature, pubkey, domain). [SBytes encodedTx, bigs 2 signature,
       bigs 4 pubkey, SBytes32 domain]),
     vm_Fields = [], vm_Unpack = res_none\<rparr>"

definition Rollupclient_ValidateAndApplyCreate2Transfer :: "(bytes \<times> bytes,
       bytes \<times> bytes \<times> byte) view_method" where
  "Rollupclient_ValidateAndApplyCreate2Transfer = \<lparr>vm_Name = ''validateAndApplyCreate2Transfer'',
     vm_Pack = (\<lambda>(senderEncoded, encodedTx). [SBytes senderEncoded, SBytes encodedTx]),
     vm_Fields = [''NewSender'', ''NewReceiver'', ''Result''],
       vm_Unpack = (\<lambda>vs. case vs of [SBytes newSender, SBytes newReceiver,
       SU8 result] \<Rightarrow> Some (newSender, newReceiver, result) | _ \<Rightarrow> None)\<rparr>"

definition Rollupclient_ValidateAndApplyMassMigration :: "(bytes \<times> bytes,
       bytes \<times> bytes \<times> byte) view_method" where
  "Rollupclient_ValidateAndApplyMassMigration = \<lparr>vm_Name = ''validateAndApplyMassMigration'',
     vm_Pack = (\<lambda>(senderEncoded, encodedTx). [SBytes senderEncoded, SBytes encodedTx]),
     vm_Fields = [''NewSender'', ''WithdrawState'', ''Result''],
       vm_Unpack = (\<lambda>vs. case vs of [SBytes newSender, SBytes withdrawState,
       SU8 result] \<Rightarrow> Some (newSender, withdrawState, result) | _ \<Rightarrow> None)\<rparr>"

definition Rollupclient_ValidateAndApplyTransfer :: "(bytes \<times> bytes \<times> bytes,
       bytes \<times> bytes \<times> byte) view_method" where
  "Rollupclient_ValidateAndApplyTransfer = \<lparr>vm_Name = ''validateAndApplyTransfer'',
     vm_Pack = (\<lambda>(senderEncoded, receiverEncoded, encodedTx). [SBytes senderEncoded,
       SBytes receiverEncoded, SBytes encodedTx]),
     vm_Fields = [''NewSender'', ''NewReceiver'', ''Result''],
       vm_Unpack = (\<lambda>vs. case vs of [SBytes newSender, SBytes newReceiver,
       SU8 result] \<Rightarrow> Some (newSender, newReceiver, result) | _ \<Rightarrow> None)\<rparr>"

section \<open>Agreement\<close>

lemmas [binding_defs] =
  of_OffchainCreate2Transfer_def of_OffchainMassMigration_def of_OffchainTransfer_def of_TypesUserState_def
  of_TypesSignatureProof_def of_TypesSignatureProofWithReceiver_def of_TypesStateMerkleProof_def
  res_OffchainCreate2Transfer_def res_OffchainMassMigration_def res_OffchainTransfer_def res_TypesUserState_def
  T_TypesUserState_def T_TypesSignatureProofWithReceiver_def T_TypesSignatureProof_def
  T_OffchainCreate2Transfer_def T_OffchainMassMigration_def T_OffchainTransfer_def T_TypesStateMerkleProof_def

lemmas Rollupclient_methods =
  Rollupclient_CheckSignatureCreate2Transfer_def Rollupclient_CheckSignatureMassMigration_def
  Rollupclient_CheckSignatureTransfer_def Rollupclient_CompressCreate2Transfer_def
  Rollupclient_CompressMassMigration_def Rollupclient_CompressTransfer_def
  Rollupclient_DecodeCreate2Transfer_def Rollupclient_DecodeMassMigration_def Rollupclient_DecodeState_def
  Rollupclient_DecodeTransfer_def Rollupclient_Encode_def Rollupclient_EncodeCreate2Transfer_def
  Rollupclient_EncodeMassMigration_def Rollupclient_EncodeTransfer_def Rollupclient_ProcessCreate2Transfer_def
  Rollupclient_ProcessMassMigration_def Rollupclient_ProcessTransfer_def Rollupclient_ValiateCreate2Transfer_def
  Rollupclient_ValiateMassMigration_def Rollupclient_ValiateTransfer_def
  Rollupclient_ValidateAndApplyCreate2Transfer_def Rollupclient_ValidateAndApplyMassMigration_def
  Rollupclient_ValidateAndApplyTransfer_def

lemma Rollupclient_agrees:
  "agrees RollupclientABI Rollupclient_CheckSignatureCreate2Transfer \<and>
   agrees RollupclientABI Rollupclient_CheckSignatureMassMigration \<and>
   agrees RollupclientABI Rollupclient_CheckSignatureTransfer \<and>
   agrees RollupclientABI Rollupclient_CompressCreate2Transfer \<and>
   agrees RollupclientABI Rollupclient_CompressMassMigration \<and>
   agrees RollupclientABI Rollupclient_CompressTransfer \<and>
   agrees RollupclientABI Rollupclient_DecodeCreate2Transfer \<and>
   agrees RollupclientABI Rollupclient_DecodeMassMigration \<and>
   agrees RollupclientABI Rollupclient_DecodeState \<and>
   agrees RollupclientABI Rollupclient_DecodeTransfer \<and>
   agrees RollupclientABI Rollupclient_Encode \<and>
   agrees RollupclientABI Rollupclient_EncodeCreate2Transfer \<and>
   agrees RollupclientABI Rollupclient_EncodeMassMigration \<and>
   agrees RollupclientABI Rollupclient_EncodeTransfer \<and>
   agrees RollupclientABI Rollupclient_ProcessCreate2Transfer \<and>
   agrees RollupclientABI Rollupclient_ProcessMassMigration \<and>
   agrees RollupclientABI Rollupclient_ProcessTransfer \<and>
   agrees RollupclientABI Rollupclient_ValiateCreate2Transfer \<and>
   agrees RollupclientABI Rollupclient_ValiateMassMigration \<and>
   agrees RollupclientABI Rollupclient_ValiateTransfer \<and>
   agrees RollupclientABI Rollupclient_ValidateAndApplyCreate2Transfer \<and>
   agrees RollupclientABI Rollupclient_ValidateAndApplyMassMigration \<and>
   agrees RollupclientABI Rollupclient_ValidateAndApplyTransfer"
  by (intro conjI; (rule agreesI, simp add: find_method_def RollupclientABI_def Rollupclient_methods, auto simp: Rollupclient_methods binding_defs list_all_iff camel_def))

end
