(* ===== verification/Rollup_Binding.thy ===== *)
theory Rollup_Binding
  imports Rollupclient_Binding
begin

text \<open>
  The binding of the rollup contract, \<open>contracts/rollup/rollup.go\<close>.  Three of its structs are those
  of the frontend.  The daemon calls \<open>NumOfBatchesSubmitted\<close>, and looks for a method \<open>submitBatch\<close> in
  the description, which has none.
\<close>

section \<open>Structs\<close>

record TypesBatch =
  tb_CommitmentRoot :: ByteArray
  tb_Meta :: ByteArray

record TypesCommitment =
  tc_StateRoot :: ByteArray
  tc_BodyRoot :: ByteArray

record TypesCommitmentInclusionProof =
  ti_Commitment :: TypesCommitment
  ti_Path :: int
  ti_Witness :: "ByteArray list"

record TypesMassMigrationBody =
  tmb_AccountRoot :: ByteArray
  tmb_Signature :: "int list"
  tmb_SpokeID :: int
  tmb_WithdrawRoot :: ByteArray
  tmb_TokenID :: int
  tmb_Amount :: int
  tmb_FeeReceiver :: int
  tmb_Txs :: bytes

record TypesMassMigrationCommitment =
  tmc_StateRoot :: ByteArray
  tmc_Body :: TypesMassMigrationBody

record TypesMMCommitmentInclusionProof =
  tmi_Commitment :: TypesMassMigrationCommitment
  tmi_Path :: int
  tmi_Witness :: "ByteArray list"

type_synonym Rollup_TypesUserState = TypesUserState

type_synonym Rollup_TypesSignatureProof = TypesSignatureProof

type_synonym Rollup_TypesStateMerkleProof = TypesStateMerkleProof

record TypesSubtreeVacancyProof =
  tv_Depth :: int
  tv_PathAtDepth :: int
  tv_Witness :: "ByteArray list"

record TypesTransferBody =
  ttb_AccountRoot :: ByteArray
  ttb_Signature :: "int list"
  ttb_FeeReceiver :: int
  ttb_Txs :: bytes

record TypesTransferCommitment =
  ttc_StateRoot :: ByteArray
  ttc_Body :: TypesTransferBody

record TypesTransferCommitmentInclusionProof =
  tti_Commitment :: TypesTransferCommitment
  tti_Path :: int
  tti_Witness :: "ByteArray list"

definition of_TypesBatch :: "TypesBatch \<Rightarrow> sol_value" where
  "of_TypesBatch x = STuple [''CommitmentRoot'', ''Meta'']
     [SBytes32 (tb_CommitmentRoot x), SBytes32 (tb_Meta x)]"

definition of_TypesCommitment :: "TypesCommitment \<Rightarrow> sol_value" where
  "of_TypesCommitment x = STuple [''StateRoot'', ''BodyRoot'']
     [SBytes32 (tc_StateRoot x), SBytes32 (tc_BodyRoot x)]"

definition of_TypesCommitmentInclusionProof :: "TypesCommitmentInclusionProof \<Rightarrow> sol_value" where
  "of_TypesCommitmentInclusionProof x = STuple [''Commitment'', ''Path'', ''Witness'']
     [of_TypesCommitment (ti_Commitment x), SBig (ti_Path x), bytes32_slice (ti_Witness x)]"

definition of_TypesMassMigrationBody :: "TypesMassMigrationBody \<Rightarrow> sol_value" where
  "of_TypesMassMigrationBody x = STuple [''AccountRoot'', ''Signature'', ''SpokeID'', ''WithdrawRoot'',
       ''TokenID'', ''Amount'', ''FeeReceiver'', ''Txs'']
     [SBytes32 (tmb_AccountRoot x), bigs 2 (tmb_Signature x), SBig (tmb_SpokeID x),
       SBytes32 (tmb_WithdrawRoot x), SBig (tmb_TokenID x), SBig (tmb_Amount x), SBig (tmb_FeeReceiver x),
       SBytes (tmb_Txs x)]"

definition of_TypesMassMigrationCommitment :: "TypesMassMigrationCommitment \<Rightarrow> sol_value" where
  "of_TypesMassMigrationCommitment x = STuple [''StateRoot'', ''Body'']
     [SBytes32 (tmc_StateRoot x), of_TypesMassMigrationBody (tmc_Body x)]"

definition of_TypesMMCommitmentInclusionProof :: "TypesMMCommitmentInclusionProof \<Rightarrow> sol_value" where
  "of_TypesMMCommitmentInclusionProof x = STuple [''Commitment'', ''Path'', ''Witness'']
     [of_TypesMassMigrationCommitment (tmi_Commitment x), SBig (tmi_Path x), bytes32_slice (tmi_Witness x)]"

definition of_TypesSubtreeVacancyProof :: "TypesSubtreeVacancyProof \<Rightarrow> sol_value" where
  "of_TypesSubtreeVacancyProof x = STuple [''Depth'', ''PathAtDepth'', ''Witness'']
     [SBig (tv_Depth x), SBig (tv_PathAtDepth x), bytes32_slice (tv_Witness x)]"

definition of_TypesTransferBody :: "TypesTransferBody \<Rightarrow> sol_value" where
  "of_TypesTransferBody x = STuple [''AccountRoot'', ''Signature'', ''FeeReceiver'', ''Txs'']
     [SBytes32 (ttb_AccountRoot x), bigs 2 (ttb_Signature x), SBig (ttb_FeeReceiver x), SBytes (ttb_Txs x)]"

definition of_TypesTransferCommitment :: "TypesTransferCommitment \<Rightarrow> sol_value" where
  "of_TypesTransferCommitment x = STuple [''StateRoot'', ''Body'']
     [SBytes32 (ttc_StateRoot x), of_TypesTransferBody (ttc_Body x)]"

definition of_TypesTransferCommitmentInclusionProof ::
    "TypesTransferCommitmentInclusionProof \<Rightarrow> sol_value" where
  "of_TypesTransferCommitmentInclusionProof x = STuple [''Commitment'', ''Path'', ''Witness'']
     [of_TypesTransferCommitment (tti_Commitment x), SBig (tti_Path x), bytes32_slice (tti_Witness x)]"

definition res_TypesBatch :: "sol_value list \<Rightarrow> TypesBatch option" where
  "res_TypesBatch vs = (case vs of [STuple ns [SBytes32 a, SBytes32 b]] \<Rightarrow>
       Some \<lparr>tb_CommitmentRoot = a, tb_Meta = b\<rparr>
     | _ \<Rightarrow> None)"

section \<open>The description of the contract\<close>

definition T_TypesMassMigrationBody :: sol_type where
  "T_TypesMassMigrationBody = TTuple [''accountRoot'', ''signature'', ''spokeID'', ''withdrawRoot'', ''tokenID'',
       ''amount'', ''feeReceiver'', ''txs'']
     [TBytes32, TArray 2 (TUint 256), TUint 256, TBytes32, TUint 256, TUint 256, TUint 256, TBytes]"

definition T_TypesMassMigrationCommitment :: sol_type where
  "T_TypesMassMigrationCommitment = TTuple [''stateRoot'', ''body'']
     [TBytes32, T_TypesMassMigrationBody]"

definition T_TypesMMCommitmentInclusionProof :: sol_type where
  "T_TypesMMCommitmentInclusionProof = TTuple [''commitment'', ''path'', ''witness'']
     [T_TypesMassMigrationCommitment, TUint 256, TSlice TBytes32]"

definition T_TypesTransferBody :: sol_type where
  "T_TypesTransferBody = TTuple [''accountRoot'', ''signature'', ''feeReceiver'', ''txs'']
     [TBytes32, TArray 2 (TUint 256), TUint 256, TBytes]"

definition T_TypesTransferCommitment :: sol_type where
  "T_TypesTransferCommitment = TTuple [''stateRoot'', ''body'']
     [TBytes32, T_TypesTransferBody]"

definition T_TypesTransferCommitmentInclusionProof :: sol_type where
  "T_TypesTransferCommitmentInclusionProof = TTuple [''commitment'', ''path'', ''witness'']
     [T_TypesTransferCommitment, TUint 256, TSlice TBytes32]"

definition T_TypesCommitment :: sol_type where
  "T_TypesCommitment = TTuple [''stateRoot'', ''bodyRoot'']
     [TBytes32, TBytes32]"

definition T_TypesCommitmentInclusionProof :: sol_type where
  "T_TypesCommitmentInclusionProof = TTuple [''commitment'', ''path'', ''witness'']
     [T_TypesCommitment, TUint 256, TSlice TBytes32]"

definition T_TypesBatch :: sol_type where
  "T_TypesBatch = TTuple [''commitmentRoot'', ''meta'']
     [TBytes32, TBytes32]"

definition T_TypesSubtreeVacancyProof :: sol_type where
  "T_TypesSubtreeVacancyProof = TTuple [''depth'', ''pathAtDepth'', ''witness'']
     [TUint 256, TUint 256, TSlice TBytes32]"

definition RollupABI :: contract_abi where
  "RollupABI = \<lparr>ca_Methods = [
     \<lparr>me_Name = ''ZERO_BYTES32'', me_Inputs = [], me_Outputs = [('''', TBytes32)]\<rparr>,
     \<lparr>me_Name = ''accountRegistry'', me_Inputs = [], me_Outputs = [('''', TAddress)]\<rparr>,
     \<lparr>me_Name = ''appID'', me_Inputs = [], me_Outputs = [('''', TBytes32)]\<rparr>,
     \<lparr>me_Name = ''batches'', me_Inputs = [('''', TUint 256)], me_Outputs = [(''commitmentRoot'',
       TBytes32), (''meta'', TBytes32)]\<rparr>,
     \<lparr>me_Name = ''depositManager'', me_Inputs = [], me_Outputs = [('''', TAddress)]\<rparr>,
     \<lparr>me_Name = ''disputeSignatureMassMigration'', me_Inputs = [(''batchID'', TUint 256), (''target'',
       T_TypesMMCommitmentInclusionProof), (''signatureProof'', T_TypesSignatureProof)], me_Outputs = []\<rparr>,
     \<lparr>me_Name = ''disputeSignatureTransfer'', me_Inputs = [(''batchID'', TUint 256), (''target'',
       T_TypesTransferCommitmentInclusionProof), (''signatureProof'', T_TypesSignatureProof)],
       me_Outputs = []\<rparr>,
     \<lparr>me_Name = ''disputeTransitionMassMigration'', me_Inputs = [(''batchID'', TUint 256), (''previous'',
       T_TypesCommitmentInclusionProof), (''target'', T_TypesMMCommitmentInclusionProof), (''proofs'',
       TSlice T_TypesStateMerkleProof)], me_Outputs = []\<rparr>,
     \<lparr>me_Name = ''disputeTransitionTransfer'', me_Inputs = [(''batchID'', TUint 256), (''previous'',
       T_TypesCommitmentInclusionProof), (''target'', T_TypesTransferCommitmentInclusionProof), (''proofs'',
       TSlice T_TypesStateMerkleProof)], me_Outputs = []\<rparr>,
     \<lparr>me_Name = ''getBatch'', me_Inputs = [(''batchID'', TUint 256)], me_Outputs = [(''batch'',
       T_TypesBatch)]\<rparr>,
     \<lparr>me_Name = ''govStakeAmount'', me_Inputs = [], me_Outputs = [('''', TUint 256)]\<rparr>,
     \<lparr>me_Name = ''governance'', me_Inputs = [], me_Outputs = [('''', TAddress)]\<rparr>,
     \<lparr>me_Name = ''invalidBatchMarker'', me_Inputs = [], me_Outputs = [('''', TUint 256)]\<rparr>,
     \<lparr>me_Name = ''logger'', me_Inputs = [], me_Outputs = [('''', TAddress)]\<rparr>,
     \<lparr>me_Name = ''massMigration'', me_Inputs = [], me_Outputs = [('''', TAddress)]\<rparr>,
     \<lparr>me_Name = ''nameRegistry'', me_Inputs = [], me_Outputs = [('''', TAddress)]\<rparr>,
     \<lparr>me_Name = ''numOfBatchesSubmitted'', me_Inputs = [], me_Outputs = [('''', TUint 256)]\<rparr>,
     \<lparr>me_Name = ''slashAndRollback'', me_Inputs = [], me_Outputs = []\<rparr>,
     \<lparr>me_Name = ''submitCreate2Transfer'', me_Inputs = [(''stateRoots'', TSlice TBytes32),
       (''signatures'', TSlice (TArray 2 (TUint 256))), (''feeReceivers'', TSlice (TUint 256)), (''txss'',
       TSlice TBytes)], me_Outputs = []\<rparr>,
     \<lparr>me_Name = ''submitDeposits'', me_Inputs = [(''previous'', T_TypesCommitmentInclusionProof),
       (''vacant'', T_TypesSubtreeVacancyProof)], me_Outputs = []\<rparr>,
     \<lparr>me_Name = ''submitMassMigration'', me_Inputs = [(''stateRoots'', TSlice TBytes32), (''signatures'',
       TSlice (TArray 2 (TUint 256))), (''meta'', TSlice (TArray 4 (TUint 256))), (''withdrawRoots'',
       TSlice TBytes32), (''txss'', TSlice TBytes)], me_Outputs = []\<rparr>,
     \<lparr>me_Name = ''submitTransfer'', me_Inputs = [(''stateRoots'', TSlice TBytes32), (''signatures'',
       TSlice (TArray 2 (TUint 256))), (''feeReceivers'', TSlice (TUint 256)), (''txss'', TSlice TBytes)],
       me_Outputs = []\<rparr>,
     \<lparr>me_Name = ''transfer'', me_Inputs = [], me_Outputs = [('''', TAddress)]\<rparr>,
     \<lparr>me_Name = ''withdrawStake'', me_Inputs = [(''batchID'', TUint 256)], me_Outputs = []\<rparr>],
   ca_Events = []\<rparr>"

section \<open>The methods\<close>

text \<open>
  A definition is the method of \<open>RollupCaller\<close> or \<open>RollupTransactor\<close> under its name, by
  \<open>caller_method\<close> or \<open>transactor_method\<close>, and those of the two sessions, by \<open>session_method\<close> or
  \<open>session_tx_method\<close>.
\<close>

definition Rollup_ZEROBYTES32 :: "(unit, ByteArray) view_method" where
  "Rollup_ZEROBYTES32 = \<lparr>vm_Name = ''ZERO_BYTES32'',
     vm_Pack = (\<lambda>_. []),
     vm_Fields = [], vm_Unpack = res_bytes32\<rparr>"

definition Rollup_AccountRegistry :: "(unit, bytes) view_method" where
  "Rollup_AccountRegistry = \<lparr>vm_Name = ''accountRegistry'',
     vm_Pack = (\<lambda>_. []),
     vm_Fields = [], vm_Unpack = res_address\<rparr>"

definition Rollup_AppID :: "(unit, ByteArray) view_method" where
  "Rollup_AppID = \<lparr>vm_Name = ''appID'',
     vm_Pack = (\<lambda>_. []),
     vm_Fields = [], vm_Unpack = res_bytes32\<rparr>"

definition Rollup_Batches :: "(int, ByteArray \<times> ByteArray) view_method" where
  "Rollup_Batches = \<lparr>vm_Name = ''batches'',
     vm_Pack = (\<lambda>arg0. [SBig arg0]),
     vm_Fields = [''CommitmentRoot'', ''Meta''], vm_Unpack = (\<lambda>vs. case vs of [SBytes32 commitmentRoot,
       SBytes32 meta] \<Rightarrow> Some (commitmentRoot, meta) | _ \<Rightarrow> None)\<rparr>"

definition Rollup_DepositManager :: "(unit, bytes) view_method" where
  "Rollup_DepositManager = \<lparr>vm_Name = ''depositManager'',
     vm_Pack = (\<lambda>_. []),
     vm_Fields = [], vm_Unpack = res_address\<rparr>"

definition Rollup_GetBatch :: "(int, TypesBatch) view_method" where
  "Rollup_GetBatch = \<lparr>vm_Name = ''getBatch'',
     vm_Pack = (\<lambda>batchID. [SBig batchID]),
     vm_Fields = [], vm_Unpack = res_TypesBatch\<rparr>"

definition Rollup_GovStakeAmount :: "(unit, int) view_method" where
  "Rollup_GovStakeAmount = \<lparr>vm_Name = ''govStakeAmount'',
     vm_Pack = (\<lambda>_. []),
     vm_Fields = [], vm_Unpack = res_big\<rparr>"

definition Rollup_Governance :: "(unit, bytes) view_method" where
  "Rollup_Governance = \<lparr>vm_Name = ''governance'',
     vm_Pack = (\<lambda>_. []),
     vm_Fields = [], vm_Unpack = res_address\<rparr>"

definition Rollup_InvalidBatchMarker :: "(unit, int) view_method" where
  "Rollup_InvalidBatchMarker = \<lparr>vm_Name = ''invalidBatchMarker'',
     vm_Pack = (\<lambda>_. []),
     vm_Fields = [], vm_Unpack = res_big\<rparr>"

definition Rollup_Logger :: "(unit, bytes) view_method" where
  "Rollup_Logger = \<lparr>vm_Name = ''logger'',
     vm_Pack = (\<lambda>_. []),
     vm_Fields = [], vm_Unpack = res_address\<rparr>"

definition Rollup_MassMigration :: "(unit, bytes) view_method" where
  "Rollup_MassMigration = \<lparr>vm_Name = ''massMigration'',
     vm_Pack = (\<lambda>_. []),
     vm_Fields = [], vm_Unpack = res_address\<rparr>"

definition Rollup_NameRegistry :: "(unit, bytes) view_method" where
  "Rollup_NameRegistry = \<lparr>vm_Name = ''nameRegistry'',
     vm_Pack = (\<lambda>_. []),
     vm_Fields = [], vm_Unpack = res_address\<rparr>"

definition Rollup_NumOfBatchesSubmitted :: "(unit, int) view_method" where
  "Rollup_NumOfBatchesSubmitted = \<lparr>vm_Name = ''numOfBatchesSubmitted'',
     vm_Pack = (\<lambda>_. []),
     vm_Fields = [], vm_Unpack = res_big\<rparr>"

definition Rollup_Transfer :: "(unit, bytes) view_method" where
  "Rollup_Transfer = \<lparr>vm_Name = ''transfer'',
     vm_Pack = (\<lambda>_. []),
     vm_Fields = [], vm_Unpack = res_address\<rparr>"

definition Rollup_DisputeSignatureMassMigration :: "(int \<times> TypesMMCommitmentInclusionProof \<times>
    TypesSignatureProof) tx_method" where
  "Rollup_DisputeSignatureMassMigration = \<lparr>tm_Name = ''disputeSignatureMassMigration'',
     tm_Pack = (\<lambda>(batchID, target, signatureProof). [SBig batchID,
       of_TypesMMCommitmentInclusionProof target, of_TypesSignatureProof signatureProof])\<rparr>"

definition Rollup_DisputeSignatureTransfer :: "(int \<times> TypesTransferCommitmentInclusionProof \<times>
    TypesSignatureProof) tx_method" where
  "Rollup_DisputeSignatureTransfer = \<lparr>tm_Name = ''disputeSignatureTransfer'',
     tm_Pack = (\<lambda>(batchID, target, signatureProof). [SBig batchID,
       of_TypesTransferCommitmentInclusionProof target, of_TypesSignatureProof signatureProof])\<rparr>"

definition Rollup_DisputeTransitionMassMigration :: "(int \<times> TypesCommitmentInclusionProof \<times>
    TypesMMCommitmentInclusionProof \<times> TypesStateMerkleProof list) tx_method" where
  "Rollup_DisputeTransitionMassMigration = \<lparr>tm_Name = ''disputeTransitionMassMigration'',
     tm_Pack = (\<lambda>(batchID, previous, target, proofs). [SBig batchID,
       of_TypesCommitmentInclusionProof previous, of_TypesMMCommitmentInclusionProof target,
       SSlice (map of_TypesStateMerkleProof proofs)])\<rparr>"

definition Rollup_DisputeTransitionTransfer :: "(int \<times> TypesCommitmentInclusionProof \<times>
    TypesTransferCommitmentInclusionProof \<times> TypesStateMerkleProof list) tx_method" where
  "Rollup_DisputeTransitionTransfer = \<lparr>tm_Name = ''disputeTransitionTransfer'',
     tm_Pack = (\<lambda>(batchID, previous, target, proofs). [SBig batchID,
       of_TypesCommitmentInclusionProof previous, of_TypesTransferCommitmentInclusionProof target,
       SSlice (map of_TypesStateMerkleProof proofs)])\<rparr>"

definition Rollup_SlashAndRollback :: "unit tx_method" where
  "Rollup_SlashAndRollback = \<lparr>tm_Name = ''slashAndRollback'',
     tm_Pack = (\<lambda>_. [])\<rparr>"

definition Rollup_SubmitCreate2Transfer :: "(ByteArray list \<times> int list list \<times> int list \<times>
    bytes list) tx_method" where
  "Rollup_SubmitCreate2Transfer = \<lparr>tm_Name = ''submitCreate2Transfer'',
     tm_Pack = (\<lambda>(stateRoots, signatures, feeReceivers, txss). [bytes32_slice stateRoots,
       bigs_slice 2 signatures, big_slice feeReceivers, bytes_slice txss])\<rparr>"

definition Rollup_SubmitDeposits :: "(TypesCommitmentInclusionProof \<times>
    TypesSubtreeVacancyProof) tx_method" where
  "Rollup_SubmitDeposits = \<lparr>tm_Name = ''submitDeposits'',
     tm_Pack = (\<lambda>(previous, vacant). [of_TypesCommitmentInclusionProof previous,
       of_TypesSubtreeVacancyProof vacant])\<rparr>"

definition Rollup_SubmitMassMigration :: "(ByteArray list \<times> int list list \<times> int list list \<times>
    ByteArray list \<times> bytes list) tx_method" where
  "Rollup_SubmitMassMigration = \<lparr>tm_Name = ''submitMassMigration'',
     tm_Pack = (\<lambda>(stateRoots, signatures, meta, withdrawRoots, txss). [bytes32_slice stateRoots,
       bigs_slice 2 signatures, bigs_slice 4 meta, bytes32_slice withdrawRoots, bytes_slice txss])\<rparr>"

definition Rollup_SubmitTransfer :: "(ByteArray list \<times> int list list \<times> int list \<times>
    bytes list) tx_method" where
  "Rollup_SubmitTransfer = \<lparr>tm_Name = ''submitTransfer'',
     tm_Pack = (\<lambda>(stateRoots, signatures, feeReceivers, txss). [bytes32_slice stateRoots,
       bigs_slice 2 signatures, big_slice feeReceivers, bytes_slice txss])\<rparr>"

definition Rollup_WithdrawStake :: "int tx_method" where
  "Rollup_WithdrawStake = \<lparr>tm_Name = ''withdrawStake'',
     tm_Pack = (\<lambda>batchID. [SBig batchID])\<rparr>"

section \<open>Agreement\<close>

lemmas [binding_defs] =
  of_TypesBatch_def of_TypesCommitment_def of_TypesCommitmentInclusionProof_def of_TypesMassMigrationBody_def
  of_TypesMassMigrationCommitment_def of_TypesMMCommitmentInclusionProof_def of_TypesSubtreeVacancyProof_def
  of_TypesTransferBody_def of_TypesTransferCommitment_def of_TypesTransferCommitmentInclusionProof_def
  res_TypesBatch_def T_TypesMassMigrationBody_def T_TypesMassMigrationCommitment_def
  T_TypesMMCommitmentInclusionProof_def T_TypesTransferBody_def T_TypesTransferCommitment_def
  T_TypesTransferCommitmentInclusionProof_def T_TypesCommitment_def T_TypesCommitmentInclusionProof_def
  T_TypesBatch_def T_TypesSubtreeVacancyProof_def

lemmas Rollup_methods =
  Rollup_ZEROBYTES32_def Rollup_AccountRegistry_def Rollup_AppID_def Rollup_Batches_def
  Rollup_DepositManager_def Rollup_GetBatch_def Rollup_GovStakeAmount_def Rollup_Governance_def
  Rollup_InvalidBatchMarker_def Rollup_Logger_def Rollup_MassMigration_def Rollup_NameRegistry_def
  Rollup_NumOfBatchesSubmitted_def Rollup_Transfer_def Rollup_DisputeSignatureMassMigration_def
  Rollup_DisputeSignatureTransfer_def Rollup_DisputeTransitionMassMigration_def
  Rollup_DisputeTransitionTransfer_def Rollup_SlashAndRollback_def Rollup_SubmitCreate2Transfer_def
  Rollup_SubmitDeposits_def Rollup_SubmitMassMigration_def Rollup_SubmitTransfer_def Rollup_WithdrawStake_def

lemma Rollup_agrees:
  "agrees RollupABI Rollup_ZEROBYTES32 \<and>
   agrees RollupABI Rollup_AccountRegistry \<and>
   agrees RollupABI Rollup_AppID \<and>
   agrees RollupABI Rollup_Batches \<and>
   agrees RollupABI Rollup_DepositManager \<and>
   agrees RollupABI Rollup_GetBatch \<and>
   agrees RollupABI Rollup_GovStakeAmount \<and>
   agrees RollupABI Rollup_Governance \<and>
   agrees RollupABI Rollup_InvalidBatchMarker \<and>
   agrees RollupABI Rollup_Logger \<and>
   agrees RollupABI Rollup_MassMigration \<and>
   agrees RollupABI Rollup_NameRegistry \<and>
   agrees RollupABI Rollup_NumOfBatchesSubmitted \<and>
   agrees RollupABI Rollup_Transfer"
  by (intro conjI; (rule agreesI, simp add: find_method_def RollupABI_def Rollup_methods, auto simp: Rollup_methods binding_defs list_all_iff camel_def))

lemma Rollup_tx_agrees:
  "tx_agrees RollupABI Rollup_DisputeSignatureMassMigration \<and>
   tx_agrees RollupABI Rollup_DisputeSignatureTransfer \<and>
   tx_agrees RollupABI Rollup_DisputeTransitionMassMigration \<and>
   tx_agrees RollupABI Rollup_DisputeTransitionTransfer \<and>
   tx_agrees RollupABI Rollup_SlashAndRollback \<and>
   tx_agrees RollupABI Rollup_SubmitCreate2Transfer \<and>
   tx_agrees RollupABI Rollup_SubmitDeposits \<and>
   tx_agrees RollupABI Rollup_SubmitMassMigration \<and>
   tx_agrees RollupABI Rollup_SubmitTransfer \<and>
   tx_agrees RollupABI Rollup_WithdrawStake"
  by (intro conjI; (rule tx_agreesI, simp add: find_method_def RollupABI_def Rollup_methods, auto simp: Rollup_methods binding_defs list_all_iff camel_def))

end
