(* ===== verification/Logger_Binding.thy ===== *)
theory Logger_Binding
  imports Abi_Values
begin

text \<open>
  The binding of the logger contract, \<open>contracts/logger/logger.go\<close>: the description with its events,
  and the transactions that log them.  The iterators over its events are in \<open>Event_Iterators\<close>.
\<close>

section \<open>The description of the contract\<close>

definition LoggerABI :: contract_abi where
  "LoggerABI = \<lparr>ca_Methods = [
     \<lparr>me_Name = ''logBatchRollback'', me_Inputs = [(''batch_id'', TUint 256)], me_Outputs = []\<rparr>,
     \<lparr>me_Name = ''logDepositFinalised'', me_Inputs = [(''depositSubTreeRoot'', TBytes32),
       (''pathToSubTree'', TUint 256)], me_Outputs = []\<rparr>,
     \<lparr>me_Name = ''logDepositQueued'', me_Inputs = [(''accountID'', TUint 256), (''data'', TBytes)],
       me_Outputs = []\<rparr>,
     \<lparr>me_Name = ''logDepositSubTreeReady'', me_Inputs = [(''root'', TBytes32)], me_Outputs = []\<rparr>,
     \<lparr>me_Name = ''logNewBatch'', me_Inputs = [(''committer'', TAddress), (''updatedRoot'', TBytes32),
       (''index'', TUint 256), (''batchType'', TUint 8)], me_Outputs = []\<rparr>,
     \<lparr>me_Name = ''logNewPubkeyAdded'', me_Inputs = [(''accountID'', TUint 256), (''pubkey'', TBytes)],
       me_Outputs = []\<rparr>,
     \<lparr>me_Name = ''logPubkeyRegistered'', me_Inputs = [(''pubkey'', TArray 4 (TUint 256)), (''accountID'',
       TUint 256)], me_Outputs = []\<rparr>,
     \<lparr>me_Name = ''logRegisteredToken'', me_Inputs = [(''tokenType'', TUint 256), (''tokenContract'',
       TAddress)], me_Outputs = []\<rparr>,
     \<lparr>me_Name = ''logRegistrationRequest'', me_Inputs = [(''tokenContract'', TAddress)],
       me_Outputs = []\<rparr>,
     \<lparr>me_Name = ''logRollbackFinalisation'', me_Inputs = [(''totalBatchesSlashed'', TUint 256)],
       me_Outputs = []\<rparr>,
     \<lparr>me_Name = ''logStakeWithdraw'', me_Inputs = [(''committed'', TAddress), (''batch_id'', TUint 256)],
       me_Outputs = []\<rparr>],
   ca_Events = [
     \<lparr>ea_Name = ''BatchRollback'', ea_Inputs = [(''batch_id'', TUint 256, False)]\<rparr>,
     \<lparr>ea_Name = ''DepositQueued'', ea_Inputs = [(''AccountID'', TUint 256, False), (''data'', TBytes,
       False)]\<rparr>,
     \<lparr>ea_Name = ''DepositSubTreeReady'', ea_Inputs = [(''root'', TBytes32, False)]\<rparr>,
     \<lparr>ea_Name = ''DepositsFinalised'', ea_Inputs = [(''depositSubTreeRoot'', TBytes32, False),
       (''pathToSubTree'', TUint 256, False)]\<rparr>,
     \<lparr>ea_Name = ''NewBatch'', ea_Inputs = [(''committer'', TAddress, False), (''updatedRoot'', TBytes32,
       False), (''index'', TUint 256, False), (''batchType'', TUint 8, False)]\<rparr>,
     \<lparr>ea_Name = ''NewPubkeyAdded'', ea_Inputs = [(''AccountID'', TUint 256, False), (''pubkey'', TBytes,
       False)]\<rparr>,
     \<lparr>ea_Name = ''PubkeyRegistered'', ea_Inputs = [(''pubkey'', TArray 4 (TUint 256), False),
       (''accountID'', TUint 256, False)]\<rparr>,
     \<lparr>ea_Name = ''RegisteredToken'', ea_Inputs = [(''tokenType'', TUint 256, False), (''tokenContract'',
       TAddress, False)]\<rparr>,
     \<lparr>ea_Name = ''RegistrationRequest'', ea_Inputs = [(''tokenContract'', TAddress, False)]\<rparr>,
     \<lparr>ea_Name = ''RollbackFinalisation'', ea_Inputs = [(''totalBatchesSlashed'', TUint 256, False)]\<rparr>,
     \<lparr>ea_Name = ''StakeWithdraw'', ea_Inputs = [(''committed'', TAddress, False), (''batch_id'',
       TUint 256, False)]\<rparr>]\<rparr>"

section \<open>The methods\<close>

text \<open>
  A definition is the method of \<open>LoggerTransactor\<close> under its name, by \<open>transactor_method\<close>, and
  those of the two sessions, by \<open>session_tx_method\<close>.
\<close>

definition Logger_LogBatchRollback :: "int tx_method" where
  "Logger_LogBatchRollback = \<lparr>tm_Name = ''logBatchRollback'',
     tm_Pack = (\<lambda>batch_id. [SBig batch_id])\<rparr>"

definition Logger_LogDepositFinalised :: "(ByteArray \<times> int) tx_method" where
  "Logger_LogDepositFinalised = \<lparr>tm_Name = ''logDepositFinalised'',
     tm_Pack = (\<lambda>(depositSubTreeRoot, pathToSubTree). [SBytes32 depositSubTreeRoot,
       SBig pathToSubTree])\<rparr>"

definition Logger_LogDepositQueued :: "(int \<times> bytes) tx_method" where
  "Logger_LogDepositQueued = \<lparr>tm_Name = ''logDepositQueued'',
     tm_Pack = (\<lambda>(accountID, data). [SBig accountID, SBytes data])\<rparr>"

definition Logger_LogDepositSubTreeReady :: "ByteArray tx_method" where
  "Logger_LogDepositSubTreeReady = \<lparr>tm_Name = ''logDepositSubTreeReady'',
     tm_Pack = (\<lambda>root. [SBytes32 root])\<rparr>"

definition Logger_LogNewBatch :: "(bytes \<times> ByteArray \<times> int \<times> byte) tx_method" where
  "Logger_LogNewBatch = \<lparr>tm_Name = ''logNewBatch'',
     tm_Pack = (\<lambda>(committer, updatedRoot, index, batchType). [SAddress committer, SBytes32 updatedRoot,
       SBig index, SU8 batchType])\<rparr>"

definition Logger_LogNewPubkeyAdded :: "(int \<times> bytes) tx_method" where
  "Logger_LogNewPubkeyAdded = \<lparr>tm_Name = ''logNewPubkeyAdded'',
     tm_Pack = (\<lambda>(accountID, pubkey). [SBig accountID, SBytes pubkey])\<rparr>"

definition Logger_LogPubkeyRegistered :: "(int list \<times> int) tx_method" where
  "Logger_LogPubkeyRegistered = \<lparr>tm_Name = ''logPubkeyRegistered'',
     tm_Pack = (\<lambda>(pubkey, accountID). [bigs 4 pubkey, SBig accountID])\<rparr>"

definition Logger_LogRegisteredToken :: "(int \<times> bytes) tx_method" where
  "Logger_LogRegisteredToken = \<lparr>tm_Name = ''logRegisteredToken'',
     tm_Pack = (\<lambda>(tokenType, tokenContract). [SBig tokenType, SAddress tokenContract])\<rparr>"

definition Logger_LogRegistrationRequest :: "bytes tx_method" where
  "Logger_LogRegistrationRequest = \<lparr>tm_Name = ''logRegistrationRequest'',
     tm_Pack = (\<lambda>tokenContract. [SAddress tokenContract])\<rparr>"

definition Logger_LogRollbackFinalisation :: "int tx_method" where
  "Logger_LogRollbackFinalisation = \<lparr>tm_Name = ''logRollbackFinalisation'',
     tm_Pack = (\<lambda>totalBatchesSlashed. [SBig totalBatchesSlashed])\<rparr>"

definition Logger_LogStakeWithdraw :: "(bytes \<times> int) tx_method" where
  "Logger_LogStakeWithdraw = \<lparr>tm_Name = ''logStakeWithdraw'',
     tm_Pack = (\<lambda>(committed, batch_id). [SAddress committed, SBig batch_id])\<rparr>"

section \<open>Agreement\<close>



lemmas Logger_methods =
  Logger_LogBatchRollback_def Logger_LogDepositFinalised_def Logger_LogDepositQueued_def
  Logger_LogDepositSubTreeReady_def Logger_LogNewBatch_def Logger_LogNewPubkeyAdded_def
  Logger_LogPubkeyRegistered_def Logger_LogRegisteredToken_def Logger_LogRegistrationRequest_def
  Logger_LogRollbackFinalisation_def Logger_LogStakeWithdraw_def

lemma Logger_tx_agrees:
  "tx_agrees LoggerABI Logger_LogBatchRollback \<and>
   tx_agrees LoggerABI Logger_LogDepositFinalised \<and>
   tx_agrees LoggerABI Logger_LogDepositQueued \<and>
   tx_agrees LoggerABI Logger_LogDepositSubTreeReady \<and>
   tx_agrees LoggerABI Logger_LogNewBatch \<and>
   tx_agrees LoggerABI Logger_LogNewPubkeyAdded \<and>
   tx_agrees LoggerABI Logger_LogPubkeyRegistered \<and>
   tx_agrees LoggerABI Logger_LogRegisteredToken \<and>
   tx_agrees LoggerABI Logger_LogRegistrationRequest \<and>
   tx_agrees LoggerABI Logger_LogRollbackFinalisation \<and>
   tx_agrees LoggerABI Logger_LogStakeWithdraw"
  by (intro conjI; (rule tx_agreesI, simp add: find_method_def LoggerABI_def Logger_methods, auto simp: Logger_methods binding_defs list_all_iff camel_def))

end
