(* ===== verification/Bound_Chain.thy ===== *)
theory Bound_Chain
  imports Rollup_Binding Logger_Binding Start_Globals Syncer
begin

text \<open>
  The contracts as the daemon calls them: the calls of \<open>core/bazooka.go\<close>, given as the
  parameter \<open>chain\<close> so far, through the bindings of the loaded \<open>Bazooka\<close>.  Shown are that all
  generated methods agree with their contracts, the round trip of a state through the
  contract, and that no batch but the genesis can be read with the description of the rollup
  contract in the repository.
\<close>

section \<open>The chain of a \<open>Bazooka\<close>\<close>

text \<open>The calls of \<open>ethclient.Client\<close> for the client \<open>'c\<close>; \<open>UnpackIntoMap\<close> of a list of inputs.\<close>

record ('c, 's) eth_client =
  cl_HeaderByNumber :: "'c \<Rightarrow> int option \<Rightarrow> 's \<Rightarrow> go_error + Header"
  cl_TransactionByHash :: "'c \<Rightarrow> bytes \<Rightarrow> 's \<Rightarrow> go_error + (bytes \<times> bool)"
  cl_SuggestGasPrice :: "'c \<Rightarrow> 's \<Rightarrow> go_error + int"
  cl_PendingNonceAt :: "'c \<Rightarrow> string \<Rightarrow> 's \<Rightarrow> go_error + u64"
  cl_EstimateGas :: "'c \<Rightarrow> call_msg \<Rightarrow> 's \<Rightarrow> go_error + u64"
  cl_UnpackIntoMap :: "(string \<times> sol_type) list \<Rightarrow> bytes \<Rightarrow> go_error + (string \<rightharpoonup> abi_value)"

text \<open>A key that is missing in the map of descriptions gives the empty description.\<close>

definition contract_abi_of :: "('c, contract_abi) Bazooka \<Rightarrow> string \<Rightarrow> contract_abi" where
  "contract_abi_of b key = (case bz_ContractABI b key of None \<Rightarrow> \<lparr>ca_Methods = [], ca_Events = []\<rparr> | Some A \<Rightarrow> A)"

definition updates_of :: "bytes \<times> bytes \<times> byte \<Rightarrow> updates" where
  "updates_of = (\<lambda>(a, b, r). \<lparr>up_NewSender = a, up_NewReceiver = b, up_Result = r\<rparr>)"

text \<open>
  Every call of the frontend has the operator as its sender; the call of the rollup contract
  passes \<open>nil\<close>, which are the zero options.
\<close>

definition bazooka_chain ::
  "(('c, contract_abi) BoundContract, 's, 't) bind_lib \<Rightarrow> ('c, 's) eth_client \<Rightarrow> bytes \<Rightarrow> ('c, contract_abi) Bazooka \<Rightarrow> 's chain" where
  "bazooka_chain L E operator b = (let
     client = bz_EthClient b; front = bz_Frontend b; opts = \<lparr>co_From = operator\<rparr>;
     upd = (\<lambda>r. case r of Inl err \<Rightarrow> Inl err | Inr x \<Rightarrow> Inr (updates_of x)) in
   \<lparr>ch_HeaderByNumber = cl_HeaderByNumber E client,
    ch_NumOfBatchesSubmitted = caller_method L Rollup_NumOfBatchesSubmitted (bz_RollupContract b) \<lparr>co_From = replicate 20 0\<rparr> (),
    ch_TransactionByHash = cl_TransactionByHash E client,
    ch_UnpackSubmitBatch = cl_UnpackIntoMap E (method_inputs (contract_abi_of b ROLLUP_CONTRACT_KEY) ''submitBatch''),
    ch_ProcessTransfer = (\<lambda>root tx token fromMP toMP. caller_method L Rollupclient_ProcessTransfer front opts (root, tx, token, fromMP, toMP)),
    ch_ValidateAndApplyTransfer = (\<lambda>sender receiver tx s. upd (caller_method L Rollupclient_ValidateAndApplyTransfer front opts (sender, receiver, tx) s)),
    ch_ValidateAndApplyCreate2Transfer = (\<lambda>sender tx s. upd (caller_method L Rollupclient_ValidateAndApplyCreate2Transfer front opts (sender, tx) s)),
    ch_ValidateAndApplyMassMigration = (\<lambda>sender tx s. upd (caller_method L Rollupclient_ValidateAndApplyMassMigration front opts (sender, tx) s)),
    ch_CompressTransfer = caller_method L Rollupclient_CompressTransfer front opts,
    ch_CompressCreate2Transfer = caller_method L Rollupclient_CompressCreate2Transfer front opts,
    ch_CompressMassMigration = caller_method L Rollupclient_CompressMassMigration front opts,
    ch_EncodeTransfer = caller_method L Rollupclient_EncodeTransfer front opts,
    ch_DecodeTransfer = caller_method L Rollupclient_DecodeTransfer front opts,
    ch_Encode = caller_method L Rollupclient_Encode front opts,
    ch_DecodeState = caller_method L Rollupclient_DecodeState front opts,
    ch_SuggestGasPrice = cl_SuggestGasPrice E client,
    ch_PendingNonceAt = cl_PendingNonceAt E client,
    ch_EstimateGas = cl_EstimateGas E client\<rparr>)"

section \<open>Codecs\<close>

text \<open>
  What the frontend contract promises: its decoders are inverse to its encoders on the
  unsigned numbers they work on.
\<close>

definition front_codec :: "('b \<Rightarrow> string \<Rightarrow> sol_value list \<Rightarrow> 's \<Rightarrow> go_error + sol_value list) \<Rightarrow> 'b \<Rightarrow> bool" where
  "front_codec evm b \<longleftrightarrow>
    (\<forall>t s. \<exists>bs. evm b ''encode'' [packed (of_TypesUserState t)] s = Inr [SBytes bs] \<and>
       evm b ''decodeState'' [SBytes bs] s = Inr [packed (of_TypesUserState t)]) \<and>
    (\<forall>t s. \<exists>bs. evm b ''encodeTransfer'' [packed (of_OffchainTransfer t)] s = Inr [SBytes bs] \<and>
       evm b ''decodeTransfer'' [SBytes bs] s = Inr [packed (of_OffchainTransfer t)])"

lemma res_packed_state: "res_TypesUserState [packed (of_TypesUserState t)] = Some (wrap_state t)"
  by (simp add: res_TypesUserState_def of_TypesUserState_def wrap_state_def)

lemma res_packed_transfer: "res_OffchainTransfer [packed (of_OffchainTransfer t)] = Some (wrap_transfer t)"
  by (simp add: res_OffchainTransfer_def of_OffchainTransfer_def wrap_transfer_def)

lemma bazooka_codecs:
  assumes "bind_ok bc_abi evm L" "bc_abi (bz_Frontend b) = RollupclientABI" "front_codec evm (bz_Frontend b)"
  shows "state_codec_ok (bazooka_chain L E operator b)" "transfer_codec_ok (bazooka_chain L E operator b)"
proof -
  let ?f = "bz_Frontend b"
  have ag: "agrees (bc_abi ?f) Rollupclient_Encode" "agrees (bc_abi ?f) Rollupclient_DecodeState"
    "agrees (bc_abi ?f) Rollupclient_EncodeTransfer" "agrees (bc_abi ?f) Rollupclient_DecodeTransfer"
    unfolding assms(2) using Rollupclient_agrees by blast+
  note run = ag [THEN caller_method_run [OF assms(1)], unfolded Rollupclient_Encode_def
      Rollupclient_DecodeState_def Rollupclient_EncodeTransfer_def Rollupclient_DecodeTransfer_def, simplified]
  show "state_codec_ok (bazooka_chain L E operator b)"
    unfolding state_codec_ok_def
  proof (intro allI)
    fix t s
    obtain bs where "evm ?f ''encode'' [packed (of_TypesUserState t)] s = Inr [SBytes bs]"
      "evm ?f ''decodeState'' [SBytes bs] s = Inr [packed (of_TypesUserState t)]"
      using assms(3) unfolding front_codec_def by blast
    then show "\<exists>bs. ch_Encode (bazooka_chain L E operator b) t s = Inr bs \<and>
        ch_DecodeState (bazooka_chain L E operator b) bs s = Inr (wrap_state t)"
      by (simp add: bazooka_chain_def Let_def Rollupclient_Encode_def Rollupclient_DecodeState_def run res_packed_state)
  qed
  show "transfer_codec_ok (bazooka_chain L E operator b)"
    unfolding transfer_codec_ok_def
  proof (intro allI)
    fix t s
    obtain bs where "evm ?f ''encodeTransfer'' [packed (of_OffchainTransfer t)] s = Inr [SBytes bs]"
      "evm ?f ''decodeTransfer'' [SBytes bs] s = Inr [packed (of_OffchainTransfer t)]"
      using assms(3) unfolding front_codec_def by blast
    then show "\<exists>bs. ch_EncodeTransfer (bazooka_chain L E operator b) t s = Inr bs \<and>
        ch_DecodeTransfer (bazooka_chain L E operator b) bs s = Inr (wrap_transfer t)"
      by (simp add: bazooka_chain_def Let_def Rollupclient_EncodeTransfer_def Rollupclient_DecodeTransfer_def run res_packed_transfer)
  qed
qed

section \<open>A reference library\<close>

text \<open>
  A contract that writes its numbers as words, and a library that packs the parameters and
  asks it; everything else is refused.
\<close>

fun num_of :: "sol_value \<Rightarrow> int" where
  "num_of (SBig x) = x"
| "num_of _ = 0"

definition ref_evm :: "('c, contract_abi) BoundContract \<Rightarrow> string \<Rightarrow> sol_value list \<Rightarrow> 's \<Rightarrow> go_error + sol_value list" where
  "ref_evm b name vs s =
    (if bc_abi b \<noteq> RollupclientABI then Inl (ErrMsg ''reverted'')
     else if name = ''encode'' then (case vs of
         [STuple ns ws] \<Rightarrow> Inr [SBytes (enc_words (map num_of ws))]
       | _ \<Rightarrow> Inl (ErrMsg ''reverted''))
     else if name = ''decodeState'' then (case vs of
         [SBytes bs] \<Rightarrow> Inr [STuple [''PubkeyIndex'', ''TokenType'', ''Balance'', ''Nonce'']
           (map (\<lambda>i. SBig (word_at i bs)) [0, 1, 2, 3])]
       | _ \<Rightarrow> Inl (ErrMsg ''reverted''))
     else if name = ''encodeTransfer'' then (case vs of
         [STuple ns ws] \<Rightarrow> Inr [SBytes (enc_words (map num_of ws))]
       | _ \<Rightarrow> Inl (ErrMsg ''reverted''))
     else if name = ''decodeTransfer'' then (case vs of
         [SBytes bs] \<Rightarrow> Inr [STuple [''TxType'', ''FromIndex'', ''ToIndex'', ''Amount'', ''Fee'', ''Nonce'']
           (map (\<lambda>i. SBig (word_at i bs)) [0, 1, 2, 3, 4, 5])]
       | _ \<Rightarrow> Inl (ErrMsg ''reverted''))
     else Inl (ErrMsg ''reverted''))"

definition ref_bind :: "(('c, contract_abi) BoundContract, 's, unit) bind_lib" where
  "ref_bind = \<lparr>bl_Call = (\<lambda>b opts name vs. ref_evm b name (map packed vs)), bl_Transact = (\<lambda>b opts name vs. ret ()),
     bl_Transfer = (\<lambda>b opts. ret ())\<rparr>"

definition ref_client :: "('c, 's) eth_client" where
  "ref_client = \<lparr>cl_HeaderByNumber = (\<lambda>c n s. Inr \<lparr>hd_Number = 9\<rparr>), cl_TransactionByHash = (\<lambda>c h s. Inr ([1, 2, 3, 4] @ h, False)),
     cl_SuggestGasPrice = (\<lambda>c s. Inr 1), cl_PendingNonceAt = (\<lambda>c a s. Inr 0), cl_EstimateGas = (\<lambda>c m s. Inr 21000),
     cl_UnpackIntoMap = (\<lambda>ins b. Inr (map_of (map (\<lambda>(n, t). (n, BytesList [b])) ins)))\<rparr>"

definition ref_bazooka :: "(unit, contract_abi) Bazooka" where
  "ref_bazooka = (let bound = (\<lambda>A. \<lparr>bc_address = replicate 20 0, bc_abi = A, bc_backend = ()\<rparr>) in
     \<lparr>bz_EthClient = (), bz_ContractABI = [''rollup'' \<mapsto> RollupABI, ''logger'' \<mapsto> LoggerABI, ''rollup_client'' \<mapsto> RollupclientABI],
      bz_RollupContract = bound RollupABI, bz_EventLogger = bound LoggerABI, bz_Frontend = bound RollupclientABI\<rparr>)"

lemma codec_methods:
  "find_method RollupclientABI ''encode'' = Some \<lparr>me_Name = ''encode'', me_Inputs = [(''state'', T_TypesUserState)], me_Outputs = [('''', TBytes)]\<rparr>"
  "find_method RollupclientABI ''decodeState'' = Some \<lparr>me_Name = ''decodeState'', me_Inputs = [(''stateBytes'', TBytes)], me_Outputs = [(''state'', T_TypesUserState)]\<rparr>"
  "find_method RollupclientABI ''encodeTransfer'' = Some \<lparr>me_Name = ''encodeTransfer'', me_Inputs = [(''_tx'', T_OffchainTransfer)], me_Outputs = [('''', TBytes)]\<rparr>"
  "find_method RollupclientABI ''decodeTransfer'' = Some \<lparr>me_Name = ''decodeTransfer'', me_Inputs = [(''encodedTx'', TBytes)], me_Outputs = [(''_tx'', T_OffchainTransfer)]\<rparr>"
  by (simp_all add: find_method_def RollupclientABI_def)

text \<open>Whichever method answers, its outputs have the shape of the description.\<close>

lemma ref_evm_answers:
  "ref_evm b ''encode'' vs s = Inr ws \<Longrightarrow> \<exists>bs. ws = [SBytes bs]"
  "ref_evm b ''encodeTransfer'' vs s = Inr ws \<Longrightarrow> \<exists>bs. ws = [SBytes bs]"
  "ref_evm b ''decodeState'' vs s = Inr ws \<Longrightarrow>
     \<exists>bs. ws = [STuple [''PubkeyIndex'', ''TokenType'', ''Balance'', ''Nonce''] (map (\<lambda>i. SBig (word_at i bs)) [0, 1, 2, 3])]"
  "ref_evm b ''decodeTransfer'' vs s = Inr ws \<Longrightarrow>
     \<exists>bs. ws = [STuple [''TxType'', ''FromIndex'', ''ToIndex'', ''Amount'', ''Fee'', ''Nonce'']
       (map (\<lambda>i. SBig (word_at i bs)) [0, 1, 2, 3, 4, 5])]"
  by (auto simp: ref_evm_def split: if_splits list.splits sol_value.splits)

lemma ref_evm_typed:
  assumes "find_method (bc_abi b) name = Some m" "ref_evm b name vs s = Inr ws"
  shows "of_kinds ws (map snd (me_Outputs m))"
proof -
  have A: "bc_abi b = RollupclientABI" using assms(2) by (simp add: ref_evm_def split: if_splits)
  note m = assms(1) [unfolded A]
  consider "name = ''encode''" | "name = ''decodeState''" | "name = ''encodeTransfer''" | "name = ''decodeTransfer''"
    using assms(2) by (fastforce simp: ref_evm_def split: if_splits)
  then show ?thesis
  proof cases
    case 1
    then show ?thesis using m ref_evm_answers(1) [of b vs s ws] assms(2) by (auto simp: codec_methods)
  next
    case 2
    then show ?thesis using m ref_evm_answers(3) [of b vs s ws] assms(2)
      by (auto simp: codec_methods T_TypesUserState_def camel_def)
  next
    case 3
    then show ?thesis using m ref_evm_answers(2) [of b vs s ws] assms(2) by (auto simp: codec_methods)
  next
    case 4
    then show ?thesis using m ref_evm_answers(4) [of b vs s ws] assms(2)
      by (auto simp: codec_methods T_OffchainTransfer_def camel_def)
  qed
qed

lemma ref_bind_ok: "bind_ok bc_abi ref_evm ref_bind"
  unfolding bind_ok_def ref_bind_def by (auto dest: ref_evm_typed)

lemma wrap256_idem [simp]: "wrap256 (wrap256 x) = wrap256 x"
  by (simp add: wrap256_def)

lemma ref_front_codec: "bc_abi b = RollupclientABI \<Longrightarrow> front_codec ref_evm b"
  by (simp add: front_codec_def ref_evm_def of_TypesUserState_def of_OffchainTransfer_def word_at_enc_words)

section \<open>Batches\<close>

lemma submitBatch_missing: "method_inputs RollupABI ''submitBatch'' = []"
  by (simp add: method_inputs_def find_method_def RollupABI_def)

lemma FetchBatchInputData_fails:
  assumes "N = bazooka_chain L E operator b" "bz_ContractABI b ''rollup'' = Some RollupABI"
    and "\<And>data. cl_UnpackIntoMap E [] data = Inr Map.empty"
  shows "\<exists>r. FetchBatchInputData N txHash s = (r, s) \<and> \<not> is_Ok r"
proof -
  have u: "ch_UnpackSubmitBatch N = cl_UnpackIntoMap E []"
    by (simp add: assms(1,2) bazooka_chain_def contract_abi_of_def ROLLUP_CONTRACT_KEY_def submitBatch_missing Let_def)
  have g: "GetTxsFromInput Map.empty = Panic (PanicMsg ''interface conversion'')" by (simp add: GetTxsFromInput_def)
  show ?thesis
  proof (cases "ch_TransactionByHash N txHash s")
    case (Inl e)
    then show ?thesis by (simp add: FetchBatchInputData_def db_read_def andThen_def is_Ok_def)
  next
    case (Inr r)
    then show ?thesis
      by (cases r) (auto simp: FetchBatchInputData_def db_read_def andThen_def is_Ok_def u assms(3) g fail_def lift_def)
  qed
qed

section \<open>Properties\<close>

text \<open>
  C15. The bindings agree with their contracts: every generated method of the frontend, the rollup and
  the logger contract calls a method that the description of the contract has, whatever
  its arguments passes parameters of the kinds the description asks for, under the field
  names that it derives from it, and has a variable for the result that fits every output
  the description allows.  So a call fails only when the contract or the node does.
\<close>

theorem bindings_agree:
  "agrees RollupclientABI Rollupclient_CheckSignatureCreate2Transfer \<and>
   agrees RollupclientABI Rollupclient_CheckSignatureMassMigration \<and>
   agrees RollupclientABI Rollupclient_CheckSignatureTransfer \<and>
   agrees RollupclientABI Rollupclient_CompressCreate2Transfer \<and>
   agrees RollupclientABI Rollupclient_CompressMassMigration \<and>
   agrees RollupclientABI Rollupclient_CompressTransfer \<and>
   agrees RollupclientABI Rollupclient_DecodeCreate2Transfer \<and>
   agrees RollupclientABI Rollupclient_DecodeMassMigration \<and>
   agrees RollupclientABI Rollupclient_DecodeState \<and>
   agrees RollupclientABI Rollupclient_DecodeTransfer \<and>
   agrees RollupclientABI Rollupclient_Encode \<and>
   agrees RollupclientABI Rollupclient_EncodeCreate2Transfer \<and>
   agrees RollupclientABI Rollupclient_EncodeMassMigration \<and>
   agrees RollupclientABI Rollupclient_EncodeTransfer \<and>
   agrees RollupclientABI Rollupclient_ProcessCreate2Transfer \<and>
   agrees RollupclientABI Rollupclient_ProcessMassMigration \<and>
   agrees RollupclientABI Rollupclient_ProcessTransfer \<and>
   agrees RollupclientABI Rollupclient_ValiateCreate2Transfer \<and>
   agrees RollupclientABI Rollupclient_ValiateMassMigration \<and>
   agrees RollupclientABI Rollupclient_ValiateTransfer \<and>
   agrees RollupclientABI Rollupclient_ValidateAndApplyCreate2Transfer \<and>
   agrees RollupclientABI Rollupclient_ValidateAndApplyMassMigration \<and>
   agrees RollupclientABI Rollupclient_ValidateAndApplyTransfer \<and>
   agrees RollupABI Rollup_ZEROBYTES32 \<and>
   agrees RollupABI Rollup_AccountRegistry \<and>
   agrees RollupABI Rollup_AppID \<and>
   agrees RollupABI Rollup_Batches \<and>
   agrees RollupABI Rollup_DepositManager \<and>
   agrees RollupABI Rollup_GetBatch \<and>
   agrees RollupABI Rollup_GovStakeAmount \<and>
   agrees RollupABI Rollup_Governance \<and>
   agrees RollupABI Rollup_InvalidBatchMarker \<and>
   agrees RollupABI Rollup_Logger \<and>
   agrees RollupABI Rollup_MassMigration \<and>
   agrees RollupABI Rollup_NameRegistry \<and>
   agrees RollupABI Rollup_NumOfBatchesSubmitted \<and>
   agrees RollupABI Rollup_Transfer \<and>
   tx_agrees RollupABI Rollup_DisputeSignatureMassMigration \<and>
   tx_agrees RollupABI Rollup_DisputeSignatureTransfer \<and>
   tx_agrees RollupABI Rollup_DisputeTransitionMassMigration \<and>
   tx_agrees RollupABI Rollup_DisputeTransitionTransfer \<and>
   tx_agrees RollupABI Rollup_SlashAndRollback \<and>
   tx_agrees RollupABI Rollup_SubmitCreate2Transfer \<and>
   tx_agrees RollupABI Rollup_SubmitDeposits \<and>
   tx_agrees RollupABI Rollup_SubmitMassMigration \<and>
   tx_agrees RollupABI Rollup_SubmitTransfer \<and>
   tx_agrees RollupABI Rollup_WithdrawStake \<and>
   tx_agrees LoggerABI Logger_LogBatchRollback \<and>
   tx_agrees LoggerABI Logger_LogDepositFinalised \<and>
   tx_agrees LoggerABI Logger_LogDepositQueued \<and>
   tx_agrees LoggerABI Logger_LogDepositSubTreeReady \<and>
   tx_agrees LoggerABI Logger_LogNewBatch \<and>
   tx_agrees LoggerABI Logger_LogNewPubkeyAdded \<and>
   tx_agrees LoggerABI Logger_LogPubkeyRegistered \<and>
   tx_agrees LoggerABI Logger_LogRegisteredToken \<and>
   tx_agrees LoggerABI Logger_LogRegistrationRequest \<and>
   tx_agrees LoggerABI Logger_LogRollbackFinalisation \<and>
   tx_agrees LoggerABI Logger_LogStakeWithdraw"
  using Rollupclient_agrees Rollup_agrees Rollup_tx_agrees Logger_tx_agrees by blast

text \<open>
  C16. A state that is encoded by the frontend contract is decoded with the same four numbers,
  as long as each is below \<open>2 ^ 63\<close>: through the bindings, with the library packing a number as
  its 256 low bits and the decoder of the contract being the inverse of its encoder.
\<close>

theorem frontend_state_roundtrip:
  assumes "bind_ok bc_abi evm L" "bc_abi (bz_Frontend b) = RollupclientABI" "front_codec evm (bz_Frontend b)"
    and "N = bazooka_chain L E operator b" "unat i < 2 ^ 63" "unat ba < 2 ^ 63" "unat n < 2 ^ 63" "unat t < 2 ^ 63"
  shows "\<exists>bs. EncodeState N i ba n t s = (Ok bs, s) \<and>
    DecodeState N bs s = (Ok (int (unat i), int (unat ba), int (unat n), int (unat t)), s) \<and>
    ToABIAccount N (u\<lparr>us_Data := bs\<rparr>) s = (Ok \<lparr>ts_PubkeyIndex = int (unat i), ts_TokenType = int (unat t),
      ts_Balance = int (unat ba), ts_Nonce = int (unat n)\<rparr>, s)"
  unfolding assms(4) by (rule state_codec_roundtrip [OF bazooka_codecs(1) [OF assms(1-3)] assms(5-8)])

theorem frontend_state_roundtrip_witness:
  "\<exists>bs. EncodeState (bazooka_chain ref_bind ref_client [] ref_bazooka) 1 2 3 4 () = (Ok bs, ()) \<and>
     DecodeState (bazooka_chain ref_bind ref_client [] ref_bazooka) bs () = (Ok (1, 2, 3, 4), ())"
proof -
  have A: "bc_abi (bz_Frontend ref_bazooka) = RollupclientABI" by (simp add: ref_bazooka_def Let_def)
  show ?thesis
    using frontend_state_roundtrip [OF ref_bind_ok A ref_front_codec [OF A] refl, of 1 2 3 4 ref_client "[]" "()"] by auto
qed

text \<open>
  C26. With the description of the rollup contract in the repository no batch but the genesis
  is ever recorded: it has no method \<open>submitBatch\<close>, so that the inputs of the transaction are
  unpacked into an empty map, and processing a \<open>NewBatch\<close> log panics, whatever the node answers
  and without a write to the database; a block that starts with it is never recorded.
\<close>

theorem NewBatch_panics:
  assumes "sc_loadedBazooka S = bazooka_chain L E operator b" "bz_ContractABI b ''rollup'' = Some RollupABI"
    and "\<And>data. cl_UnpackIntoMap E [] data = Inr Map.empty"
    and "gorm_ok (sc_DBInstance S) view up" "up s" "params (view s) = [pm]"
    and "sc_abis S = [A]" "log_Topics log = [t]" "EventByID A t = Some e" "ev_Name e = ''NewBatch''"
    and "decodes A ''NewBatch'' log vs" "vs ''BatchType'' = Some (VNum k)" "0 < k" "k < 256"
  shows "\<exists>p. processLog S log s = (Panic p, s) \<and> processEvents S (log # logs) header s = (Panic p, s)"
proof -
  let ?ev = "LoggerNewBatch\<lparr>gs_values := vs\<rparr>"
  have "take_bit 8 k = k" "take_bit 64 k = k" using assms(13,14) by (simp_all add: take_bit_int_eq_self)
  then have "unsigned (of_int k :: byte) \<noteq> (0 :: u64)"
    using assms(13) by (simp add: unsigned_of_int word_of_int_eq_0_iff take_bit_eq_mod dvd_eq_mod_eq_0)
  then have f: "fetch_batch_txs S (fld_uint8 ?ev ''BatchType'') log = orPanic (FetchBatchInputData (sc_loadedBazooka S) (log_TxHash log))"
    by (simp add: fetch_batch_txs_def fld_uint8_def assms(12))
  obtain r where r: "FetchBatchInputData (sc_loadedBazooka S) (log_TxHash log) s = (r, s)" "\<not> is_Ok r"
    using FetchBatchInputData_fails [OF assms(1-3)] by blast
  then obtain p where "orPanic (FetchBatchInputData (sc_loadedBazooka S) (log_TxHash log)) s = (Panic p, s)"
    by (cases r) (simp_all add: orPanic_def is_Ok_def)
  then have "processNewBatch S ''NewBatch'' A log s = (Panic p, s)"
    using GetParams_run [OF assms(4-6)] f
    by (simp add: processNewBatch_def andThen_unpack [OF assms(11)] orReturn_ok LoggerNewBatch_def andThen_panic)
  then have "processLog S log s = (Panic p, s)"
    by (simp add: processLog_def assms(7-10) processEvent_def andThen_def)
  then show ?thesis by (intro exI [of _ p]) (simp add: processEvents_def andThen_def)
qed

definition ex_batch_events :: abi where
  "ex_batch_events = ex_events\<lparr>abi_Unpack := (\<lambda>n b. Inr [''BatchType'' \<mapsto> VNum 1])\<rparr>"

theorem NewBatch_panics_witness:
  "\<exists>p. processLog (ex_syncer []\<lparr>sc_abis := [ex_batch_events],
       sc_loadedBazooka := bazooka_chain ref_bind ref_client [] ref_bazooka\<rparr>) (ex_log 5 [3])
     (empty_tables\<lparr>params := [pm_example]\<rparr>) = (Panic p, empty_tables\<lparr>params := [pm_example]\<rparr>)"
proof -
  let ?S = "ex_syncer []\<lparr>sc_abis := [ex_batch_events], sc_loadedBazooka := bazooka_chain ref_bind ref_client [] ref_bazooka\<rparr>"
  have d: "decodes ex_batch_events ''NewBatch'' (ex_log 5 [3]) [''BatchType'' \<mapsto> VNum 1]"
    by (simp add: decodes_def event_inputs_def ex_batch_events_def ex_events_def ex_log_def)
  have e: "EventByID ex_batch_events [5] = Some \<lparr>ev_Name = ''NewBatch'', ev_ID = [5], ev_Inputs = []\<rparr>"
    by (simp add: EventByID_def ex_batch_events_def ex_events_def)
  have u: "cl_UnpackIntoMap ref_client [] data = Inr Map.empty" for data by (simp add: ref_client_def)
  have S: "sc_loadedBazooka ?S = bazooka_chain ref_bind ref_client [] ref_bazooka" "sc_abis ?S = [ex_batch_events]"
    "bz_ContractABI ref_bazooka ''rollup'' = Some RollupABI" "gorm_ok (sc_DBInstance ?S) (\<lambda>d. d) (\<lambda>_. True)"
    by (simp_all add: ref_bazooka_def Let_def ex_syncer_def mem_gorm_ok)
  have l: "log_Topics (ex_log 5 [3]) = [[5]]" by (simp add: ex_log_def)
  show ?thesis
    using NewBatch_panics [OF S(1,3) u S(4) TrueI _ S(2) l e _ d, of "empty_tables\<lparr>params := [pm_example]\<rparr>" pm_example 1]
    by auto
qed

end
