(* ===== verification/Deposit_Ledger.thy ===== *)
theory Deposit_Ledger
  imports Syncer
begin

text \<open>
  The abstract specification of what the syncer does with the deposit events: a ledger of the
  leaves and of the deposits that wait, with one transition per event.  Processing the logs
  of any sequence of events refines the ledger, and the root that \<open>GetRoot\<close> returns is a
  function of it.
\<close>

section \<open>The ledger\<close>

record deposit =
  dp_id :: u64
  dp_data :: bytes
  dp_subtree :: string

text \<open>A leaf is its data and its hash.\<close>

record ledger =
  ld_leaf :: "string \<Rightarrow> (bytes \<times> string) option"
  ld_pending :: "deposit list"

datatype deposit_event = Queued u64 bytes | Ready ByteArray | Finalised ByteArray u64

definition zero_leaf :: string where
  "zero_leaf = ByteArray_String ZERO_VALUE_LEAF"

text \<open>The leaves a subtree is put into, and the deposits of the subtree.\<close>

definition subtree_leaves :: "nat \<Rightarrow> u64 \<Rightarrow> string list" where
  "subtree_leaves d path = (let p = bits (d - 1) (unat path) in [p @ ''0'', p @ ''1''])"

definition subtree_deposits :: "ledger \<Rightarrow> ByteArray \<Rightarrow> deposit list" where
  "subtree_deposits l root = filter (\<lambda>x. dp_subtree x = ByteArray_String root) (ld_pending l)"

fun put_leaves :: "libs \<Rightarrow> string list \<Rightarrow> deposit list \<Rightarrow> (string \<Rightarrow> (bytes \<times> string) option) \<Rightarrow>
    string \<Rightarrow> (bytes \<times> string) option" where
  "put_leaves L (t # ts) (x # xs) f = put_leaves L ts xs (f(t \<mapsto> (dp_data x, data_hash L (dp_data x))))"
| "put_leaves L _ _ f = f"

text \<open>
  A subtree that is ready takes every deposit that waits.  One is finalised into two vacant
  leaves, and is refused when they are not vacant; its deposits leave the queue by their
  account IDs.  With more than two deposits, or one without data, nothing is said.
\<close>

fun ledger_step :: "libs \<Rightarrow> nat \<Rightarrow> deposit_event \<Rightarrow> ledger \<Rightarrow> ledger option" where
  "ledger_step L d (Queued i b) l =
    (if b = [] then None else Some (l\<lparr>ld_pending := ld_pending l @ [\<lparr>dp_id = i, dp_data = b, dp_subtree = []\<rparr>]\<rparr>))"
| "ledger_step L d (Ready root) l = Some (l\<lparr>ld_pending := map (\<lambda>x. x\<lparr>dp_subtree := ByteArray_String root\<rparr>) (ld_pending l)\<rparr>)"
| "ledger_step L d (Finalised root path) l =
    (let ts = subtree_leaves d path; xs = subtree_deposits l root in
     if unat path \<ge> 2 ^ (d - 1) then None
     else if list_ex (\<lambda>t. map_option snd (ld_leaf l t) \<noteq> Some zero_leaf) ts then Some l
     else if length xs > 2 \<or> list_ex (\<lambda>x. dp_data x = []) xs then None
     else Some (l\<lparr>ld_leaf := put_leaves L ts xs (ld_leaf l),
       ld_pending := filter (\<lambda>x. dp_id x \<notin> dp_id ` set xs) (ld_pending l)\<rparr>))"

fun ledger_run :: "libs \<Rightarrow> nat \<Rightarrow> deposit_event list \<Rightarrow> ledger \<Rightarrow> ledger option" where
  "ledger_run L d [] l = Some l"
| "ledger_run L d (ev # evs) l = (case ledger_step L d ev l of None \<Rightarrow> None | Some l' \<Rightarrow> ledger_run L d evs l')"

definition ledger_root :: "libs \<Rightarrow> nat \<Rightarrow> ledger \<Rightarrow> string" where
  "ledger_root L d l = merkle_root (node_hash L) (\<lambda>x. snd (the (ld_leaf l x))) d []"

section \<open>The ledger of a database\<close>

definition deposit_of :: "UserState \<Rightarrow> deposit" where
  "deposit_of r = \<lparr>dp_id = us_AccountID r, dp_data = us_Data r, dp_subtree = us_CreatedByDepositSubTree r\<rparr>"

definition leaf_of :: "('s \<Rightarrow> tables) \<Rightarrow> nat \<Rightarrow> 's \<Rightarrow> string \<Rightarrow> (bytes \<times> string) option" where
  "leaf_of view d s p = (if binary p \<and> length p = d then map_option (\<lambda>r. (us_Data r, us_Hash r)) (state_node view s p) else None)"

definition ledger_of :: "('s \<Rightarrow> tables) \<Rightarrow> nat \<Rightarrow> 's \<Rightarrow> ledger" where
  "ledger_of view d s = \<lparr>ld_leaf = leaf_of view d s, ld_pending = map deposit_of (pending view s)\<rparr>"

section \<open>The logs\<close>

text \<open>The values of a log stand for the event.\<close>

fun event_values :: "deposit_event \<Rightarrow> string \<Rightarrow> (string \<rightharpoonup> gvalue) \<Rightarrow> bool" where
  "event_values (Queued i b) name vs \<longleftrightarrow> name = ''DepositQueued'' \<and>
     (\<exists>n. vs ''AccountID'' = Some (VBig n) \<and> big_Uint64 n = i) \<and> vs ''Data'' = Some (VBytes b)"
| "event_values (Ready root) name vs \<longleftrightarrow> name = ''DepositSubTreeReady'' \<and> vs ''Root'' = Some (VBytes root)"
| "event_values (Finalised root path) name vs \<longleftrightarrow> name = ''DepositsFinalised'' \<and>
     vs ''DepositSubTreeRoot'' = Some (VBytes root) \<and> (\<exists>n. vs ''PathToSubTree'' = Some (VBig n) \<and> big_Uint64 n = path)"

text \<open>One of the ABIs of the syncer knows the topic of the log, and decodes it.\<close>

definition event_log :: "'s Syncer \<Rightarrow> eth_log \<Rightarrow> deposit_event \<Rightarrow> bool" where
  "event_log S log ev \<longleftrightarrow> (\<exists>t as A bs e vs. log_Topics log = [t] \<and> sc_abis S = as @ A # bs \<and>
     (\<forall>B \<in> set as \<union> set bs. EventByID B t = None) \<and> EventByID A t = Some e \<and>
     decodes A (ev_Name e) log vs \<and> event_values ev (ev_Name e) vs)"

fun process_event :: "'s Syncer \<Rightarrow> deposit_event \<Rightarrow> string \<Rightarrow> abi \<Rightarrow> eth_log \<Rightarrow> ('s, unit) prog" where
  "process_event S (Queued i b) = processDepositQueued S"
| "process_event S (Ready root) = processDepositSubtreeCreated S"
| "process_event S (Finalised root path) = processDepositFinalised S"

lemma processEvents_abis_none:
  "\<forall>B \<in> set as. EventByID B t = None \<Longrightarrow> processEvents_abis S (as @ rest) log t s = processEvents_abis S rest log t s"
  by (induction "as") (simp_all add: processEvent_def andThen_def ret_def)

lemma processLog_event:
  assumes "event_log S log ev"
  obtains A name vs where "decodes A name log vs" "event_values ev name vs"
    "\<forall>s s'. process_event S ev name A log s = (Ok (), s') \<longrightarrow> processLog S log s = (Ok (), s')"
proof -
  obtain t as' A bs e vs where l: "log_Topics log = [t]" "sc_abis S = as' @ A # bs"
    "\<forall>B \<in> set as'. EventByID B t = None" "\<forall>B \<in> set bs. EventByID B t = None"
    "EventByID A t = Some e" "decodes A (ev_Name e) log vs" "event_values ev (ev_Name e) vs"
    using assms unfolding event_log_def by auto
  have run: "processLog S log s = andThen (processEvent S A log t) (\<lambda>_. processEvents_abis S bs log t) s" for s
    using l(1) by (simp add: processLog_def l(2) processEvents_abis_none [OF l(3)])
  have rest: "processEvents_abis S bs log t s = (Ok (), s)" for s
    using processEvents_abis_none [OF l(4), of S "[]"] by (simp add: ret_def)
  have ev: "processEvent S A log t = process_event S ev (ev_Name e) A log"
    using l(7) by (cases ev) (simp_all add: processEvent_def l(5) Let_def)
  have "processLog S log s = (Ok (), s')" if "process_event S ev (ev_Name e) A log s = (Ok (), s')" for s s'
    using that by (simp add: run ev andThen_ok rest)
  with that [OF l(6,7)] show thesis by blast
qed

section \<open>The simulation\<close>

lemma deposit_of_new [simp]: "deposit_of (NewPendingUserState L i b) = \<lparr>dp_id = i, dp_data = b, dp_subtree = []\<rparr>"
  by (simp add: deposit_of_def NewPendingUserState_def UpdatePath_def CreateAccountHash_def zero_UserState_def Let_def)

lemma deposit_of_attach: "deposit_of (r\<lparr>us_CreatedByDepositSubTree := h\<rparr>) = (deposit_of r)\<lparr>dp_subtree := h\<rparr>"
  by (simp add: deposit_of_def)

lemma ledger_of_queue:
  assumes "\<forall>p. binary p \<longrightarrow> state_node view s' p = state_node view s p" "pending view s' = f (pending view s)"
  shows "ledger_of view d s' = (ledger_of view d s)\<lparr>ld_pending := map deposit_of (f (pending view s))\<rparr>"
proof -
  have "leaf_of view d s' = leaf_of view d s" using assms(1) by (auto simp: leaf_of_def fun_eq_iff)
  then show ?thesis by (simp add: ledger_of_def assms(2))
qed

lemma subtree_deposits_of:
  "subtree_deposits (ledger_of view d s) root = map deposit_of (deposits_of view root s)"
  by (simp add: subtree_deposits_def ledger_of_def deposits_of_def filter_map o_def deposit_of_def)

lemma leaf_zero:
  "length t = d \<Longrightarrow> binary t \<Longrightarrow>
   map_option snd (ld_leaf (ledger_of view d s) t) = Some zero_leaf \<longleftrightarrow> state_hashes view s t = Some zero_leaf"
  by (auto simp: ledger_of_def leaf_of_def state_hashes_def)

lemma subtree_leaves_facts:
  assumes "unat path < 2 ^ (d - 1)" "2 \<le> d"
  shows "subtree_leaves d path = [bits (d - 1) (unat path) @ ''0'', bits (d - 1) (unat path) @ ''1'']"
    and "\<forall>t \<in> set (subtree_leaves d path). binary t \<and> length t = d"
    and "distinct (subtree_leaves d path)"
proof -
  have "0 < d - 1" using assms(2) by simp
  from bits_facts [OF assms(1) this] assms(2)
  show "subtree_leaves d path = [bits (d - 1) (unat path) @ ''0'', bits (d - 1) (unat path) @ ''1'']"
    "\<forall>t \<in> set (subtree_leaves d path). binary t \<and> length t = d" "distinct (subtree_leaves d path)"
    by (simp_all add: subtree_leaves_def Let_def)
qed

text \<open>At most two deposits.\<close>

lemma put_leaves_short:
  "length xs \<le> 2 \<Longrightarrow> distinct [t, u] \<Longrightarrow>
   put_leaves L [t, u] xs f = (\<lambda>p. if p = t \<and> 0 < length xs then Some (dp_data (xs ! 0), data_hash L (dp_data (xs ! 0)))
     else if p = u \<and> 1 < length xs then Some (dp_data (xs ! 1), data_hash L (dp_data (xs ! 1))) else f p)"
  by (cases xs rule: list.exhaust [case_product list.exhaust]; cases xs; cases "tl xs"; cases "tl (tl xs)") (auto simp: fun_eq_iff)

text \<open>Finalising into leaves that are not vacant is refused.\<close>

lemma FinaliseDeposits_refused:
  assumes inv: "db_inv G L view up s" "params (view s) = [pm]" "d = unat (pm_MaxDepth pm)" "2 \<le> d"
    and "state_tree L view d s" "state_rows view d s" "unat path < 2 ^ (d - 1)"
    and t: "t \<in> set (subtree_leaves d path)" "state_hashes view s t \<noteq> Some zero_leaf"
  shows "\<exists>e. FinaliseDepositsAndAddBatch G L root path s = (Err e, s)"
proof -
  let ?p = "bits (d - 1) (unat path)"
  have b: "binary ?p" "length ?p = d - 1" using bits_facts [OF assms(7)] inv(4) by auto
  have "1 \<le> pm_MaxDepth pm" using inv(3,4) by (simp add: word_le_nat_alt)
  then have h: "unat (pm_MaxDepth pm - 1) = d - 1" using inv(3) by (simp add: unat_sub)
  then have "0 < pm_MaxDepth pm - 1" using inv(4) by (simp add: word_less_nat_alt)
  with SolidityPathToNodePath_bits [of path "pm_MaxDepth pm - 1"] h assms(7)
  have sol: "SolidityPathToNodePath path (pm_MaxDepth pm - 1) = Ok ?p" by simp
  let ?rows = "filter (\<lambda>r. prefix ?p (us_Path r) \<and> us_Type r = 1) (user_states (view s))"
  have tl: "binary t" "length t = d" "t = ?p @ ''0'' \<or> t = ?p @ ''1''"
    using subtree_leaves_facts [OF assms(7,4)] t(1) by auto
  have "?p \<noteq> []" using b(2) inv(4) by auto
  from terminal_rows [OF assms(6) b(1) this]
  have paths: "set (map us_Path ?rows) = set (filter (prefix ?p) (level_paths d))" by simp
  have "t \<in> set (filter (prefix ?p) (level_paths d))" using tl by (elim disjE) (simp_all add: level_paths_set)
  then obtain r where r: "r \<in> set ?rows" "us_Path r = t" using paths by (metis (no_types, lifting) imageE set_map)
  obtain x where x: "state_node view s t = Some x" using assms(5) tl by (auto simp: state_tree_def)
  have "r \<in> set (filter (\<lambda>y. us_Path y = t) (user_states (view s)))" using r by simp
  with x have "r = x" by (simp add: state_node_def row_at_Some)
  with t(2) x have "us_Hash r \<noteq> ByteArray_String ZERO_VALUE_LEAF" by (auto simp: state_hashes_def zero_leaf_def)
  with r(1) have "\<exists>e. GetAllTerminalNodes_loop ?rows [] = Err e" by (auto simp: terminal_loop)
  then obtain e where "GetAllTerminalNodes G ?p s = (Err e, s)"
    using scan_run [OF gorm_states_scan [OF db_invD(1) [OF inv(1)]] db_invD(3) [OF inv(1)],
        of "\<lambda>r. prefix ?p (us_Path r) \<and> us_Type r = 1"]
    by (auto simp: GetAllTerminalNodes_def andThen_ok)
  with GetParams_run [OF db_invD(1,3) [OF inv(1)] inv(2)] GetPendingAccByDepositRoot_run [OF inv(1)] sol
  show ?thesis by (simp add: FinaliseDepositsAndAddBatch_def FinaliseDeposits_def andThen_ok andThen_err)
qed

lemma ledger_pending_drop:
  assumes "ids = us_AccountID ` set as"
  shows "map deposit_of (filter (not_pending_of ids) (pending view s)) =
    filter (\<lambda>x. dp_id x \<notin> dp_id ` set (map deposit_of as)) (map deposit_of (pending view s))"
proof -
  have "dp_id ` set (map deposit_of as) = ids" by (simp add: assms image_image deposit_of_def)
  moreover have "map deposit_of (filter (not_pending_of ids) rs) = filter (\<lambda>x. dp_id x \<notin> ids) (map deposit_of rs)"
    if "\<forall>r \<in> set rs. us_Status r = STATUS_PENDING" for rs
    using that by (induction rs) (auto simp: not_pending_of_def deposit_of_def)
  moreover have "\<forall>r \<in> set (pending view s). us_Status r = STATUS_PENDING" by (simp add: pending_def)
  ultimately show ?thesis by metis
qed

lemma ledger_of_finalised:
  assumes "finalised L view d (take (length as) [t, u]) as s s'" "length as \<le> 2" "state_tree L view d s"
    and "binary t" "length t = d" "binary u" "length u = d" "t \<noteq> u" "xs = map deposit_of as"
  shows "ledger_of view d s' = (ledger_of view d s)\<lparr>ld_leaf := put_leaves L [t, u] xs (ld_leaf (ledger_of view d s)),
     ld_pending := filter (\<lambda>x. dp_id x \<notin> dp_id ` set xs) (ld_pending (ledger_of view d s))\<rparr>"
proof -
  note fin = assms(1) [unfolded finalised_def]
  have put: "put_leaves L [t, u] xs f p = (if p = t \<and> 0 < length xs then Some (dp_data (xs ! 0), data_hash L (dp_data (xs ! 0)))
     else if p = u \<and> 1 < length xs then Some (dp_data (xs ! 1), data_hash L (dp_data (xs ! 1))) else f p)" for f p
    using put_leaves_short [of xs t u L f] assms(2,8,9) by simp
  have new: "leaf_of view d s' ([t, u] ! j) = Some (us_Data (as ! j), data_hash L (us_Data (as ! j)))" if j: "j < length as" for j
  proof -
    have "j < 2" using j assms(2) by simp
    then have b: "binary ([t, u] ! j)" "length ([t, u] ! j) = d" using assms(4-7) by (auto simp: less_Suc_eq numeral_2_eq_2)
    then obtain r where "state_node view s ([t, u] ! j) = Some r" using assms(3) unfolding state_tree_def by blast
    moreover have "take (length as) [t, u] ! j = [t, u] ! j" using j by simp
    ultimately show ?thesis using fin j b by (auto simp: leaf_of_def)
  qed
  have old: "leaf_of view d s' p = leaf_of view d s p" if "p \<notin> set (take (length as) [t, u])" for p
    using fin that by (auto simp: leaf_of_def)
  have "leaf_of view d s' p = put_leaves L [t, u] xs (leaf_of view d s) p" for p
  proof (cases "p = t \<and> 0 < length as")
    case True
    with new [of 0] show ?thesis unfolding put by (simp add: assms(9) deposit_of_def)
  next
    case False
    show ?thesis
    proof (cases "p = u \<and> 1 < length as")
      case True
      with False new [of 1] assms(8) show ?thesis unfolding put by (simp add: assms(9) deposit_of_def)
    next
      case no: False
      have "p \<notin> set (take (length as) [t, u])"
        using False no by (cases "as") (auto simp: take_Cons split: nat.splits)
      from old [OF this] False no show ?thesis unfolding put by (auto simp: assms(9))
    qed
  qed
  then have "leaf_of view d s' = put_leaves L [t, u] xs (leaf_of view d s)" by (rule ext)
  with fin ledger_pending_drop [OF refl, of "as" view s] show ?thesis by (simp add: ledger_of_def assms(9))
qed

text \<open>What every step keeps.\<close>

definition ledger_inv :: "'s gorm \<Rightarrow> libs \<Rightarrow> ('s \<Rightarrow> tables) \<Rightarrow> ('s \<Rightarrow> bool) \<Rightarrow> Params \<Rightarrow> nat \<Rightarrow> 's \<Rightarrow> bool" where
  "ledger_inv G L view up pm d s \<longleftrightarrow> db_inv G L view up s \<and> params (view s) = [pm] \<and> d = unat (pm_MaxDepth pm) \<and> 2 \<le> d \<and>
     unat (pm_MaxDepositSubTreeHeight pm) < 100 \<and> state_tree L view d s \<and> state_rows view d s"

lemma ledger_inv_other:
  assumes "ledger_inv G L view up pm d s" "db_inv G L view up s'" "state_tree L view d s'" "state_rows view d s'"
    and "(view s')\<lparr>user_states := []\<rparr> = (view s)\<lparr>user_states := []\<rparr>"
  shows "ledger_inv G L view up pm d s'"
  using assms(1-4) arg_cong [OF assms(5), of params] by (simp add: ledger_inv_def)

lemma finalise_step:
  assumes inv: "ledger_inv G L view up pm d s"
    and step: "ledger_step L d (Finalised root path) (ledger_of view d s) = Some l'"
  shows "\<exists>r s'. FinaliseDepositsAndAddBatch G L root path s = (r, s') \<and> \<not> is_Panic r \<and> ledger_inv G L view up pm d s' \<and>
    (view s')\<lparr>user_states := []\<rparr> = (view s)\<lparr>user_states := []\<rparr> \<and> ledger_of view d s' = l'"
proof -
  note i = inv [unfolded ledger_inv_def]
  let ?p = "bits (d - 1) (unat path)" and ?l = "ledger_of view d s"
  have path: "unat path < 2 ^ (d - 1)" using step by (auto simp: Let_def not_le split: if_splits)
  have ts: "subtree_leaves d path = [?p @ ''0'', ?p @ ''1'']" "\<forall>t \<in> set (subtree_leaves d path). binary t \<and> length t = d"
    using subtree_leaves_facts [OF path] i by simp_all
  show ?thesis
  proof (cases "\<forall>t \<in> set (subtree_leaves d path). state_hashes view s t = Some zero_leaf")
    case False
    then obtain t where t: "t \<in> set (subtree_leaves d path)" "state_hashes view s t \<noteq> Some zero_leaf" by blast
    have "map_option snd (ld_leaf ?l t) \<noteq> Some zero_leaf" using leaf_zero [of t d view s] t ts(2) by blast
    then have "list_ex (\<lambda>t. map_option snd (ld_leaf ?l t) \<noteq> Some zero_leaf) (subtree_leaves d path)"
      using t(1) unfolding list_ex_iff by blast
    then have "l' = ?l" using step path by (simp add: Let_def)
    moreover obtain e where "FinaliseDepositsAndAddBatch G L root path s = (Err e, s)"
      using FinaliseDeposits_refused [OF _ _ _ _ _ _ path t] i by blast
    ultimately show ?thesis using inv by auto
  next
    case True
    define as where "as = deposits_of view root s"
    have xs: "subtree_deposits ?l root = map deposit_of as" by (simp add: subtree_deposits_of as_def)
    have "\<not> list_ex (\<lambda>t. map_option snd (ld_leaf ?l t) \<noteq> Some zero_leaf) (subtree_leaves d path)"
      using True ts(2) leaf_zero [of _ d view s] unfolding list_ex_iff by blast
    then have as: "length as \<le> 2" "\<forall>a \<in> set as. us_Data a \<noteq> []"
      and l': "l' = ?l\<lparr>ld_leaf := put_leaves L (subtree_leaves d path) (map deposit_of as) (ld_leaf ?l),
        ld_pending := filter (\<lambda>x. dp_id x \<notin> dp_id ` set (map deposit_of as)) (ld_pending ?l)\<rparr>"
      using step path by (auto simp: xs list_ex_iff deposit_of_def Let_def not_le not_less split: if_splits)
    have z: "\<forall>t \<in> {?p @ ''0'', ?p @ ''1''}. state_hashes view s t = Some (ByteArray_String ZERO_VALUE_LEAF)"
      using True ts(1) by (simp add: zero_leaf_def)
    have G: "gorm_ok G view up" "libs_ok L" "up s" using i by (auto dest: db_invD)
    obtain s' rt where s': "FinaliseDepositsAndAddBatch G L root path s = (Ok rt, s')" "up s'"
      "finalised L view d (take (length as) [?p @ ''0'', ?p @ ''1'']) as s s'"
      using FinaliseDepositsAndAddBatch_run [OF G _ _ _ _ _ path refl z as_def as] i by blast
    have "ledger_of view d s' = l'"
      unfolding l' ts(1) by (rule ledger_of_finalised [OF s'(3) as(1)]) (use i ts in auto)
    moreover have "ledger_inv G L view up pm d s'"
      by (rule ledger_inv_other [OF inv]) (use s' G in \<open>simp_all add: finalised_def db_inv_def\<close>)
    ultimately show ?thesis using s' by (auto simp: finalised_def)
  qed
qed

lemma ledger_event_step:
  assumes inv: "ledger_inv (sc_DBInstance S) (sc_libs S) view up pm d s" and log: "event_log S log ev"
    and step: "ledger_step (sc_libs S) d ev (ledger_of view d s) = Some l'"
  shows "\<exists>s'. processLog S log s = (Ok (), s') \<and> ledger_inv (sc_DBInstance S) (sc_libs S) view up pm d s' \<and>
    (view s')\<lparr>user_states := []\<rparr> = (view s)\<lparr>user_states := []\<rparr> \<and> ledger_of view d s' = l'"
proof -
  have I: "db_inv (sc_DBInstance S) (sc_libs S) view up s" "state_tree (sc_libs S) view d s" "state_rows view d s"
    "params (view s) = [pm]" "unat (pm_MaxDepositSubTreeHeight pm) < 100"
    using inv unfolding ledger_inv_def by blast+
  obtain A name vs where ev: "decodes A name log vs" "event_values ev name vs"
    and run: "\<forall>s s'. process_event S ev name A log s = (Ok (), s') \<longrightarrow> processLog S log s = (Ok (), s')"
    by (rule processLog_event [OF log]) blast
  show ?thesis
  proof (cases ev)
    case (Queued i' b)
    then obtain n where n: "vs ''AccountID'' = Some (VBig n)" "big_Uint64 n = i'" "vs ''Data'' = Some (VBytes b)" using ev(2) by auto
    obtain s' where s': "processDepositQueued S name A log s = (Ok (), s')" "db_inv (sc_DBInstance S) (sc_libs S) view up s'"
      "view s' = user_states_update (\<lambda>rs. rs @ [NewPendingUserState (sc_libs S) (big_Uint64 n) b]) (view s)"
      "state_tree (sc_libs S) view d s'" "state_rows view d s'"
      "pending view s' = pending view s @ [NewPendingUserState (sc_libs S) (big_Uint64 n) b]"
      "\<forall>p. binary p \<longrightarrow> state_node view s' p = state_node view s p"
      using processDepositQueued_run [OF I(1-3) ev(1) n(1,3)] step Queued by (auto split: if_splits)
    have o: "(view s')\<lparr>user_states := []\<rparr> = (view s)\<lparr>user_states := []\<rparr>" by (simp add: s'(3))
    have "l' = ledger_of view d s'"
      using step ledger_of_queue [where f = "\<lambda>rs. rs @ [NewPendingUserState (sc_libs S) (big_Uint64 n) b]", OF s'(7,6), of d] n(2) by (simp add: Queued split: if_splits) (simp add: ledger_of_def)
    with run s' o Queued ledger_inv_other [OF inv s'(2,4,5) o] show ?thesis by auto
  next
    case (Ready root)
    then have v: "vs ''Root'' = Some (VBytes root)" using ev(2) by simp
    let ?m = "\<lambda>r :: UserState. r\<lparr>us_CreatedByDepositSubTree := ByteArray_String root\<rparr>"
    obtain s' where s': "processDepositSubtreeCreated S name A log s = (Ok (), s')" "db_inv (sc_DBInstance S) (sc_libs S) view up s'"
      "(view s')\<lparr>user_states := []\<rparr> = (view s)\<lparr>user_states := []\<rparr>" "state_tree (sc_libs S) view d s'" "state_rows view d s'"
      "\<forall>p. binary p \<longrightarrow> state_node view s' p = state_node view s p" "pending view s' = map ?m (pending view s)"
      using processDepositSubtreeCreated_run [OF I ev(1) v refl] by blast
    have "l' = ledger_of view d s'"
      using step ledger_of_queue [where f = "map ?m", OF s'(6,7), of d] by (simp add: Ready) (simp add: ledger_of_def deposit_of_attach o_def)
    with run s' Ready ledger_inv_other [OF inv s'(2,4,5,3)] show ?thesis by auto
  next
    case (Finalised root path)
    then obtain n where n: "vs ''DepositSubTreeRoot'' = Some (VBytes root)" "vs ''PathToSubTree'' = Some (VBig n)" "big_Uint64 n = path"
      using ev(2) by auto
    obtain r s' where s': "FinaliseDepositsAndAddBatch (sc_DBInstance S) (sc_libs S) root path s = (r, s')" "\<not> is_Panic r"
      "ledger_inv (sc_DBInstance S) (sc_libs S) view up pm d s'" "(view s')\<lparr>user_states := []\<rparr> = (view s)\<lparr>user_states := []\<rparr>"
      "ledger_of view d s' = l'"
      using finalise_step [OF inv step [unfolded Finalised]] by blast
    have "processDepositFinalised S name A log s = (Ok (), s')"
      using s'(1,2) n by (cases r) (simp_all add: processDepositFinalised_def andThen_unpack [OF ev(1)] event_structs fld_defs ignoreErr_def)
    with run s' Finalised show ?thesis by auto
  qed
qed

lemma ledger_events_run:
  assumes "ledger_inv (sc_DBInstance S) (sc_libs S) view up pm d s" "list_all2 (event_log S) logs evs"
    and "ledger_run (sc_libs S) d evs (ledger_of view d s) = Some l'"
  shows "\<exists>s'. processEvents_loop S logs s = (Ok (), s') \<and> ledger_inv (sc_DBInstance S) (sc_libs S) view up pm d s' \<and>
    (view s')\<lparr>user_states := []\<rparr> = (view s)\<lparr>user_states := []\<rparr> \<and> ledger_of view d s' = l'"
  using assms(2,1,3)
proof (induction arbitrary: s rule: list_all2_induct)
  case (Cons log logs ev evs)
  obtain l1 where l1: "ledger_step (sc_libs S) d ev (ledger_of view d s) = Some l1" "ledger_run (sc_libs S) d evs l1 = Some l'"
    using Cons.prems(2) by (auto split: option.splits)
  obtain s1 where s1: "processLog S log s = (Ok (), s1)" "ledger_inv (sc_DBInstance S) (sc_libs S) view up pm d s1"
    "(view s1)\<lparr>user_states := []\<rparr> = (view s)\<lparr>user_states := []\<rparr>" "ledger_of view d s1 = l1"
    using ledger_event_step [OF Cons.prems(1) Cons.hyps(1) l1(1)] by blast
  from Cons.IH [OF s1(2)] l1(2) s1(4) obtain s' where s': "processEvents_loop S logs s1 = (Ok (), s')"
    "ledger_inv (sc_DBInstance S) (sc_libs S) view up pm d s'" "(view s')\<lparr>user_states := []\<rparr> = (view s1)\<lparr>user_states := []\<rparr>"
    "ledger_of view d s' = l'" by blast
  with s1 show ?case by (intro exI [of _ s']) (simp add: andThen_ok)
qed (simp add: ret_def)

text \<open>The root is a function of the ledger.\<close>

lemma ledger_root_GetRoot:
  assumes "ledger_inv G L view up pm d s"
  shows "\<exists>root. GetRoot G s = (Ok root, s) \<and> us_Hash root = ledger_root L d (ledger_of view d s)"
proof -
  note i = assms [unfolded ledger_inv_def]
  have levels: "state_levels view s" using i by (simp add: state_rows_def)
  have tree: "merkle_tree d (node_hash L) (state_hashes view s)" using i unfolding state_tree_def by blast
  have "state_hashes view s [] = Some (merkle_root (node_hash L) (\<lambda>x. the (state_hashes view s x)) d [])"
    by (rule merkle_tree_root [OF tree]) simp_all
  moreover have "merkle_root (node_hash L) (\<lambda>x. the (state_hashes view s x)) d [] = ledger_root L d (ledger_of view d s)"
    unfolding ledger_root_def
  proof (rule merkle_root_cong)
    fix x :: string assume x: "binary x" "length x = length ([] :: string) + d"
    then obtain r where "state_node view s x = Some r" using i unfolding state_tree_def by auto
    with x show "the (state_hashes view s x) = snd (the (ld_leaf (ledger_of view d s) x))"
      by (simp add: state_hashes_def ledger_of_def leaf_of_def)
  qed simp
  ultimately obtain r where r: "state_node view s [] = Some r" "us_Hash r = ledger_root L d (ledger_of view d s)"
    by (auto simp: state_hashes_def)
  with GetRoot_run [OF _ levels r(1)] i show ?thesis by blast
qed

section \<open>Properties\<close>

text \<open>
  Processing the logs of deposit events refines the ledger: for every sequence of deposits
  queued, subtrees ready and subtrees finalised or refused that the ledger describes, the
  logs are processed without an error or a panic, the ledger of the database afterwards is
  the one of the specification, and the root that \<open>GetRoot\<close> returns is the Merkle root of its
  leaves.  The other tables are as before.
\<close>

theorem deposits_refine_ledger:
  assumes "ledger_inv (sc_DBInstance S) (sc_libs S) view up pm d s" "list_all2 (event_log S) logs evs"
    and "ledger_run (sc_libs S) d evs (ledger_of view d s) = Some l'"
  shows "\<exists>s' root. processEvents_loop S logs s = (Ok (), s') \<and> ledger_inv (sc_DBInstance S) (sc_libs S) view up pm d s' \<and>
    (view s')\<lparr>user_states := []\<rparr> = (view s)\<lparr>user_states := []\<rparr> \<and> ledger_of view d s' = l' \<and>
    GetRoot (sc_DBInstance S) s' = (Ok root, s') \<and> us_Hash root = ledger_root (sc_libs S) d l'"
proof -
  obtain s' where s': "processEvents_loop S logs s = (Ok (), s')" "ledger_inv (sc_DBInstance S) (sc_libs S) view up pm d s'"
    "(view s')\<lparr>user_states := []\<rparr> = (view s)\<lparr>user_states := []\<rparr>" "ledger_of view d s' = l'"
    using ledger_events_run [OF assms] by blast
  with ledger_root_GetRoot [OF s'(2)] show ?thesis by auto
qed

text \<open>Two deposits, their subtree, and its finalisation at the right half of a tree of depth two.\<close>

definition ex_deposits :: "deposit_event list" where
  "ex_deposits = [Queued 1 [5], Queued 2 [6], Ready ex_root, Finalised ex_root 1]"

lemma ex_ledger_inv: "ledger_inv mem_gorm ref_libs (\<lambda>d. d) (\<lambda>_. True) pm_example 2 (ex_dep [])"
  using ex_dep_ok(1,2,4) [of "[]"] mem_gorm_ok ref_libs_ok by (simp add: ledger_inv_def db_inv_def pm_example_def)

lemma ex_ledger_run:
  "\<exists>l'. ledger_run ref_libs 2 ex_deposits (ledger_of (\<lambda>d. d) 2 (ex_dep [])) = Some l' \<and> ld_pending l' = [] \<and>
     ld_leaf l' ''10'' = Some ([5], data_hash ref_libs [5]) \<and> ld_leaf l' ''11'' = Some ([6], data_hash ref_libs [6])"
proof -
  let ?l = "ledger_of (\<lambda>d. d) 2 (ex_dep [])"
  have pend: "ld_pending ?l = []" using ex_dep_ok(3) [of "[]"] by (simp add: ledger_of_def)
  have leaves: "subtree_leaves 2 1 = [''10'', ''11'']" using ex_bits by (simp add: subtree_leaves_def Let_def)
  have "map_option snd (ld_leaf ?l t) = Some zero_leaf" if "t \<in> {''10'', ''11''}" for t
    using ex_dep_ok(6) [of "[]"] that by (subst leaf_zero) (auto simp: zero_leaf_def)
  then obtain a b where "ld_leaf ?l ''10'' = Some (a, zero_leaf)" "ld_leaf ?l ''11'' = Some (b, zero_leaf)" by fastforce
  with leaves pend show ?thesis by (simp add: ex_deposits_def subtree_deposits_def Let_def)
qed

theorem deposits_refine_ledger_witness:
  "\<exists>s' root l'. processEvents_loop (ex_syncer []) [ex_log 2 [1, 5], ex_log 2 [2, 6], ex_log 3 [9], ex_log 4 [1]] (ex_dep []) = (Ok (), s') \<and>
     ledger_of (\<lambda>d. d) 2 s' = l' \<and> ld_pending l' = [] \<and> ld_leaf l' ''10'' = Some ([5], data_hash ref_libs [5]) \<and>
     ld_leaf l' ''11'' = Some ([6], data_hash ref_libs [6]) \<and> GetRoot mem_gorm s' = (Ok root, s') \<and>
     us_Hash root = ledger_root ref_libs 2 l'"
proof -
  let ?S = "ex_syncer []"
  have S: "sc_DBInstance ?S = mem_gorm" "sc_libs ?S = ref_libs" "sc_abis ?S = [ex_events]" by (simp_all add: ex_syncer_def)
  have ev: "event_log ?S (ex_log i b) ev"
    if "event_values ev n (case abi_Unpack ex_events n b of Inr vs \<Rightarrow> vs | _ \<Rightarrow> Map.empty)" "b \<noteq> []"
      "(i, n) \<in> {(2, ''DepositQueued''), (3, ''DepositSubTreeReady''), (4, ''DepositsFinalised'')}" for i b ev n
  proof -
    have "EventByID ex_events [i] = Some \<lparr>ev_Name = n, ev_ID = [i], ev_Inputs = []\<rparr>" "n \<in> fst ` set (abi_Events ex_events)"
      using that(3) by (auto simp: ex_events_def EventByID_def)
    with ex_decodes [OF _ that(2), of n i] that(1) show ?thesis
      unfolding event_log_def S by (intro exI [of _ "[i]"] exI [of _ "[]"] exI [of _ ex_events] exI) (auto simp: ex_log_def)
  qed
  have logs: "list_all2 (event_log ?S) [ex_log 2 [1, 5], ex_log 2 [2, 6], ex_log 3 [9], ex_log 4 [1]] ex_deposits"
    unfolding ex_deposits_def
    by (simp add: ev [where n = "''DepositQueued''"] ev [where n = "''DepositSubTreeReady''"] ev [where n = "''DepositsFinalised''"]
      ex_events_def big_Uint64_def)
  obtain l' where run: "ledger_run (sc_libs ?S) 2 ex_deposits (ledger_of (\<lambda>d. d) 2 (ex_dep [])) = Some l'"
    and l': "ld_pending l' = []" "ld_leaf l' ''10'' = Some ([5], data_hash ref_libs [5])"
      "ld_leaf l' ''11'' = Some ([6], data_hash ref_libs [6])" using ex_ledger_run unfolding S by blast
  have "ledger_inv (sc_DBInstance ?S) (sc_libs ?S) (\<lambda>d. d) (\<lambda>_. True) pm_example 2 (ex_dep [])"
    unfolding S by (rule ex_ledger_inv)
  from deposits_refine_ledger [OF this logs run] l' show ?thesis unfolding S by blast
qed

end
