(* ===== verification/Logger_Events.thy ===== *)
theory Logger_Events
  imports Logger_Binding Deposit_Ledger
begin

text \<open>
  The events of the logger contract from its description to the processors: the structs that
  the binding declares for the events are those the description asks for, a log that the
  contract emits is decoded into the fields that the processor reads, and the ledger of
  \<open>Deposit_Ledger\<close> is a specification of what the syncer makes of the contract's logs.
\<close>

section \<open>The parsed description\<close>

text \<open>The Go type of a field for an input.\<close>

fun gkind_of :: "sol_type \<Rightarrow> gkind" where
  "gkind_of (TUint n) = (if 64 < n then KBigInt else KUint n)"
| "gkind_of TAddress = KAddress"
| "gkind_of TBytes32 = KArray 32"
| "gkind_of TBytes = KSlice"
| "gkind_of (TSlice t) = KSlice"
| "gkind_of (TArray n t) = KArray n"
| "gkind_of (TTuple ns ts) = KOther"

text \<open>A struct for an event has a field per input, and the raw log.\<close>

definition struct_agrees :: "contract_abi \<Rightarrow> string \<Rightarrow> gstruct \<Rightarrow> bool" where
  "struct_agrees A name g \<longleftrightarrow> (\<exists>e. find (\<lambda>e. ea_Name e = name) (ca_Events A) = Some e \<and>
     gs_kinds g = (map_of (map (\<lambda>(n, t, ix). (camel n, gkind_of t)) (ea_Inputs e)))(''Raw'' \<mapsto> KOther) \<and>
     distinct (map (camel \<circ> fst) (ea_Inputs e)) \<and> gs_values g = Map.empty)"

text \<open>
  \<open>abi.JSON\<close>: the events by name, in some order, each with its topic, the hash of its
  signature, and its inputs.
\<close>

definition event_of :: "(string \<Rightarrow> bytes) \<Rightarrow> event_abi \<Rightarrow> string \<times> event" where
  "event_of topic e = (ea_Name e, \<lparr>ev_Name = ea_Name e, ev_ID = topic (ea_Name e),
     ev_Inputs = map (\<lambda>(n, t, ix). \<lparr>arg_Name = n, arg_Type = if t = TBytes32 then FixedBytesTy 32 else OtherTy,
       arg_Indexed = ix\<rparr>) (ea_Inputs e)\<rparr>)"

text \<open>The value of a field for an unpacked value; arrays of numbers are no values of \<open>gvalue\<close>.\<close>

fun gval :: "sol_value \<Rightarrow> gvalue option" where
  "gval (SBig x) = Some (VBig x)"
| "gval (SU8 b) = Some (VNum (uint b))"
| "gval (SAddress b) = Some (VBytes b)"
| "gval (SBytes32 b) = Some (VBytes b)"
| "gval (SBytes b) = Some (VBytes b)"
| "gval _ = None"

text \<open>
  The decoder is the inverse of the encoder of the contract: it sets the fields of the
  struct, by the names of the inputs, to the values that were encoded.
\<close>

definition parsed_abi :: "contract_abi \<Rightarrow> (string \<Rightarrow> bytes) \<Rightarrow> (sol_value list \<Rightarrow> bytes) \<Rightarrow> abi \<Rightarrow> bool" where
  "parsed_abi A topic enc a \<longleftrightarrow>
     set (abi_Events a) = event_of topic ` set (ca_Events A) \<and> distinct (map fst (abi_Events a)) \<and>
     inj_on topic (ea_Name ` set (ca_Events A)) \<and>
     (\<forall>e vs gs. e \<in> set (ca_Events A) \<and> of_kinds vs (map (fst \<circ> snd) (ea_Inputs e)) \<and> map (gval \<circ> packed) vs = map Some gs \<longrightarrow>
        enc vs \<noteq> [] \<and> abi_Unpack a (ea_Name e) (enc vs) = Inr (map_of (zip (map (camel \<circ> fst) (ea_Inputs e)) gs)))"

section \<open>Logs of the contract\<close>

definition logger_log :: "(string \<Rightarrow> bytes) \<Rightarrow> (sol_value list \<Rightarrow> bytes) \<Rightarrow> bytes \<Rightarrow> string \<Rightarrow> sol_value list \<Rightarrow> eth_log" where
  "logger_log topic enc tx name vs = \<lparr>log_Topics = [topic name], log_Data = enc vs, log_TxHash = tx\<rparr>"

fun deposit_log :: "deposit_event \<Rightarrow> string \<times> sol_value list" where
  "deposit_log (Queued i b) = (''DepositQueued'', [SBig (uint i), SBytes b])"
| "deposit_log (Ready root) = (''DepositSubTreeReady'', [SBytes32 root])"
| "deposit_log (Finalised root path) = (''DepositsFinalised'', [SBytes32 root, SBig (uint path)])"

lemma EventByID_parsed:
  assumes "parsed_abi A topic enc a" "e \<in> set (ca_Events A)"
  shows "EventByID a (topic (ea_Name e)) = Some (snd (event_of topic e))"
proof -
  have loop: "EventByID_loop es t = Some x"
    if "\<forall>p \<in> set es. ev_ID (snd p) = t \<longrightarrow> snd p = x" "\<exists>p \<in> set es. snd p = x \<and> ev_ID x = t" for es t x
    using that by (induction es) (auto, force)
  have "\<forall>p \<in> set (abi_Events a). ev_ID (snd p) = topic (ea_Name e) \<longrightarrow> snd p = snd (event_of topic e)"
  proof (intro ballI impI)
    fix p assume p: "p \<in> set (abi_Events a)" "ev_ID (snd p) = topic (ea_Name e)"
    have ev: "set (abi_Events a) = event_of topic ` set (ca_Events A)" "inj_on topic (ea_Name ` set (ca_Events A))"
      "distinct (map fst (abi_Events a))" using assms(1) unfolding parsed_abi_def by blast+
    from p(1) ev(1) obtain f where f: "f \<in> set (ca_Events A)" "p = event_of topic f" by blast
    then have "ea_Name f = ea_Name e" using p(2) ev(2) assms(2) by (auto simp: event_of_def dest: inj_onD)
    then have "fst p = fst (event_of topic e)" using f(2) by (simp add: event_of_def)
    moreover have "event_of topic e \<in> set (abi_Events a)" using ev(1) assms(2) by blast
    ultimately have "p = event_of topic e" using p(1) ev(3) by (metis eq_key_imp_eq_value prod.collapse)
    then show "snd p = snd (event_of topic e)" by simp
  qed
  moreover have "event_of topic e \<in> set (abi_Events a)" using assms by (auto simp: parsed_abi_def)
  then have "\<exists>p \<in> set (abi_Events a). snd p = snd (event_of topic e) \<and> ev_ID (snd (event_of topic e)) = topic (ea_Name e)"
    by (auto simp: event_of_def intro!: bexI [of _ "event_of topic e"])
  ultimately show ?thesis unfolding EventByID_def by (intro loop) auto
qed

text \<open>A log of an event without indexed inputs is decoded into its fields.\<close>

lemma decodes_parsed:
  assumes "parsed_abi A topic enc a" "e \<in> set (ca_Events A)" "\<forall>(n, t, ix) \<in> set (ea_Inputs e). \<not> ix"
    and "of_kinds vs (map (fst \<circ> snd) (ea_Inputs e))" "map (gval \<circ> packed) vs = map Some gs"
  shows "decodes a (ea_Name e) (logger_log topic enc tx (ea_Name e) vs) (map_of (zip (map (camel \<circ> fst) (ea_Inputs e)) gs))"
proof -
  have u: "enc vs \<noteq> []" "abi_Unpack a (ea_Name e) (enc vs) = Inr (map_of (zip (map (camel \<circ> fst) (ea_Inputs e)) gs))"
    using assms(1,2,4,5) unfolding parsed_abi_def by blast+
  have ev: "event_of topic e \<in> set (abi_Events a)" "distinct (map fst (abi_Events a))"
    using assms(1,2) by (auto simp: parsed_abi_def)
  have "map_of (abi_Events a) (ea_Name e) = Some (snd (event_of topic e))"
    by (rule map_of_is_SomeI) (use ev in \<open>simp_all add: event_of_def\<close>)
  then have "event_inputs a (ea_Name e) = ev_Inputs (snd (event_of topic e))" by (simp add: event_inputs_def)
  then have "\<forall>x \<in> set (event_inputs a (ea_Name e)). \<not> arg_Indexed x" using assms(3) by (auto simp: event_of_def)
  with u show ?thesis by (simp add: decodes_def logger_log_def)
qed

lemma deposit_event_log:
  assumes "parsed_abi LoggerABI topic enc a" "sc_abis S = [a]" "deposit_log ev = (name, vs)"
  shows "event_log S (logger_log topic enc tx name vs) ev"
proof -
  have ev: "\<exists>e gs. e \<in> set (ca_Events LoggerABI) \<and> ea_Name e = name \<and> (\<forall>(n, t, ix) \<in> set (ea_Inputs e). \<not> ix) \<and>
      of_kinds vs (map (fst \<circ> snd) (ea_Inputs e)) \<and> map (gval \<circ> packed) vs = map Some gs \<and>
      event_values ev name (map_of (zip (map (camel \<circ> fst) (ea_Inputs e)) gs))"
  proof (cases ev)
    case (Queued i b)
    have w: "wrap256 (uint i) = uint i" using uint_lt2p [of i] by (simp add: wrap256_def mod_pos_pos_trivial)
    show ?thesis
      by (rule exI [of _ "\<lparr>ea_Name = ''DepositQueued'', ea_Inputs = [(''AccountID'', TUint 256, False), (''data'', TBytes, False)]\<rparr>"],
        rule exI [of _ "[VBig (uint i), VBytes b]"])
        (use assms(3) Queued w in \<open>auto simp: LoggerABI_def camel_def big_Uint64_def\<close>)
  next
    case (Ready root)
    show ?thesis
      by (rule exI [of _ "\<lparr>ea_Name = ''DepositSubTreeReady'', ea_Inputs = [(''root'', TBytes32, False)]\<rparr>"],
        rule exI [of _ "[VBytes root]"]) (use assms(3) Ready in \<open>auto simp: LoggerABI_def camel_def\<close>)
  next
    case (Finalised root path)
    have w: "wrap256 (uint path) = uint path" using uint_lt2p [of path] by (simp add: wrap256_def mod_pos_pos_trivial)
    show ?thesis
      by (rule exI [of _ "\<lparr>ea_Name = ''DepositsFinalised'', ea_Inputs = [(''depositSubTreeRoot'', TBytes32, False),
          (''pathToSubTree'', TUint 256, False)]\<rparr>"], rule exI [of _ "[VBytes root, VBig (uint path)]"])
        (use assms(3) Finalised w in \<open>auto simp: LoggerABI_def camel_def big_Uint64_def\<close>)
  qed
  then obtain e gs where e: "e \<in> set (ca_Events LoggerABI)" "ea_Name e = name" "\<forall>(n, t, ix) \<in> set (ea_Inputs e). \<not> ix"
    "of_kinds vs (map (fst \<circ> snd) (ea_Inputs e))" "map (gval \<circ> packed) vs = map Some gs"
    "event_values ev name (map_of (zip (map (camel \<circ> fst) (ea_Inputs e)) gs))" by blast
  have "EventByID a (topic name) = Some (snd (event_of topic e))" using EventByID_parsed [OF assms(1) e(1)] e(2) by simp
  moreover have "decodes a name (logger_log topic enc tx name vs) (map_of (zip (map (camel \<circ> fst) (ea_Inputs e)) gs))"
    using decodes_parsed [OF assms(1) e(1,3,4,5), of tx] e(2) by simp
  ultimately show ?thesis
    unfolding event_log_def using e(2,6)
    by (intro exI [of _ "topic name"] exI [of _ "[]"] exI [of _ a] exI [of _ "snd (event_of topic e)"] exI)
      (auto simp: assms(2) logger_log_def event_of_def)
qed

section \<open>A reference decoder\<close>

text \<open>Numbers as a word of 32 bytes, bytes after their length in unary.\<close>

fun enc_val :: "sol_value \<Rightarrow> bytes" where
  "enc_val (SBig x) = be_bytes 32 x"
| "enc_val (SU8 b) = [b]"
| "enc_val (SAddress b) = replicate (length b) 1 @ 0 # b"
| "enc_val (SBytes32 b) = replicate (length b) 1 @ 0 # b"
| "enc_val (SBytes b) = replicate (length b) 1 @ 0 # b"
| "enc_val _ = []"

fun take_len :: "bytes \<Rightarrow> nat \<times> bytes" where
  "take_len [] = (0, [])"
| "take_len (b # bs) = (if b = 0 then (0, bs) else (case take_len bs of (n, r) \<Rightarrow> (Suc n, r)))"

definition dec_val :: "sol_type \<Rightarrow> bytes \<Rightarrow> gvalue \<times> bytes" where
  "dec_val t bs = (if t = TUint 8 then (VNum (uint (hd bs)), tl bs)
     else if t = TUint 256 then (VBig (be_val (take 32 bs)), drop 32 bs)
     else (case take_len bs of (n, r) \<Rightarrow> (VBytes (take n r), drop n r)))"

fun dec_vals :: "sol_type list \<Rightarrow> bytes \<Rightarrow> gvalue list" where
  "dec_vals [] bs = []"
| "dec_vals (t # ts) bs = (case dec_val t bs of (g, r) \<Rightarrow> g # dec_vals ts r)"

definition ref_enc :: "sol_value list \<Rightarrow> bytes" where
  "ref_enc vs = 1 # concat (map enc_val vs)"

definition ref_topic :: "string \<Rightarrow> bytes" where
  "ref_topic name = [of_nat (length (takeWhile (\<lambda>e. ea_Name e \<noteq> name) (ca_Events LoggerABI)))]"

definition ref_logger :: abi where
  "ref_logger = \<lparr>abi_Events = map (event_of ref_topic) (ca_Events LoggerABI),
     abi_Unpack = (\<lambda>name bs. case find (\<lambda>e. ea_Name e = name) (ca_Events LoggerABI) of
        None \<Rightarrow> Inl (ErrAbi ''no such event'')
      | Some e \<Rightarrow> Inr (map_of (zip (map (camel \<circ> fst) (ea_Inputs e)) (dec_vals (map (fst \<circ> snd) (ea_Inputs e)) (tl bs)))))\<rparr>"

lemma take_len_enc: "take_len (replicate n 1 @ 0 # bs) = (n, bs)"
  by (induction n) simp_all

text \<open>The types of the events' inputs that have a value.\<close>

definition plain_type :: "sol_type \<Rightarrow> bool" where
  "plain_type t \<longleftrightarrow> t \<in> {TUint 8, TUint 256, TAddress, TBytes32, TBytes} \<or> (\<exists>n u. t = TArray n u)"

lemma dec_val_enc:
  assumes "of_kind v t" "gval (packed v) = Some g" "plain_type t"
  shows "dec_val t (enc_val v @ r) = (g, r)"
  using assms by (cases v) (auto simp: dec_val_def plain_type_def take_len_enc be_val_be_bytes wrap256_def)

lemma dec_vals_enc:
  assumes "of_kinds vs ts" "map (gval \<circ> packed) vs = map Some gs" "\<forall>t \<in> set ts. plain_type t"
  shows "dec_vals ts (concat (map enc_val vs)) = gs"
  using assms
proof (induction vs arbitrary: ts gs)
  case (Cons v vs)
  obtain t ts' where ts: "ts = t # ts'" "of_kind v t" "of_kinds vs ts'" using Cons.prems(1) by (cases ts) auto
  obtain g gs' where gs: "gs = g # gs'" "gval (packed v) = Some g" "map (gval \<circ> packed) vs = map Some gs'"
    using Cons.prems(2) by (cases gs) (auto simp: o_def)
  have "dec_val t (enc_val v @ concat (map enc_val vs)) = (g, concat (map enc_val vs))"
    by (rule dec_val_enc [OF ts(2) gs(2)]) (use Cons.prems(3) ts(1) in simp)
  then show ?case using Cons.IH [OF ts(3) gs(3)] Cons.prems(3) by (simp add: ts(1) gs(1))
qed simp

lemma ref_logger_parsed: "parsed_abi LoggerABI ref_topic ref_enc ref_logger"
  unfolding parsed_abi_def
proof (intro conjI allI impI)
  show "set (abi_Events ref_logger) = event_of ref_topic ` set (ca_Events LoggerABI)" by (simp add: ref_logger_def)
  show "distinct (map fst (abi_Events ref_logger))" by (simp add: ref_logger_def LoggerABI_def event_of_def)
  show "inj_on ref_topic (ea_Name ` set (ca_Events LoggerABI))" by (simp add: LoggerABI_def ref_topic_def)
next
  fix e vs gs
  assume "e \<in> set (ca_Events LoggerABI) \<and> of_kinds vs (map (fst \<circ> snd) (ea_Inputs e)) \<and> map (gval \<circ> packed) vs = map Some gs"
  then have e: "e \<in> set (ca_Events LoggerABI)" "of_kinds vs (map (fst \<circ> snd) (ea_Inputs e))" "map (gval \<circ> packed) vs = map Some gs"
    by blast+
  show "ref_enc vs \<noteq> []" by (simp add: ref_enc_def)
  have "\<forall>e \<in> set (ca_Events LoggerABI). find (\<lambda>f. ea_Name f = ea_Name e) (ca_Events LoggerABI) = Some e"
    by (simp add: LoggerABI_def)
  moreover have "\<forall>e \<in> set (ca_Events LoggerABI). \<forall>t \<in> set (map (fst \<circ> snd) (ea_Inputs e)). plain_type t"
    by (simp add: LoggerABI_def plain_type_def)
  ultimately show "abi_Unpack ref_logger (ea_Name e) (ref_enc vs) = Inr (map_of (zip (map (camel \<circ> fst) (ea_Inputs e)) gs))"
    using e(1) dec_vals_enc [OF e(2,3)] by (simp add: ref_logger_def ref_enc_def)
qed

section \<open>Properties\<close>

text \<open>
  C3. Processing the deposit events of the logger contract refines the ledger: for every sequence
  of deposits queued, subtrees ready and subtrees finalised or refused that the ledger
  describes, the logs in which the contract emits them are decoded by its description and
  processed without an error or a panic, the ledger of the database afterwards is the one
  of the specification, and the root that \<open>GetRoot\<close> returns is the Merkle root of its leaves.
  The other tables are as before.
\<close>

theorem contract_deposits_refine_ledger:
  assumes "ledger_inv (sc_DBInstance S) (sc_libs S) view up pm d s" "parsed_abi LoggerABI topic enc a" "sc_abis S = [a]"
    and "ledger_run (sc_libs S) d evs (ledger_of view d s) = Some l'"
    and "logs = map (\<lambda>(tx, ev). case deposit_log ev of (name, vs) \<Rightarrow> logger_log topic enc tx name vs) (zip txs evs)"
    and "length txs = length evs"
  shows "\<exists>s' root. processEvents_loop S logs s = (Ok (), s') \<and> ledger_inv (sc_DBInstance S) (sc_libs S) view up pm d s' \<and>
    (view s')\<lparr>user_states := []\<rparr> = (view s)\<lparr>user_states := []\<rparr> \<and> ledger_of view d s' = l' \<and>
    GetRoot (sc_DBInstance S) s' = (Ok root, s') \<and> us_Hash root = ledger_root (sc_libs S) d l'"
proof (rule deposits_refine_ledger [OF assms(1) _ assms(4)])
  have "event_log S (case deposit_log ev of (name, vs) \<Rightarrow> logger_log topic enc tx name vs) ev" for tx ev
    by (cases "deposit_log ev") (simp add: deposit_event_log [OF assms(2,3)])
  then show "list_all2 (event_log S) logs evs"
    using assms(6) by (auto simp: assms(5) list_all2_conv_all_nth)
qed

theorem contract_deposits_refine_ledger_witness:
  "\<exists>s' root l'. processEvents_loop (ex_syncer []\<lparr>sc_abis := [ref_logger]\<rparr>) (map (\<lambda>(name, vs). logger_log ref_topic ref_enc [] name vs)
       [(''DepositQueued'', [SBig 1, SBytes [5]]), (''DepositQueued'', [SBig 2, SBytes [6]]),
        (''DepositSubTreeReady'', [SBytes32 ex_root]), (''DepositsFinalised'', [SBytes32 ex_root, SBig 1])]) (ex_dep []) = (Ok (), s') \<and>
     ledger_of (\<lambda>d. d) 2 s' = l' \<and> ld_pending l' = [] \<and> ld_leaf l' ''10'' = Some ([5], data_hash ref_libs [5]) \<and>
     ld_leaf l' ''11'' = Some ([6], data_hash ref_libs [6]) \<and> GetRoot mem_gorm s' = (Ok root, s') \<and>
     us_Hash root = ledger_root ref_libs 2 l'"
proof -
  let ?S = "ex_syncer []\<lparr>sc_abis := [ref_logger]\<rparr>"
  have S: "sc_DBInstance ?S = mem_gorm" "sc_libs ?S = ref_libs" "sc_abis ?S = [ref_logger]" by (simp_all add: ex_syncer_def)
  obtain l' where run: "ledger_run (sc_libs ?S) 2 ex_deposits (ledger_of (\<lambda>d. d) 2 (ex_dep [])) = Some l'"
    and l': "ld_pending l' = []" "ld_leaf l' ''10'' = Some ([5], data_hash ref_libs [5])"
      "ld_leaf l' ''11'' = Some ([6], data_hash ref_libs [6])" using ex_ledger_run unfolding S by blast
  have inv: "ledger_inv (sc_DBInstance ?S) (sc_libs ?S) (\<lambda>d. d) (\<lambda>_. True) pm_example 2 (ex_dep [])"
    unfolding S by (rule ex_ledger_inv)
  have len: "length (replicate 4 []) = length ex_deposits" by (simp add: ex_deposits_def)
  have rep: "replicate 4 x = [x, x, x, x]" for x :: bytes by (simp add: numeral_eq_Suc)
  have "map (\<lambda>(tx, ev). case deposit_log ev of (name, vs) \<Rightarrow> logger_log ref_topic ref_enc tx name vs) (zip (replicate 4 []) ex_deposits) =
      map (\<lambda>(name, vs). logger_log ref_topic ref_enc [] name vs)
       [(''DepositQueued'', [SBig 1, SBytes [5]]), (''DepositQueued'', [SBig 2, SBytes [6]]),
        (''DepositSubTreeReady'', [SBytes32 ex_root]), (''DepositsFinalised'', [SBytes32 ex_root, SBig 1])]"
    by (simp add: ex_deposits_def rep)
  from contract_deposits_refine_ledger [OF inv ref_logger_parsed S(3) run this [symmetric] len] l'
  show ?thesis unfolding S by blast
qed

end
