(* ===== verification/Event_Iterators.thy ===== *)
theory Event_Iterators
  imports Logger_Events
begin

text \<open>
  The code that \<open>contracts/logger/logger.go\<close> has for each of the eleven events: an iterator over
  the logs that are fetched, a watcher of those to come, and a parser.  The eleven copies
  differ in the name of the event and its struct, an \<open>event_binding\<close>.  An iterator reads two
  channels that a goroutine of the library serves; shown is that whatever the goroutine and
  the choices of \<open>select\<close> do, the loop over an iterator yields every log once and in order.
\<close>

section \<open>The events\<close>

record event_binding =
  eb_Name :: string
  eb_Struct :: gstruct

text \<open>The structs of the events that the syncer does not process.\<close>

definition LoggerBatchRollback :: gstruct where
  "LoggerBatchRollback = \<lparr>gs_kinds = [''BatchId'' \<mapsto> KBigInt, ''Raw'' \<mapsto> KOther], gs_values = Map.empty\<rparr>"

definition LoggerPubkeyRegistered :: gstruct where
  "LoggerPubkeyRegistered = \<lparr>gs_kinds = [''Pubkey'' \<mapsto> KArray 4, ''AccountID'' \<mapsto> KBigInt, ''Raw'' \<mapsto> KOther],
     gs_values = Map.empty\<rparr>"

definition LoggerRegistrationRequest :: gstruct where
  "LoggerRegistrationRequest = \<lparr>gs_kinds = [''TokenContract'' \<mapsto> KAddress, ''Raw'' \<mapsto> KOther], gs_values = Map.empty\<rparr>"

definition LoggerRollbackFinalisation :: gstruct where
  "LoggerRollbackFinalisation = \<lparr>gs_kinds = [''TotalBatchesSlashed'' \<mapsto> KBigInt, ''Raw'' \<mapsto> KOther], gs_values = Map.empty\<rparr>"

definition LoggerStakeWithdraw :: gstruct where
  "LoggerStakeWithdraw = \<lparr>gs_kinds = [''Committed'' \<mapsto> KAddress, ''BatchId'' \<mapsto> KBigInt, ''Raw'' \<mapsto> KOther],
     gs_values = Map.empty\<rparr>"

definition BatchRollback_event :: event_binding where
  "BatchRollback_event = \<lparr>eb_Name = ''BatchRollback'', eb_Struct = LoggerBatchRollback\<rparr>"

definition DepositQueued_event :: event_binding where
  "DepositQueued_event = \<lparr>eb_Name = ''DepositQueued'', eb_Struct = LoggerDepositQueued\<rparr>"

definition DepositSubTreeReady_event :: event_binding where
  "DepositSubTreeReady_event = \<lparr>eb_Name = ''DepositSubTreeReady'', eb_Struct = LoggerDepositSubTreeReady\<rparr>"

definition DepositsFinalised_event :: event_binding where
  "DepositsFinalised_event = \<lparr>eb_Name = ''DepositsFinalised'', eb_Struct = LoggerDepositsFinalised\<rparr>"

definition NewBatch_event :: event_binding where
  "NewBatch_event = \<lparr>eb_Name = ''NewBatch'', eb_Struct = LoggerNewBatch\<rparr>"

definition NewPubkeyAdded_event :: event_binding where
  "NewPubkeyAdded_event = \<lparr>eb_Name = ''NewPubkeyAdded'', eb_Struct = LoggerNewPubkeyAdded\<rparr>"

definition PubkeyRegistered_event :: event_binding where
  "PubkeyRegistered_event = \<lparr>eb_Name = ''PubkeyRegistered'', eb_Struct = LoggerPubkeyRegistered\<rparr>"

definition RegisteredToken_event :: event_binding where
  "RegisteredToken_event = \<lparr>eb_Name = ''RegisteredToken'', eb_Struct = LoggerRegisteredToken\<rparr>"

definition RegistrationRequest_event :: event_binding where
  "RegistrationRequest_event = \<lparr>eb_Name = ''RegistrationRequest'', eb_Struct = LoggerRegistrationRequest\<rparr>"

definition RollbackFinalisation_event :: event_binding where
  "RollbackFinalisation_event = \<lparr>eb_Name = ''RollbackFinalisation'', eb_Struct = LoggerRollbackFinalisation\<rparr>"

definition StakeWithdraw_event :: event_binding where
  "StakeWithdraw_event = \<lparr>eb_Name = ''StakeWithdraw'', eb_Struct = LoggerStakeWithdraw\<rparr>"

definition logger_events :: "event_binding list" where
  "logger_events = [BatchRollback_event, DepositQueued_event, DepositSubTreeReady_event, DepositsFinalised_event,
     NewBatch_event, NewPubkeyAdded_event, PubkeyRegistered_event, RegisteredToken_event, RegistrationRequest_event,
     RollbackFinalisation_event, StakeWithdraw_event]"

lemmas event_bindings = BatchRollback_event_def DepositQueued_event_def DepositSubTreeReady_event_def
  DepositsFinalised_event_def NewBatch_event_def NewPubkeyAdded_event_def PubkeyRegistered_event_def
  RegisteredToken_event_def RegistrationRequest_event_def RollbackFinalisation_event_def StakeWithdraw_event_def

section \<open>Parsing\<close>

text \<open>
  \<open>bind.BoundContract.UnpackLog\<close> fills the struct of the event named; a value is the struct and,
  where the code sets it, the raw log.
\<close>

type_synonym unpack_log = "gstruct \<Rightarrow> string \<Rightarrow> eth_log \<Rightarrow> go_error + gstruct"

record event_value =
  va_Fields :: gstruct
  va_Raw :: "eth_log option"

text \<open>\<open>Parse\<close> does not set \<open>Raw\<close>.\<close>

definition ParseEvent :: "unpack_log \<Rightarrow> event_binding \<Rightarrow> eth_log \<Rightarrow> go_error + event_value" where
  "ParseEvent U B log = (case U (eb_Struct B) (eb_Name B) log of
     Inl err \<Rightarrow> Inl err
   | Inr event \<Rightarrow> Inr \<lparr>va_Fields = event, va_Raw = None\<rparr>)"

definition parse_raw :: "unpack_log \<Rightarrow> event_binding \<Rightarrow> eth_log \<Rightarrow> go_error + event_value" where
  "parse_raw U B log = (case U (eb_Struct B) (eb_Name B) log of
     Inl err \<Rightarrow> Inl err
   | Inr event \<Rightarrow> Inr \<lparr>va_Fields = event, va_Raw = Some log\<rparr>)"

section \<open>Iterators\<close>

text \<open>
  The channel of logs is the list of those in its buffer.  \<open>sub.Err()\<close> can be read once the
  subscription has ended: \<open>Some err\<close> is what is read then, \<open>None\<close> for \<open>nil\<close>.
\<close>

record iterator =
  it_Event :: "event_value option"
  it_logs :: "eth_log list"
  it_sub :: "go_error option option"
  it_done :: bool
  it_fail :: "go_error option"

text \<open>A log that was received: it is unpacked, or the iterator fails.  The event is new before.\<close>

definition receive_log :: "unpack_log \<Rightarrow> event_binding \<Rightarrow> eth_log \<Rightarrow> iterator \<Rightarrow> bool \<times> iterator" where
  "receive_log U B log it = (case parse_raw U B log of
     Inl err \<Rightarrow> (False, it\<lparr>it_Event := Some \<lparr>va_Fields = eb_Struct B, va_Raw = None\<rparr>, it_fail := Some err\<rparr>)
   | Inr event \<Rightarrow> (True, it\<lparr>it_Event := Some event\<rparr>))"

text \<open>
  When both channels can be read \<open>select\<close> takes either, as \<open>err_first\<close> says; when none can be,
  the call blocks (\<open>None\<close>).  After the end is read \<open>Next\<close> calls itself.
\<close>

function Next :: "unpack_log \<Rightarrow> event_binding \<Rightarrow> bool \<Rightarrow> iterator \<Rightarrow> (bool \<times> iterator) option" where
  "Next U B err_first it =
    (if it_fail it \<noteq> None then Some (False, it)
     else if it_done it then
       (case it_logs it of
          [] \<Rightarrow> Some (False, it)
        | log # logs \<Rightarrow> Some (receive_log U B log (it\<lparr>it_logs := logs\<rparr>)))
     else
       (case (it_logs it, it_sub it) of
          ([], None) \<Rightarrow> None
        | (log # logs, sub) \<Rightarrow>
            (if sub = None \<or> \<not> err_first then Some (receive_log U B log (it\<lparr>it_logs := logs\<rparr>))
             else Next U B err_first (it\<lparr>it_done := True, it_fail := the sub\<rparr>))
        | ([], Some err) \<Rightarrow> Next U B err_first (it\<lparr>it_done := True, it_fail := err\<rparr>)))"
  by pat_completeness auto
termination by (relation "measure (\<lambda>(U, B, c, it). if it_done it then 0 else 1)") auto

declare Next.simps [simp del]

definition it_Error :: "iterator \<Rightarrow> go_error option" where
  "it_Error it = it_fail it"

text \<open>\<open>Close\<close> ends the subscription and returns no error.\<close>

definition it_Close :: "iterator \<Rightarrow> go_error option \<times> iterator" where
  "it_Close it = (None, it\<lparr>it_sub := (if it_sub it = None then Some None else it_sub it)\<rparr>)"

text \<open>
  \<open>Filter\<close>: the library fetches the logs; \<open>iter_logs\<close> are those that its goroutine still has to
  send into the channel.
\<close>

record filtered =
  fi_iter :: iterator
  fi_unsent :: "eth_log list"

definition FilterEvent :: "(string \<Rightarrow> 's \<Rightarrow> go_error + eth_log list) \<Rightarrow> event_binding \<Rightarrow> 's \<Rightarrow> go_error + filtered" where
  "FilterEvent filter_logs B s = (case filter_logs (eb_Name B) s of
     Inl err \<Rightarrow> Inl err
   | Inr logs \<Rightarrow> Inr \<lparr>fi_iter = \<lparr>it_Event = None, it_logs = [], it_sub = None, it_done = False, it_fail = None\<rparr>,
       fi_unsent = logs\<rparr>)"

text \<open>
  The goroutine sends the logs, waiting while 128 are in the channel, and ends the
  subscription without an error.
\<close>

inductive sends :: "filtered \<Rightarrow> filtered \<Rightarrow> bool" where
  send: "fi_unsent f = log # logs \<Longrightarrow> it_sub (fi_iter f) = None \<Longrightarrow> length (it_logs (fi_iter f)) < 128 \<Longrightarrow>
    sends f \<lparr>fi_iter = (fi_iter f)\<lparr>it_logs := it_logs (fi_iter f) @ [log]\<rparr>, fi_unsent = logs\<rparr>"
| finish: "fi_unsent f = [] \<Longrightarrow> it_sub (fi_iter f) = None \<Longrightarrow>
    sends f \<lparr>fi_iter = (fi_iter f)\<lparr>it_sub := Some None\<rparr>, fi_unsent = []\<rparr>"

inductive_cases sendsE: "sends f g"

text \<open>\<open>for it.Next() { use(it.Event) }\<close>, with the goroutine: the events used and the iterator after it.\<close>

inductive loops :: "unpack_log \<Rightarrow> event_binding \<Rightarrow> filtered \<Rightarrow> event_value list \<Rightarrow> iterator \<Rightarrow> bool"
  for U :: unpack_log and B :: event_binding where
  other: "sends f g \<Longrightarrow> loops U B g evs it \<Longrightarrow> loops U B f evs it"
| again: "Next U B c (fi_iter f) = Some (True, it') \<Longrightarrow> it_Event it' = Some ev \<Longrightarrow>
    loops U B (f\<lparr>fi_iter := it'\<rparr>) evs it \<Longrightarrow> loops U B f (ev # evs) it"
| stop: "Next U B c (fi_iter f) = Some (False, it) \<Longrightarrow> loops U B f [] it"

section \<open>Watchers\<close>

text \<open>
  The goroutine of \<open>Watch\<close> waits for a log, offers the event to the sink, or has returned.
  \<open>wa_logs\<close> are the logs in the channel, \<open>wa_sink\<close> what the sink has received; \<open>wa_seen\<close>, all logs that
  came into the channel, is there for the theorems only.
\<close>

datatype watch_pc = Waiting | Offering event_value | Returned "go_error option"

record watcher =
  wa_pc :: watch_pc
  wa_logs :: "eth_log list"
  wa_sub :: "go_error option option"
  wa_quit :: bool
  wa_sink :: "event_value list"
  wa_unsubscribed :: bool
  wa_seen :: "eth_log list"

text \<open>Returning runs the deferred \<open>sub.Unsubscribe()\<close>.\<close>

definition watch_return :: "go_error option \<Rightarrow> watcher \<Rightarrow> watcher" where
  "watch_return err w = w\<lparr>wa_pc := Returned err, wa_unsubscribed := True\<rparr>"

inductive watch_step :: "unpack_log \<Rightarrow> event_binding \<Rightarrow> watcher \<Rightarrow> watcher \<Rightarrow> bool"
  for U :: unpack_log and B :: event_binding where
  log: "wa_pc w = Waiting \<Longrightarrow> wa_logs w = log # logs \<Longrightarrow> parse_raw U B log = Inr ev \<Longrightarrow>
    watch_step U B w (w\<lparr>wa_pc := Offering ev, wa_logs := logs\<rparr>)"
| bad_log: "wa_pc w = Waiting \<Longrightarrow> wa_logs w = log # logs \<Longrightarrow> parse_raw U B log = Inl err \<Longrightarrow>
    watch_step U B w (watch_return (Some err) (w\<lparr>wa_logs := logs\<rparr>))"
| forward: "wa_pc w = Offering ev \<Longrightarrow> watch_step U B w (w\<lparr>wa_pc := Waiting, wa_sink := wa_sink w @ [ev]\<rparr>)"
| ended: "wa_pc w = Waiting \<or> wa_pc w = Offering ev \<Longrightarrow> wa_sub w = Some err \<Longrightarrow> watch_step U B w (watch_return err w)"
| quit: "wa_pc w = Waiting \<or> wa_pc w = Offering ev \<Longrightarrow> wa_quit w \<Longrightarrow> watch_step U B w (watch_return None w)"
| arrives: "wa_sub w = None \<Longrightarrow> watch_step U B w (w\<lparr>wa_logs := wa_logs w @ [log], wa_seen := wa_seen w @ [log]\<rparr>)"
| ends: "wa_sub w = None \<Longrightarrow> watch_step U B w (w\<lparr>wa_sub := Some err\<rparr>)"
| unsubscribes: "watch_step U B w (w\<lparr>wa_quit := True\<rparr>)"

definition WatchEvent :: "(string \<Rightarrow> 's \<Rightarrow> go_error option) \<Rightarrow> event_binding \<Rightarrow> 's \<Rightarrow> go_error + watcher" where
  "WatchEvent watch_logs B s = (case watch_logs (eb_Name B) s of
     Some err \<Rightarrow> Inl err
   | None \<Rightarrow> Inr \<lparr>wa_pc = Waiting, wa_logs = [], wa_sub = None, wa_quit = False, wa_sink = [],
       wa_unsubscribed = False, wa_seen = []\<rparr>)"

section \<open>The code of the events\<close>

text \<open>
  What the file has for an event: the methods of its iterator, its filter and watcher, the
  goroutine of the watcher, and the parser.
\<close>

record 's event_ops =
  ek_Next :: "bool \<Rightarrow> iterator \<Rightarrow> (bool \<times> iterator) option"
  ek_Error :: "iterator \<Rightarrow> go_error option"
  ek_Close :: "iterator \<Rightarrow> go_error option \<times> iterator"
  ek_Filter :: "(string \<Rightarrow> 's \<Rightarrow> go_error + eth_log list) \<Rightarrow> 's \<Rightarrow> go_error + filtered"
  ek_Watch :: "(string \<Rightarrow> 's \<Rightarrow> go_error option) \<Rightarrow> 's \<Rightarrow> go_error + watcher"
  ek_watching :: "watcher \<Rightarrow> watcher \<Rightarrow> bool"
  ek_Parse :: "eth_log \<Rightarrow> go_error + event_value"

definition event_code :: "unpack_log \<Rightarrow> event_binding \<Rightarrow> 's event_ops" where
  "event_code U B = \<lparr>ek_Next = Next U B, ek_Error = it_Error, ek_Close = it_Close,
     ek_Filter = (\<lambda>filter_logs. FilterEvent filter_logs B), ek_Watch = (\<lambda>watch_logs. WatchEvent watch_logs B),
     ek_watching = watch_step U B, ek_Parse = ParseEvent U B\<rparr>"

definition BatchRollback_code :: "unpack_log \<Rightarrow> 's event_ops" where
  "BatchRollback_code U = event_code U BatchRollback_event"

definition DepositQueued_code :: "unpack_log \<Rightarrow> 's event_ops" where
  "DepositQueued_code U = event_code U DepositQueued_event"

definition DepositSubTreeReady_code :: "unpack_log \<Rightarrow> 's event_ops" where
  "DepositSubTreeReady_code U = event_code U DepositSubTreeReady_event"

definition DepositsFinalised_code :: "unpack_log \<Rightarrow> 's event_ops" where
  "DepositsFinalised_code U = event_code U DepositsFinalised_event"

definition NewBatch_code :: "unpack_log \<Rightarrow> 's event_ops" where
  "NewBatch_code U = event_code U NewBatch_event"

definition NewPubkeyAdded_code :: "unpack_log \<Rightarrow> 's event_ops" where
  "NewPubkeyAdded_code U = event_code U NewPubkeyAdded_event"

definition PubkeyRegistered_code :: "unpack_log \<Rightarrow> 's event_ops" where
  "PubkeyRegistered_code U = event_code U PubkeyRegistered_event"

definition RegisteredToken_code :: "unpack_log \<Rightarrow> 's event_ops" where
  "RegisteredToken_code U = event_code U RegisteredToken_event"

definition RegistrationRequest_code :: "unpack_log \<Rightarrow> 's event_ops" where
  "RegistrationRequest_code U = event_code U RegistrationRequest_event"

definition RollbackFinalisation_code :: "unpack_log \<Rightarrow> 's event_ops" where
  "RollbackFinalisation_code U = event_code U RollbackFinalisation_event"

definition StakeWithdraw_code :: "unpack_log \<Rightarrow> 's event_ops" where
  "StakeWithdraw_code U = event_code U StakeWithdraw_event"

section \<open>What a loop over an iterator yields\<close>

text \<open>The specification: the events of the logs up to the first that cannot be unpacked, and its error.\<close>

fun expected :: "unpack_log \<Rightarrow> event_binding \<Rightarrow> eth_log list \<Rightarrow> event_value list \<times> go_error option" where
  "expected U B [] = ([], None)"
| "expected U B (log # logs) = (case parse_raw U B log of
     Inl err \<Rightarrow> ([], Some err)
   | Inr ev \<Rightarrow> (case expected U B logs of (evs, r) \<Rightarrow> (ev # evs, r)))"

text \<open>
  The iterator has not failed; the subscription ends without an error and only when all logs
  are sent; the end is noted only after it.
\<close>

definition iter_inv :: "filtered \<Rightarrow> bool" where
  "iter_inv f \<longleftrightarrow> it_fail (fi_iter f) = None \<and> it_sub (fi_iter f) \<in> {None, Some None} \<and>
     (it_sub (fi_iter f) = Some None \<longrightarrow> fi_unsent f = []) \<and> (it_done (fi_iter f) \<longrightarrow> it_sub (fi_iter f) = Some None)"

lemma sends_inv:
  "sends f g \<Longrightarrow> iter_inv f \<Longrightarrow> iter_inv g \<and> it_logs (fi_iter g) @ fi_unsent g = it_logs (fi_iter f) @ fi_unsent f"
  by (erule sendsE) (auto simp: iter_inv_def)

text \<open>Reading a log or nothing, from the iterator as it is or after its end was noted.\<close>

lemma Next_reads:
  assumes "iter_inv f" "Next U B c (fi_iter f) = Some r"
  shows "\<exists>it. it_logs it = it_logs (fi_iter f) \<and> it_sub it = it_sub (fi_iter f) \<and> iter_inv (f\<lparr>fi_iter := it\<rparr>) \<and>
    (case it_logs (fi_iter f) of
       [] \<Rightarrow> fi_unsent f = [] \<and> r = (False, it)
     | log # logs \<Rightarrow> r = receive_log U B log (it\<lparr>it_logs := logs\<rparr>))"
proof -
  let ?it = "fi_iter f" and ?fin = "fi_iter f\<lparr>it_done := True, it_fail := None\<rparr>"
  have ended: "Next U B c it = Some (case it_logs it of [] \<Rightarrow> (False, it) | log # logs \<Rightarrow> receive_log U B log (it\<lparr>it_logs := logs\<rparr>))"
    if "it_fail it = None" "it_done it" for it
    using that by (simp add: Next.simps split: list.split)
  consider "it_done ?it" | "\<not> it_done ?it" "it_sub ?it = Some None" "it_logs ?it = [] \<or> c"
    | "\<not> it_done ?it" "it_logs ?it \<noteq> []" "it_sub ?it = None \<or> \<not> c" | "\<not> it_done ?it" "it_logs ?it = []" "it_sub ?it = None"
    using assms(1) by (auto simp: iter_inv_def)
  then show ?thesis
  proof cases
    case 1
    then show ?thesis using assms ended [of ?it]
      by (intro exI [of _ ?it]) (auto simp: iter_inv_def split: list.split)
  next
    case 2
    have "Next U B c ?it = Next U B c ?fin"
      using 2 assms(1) by (subst Next.simps) (auto simp: iter_inv_def split: list.split)
    then show ?thesis using 2 assms ended [of ?fin]
      by (intro exI [of _ ?fin]) (auto simp: iter_inv_def split: list.split)
  next
    case 3
    then show ?thesis using assms
      by (intro exI [of _ ?it]) (auto simp: Next.simps [of U B c ?it] iter_inv_def split: list.split)
  next
    case 4
    then show ?thesis using assms by (simp add: Next.simps iter_inv_def)
  qed
qed

lemma Next_True:
  assumes "iter_inv f" "Next U B c (fi_iter f) = Some (True, it')"
  obtains log logs ev where "it_logs (fi_iter f) = log # logs" "parse_raw U B log = Inr ev" "it_Event it' = Some ev"
    "it_logs it' = logs" "it_sub it' = it_sub (fi_iter f)" "iter_inv (f\<lparr>fi_iter := it'\<rparr>)"
proof -
  obtain it where it: "it_logs it = it_logs (fi_iter f)" "it_sub it = it_sub (fi_iter f)" "iter_inv (f\<lparr>fi_iter := it\<rparr>)"
    "case it_logs (fi_iter f) of [] \<Rightarrow> fi_unsent f = [] \<and> (True, it') = (False, it)
     | log # logs \<Rightarrow> (True, it') = receive_log U B log (it\<lparr>it_logs := logs\<rparr>)"
    using Next_reads [OF assms] by blast
  then obtain log logs where l: "it_logs (fi_iter f) = log # logs" "(True, it') = receive_log U B log (it\<lparr>it_logs := logs\<rparr>)"
    by (cases "it_logs (fi_iter f)") auto
  then obtain ev where "parse_raw U B log = Inr ev" "it' = it\<lparr>it_logs := logs, it_Event := Some ev\<rparr>"
    by (auto simp: receive_log_def split: sum.splits)
  with l(1) it(1-3) that show thesis by (simp add: iter_inv_def)
qed

lemma Next_False:
  assumes "iter_inv f" "Next U B c (fi_iter f) = Some (False, it')"
  shows "it_logs (fi_iter f) = [] \<and> fi_unsent f = [] \<and> it_fail it' = None \<or>
    (\<exists>log logs err. it_logs (fi_iter f) = log # logs \<and> parse_raw U B log = Inl err \<and> it_fail it' = Some err)"
proof -
  obtain it where it: "iter_inv (f\<lparr>fi_iter := it\<rparr>)"
    "case it_logs (fi_iter f) of [] \<Rightarrow> fi_unsent f = [] \<and> (False, it') = (False, it)
     | log # logs \<Rightarrow> (False, it') = receive_log U B log (it\<lparr>it_logs := logs\<rparr>)"
    using Next_reads [OF assms] by blast
  show ?thesis
  proof (cases "it_logs (fi_iter f)")
    case Nil
    with it show ?thesis by (simp add: iter_inv_def)
  next
    case (Cons log logs)
    with it(2) have "(False, it') = receive_log U B log (it\<lparr>it_logs := logs\<rparr>)" by simp
    with Cons show ?thesis by (auto simp: receive_log_def split: sum.splits)
  qed
qed

lemma loops_expected:
  assumes "loops U B f evs it" "iter_inv f"
  shows "(evs, it_Error it) = expected U B (it_logs (fi_iter f) @ fi_unsent f)"
  using assms
proof induction
  case (other f g evs it)
  with sends_inv [OF other.hyps(1)] show ?case by simp
next
  case (again c f it' ev evs it)
  from again.prems again.hyps(1) obtain log logs ev' where l: "it_logs (fi_iter f) = log # logs"
    "parse_raw U B log = Inr ev'" "it_Event it' = Some ev'" "it_logs it' = logs" "iter_inv (f\<lparr>fi_iter := it'\<rparr>)"
    by (rule Next_True)
  have "(evs, it_Error it) = expected U B (logs @ fi_unsent f)" using again.IH [OF l(5)] l(4) by simp
  then show ?case using l(1-3) again.hyps(2) by (simp flip: \<open>(evs, it_Error it) = _\<close>)
next
  case (stop c f it)
  from Next_False [OF stop.prems stop.hyps] show ?case by (auto simp: it_Error_def)
qed

text \<open>From every state the loop can come to its end.\<close>

definition left :: "filtered \<Rightarrow> nat" where
  "left f = 2 * length (fi_unsent f) + length (it_logs (fi_iter f)) + (if it_sub (fi_iter f) = None then 1 else 0)"

lemma sends_possible:
  assumes "it_logs (fi_iter f) = []" "it_sub (fi_iter f) = None"
  shows "\<exists>g. sends f g \<and> left g < left f"
proof (cases "fi_unsent f")
  case Nil
  have "left \<lparr>fi_iter = (fi_iter f)\<lparr>it_sub := Some None\<rparr>, fi_unsent = []\<rparr> < left f"
    using assms Nil by (simp add: left_def)
  with sends.finish [OF Nil assms(2)] show ?thesis by blast
next
  case (Cons log logs)
  have "left \<lparr>fi_iter = (fi_iter f)\<lparr>it_logs := it_logs (fi_iter f) @ [log]\<rparr>, fi_unsent = logs\<rparr> < left f"
    using assms Cons by (simp add: left_def)
  moreover have "length (it_logs (fi_iter f)) < 128" using assms by simp
  ultimately show ?thesis using sends.send [OF Cons assms(2)] by blast
qed

lemma loops_exist: "iter_inv f \<Longrightarrow> \<exists>evs it. loops U B f evs it"
proof (induction "left f" arbitrary: f rule: less_induct)
  case less
  show ?case
  proof (cases "it_logs (fi_iter f) = [] \<and> it_sub (fi_iter f) = None")
    case True
    then obtain g where g: "sends f g" "left g < left f" using sends_possible by blast
    with less.hyps [OF g(2)] sends_inv [OF g(1) less.prems] show ?thesis by (blast intro: loops.other)
  next
    case False
    then have "Next U B False (fi_iter f) \<noteq> None"
      using less.prems by (auto simp: Next.simps iter_inv_def split: list.split)
    then obtain b it' where n: "Next U B False (fi_iter f) = Some (b, it')" by (metis not_None_eq surj_pair)
    show ?thesis
    proof (cases b)
      case False
      with n have "Next U B False (fi_iter f) = Some (False, it')" by simp
      then show ?thesis by (blast intro: loops.stop)
    next
      case True
      with n have n: "Next U B False (fi_iter f) = Some (True, it')" by simp
      from Next_True [OF less.prems n] obtain log logs ev where l: "it_logs (fi_iter f) = log # logs"
        "it_Event it' = Some ev" "it_logs it' = logs" "it_sub it' = it_sub (fi_iter f)" "iter_inv (f\<lparr>fi_iter := it'\<rparr>)" by blast
      then have "left (f\<lparr>fi_iter := it'\<rparr>) < left f" by (simp add: left_def)
      from less.hyps [OF this l(5)] n l(2) show ?thesis by (blast intro: loops.again)
    qed
  qed
qed

section \<open>What a watcher forwards\<close>

text \<open>
  The sink has the events of the first logs that arrived; the event on offer is that of the
  next one, and the channel has those after it.  Returning drops them.
\<close>

definition offered :: "watch_pc \<Rightarrow> event_value list" where
  "offered pc = (case pc of Offering ev \<Rightarrow> [ev] | _ \<Rightarrow> [])"

definition returned :: "watcher \<Rightarrow> bool" where
  "returned w \<longleftrightarrow> (case wa_pc w of Returned err \<Rightarrow> True | _ \<Rightarrow> False)"

definition watch_inv :: "unpack_log \<Rightarrow> event_binding \<Rightarrow> watcher \<Rightarrow> bool" where
  "watch_inv U B w \<longleftrightarrow> (\<exists>taken rest. wa_seen w = taken @ rest \<and>
     map (parse_raw U B) taken = map Inr (wa_sink w @ offered (wa_pc w)) \<and> (\<not> returned w \<longrightarrow> wa_logs w = rest)) \<and>
     (wa_unsubscribed w \<longleftrightarrow> returned w)"

lemma watch_return_inv:
  assumes "watch_inv U B w" "\<not> returned w"
  shows "watch_inv U B (watch_return err w)"
proof -
  obtain taken rest where w: "wa_seen w = taken @ rest" "map (parse_raw U B) taken = map Inr (wa_sink w @ offered (wa_pc w))"
    using assms(1) unfolding watch_inv_def by blast
  have "map (parse_raw U B) (take (length (wa_sink w)) taken) = map Inr (wa_sink w)"
    unfolding take_map [symmetric] w(2) by simp
  moreover have "wa_seen w = take (length (wa_sink w)) taken @ drop (length (wa_sink w)) taken @ rest" by (simp add: w(1))
  ultimately show ?thesis
    unfolding watch_inv_def watch_return_def returned_def
    by (intro conjI exI [of _ "take (length (wa_sink w)) taken"] exI [of _ "drop (length (wa_sink w)) taken @ rest"])
      (simp_all add: offered_def)
qed

lemma watch_step_inv: "watch_step U B w w' \<Longrightarrow> watch_inv U B w \<Longrightarrow> watch_inv U B w'"
proof (induction rule: watch_step.induct)
  case (log w log logs ev)
  then obtain taken where t: "wa_seen w = taken @ log # logs" "map (parse_raw U B) taken = map Inr (wa_sink w)" "\<not> wa_unsubscribed w"
    by (auto simp: watch_inv_def offered_def returned_def)
  show ?case
    unfolding watch_inv_def using t log.hyps
    by (auto simp: offered_def returned_def intro!: exI [of _ "taken @ [log]"])
next
  case (bad_log w log logs err)
  have "watch_inv U B (watch_return (Some err) w)"
    by (rule watch_return_inv) (use bad_log in \<open>simp_all add: returned_def\<close>)
  then show ?case by (simp add: watch_inv_def watch_return_def returned_def offered_def)
next
  case (forward w ev)
  then show ?case by (auto simp: watch_inv_def offered_def returned_def)
next
  case (ended w ev err)
  then show ?case by (intro watch_return_inv) (auto simp: returned_def)
next
  case (quit w ev)
  then show ?case by (intro watch_return_inv) (auto simp: returned_def)
next
  case (arrives w log)
  then obtain taken rest where "wa_seen w = taken @ rest" "map (parse_raw U B) taken = map Inr (wa_sink w @ offered (wa_pc w))"
    "\<not> returned w \<longrightarrow> wa_logs w = rest" "wa_unsubscribed w \<longleftrightarrow> returned w" by (auto simp: watch_inv_def)
  then show ?case
    unfolding watch_inv_def
    by (intro conjI exI [of _ taken] exI [of _ "rest @ [log]"]) (simp_all add: returned_def)
next
  case (ends w err)
  then show ?case by (simp add: watch_inv_def returned_def)
next
  case (unsubscribes w)
  then show ?case by (simp add: watch_inv_def returned_def)
qed

theorem watch_in_order:
  assumes "WatchEvent watch_logs B s = Inr w0" "(watch_step U B)\<^sup>*\<^sup>* w0 w"
  shows "\<exists>n. map (parse_raw U B) (take n (wa_seen w)) = map Inr (wa_sink w) \<and>
    (wa_unsubscribed w \<longleftrightarrow> (\<exists>err. wa_pc w = Returned err))"
proof -
  have "watch_inv U B w0"
    using assms(1) by (auto simp: WatchEvent_def watch_inv_def offered_def returned_def split: option.splits)
  with assms(2) have inv: "watch_inv U B w"
    by (induction rule: rtranclp_induct) (auto intro: watch_step_inv)
  then obtain taken rest where w: "wa_seen w = taken @ rest" "map (parse_raw U B) taken = map Inr (wa_sink w @ offered (wa_pc w))"
    unfolding watch_inv_def by blast
  then have "length taken = length (wa_sink w) + length (offered (wa_pc w))" by (metis length_append length_map)
  then have "take (length (wa_sink w)) (wa_seen w) = take (length (wa_sink w)) taken" by (simp add: w(1))
  moreover have "map (parse_raw U B) (take (length (wa_sink w)) taken) = map Inr (wa_sink w)"
    unfolding take_map [symmetric] w(2) by simp
  moreover have "wa_unsubscribed w \<longleftrightarrow> (\<exists>err. wa_pc w = Returned err)"
    using inv by (cases "wa_pc w") (auto simp: watch_inv_def returned_def)
  ultimately show ?thesis by metis
qed

text \<open>
  The structs that the binding declares for the events are those that the description of
  the logger contract asks for: a field per input under its name in camel case, of the Go
  type for its type, and the raw log.
\<close>

lemma event_structs_agree:
  "list_all (\<lambda>B. struct_agrees LoggerABI (eb_Name B) (eb_Struct B)) logger_events \<and>
   map eb_Name logger_events = map ea_Name (ca_Events LoggerABI)"
  by (auto simp: fun_eq_iff logger_events_def event_bindings struct_agrees_def LoggerABI_def camel_def event_structs
    LoggerBatchRollback_def LoggerPubkeyRegistered_def LoggerRegistrationRequest_def LoggerRollbackFinalisation_def
    LoggerStakeWithdraw_def)

section \<open>Properties\<close>

text \<open>
  C29. A loop over the iterator of a filter comes to its end, and however the goroutine that
  sends the logs is scheduled and whatever \<open>select\<close> takes, it has then used the event of every
  log that was fetched, once and in order, each with its raw log, up to the first that
  cannot be unpacked; \<open>Error\<close> is the error of that one, or none.
\<close>

theorem iterator_yields_all:
  assumes "filter_logs (eb_Name B) s = Inr logs"
  shows "\<exists>f. FilterEvent filter_logs B s = Inr f \<and> (\<exists>evs it. loops U B f evs it) \<and>
    (\<forall>evs it. loops U B f evs it \<longrightarrow> (evs, it_Error it) = expected U B logs)"
proof -
  let ?f = "\<lparr>fi_iter = \<lparr>it_Event = None, it_logs = [], it_sub = None, it_done = False, it_fail = None\<rparr>, fi_unsent = logs\<rparr>"
  have "FilterEvent filter_logs B s = Inr ?f" by (simp add: FilterEvent_def assms)
  moreover have inv: "iter_inv ?f" by (simp add: iter_inv_def)
  ultimately show ?thesis using loops_expected [OF _ inv, of U B] loops_exist [OF inv, of U B] by auto
qed

theorem iterator_yields_all_witness:
  "\<exists>f. FilterEvent (\<lambda>name s. Inr [ex_log 2 [1, 5], ex_log 2 [2, 6]]) DepositQueued_event () = Inr f \<and>
     (\<exists>evs it. loops (\<lambda>g n l. Inr g) DepositQueued_event f evs it \<and> it_Error it = None \<and>
       map va_Raw evs = [Some (ex_log 2 [1, 5]), Some (ex_log 2 [2, 6])])"
proof -
  have "(evs, r) = expected (\<lambda>g n l. Inr g) DepositQueued_event [ex_log 2 [1, 5], ex_log 2 [2, 6]] \<Longrightarrow>
      r = None \<and> map va_Raw evs = [Some (ex_log 2 [1, 5]), Some (ex_log 2 [2, 6])]" for evs r
    by (simp add: parse_raw_def)
  then show ?thesis
    using iterator_yields_all [of "\<lambda>name s. Inr [ex_log 2 [1, 5], ex_log 2 [2, 6]]" DepositQueued_event "()"
        "[ex_log 2 [1, 5], ex_log 2 [2, 6]]" "\<lambda>g n l. Inr g"] by blast
qed

end
